(* ===== verification/Prelude.thy ===== *)
theory Prelude
  imports Main "HOL-Library.List_Lexorder" "HOL-Library.Char_ord" "HOL-Library.Sublist"
begin

text \<open>
  Shared vocabulary of the development: the error values of the JavaScript
  sources, operations as state passing functions, the SQLite tables of the
  journal as lists of rows in insertion (rowid) order, and the generic facts on
  lists that the components use.

  Strings.  A JavaScript string is modelled by its UTF-8 byte sequence (a HOL
  \<^typ>\<open>string\<close>), so \<open>Buffer.byteLength\<close> is \<^const>\<open>length\<close>.  The order on
  strings (JavaScript \<open><\<close>, SQLite BINARY collation) is the lexicographic order
  of the bytes; on the ASCII identifiers that the sources compare the three
  agree.  Timestamps and generations are \<^typ>\<open>int\<close> (safe integers).
\<close>

section \<open>Errors and operations\<close>

text \<open>
  \<open>coded(code, message)\<close> of \<open>local-messaging-errors.mjs\<close> is \<open>Coded code\<close> (the
  human readable message is not modelled); \<open>TypeErr\<close> stands for a thrown
  \<open>TypeError\<close> and \<open>AbortErr\<close> for an error whose name is \<open>AbortError\<close>.
\<close>

datatype js_error = Coded string | TypeErr | AbortErr | OtherErr string

type_synonym 'a result = "js_error + 'a"
type_synonym ('s, 'a) op = "'s \<Rightarrow> (js_error + 'a) \<times> 's"

text \<open>\<open>BEGIN IMMEDIATE; body; COMMIT\<close>, with \<open>ROLLBACK\<close> when the body throws.\<close>

definition transaction :: "('s, 'a) op \<Rightarrow> ('s, 'a) op" where
  "transaction body s = (case body s of
      (Inl e, _) \<Rightarrow> (Inl e, s)
    | (Inr x, s') \<Rightarrow> (Inr x, s'))"

lemma transaction_simps [simp]:
  "body s = (Inl e, s') \<Longrightarrow> transaction body s = (Inl e, s)"
  "body s = (Inr x, s') \<Longrightarrow> transaction body s = (Inr x, s')"
  by (simp_all add: transaction_def)

lemma transaction_error_state: "fst (transaction body s) = Inl e \<Longrightarrow> snd (transaction body s) = s"
  by (auto simp: transaction_def split: prod.splits sum.splits)

text \<open>
  Truthiness of an optional string field: \<open>undefined\<close>, \<open>null\<close> and the empty
  string are falsy.
\<close>

definition truthy :: "string option \<Rightarrow> bool" where
  "truthy x = (case x of None \<Rightarrow> False | Some t \<Rightarrow> t \<noteq> [])"

lemma truthy_simps [simp]: "\<not> truthy None" "truthy (Some t) \<longleftrightarrow> t \<noteq> []"
  by (simp_all add: truthy_def)

text \<open>\<open>a ?? b\<close> on optional values.\<close>

definition coalesce :: "'a option \<Rightarrow> 'a option \<Rightarrow> 'a option" where
  "coalesce a b = (case a of None \<Rightarrow> b | Some x \<Rightarrow> Some x)"

lemma coalesce_simps [simp]: "coalesce None b = b" "coalesce (Some x) b = Some x"
  by (simp_all add: coalesce_def)

definition opt_or :: "'a option \<Rightarrow> 'a \<Rightarrow> 'a" where
  "opt_or a d = (case a of None \<Rightarrow> d | Some x \<Rightarrow> x)"

lemma opt_or_simps [simp]: "opt_or None d = d" "opt_or (Some x) d = x"
  by (simp_all add: opt_or_def)

section \<open>Character classes of the identifier patterns\<close>

definition in_class :: "string \<Rightarrow> char \<Rightarrow> bool" where
  "in_class cs c = (c \<in> set cs)"

abbreviation "hex_chars \<equiv> ''0123456789abcdef''"
abbreviation "ident_chars \<equiv>
  ''ABCDEFGHIJKLMNOPQRSTUVWXYZabcdefghijklmnopqrstuvwxyz0123456789._:-''"

text \<open>\<open>/^[class]{lo,hi}$/\<close>\<close>

definition matches_class :: "string \<Rightarrow> nat \<Rightarrow> nat \<Rightarrow> string \<Rightarrow> bool" where
  "matches_class cs lo hi x = (lo \<le> length x \<and> length x \<le> hi \<and> list_all (in_class cs) x)"

section \<open>Tables\<close>

text \<open>
  A table is the list of its rows in insertion order.  \<open>sel\<close> is
  \<open>SELECT ... WHERE key = ?\<close> followed by \<open>.get()\<close>, \<open>upd_where\<close> is
  \<open>UPDATE ... WHERE\<close>, \<open>del_where\<close> is \<open>DELETE ... WHERE\<close>, \<open>changes\<close> the number of
  rows a statement touches.
\<close>

definition sel :: "('r \<Rightarrow> 'k) \<Rightarrow> 'k \<Rightarrow> 'r list \<Rightarrow> 'r option" where
  "sel key k rows = find (\<lambda>r. key r = k) rows"

definition upd_where :: "('r \<Rightarrow> bool) \<Rightarrow> ('r \<Rightarrow> 'r) \<Rightarrow> 'r list \<Rightarrow> 'r list" where
  "upd_where P f rows = map (\<lambda>r. if P r then f r else r) rows"

definition del_where :: "('r \<Rightarrow> bool) \<Rightarrow> 'r list \<Rightarrow> 'r list" where
  "del_where P rows = filter (\<lambda>r. \<not> P r) rows"

definition changes :: "('r \<Rightarrow> bool) \<Rightarrow> 'r list \<Rightarrow> nat" where
  "changes P rows = length (filter P rows)"

definition unique_key :: "('r \<Rightarrow> 'k) \<Rightarrow> 'r list \<Rightarrow> bool" where
  "unique_key key rows = distinct (map key rows)"

named_theorems table_simps

lemma sel_Nil [simp, table_simps]: "sel key k [] = None"
  by (simp add: sel_def)

lemma sel_Cons [table_simps]: "sel key k (r # rows) = (if key r = k then Some r else sel key k rows)"
  by (simp add: sel_def)

lemma sel_Some_iff_mem:
  assumes "unique_key key rows"
  shows "sel key k rows = Some r \<longleftrightarrow> r \<in> set rows \<and> key r = k"
  using assms by (induction rows) (auto simp: sel_def unique_key_def)

lemma sel_SomeD: "sel key k rows = Some r \<Longrightarrow> r \<in> set rows \<and> key r = k"
  by (auto simp: sel_def find_Some_iff)

lemma sel_None_iff: "sel key k rows = None \<longleftrightarrow> k \<notin> key ` set rows"
  by (auto simp: sel_def find_None_iff)

lemma sel_append: "sel key k (rows @ rows') = (case sel key k rows of None \<Rightarrow> sel key k rows' | Some r \<Rightarrow> Some r)"
  by (induction rows) (auto simp: sel_Cons)

lemma sel_snoc [table_simps]:
  "sel key k (rows @ [r]) = (case sel key k rows of None \<Rightarrow> if key r = k then Some r else None | Some x \<Rightarrow> Some x)"
  by (auto simp: sel_append sel_Cons split: option.splits)

lemma sel_upd_where [table_simps]:
  assumes "\<And>r. key (f r) = key r"
  shows "sel key k (upd_where P f rows) = map_option (\<lambda>r. if P r then f r else r) (sel key k rows)"
  using assms by (induction rows) (auto simp: sel_Cons upd_where_def)

lemma sel_del_where:
  assumes "unique_key key rows"
  shows "sel key k (del_where P rows) = (case sel key k rows of None \<Rightarrow> None | Some r \<Rightarrow> if P r then None else Some r)"
  using assms
proof (induction rows)
  case Nil
  then show ?case by (simp add: del_where_def)
next
  case (Cons a rows)
  then have IH: "sel key k (del_where P rows) = (case sel key k rows of None \<Rightarrow> None | Some r \<Rightarrow> if P r then None else Some r)"
    by (simp add: unique_key_def)
  have "key a = k \<Longrightarrow> sel key k rows = None"
    using Cons.prems by (auto simp: unique_key_def sel_None_iff)
  with IH show ?case by (auto simp: sel_Cons del_where_def)
qed

lemma set_upd_where: "set (upd_where P f rows) = (\<lambda>r. if P r then f r else r) ` set rows"
  by (simp add: upd_where_def)

lemma set_del_where [simp]: "set (del_where P rows) = {r \<in> set rows. \<not> P r}"
  by (simp add: del_where_def)

lemma upd_where_Nil [simp]: "upd_where P f [] = []"
  by (simp add: upd_where_def)

lemma length_upd_where [simp]: "length (upd_where P f rows) = length rows"
  by (simp add: upd_where_def)

lemma upd_where_none: "(\<And>r. r \<in> set rows \<Longrightarrow> \<not> P r) \<Longrightarrow> upd_where P f rows = rows"
  by (simp add: upd_where_def map_idI)

lemma map_key_upd_where: "(\<And>r. key (f r) = key r) \<Longrightarrow> map key (upd_where P f rows) = map key rows"
  by (simp add: upd_where_def)

lemma unique_key_Nil [simp, intro]: "unique_key key []"
  by (simp add: unique_key_def)

lemma unique_key_upd_where [intro]:
  "unique_key key rows \<Longrightarrow> (\<And>r. key (f r) = key r) \<Longrightarrow> unique_key key (upd_where P f rows)"
  by (simp add: unique_key_def map_key_upd_where)

lemma unique_key_del_where [intro]: "unique_key key rows \<Longrightarrow> unique_key key (del_where P rows)"
  by (simp add: unique_key_def del_where_def distinct_map_filter)

lemma unique_key_snoc [intro]:
  "unique_key key rows \<Longrightarrow> sel key (key r) rows = None \<Longrightarrow> unique_key key (rows @ [r])"
  by (auto simp: unique_key_def sel_None_iff)

lemma changes_zero_iff: "changes P rows = 0 \<longleftrightarrow> (\<forall>r \<in> set rows. \<not> P r)"
  by (simp add: changes_def filter_empty_conv)

lemma changes_key_le_1:
  assumes "unique_key key rows"
  shows "changes (\<lambda>r. key r = k \<and> Q r) rows \<le> 1"
  using assms
proof (induction rows)
  case Nil
  then show ?case by (simp add: changes_def)
next
  case (Cons a rows)
  then have IH: "changes (\<lambda>r. key r = k \<and> Q r) rows \<le> 1"
    by (simp add: unique_key_def)
  have "key a = k \<Longrightarrow> changes (\<lambda>r. key r = k \<and> Q r) rows = 0"
    using Cons.prems by (auto simp: unique_key_def changes_zero_iff image_iff)
  with IH show ?case by (auto simp: changes_def)
qed

end
