(* ===== verification/Concurrency_Gate.thy ===== *)
theory Concurrency_Gate
  imports Prelude
begin

text \<open>
  \<open>packages/agent-worker/src/concurrency-gate.mjs\<close>: the counting semaphore that
  bounds concurrent reasoning (\<open>createConcurrencyGate\<close>) and its two level
  variant (\<open>createProfiledReasonerGate\<close>), which admits a profile before it asks
  for global capacity.

  Every call of \<open>run\<close> is a task (a number); a promise that settles is an
  \<open>outcome\<close> appended to the log \<open>settled\<close>.  Abort signals are numbered, and
  \<open>aborted\<close> lists those that fired.  \<open>running\<close> is the list of tasks whose
  \<open>acquire\<close> was resolved and whose \<open>finally\<close> block has not run yet.
\<close>

section \<open>The gate\<close>

record waiter =
  w_task :: nat
  w_signal :: "nat option"

datatype outcome = Admitted nat | Rejected nat

record gate =
  g_limit :: nat
  g_active :: nat
  g_waiting :: "waiter list"
  g_aborted :: "nat list"
  g_running :: "nat list"
  g_settled :: "outcome list"

definition createConcurrencyGate :: "int \<Rightarrow> gate result" where
  "createConcurrencyGate limit = (if limit < 1 then Inl TypeErr
     else Inr \<lparr>g_limit = nat limit, g_active = 0, g_waiting = [], g_aborted = [],
               g_running = [], g_settled = []\<rparr>)"

definition signal_aborted :: "nat list \<Rightarrow> nat option \<Rightarrow> bool" where
  "signal_aborted ab sig = (case sig of None \<Rightarrow> False | Some n \<Rightarrow> n \<in> set ab)"

text \<open>The \<open>while\<close> loop of \<open>admitNext\<close>: it consumes the head of the queue in every turn.\<close>

fun admit_loop :: "nat \<Rightarrow> nat list \<Rightarrow> nat \<Rightarrow> waiter list \<Rightarrow> nat list \<Rightarrow> outcome list
    \<Rightarrow> nat \<times> waiter list \<times> nat list \<times> outcome list" where
  "admit_loop limit ab active [] running out = (active, [], running, out)"
| "admit_loop limit ab active (w # ws) running out =
    (if active < limit then
       if signal_aborted ab (w_signal w)
       then admit_loop limit ab active ws running (out @ [Rejected (w_task w)])
       else admit_loop limit ab (active + 1) ws (running @ [w_task w]) (out @ [Admitted (w_task w)])
     else (active, w # ws, running, out))"

definition admitNext :: "gate \<Rightarrow> gate" where
  "admitNext g = (case admit_loop (g_limit g) (g_aborted g) (g_active g) (g_waiting g) (g_running g) (g_settled g) of
     (a, ws, r, out) \<Rightarrow> g\<lparr>g_active := a, g_waiting := ws, g_running := r, g_settled := out\<rparr>)"

definition acquire :: "nat \<Rightarrow> nat option \<Rightarrow> gate \<Rightarrow> gate" where
  "acquire t sig g = (if signal_aborted (g_aborted g) sig
     then g\<lparr>g_settled := g_settled g @ [Rejected t]\<rparr>
     else admitNext (g\<lparr>g_waiting := g_waiting g @ [\<lparr>w_task = t, w_signal = sig\<rparr>]\<rparr>))"

text \<open>The abort listener of one queued entry.\<close>

definition onAbort :: "nat \<Rightarrow> gate \<Rightarrow> gate" where
  "onAbort t g = (if t \<in> w_task ` set (g_waiting g)
     then g\<lparr>g_waiting := filter (\<lambda>w. w_task w \<noteq> t) (g_waiting g),
            g_settled := g_settled g @ [Rejected t]\<rparr>
     else g)"

definition abort_signal :: "nat \<Rightarrow> gate \<Rightarrow> gate" where
  "abort_signal n g = g\<lparr>g_aborted := n # g_aborted g\<rparr>"

text \<open>The \<open>finally\<close> block of \<open>run\<close>.\<close>

definition release :: "nat \<Rightarrow> gate \<Rightarrow> gate" where
  "release t g = admitNext (g\<lparr>g_active := g_active g - 1, g_running := remove1 t (g_running g)\<rparr>)"

section \<open>Runs of the gate\<close>

definition settled_tasks :: "outcome list \<Rightarrow> nat set" where
  "settled_tasks out = {t. Admitted t \<in> set out \<or> Rejected t \<in> set out}"

lemma settled_tasks_simps [simp]:
  "settled_tasks [] = {}"
  "settled_tasks (out @ [Rejected t]) = insert t (settled_tasks out)"
  "settled_tasks (out @ [Admitted t]) = insert t (settled_tasks out)"
  by (auto simp: settled_tasks_def)

datatype gate_event = Acquire nat "nat option" | AbortSignal nat | OnAbort nat | Release nat

text \<open>
  An event is possible when a caller can cause it: a task is numbered afresh, an
  abort listener fires only for a signal that fired, and only an admitted task
  reaches its \<open>finally\<close> block.
\<close>

definition gate_tasks :: "gate \<Rightarrow> nat set" where
  "gate_tasks g = w_task ` set (g_waiting g) \<union> set (g_running g) \<union>
     settled_tasks (g_settled g)"

inductive gate_step :: "gate \<Rightarrow> gate_event \<Rightarrow> gate \<Rightarrow> bool" where
  step_acquire: "t \<notin> gate_tasks g \<Longrightarrow> gate_step g (Acquire t sig) (acquire t sig g)"
| step_abort_signal: "gate_step g (AbortSignal n) (abort_signal n g)"
| step_on_abort: "w \<in> set (g_waiting g) \<Longrightarrow> w_task w = t \<Longrightarrow> signal_aborted (g_aborted g) (w_signal w) \<Longrightarrow>
     gate_step g (OnAbort t) (onAbort t g)"
| step_release: "t \<in> set (g_running g) \<Longrightarrow> gate_step g (Release t) (release t g)"

inductive_cases gate_stepE: "gate_step g e g'"

inductive gate_run :: "gate \<Rightarrow> gate_event list \<Rightarrow> gate \<Rightarrow> bool" where
  run_start: "gate_run g [] g"
| run_step: "gate_run g es g' \<Longrightarrow> gate_step g' e g'' \<Longrightarrow> gate_run g (es @ [e]) g''"

text \<open>
  The invariant: the counter counts the running tasks, never passes the limit,
  tasks are in at most one place, and no capacity idles while somebody waits.
\<close>

definition gate_inv :: "gate \<Rightarrow> bool" where
  "gate_inv g \<longleftrightarrow> g_active g = length (g_running g) \<and> g_active g \<le> g_limit g \<and>
     distinct (map w_task (g_waiting g)) \<and> distinct (g_running g) \<and>
     w_task ` set (g_waiting g) \<inter> set (g_running g) = {} \<and>
     w_task ` set (g_waiting g) \<inter> settled_tasks (g_settled g) = {} \<and>
     (g_waiting g \<noteq> [] \<longrightarrow> g_active g = g_limit g)"

lemma admit_loop_active:
  "admit_loop limit ab a ws r out = (a', ws', r', out') \<Longrightarrow> a = length r \<Longrightarrow> a \<le> limit \<Longrightarrow>
   a' = length r' \<and> a' \<le> limit \<and> (ws' \<noteq> [] \<longrightarrow> a' = limit)"
  by (induction limit ab a ws r out rule: admit_loop.induct) (auto split: if_splits)

lemma admit_loop_places:
  "admit_loop limit ab a ws r out = (a', ws', r', out') \<Longrightarrow>
   \<exists>pre. ws = pre @ ws' \<and> set r' \<subseteq> set r \<union> w_task ` set pre \<and> set r \<subseteq> set r' \<and>
     (distinct (map w_task ws) \<longrightarrow> distinct r \<longrightarrow> w_task ` set ws \<inter> set r = {} \<longrightarrow> distinct r') \<and>
     settled_tasks out' =
       settled_tasks out \<union> w_task ` set pre"
proof (induction limit ab a ws r out rule: admit_loop.induct)
  case (1 limit ab active running out)
  then show ?case by auto
next
  case (2 limit ab active w ws running out)
  show ?case
  proof (cases "active < limit")
    case False
    with 2(3) show ?thesis by auto
  next
    case True
    show ?thesis
    proof (cases "signal_aborted ab (w_signal w)")
      case ab: True
      with True 2(3) have "admit_loop limit ab active ws running (out @ [Rejected (w_task w)]) = (a', ws', r', out')"
        by simp
      from 2(1)[OF True ab this] obtain pre where pre:
        "ws = pre @ ws'" "set r' \<subseteq> set running \<union> w_task ` set pre" "set running \<subseteq> set r'"
        "distinct (map w_task ws) \<longrightarrow> distinct running \<longrightarrow> w_task ` set ws \<inter> set running = {} \<longrightarrow> distinct r'"
        "settled_tasks out' =
          settled_tasks (out @ [Rejected (w_task w)]) \<union> w_task ` set pre"
        by blast
      then show ?thesis by (intro exI [of _ "w # pre"]) auto
    next
      case nab: False
      with True 2(3) have "admit_loop limit ab (active + 1) ws (running @ [w_task w]) (out @ [Admitted (w_task w)]) = (a', ws', r', out')"
        by simp
      from 2(2)[OF True nab this] obtain pre where pre:
        "ws = pre @ ws'" "set r' \<subseteq> set (running @ [w_task w]) \<union> w_task ` set pre" "set (running @ [w_task w]) \<subseteq> set r'"
        "distinct (map w_task ws) \<longrightarrow> distinct (running @ [w_task w]) \<longrightarrow> w_task ` set ws \<inter> set (running @ [w_task w]) = {} \<longrightarrow> distinct r'"
        "settled_tasks out' =
          settled_tasks (out @ [Admitted (w_task w)]) \<union> w_task ` set pre"
        by blast
      then show ?thesis by (intro exI [of _ "w # pre"]) auto
    qed
  qed
qed

definition gate_pre :: "gate \<Rightarrow> bool" where
  "gate_pre g \<longleftrightarrow> g_active g = length (g_running g) \<and> g_active g \<le> g_limit g \<and>
     distinct (map w_task (g_waiting g)) \<and> distinct (g_running g) \<and>
     w_task ` set (g_waiting g) \<inter> set (g_running g) = {} \<and>
     w_task ` set (g_waiting g) \<inter> settled_tasks (g_settled g) = {}"

lemma admitNext_inv:
  assumes "gate_pre g"
  shows "gate_inv (admitNext g)"
proof -
  obtain a ws r out where l:
    "admit_loop (g_limit g) (g_aborted g) (g_active g) (g_waiting g) (g_running g) (g_settled g) = (a, ws, r, out)"
    by (metis prod_cases4)
  from admit_loop_active [OF l] assms
  have act: "a = length r" "a \<le> g_limit g" "ws \<noteq> [] \<longrightarrow> a = g_limit g"
    by (auto simp: gate_pre_def)
  from admit_loop_places [OF l] obtain pre where pre: "g_waiting g = pre @ ws"
    "set r \<subseteq> set (g_running g) \<union> w_task ` set pre"
    "distinct r" "settled_tasks out =
       settled_tasks (g_settled g) \<union> w_task ` set pre"
    using assms by (auto simp: gate_pre_def)
  have "w_task ` set ws \<inter> w_task ` set pre = {}" "distinct (map w_task ws)"
    using assms pre(1) by (auto simp: gate_pre_def)
  moreover have "w_task ` set ws \<inter> set (g_running g) = {}" "w_task ` set ws \<inter> settled_tasks (g_settled g) = {}"
    using pre(1) assms by (auto simp: gate_pre_def)
  ultimately have disj: "w_task ` set ws \<inter> set r = {}" "w_task ` set ws \<inter> settled_tasks out = {}"
    using pre(2) unfolding pre(4) by blast+
  have eq: "admitNext g = g\<lparr>g_active := a, g_waiting := ws, g_running := r, g_settled := out\<rparr>"
    by (simp add: admitNext_def l)
  show ?thesis
    unfolding gate_inv_def eq using disj act pre(3) \<open>distinct (map w_task ws)\<close> by auto
qed

lemma acquire_inv:
  assumes "gate_inv g" "t \<notin> gate_tasks g"
  shows "gate_inv (acquire t sig g)"
proof (cases "signal_aborted (g_aborted g) sig")
  case True
  with assms show ?thesis by (auto simp: gate_inv_def acquire_def gate_tasks_def)
next
  case False
  have "gate_pre (g\<lparr>g_waiting := g_waiting g @ [\<lparr>w_task = t, w_signal = sig\<rparr>]\<rparr>)"
    using assms by (auto simp: gate_pre_def gate_inv_def gate_tasks_def)
  with False show ?thesis by (simp add: acquire_def admitNext_inv)
qed

lemma onAbort_inv: "gate_inv g \<Longrightarrow> gate_inv (onAbort t g)"
  by (auto simp: gate_inv_def onAbort_def distinct_map_filter)

lemma release_inv:
  assumes "gate_inv g" "t \<in> set (g_running g)"
  shows "gate_inv (release t g)"
proof -
  have "gate_pre (g\<lparr>g_active := g_active g - 1, g_running := remove1 t (g_running g)\<rparr>)"
    using assms by (auto simp: gate_pre_def gate_inv_def length_remove1 dest: notin_set_remove1)
  then show ?thesis by (simp add: release_def admitNext_inv)
qed

lemma gate_step_inv: "gate_step g e g' \<Longrightarrow> gate_inv g \<Longrightarrow> gate_inv g'"
proof (induction rule: gate_step.induct)
  case (step_abort_signal g n)
  then show ?case by (auto simp: gate_inv_def abort_signal_def)
qed (simp_all add: acquire_inv onAbort_inv release_inv)

lemma gate_run_inv: "gate_run g es g' \<Longrightarrow> gate_inv g \<Longrightarrow> gate_inv g'"
  by (induction rule: gate_run.induct) (auto intro: gate_step_inv)

lemma create_inv: "createConcurrencyGate limit = Inr g \<Longrightarrow> gate_inv g"
  by (auto simp: createConcurrencyGate_def gate_inv_def split: if_splits)

lemma admitNext_limit [simp]: "g_limit (admitNext g) = g_limit g" "g_aborted (admitNext g) = g_aborted g"
  by (simp_all add: admitNext_def split: prod.splits)

lemma gate_step_limit: "gate_step g e g' \<Longrightarrow> g_limit g' = g_limit g"
  by (induction rule: gate_step.induct) (simp_all add: acquire_def onAbort_def release_def abort_signal_def)

lemma gate_run_limit: "gate_run g es g' \<Longrightarrow> g_limit g' = g_limit g"
  by (induction rule: gate_run.induct) (simp_all add: gate_step_limit)

section \<open>First come, first served\<close>

definition admitted :: "outcome list \<Rightarrow> nat list" where
  "admitted out = concat (map (\<lambda>x. case x of Admitted t \<Rightarrow> [t] | Rejected t \<Rightarrow> []) out)"

definition arrivals :: "gate_event list \<Rightarrow> nat list" where
  "arrivals es = concat (map (\<lambda>e. case e of Acquire t s \<Rightarrow> [t] | _ \<Rightarrow> []) es)"

lemma admitted_simps [simp]:
  "admitted [] = []" "admitted (out @ [Admitted t]) = admitted out @ [t]"
  "admitted (out @ [Rejected t]) = admitted out"
  by (simp_all add: admitted_def)

lemma arrivals_simps [simp]:
  "arrivals [] = []" "arrivals (es @ [Acquire t s]) = arrivals es @ [t]"
  "arrivals (es @ [AbortSignal n]) = arrivals es" "arrivals (es @ [OnAbort t]) = arrivals es"
  "arrivals (es @ [Release t]) = arrivals es"
  by (simp_all add: arrivals_def)

definition admission_order :: "gate \<Rightarrow> nat list" where
  "admission_order g = admitted (g_settled g) @ map w_task (g_waiting g)"

lemma admit_loop_order:
  "admit_loop limit ab a ws r out = (a', ws', r', out') \<Longrightarrow>
   subseq (admitted out' @ map w_task ws') (admitted out @ map w_task ws)"
proof (induction limit ab a ws r out rule: admit_loop.induct)
  case (2 limit ab active w ws running out)
  show ?case
  proof (cases "active < limit \<and> signal_aborted ab (w_signal w)")
    case True
    with 2(1,3) have "subseq (admitted out' @ map w_task ws') (admitted out @ map w_task ws)"
      by simp
    also have "subseq \<dots> (admitted out @ map w_task (w # ws))"
      by (simp add: subseq_append' subseq_Cons')
    finally show ?thesis .
  next
    case False
    with 2(2,3) show ?thesis by (auto split: if_splits)
  qed
qed auto

lemma admitNext_order: "subseq (admission_order (admitNext g)) (admission_order g)"
  by (auto simp: admitNext_def admission_order_def split: prod.splits dest: admit_loop_order)

lemma acquire_order: "subseq (admission_order (acquire t sig g)) (admission_order g @ [t])"
proof (cases "signal_aborted (g_aborted g) sig")
  case True
  then show ?thesis
    by (auto simp: acquire_def admission_order_def subseq_append' intro: prefix_imp_subseq)
next
  case False
  let ?g = "g\<lparr>g_waiting := g_waiting g @ [\<lparr>w_task = t, w_signal = sig\<rparr>]\<rparr>"
  have "admission_order ?g = admission_order g @ [t]"
    by (simp add: admission_order_def)
  with admitNext_order [of ?g] False show ?thesis by (simp add: acquire_def)
qed

lemma release_order: "subseq (admission_order (release t g)) (admission_order g)"
  using admitNext_order [of "g\<lparr>g_active := g_active g - 1, g_running := remove1 t (g_running g)\<rparr>"]
  by (simp add: release_def admission_order_def)

lemma onAbort_order: "subseq (admission_order (onAbort t g)) (admission_order g)"
proof -
  have "subseq (map w_task (filter (\<lambda>w. w_task w \<noteq> t) (g_waiting g))) (map w_task (g_waiting g))"
    by (rule subseq_map) (rule subseq_filter_left)
  then show ?thesis by (simp add: admission_order_def onAbort_def subseq_append')
qed

lemma gate_step_order:
  "gate_step g e g' \<Longrightarrow> subseq (admission_order g) (arrivals es) \<Longrightarrow>
   subseq (admission_order g') (arrivals (es @ [e]))"
proof (induction rule: gate_step.induct)
  case (step_acquire t g sig)
  then have "subseq (admission_order g @ [t]) (arrivals es @ [t])"
    by (simp add: subseq_append_iff) (metis list_emb_Nil subseq_append' subseq_order.order_refl)
  with acquire_order [of t sig g] show ?case
    by (metis arrivals_simps(2) subseq_order.order_trans)
next
  case (step_abort_signal g n)
  then show ?case by (simp add: admission_order_def abort_signal_def)
next
  case (step_on_abort w g t)
  then show ?case using onAbort_order [of t g] by (metis arrivals_simps(4) subseq_order.order_trans)
next
  case (step_release t g)
  then show ?case using release_order [of t g] by (metis arrivals_simps(5) subseq_order.order_trans)
qed

lemma gate_run_order:
  "gate_run g es g' \<Longrightarrow> admission_order g = [] \<Longrightarrow> subseq (admission_order g') (arrivals es)"
  by (induction rule: gate_run.induct) (auto intro: gate_step_order)

lemma create_order: "createConcurrencyGate limit = Inr g \<Longrightarrow> admission_order g = []"
  by (auto simp: createConcurrencyGate_def admission_order_def split: if_splits)

section \<open>The profiled gate\<close>

text \<open>
  \<open>createProfiledReasonerGate\<close>: one gate of limit 1 per instance in front of the
  global gate.  A call with an \<open>instanceId\<close> first acquires the gate of its
  instance; its continuation (\<open>Enter\<close>) then acquires the global gate; the two
  \<open>finally\<close> blocks run from the inside out (\<open>Finish\<close>, then \<open>Leave\<close>).
\<close>

record profiled =
  p_global :: gate
  p_profiles :: "string \<rightharpoonup> gate"
  p_inst :: "nat \<Rightarrow> string option"
  p_sig :: "nat \<Rightarrow> nat option"
  p_known :: "nat list"

definition createProfiledReasonerGate :: "int \<Rightarrow> profiled result" where
  "createProfiledReasonerGate limit = (case createConcurrencyGate limit of
      Inl e \<Rightarrow> Inl e
    | Inr g \<Rightarrow> Inr \<lparr>p_global = g, p_profiles = Map.empty, p_inst = (\<lambda>_. None),
                    p_sig = (\<lambda>_. None), p_known = []\<rparr>)"

text \<open>\<open>profiles.get(instanceId)\<close>, creating the gate of a new instance with limit 1.\<close>

definition profile_gate :: "profiled \<Rightarrow> string \<Rightarrow> gate" where
  "profile_gate p i = (case p_profiles p i of Some g \<Rightarrow> g
     | None \<Rightarrow> \<lparr>g_limit = 1, g_active = 0, g_waiting = [], g_aborted = g_aborted (p_global p),
                g_running = [], g_settled = []\<rparr>)"

definition profiled_run :: "nat \<Rightarrow> nat option \<Rightarrow> string option \<Rightarrow> profiled \<Rightarrow> profiled" where
  "profiled_run t sig inst p =
    (let p' = p\<lparr>p_known := t # p_known p, p_sig := (p_sig p)(t := sig)\<rparr>
     in case inst of
          Some i \<Rightarrow> if i \<noteq> [] then
              p'\<lparr>p_inst := (p_inst p)(t := Some i),
                 p_profiles := (p_profiles p)(i \<mapsto> acquire t sig (profile_gate p i))\<rparr>
            else p'\<lparr>p_global := acquire t sig (p_global p)\<rparr>
        | None \<Rightarrow> p'\<lparr>p_global := acquire t sig (p_global p)\<rparr>)"

definition profiled_enter :: "nat \<Rightarrow> profiled \<Rightarrow> profiled" where
  "profiled_enter t p = p\<lparr>p_global := acquire t (p_sig p t) (p_global p)\<rparr>"

definition profiled_finish :: "nat \<Rightarrow> profiled \<Rightarrow> profiled" where
  "profiled_finish t p = p\<lparr>p_global := release t (p_global p)\<rparr>"

definition profiled_leave :: "nat \<Rightarrow> string \<Rightarrow> profiled \<Rightarrow> profiled" where
  "profiled_leave t i p = p\<lparr>p_profiles := (p_profiles p)(i \<mapsto> release t (profile_gate p i))\<rparr>"

definition profiled_abort :: "nat \<Rightarrow> profiled \<Rightarrow> profiled" where
  "profiled_abort n p = p\<lparr>p_global := abort_signal n (p_global p),
     p_profiles := (\<lambda>i. map_option (abort_signal n) (p_profiles p i))\<rparr>"

definition profiled_abort_global :: "nat \<Rightarrow> profiled \<Rightarrow> profiled" where
  "profiled_abort_global t p = p\<lparr>p_global := onAbort t (p_global p)\<rparr>"

definition profiled_abort_profile :: "nat \<Rightarrow> string \<Rightarrow> profiled \<Rightarrow> profiled" where
  "profiled_abort_profile t i p = p\<lparr>p_profiles := (p_profiles p)(i \<mapsto> onAbort t (profile_gate p i))\<rparr>"

definition in_gate :: "gate \<Rightarrow> nat set" where
  "in_gate g = w_task ` set (g_waiting g) \<union> set (g_running g)"

inductive profiled_reach :: "profiled \<Rightarrow> profiled \<Rightarrow> bool" where
  p_start: "profiled_reach p p"
| p_run: "profiled_reach p0 p \<Longrightarrow> t \<notin> set (p_known p) \<Longrightarrow> profiled_reach p0 (profiled_run t sig inst p)"
| p_enter: "profiled_reach p0 p \<Longrightarrow> p_inst p t = Some i \<Longrightarrow> t \<in> set (g_running (profile_gate p i)) \<Longrightarrow>
    t \<notin> gate_tasks (p_global p) \<Longrightarrow> profiled_reach p0 (profiled_enter t p)"
| p_finish: "profiled_reach p0 p \<Longrightarrow> t \<in> set (g_running (p_global p)) \<Longrightarrow> profiled_reach p0 (profiled_finish t p)"
| p_leave: "profiled_reach p0 p \<Longrightarrow> t \<in> set (g_running (profile_gate p i)) \<Longrightarrow> t \<in> gate_tasks (p_global p) \<Longrightarrow>
    t \<notin> in_gate (p_global p) \<Longrightarrow> profiled_reach p0 (profiled_leave t i p)"
| p_abort: "profiled_reach p0 p \<Longrightarrow> profiled_reach p0 (profiled_abort n p)"
| p_abort_global: "profiled_reach p0 p \<Longrightarrow> w \<in> set (g_waiting (p_global p)) \<Longrightarrow> w_task w = t \<Longrightarrow>
    signal_aborted (g_aborted (p_global p)) (w_signal w) \<Longrightarrow> profiled_reach p0 (profiled_abort_global t p)"
| p_abort_profile: "profiled_reach p0 p \<Longrightarrow> w \<in> set (g_waiting (profile_gate p i)) \<Longrightarrow> w_task w = t \<Longrightarrow>
    signal_aborted (g_aborted (profile_gate p i)) (w_signal w) \<Longrightarrow> profiled_reach p0 (profiled_abort_profile t i p)"

lemma admitNext_in_gate:
  "in_gate (admitNext g) \<subseteq> in_gate g" "set (g_running g) \<subseteq> set (g_running (admitNext g))"
  "gate_tasks (admitNext g) = gate_tasks g"
proof -
  obtain a ws r out where l:
    "admit_loop (g_limit g) (g_aborted g) (g_active g) (g_waiting g) (g_running g) (g_settled g) = (a, ws, r, out)"
    by (metis prod_cases4)
  from admit_loop_places [OF l] obtain pre where pre: "g_waiting g = pre @ ws"
    "set r \<subseteq> set (g_running g) \<union> w_task ` set pre" "set (g_running g) \<subseteq> set r"
    "settled_tasks out = settled_tasks (g_settled g) \<union> w_task ` set pre"
    by auto
  have eq: "admitNext g = g\<lparr>g_active := a, g_waiting := ws, g_running := r, g_settled := out\<rparr>"
    by (simp add: admitNext_def l)
  show "in_gate (admitNext g) \<subseteq> in_gate g" using pre(1,2) by (auto simp: eq in_gate_def)
  show "set (g_running g) \<subseteq> set (g_running (admitNext g))" using pre(3) by (simp add: eq)
  show "gate_tasks (admitNext g) = gate_tasks g" using pre by (auto simp: eq gate_tasks_def)
qed

lemma acquire_in_gate:
  "in_gate (acquire t sig g) \<subseteq> insert t (in_gate g)" "set (g_running g) \<subseteq> set (g_running (acquire t sig g))"
  "gate_tasks (acquire t sig g) = insert t (gate_tasks g)"
  using admitNext_in_gate [of "g\<lparr>g_waiting := g_waiting g @ [\<lparr>w_task = t, w_signal = sig\<rparr>]\<rparr>"]
  by (auto simp: acquire_def in_gate_def gate_tasks_def)

lemma release_in_gate:
  assumes "gate_inv g" "t \<in> set (g_running g)"
  shows "in_gate (release t g) \<subseteq> in_gate g - {t}" "set (g_running g) - {t} \<subseteq> set (g_running (release t g))"
    "gate_tasks (release t g) \<subseteq> gate_tasks g"
proof -
  let ?g = "g\<lparr>g_active := g_active g - 1, g_running := remove1 t (g_running g)\<rparr>"
  note a = admitNext_in_gate [of ?g]
  have run: "set (remove1 t (g_running g)) = set (g_running g) - {t}"
    using assms(1) by (simp add: gate_inv_def)
  have "w_task ` set (g_waiting g) \<inter> {t} = {}"
    using assms by (auto simp: gate_inv_def)
  then have "in_gate ?g = in_gate g - {t}" "gate_tasks ?g \<subseteq> gate_tasks g"
    using run by (auto simp: in_gate_def gate_tasks_def)
  then show "in_gate (release t g) \<subseteq> in_gate g - {t}" "gate_tasks (release t g) \<subseteq> gate_tasks g"
    using a by (simp_all add: release_def)
  show "set (g_running g) - {t} \<subseteq> set (g_running (release t g))"
    using a(2) run by (simp add: release_def)
qed

lemma onAbort_in_gate:
  "in_gate (onAbort t g) \<subseteq> in_gate g" "g_running (onAbort t g) = g_running g"
  "gate_tasks (onAbort t g) \<subseteq> gate_tasks g"
  by (auto simp: onAbort_def in_gate_def gate_tasks_def)

definition profiled_inv :: "profiled \<Rightarrow> bool" where
  "profiled_inv p \<longleftrightarrow> gate_inv (p_global p) \<and>
     (\<forall>i. gate_inv (profile_gate p i) \<and> g_limit (profile_gate p i) = 1 \<and>
          gate_tasks (profile_gate p i) \<subseteq> set (p_known p)) \<and>
     gate_tasks (p_global p) \<subseteq> set (p_known p) \<and>
     (\<forall>t. p_inst p t \<noteq> None \<longrightarrow> t \<in> set (p_known p)) \<and>
     (\<forall>t i. t \<in> in_gate (p_global p) \<longrightarrow> p_inst p t = Some i \<longrightarrow> t \<in> set (g_running (profile_gate p i)))"

lemma profiled_invI:
  assumes "gate_inv (p_global p)" "\<And>i. gate_inv (profile_gate p i)" "\<And>i. g_limit (profile_gate p i) = 1"
    "\<And>i. gate_tasks (profile_gate p i) \<subseteq> set (p_known p)" "gate_tasks (p_global p) \<subseteq> set (p_known p)"
    "\<And>t i. p_inst p t = Some i \<Longrightarrow> t \<in> set (p_known p)"
    "\<And>t i. t \<in> in_gate (p_global p) \<Longrightarrow> p_inst p t = Some i \<Longrightarrow> t \<in> set (g_running (profile_gate p i))"
  shows "profiled_inv p"
  using assms unfolding profiled_inv_def by blast

lemma profiled_invD:
  assumes "profiled_inv p"
  shows "gate_inv (p_global p)" "gate_inv (profile_gate p i)" "g_limit (profile_gate p i) = 1"
    "gate_tasks (profile_gate p i) \<subseteq> set (p_known p)" "gate_tasks (p_global p) \<subseteq> set (p_known p)"
    "p_inst p t = Some i \<Longrightarrow> t \<in> set (p_known p)"
    "t \<in> in_gate (p_global p) \<Longrightarrow> p_inst p t = Some i \<Longrightarrow> t \<in> set (g_running (profile_gate p i))"
  using assms unfolding profiled_inv_def by blast+

lemma in_gate_tasks: "in_gate g \<subseteq> gate_tasks g"
  by (auto simp: in_gate_def gate_tasks_def)

lemma limit_simps [simp]:
  "g_limit (acquire t sig g) = g_limit g" "g_limit (release t g) = g_limit g"
  "g_limit (onAbort t g) = g_limit g" "g_limit (abort_signal n g) = g_limit g"
  by (simp_all add: acquire_def release_def onAbort_def abort_signal_def)

lemma abort_signal_simps [simp]:
  "gate_inv (abort_signal n g) = gate_inv g" "gate_tasks (abort_signal n g) = gate_tasks g"
  "in_gate (abort_signal n g) = in_gate g" "g_running (abort_signal n g) = g_running g"
  by (simp_all add: abort_signal_def gate_inv_def gate_tasks_def in_gate_def)

lemma profile_gate_global:
  "p_profiles p' = p_profiles p \<Longrightarrow> g_aborted (p_global p') = g_aborted (p_global p) \<Longrightarrow>
   profile_gate p' i = profile_gate p i"
  by (simp add: profile_gate_def split: option.split)

lemma aborted_simps [simp]:
  "g_aborted (acquire t sig g) = g_aborted g" "g_aborted (release t g) = g_aborted g"
  "g_aborted (onAbort t g) = g_aborted g"
  by (simp_all add: acquire_def release_def onAbort_def)

lemma profile_gate_upd:
  "p_profiles p' = (p_profiles p)(i \<mapsto> g) \<Longrightarrow> g_aborted (p_global p') = g_aborted (p_global p) \<Longrightarrow>
   profile_gate p' j = (if j = i then g else profile_gate p j)"
  by (simp add: profile_gate_def split: option.split)

lemma profiled_run_inv:
  assumes inv: "profiled_inv p" and fresh: "t \<notin> set (p_known p)"
  shows "profiled_inv (profiled_run t sig inst p)"
proof (cases "\<exists>i. inst = Some i \<and> i \<noteq> []")
  case True
  then obtain i where i: "inst = Some i" "i \<noteq> []" by blast
  let ?p = "profiled_run t sig inst p"
  have eq: "p_global ?p = p_global p" "p_known ?p = t # p_known p" "p_inst ?p = (p_inst p)(t := Some i)"
    "p_profiles ?p = (p_profiles p)(i \<mapsto> acquire t sig (profile_gate p i))"
    using i by (simp_all add: profiled_run_def)
  have pg: "profile_gate ?p j = (if j = i then acquire t sig (profile_gate p i) else profile_gate p j)" for j
    by (rule profile_gate_upd) (simp_all add: eq)
  have fr: "t \<notin> gate_tasks (profile_gate p j)" "t \<notin> gate_tasks (p_global p)" for j
    using profiled_invD(4,5) [OF inv] fresh by blast+
  show ?thesis
  proof (rule profiled_invI)
    fix u j assume u: "u \<in> in_gate (p_global ?p)" "p_inst ?p u = Some j"
    then have "u \<noteq> t" using fr(2) in_gate_tasks by (auto simp: eq)
    then have "u \<in> set (g_running (profile_gate p j))"
      using profiled_invD(7) [OF inv] u by (simp add: eq)
    then show "u \<in> set (g_running (profile_gate ?p j))"
      using acquire_in_gate(2) by (auto simp: pg)
  next
    fix j show "gate_tasks (profile_gate ?p j) \<subseteq> set (p_known ?p)"
      using profiled_invD(4) [OF inv] by (auto simp: pg eq acquire_in_gate(3))
  qed (use fr profiled_invD [OF inv] in \<open>auto simp: eq pg acquire_inv acquire_in_gate(3) split: if_splits\<close>)
next
  case False
  let ?p = "profiled_run t sig inst p"
  have eq: "p_global ?p = acquire t sig (p_global p)" "p_known ?p = t # p_known p" "p_inst ?p = p_inst p"
    "p_profiles ?p = p_profiles p"
    using False by (cases inst; simp add: profiled_run_def)+
  have pg: "profile_gate ?p j = profile_gate p j" for j
    by (rule profile_gate_global) (simp_all add: eq)
  have fr: "t \<notin> gate_tasks (p_global p)" "p_inst p t = None"
    using profiled_invD(5,6) [OF inv] fresh by (blast, metis option.exhaust)
  show ?thesis
  proof (rule profiled_invI)
    fix u j assume u: "u \<in> in_gate (p_global ?p)" "p_inst ?p u = Some j"
    then have "u \<noteq> t" using fr(2) by (auto simp: eq)
    then show "u \<in> set (g_running (profile_gate ?p j))"
      using profiled_invD(7) [OF inv, of u j] u acquire_in_gate(1) by (auto simp: eq pg)
  qed (use fr profiled_invD [OF inv] in \<open>auto simp: eq pg acquire_inv acquire_in_gate(3)\<close>)
qed

lemma profiled_leave_inv:
  assumes inv: "profiled_inv p" and run: "t \<in> set (g_running (profile_gate p i))"
    and out: "t \<notin> in_gate (p_global p)"
  shows "profiled_inv (profiled_leave t i p)"
proof -
  let ?p = "profiled_leave t i p"
  have pg: "profile_gate ?p j = (if j = i then release t (profile_gate p i) else profile_gate p j)" for j
    by (rule profile_gate_upd) (simp_all add: profiled_leave_def)
  have eq: "p_global ?p = p_global p" "p_known ?p = p_known p" "p_inst ?p = p_inst p"
    by (simp_all add: profiled_leave_def)
  note rel = release_in_gate [OF profiled_invD(2) [OF inv] run]
  show ?thesis
  proof (rule profiled_invI)
    fix u j assume u: "u \<in> in_gate (p_global ?p)" "p_inst ?p u = Some j"
    then have "u \<noteq> t" "u \<in> set (g_running (profile_gate p j))"
      using profiled_invD(7) [OF inv] out by (auto simp: eq)
    then show "u \<in> set (g_running (profile_gate ?p j))"
      using rel(2) by (auto simp: pg)
  next
    fix j show "gate_tasks (profile_gate ?p j) \<subseteq> set (p_known ?p)"
      using rel(3) profiled_invD(4) [OF inv] by (auto simp: pg eq)
  qed (use run profiled_invD [OF inv] in \<open>auto simp: eq pg release_inv\<close>)
qed

lemma profiled_reach_inv: "profiled_reach p0 p \<Longrightarrow> profiled_inv p0 \<Longrightarrow> profiled_inv p"
proof (induction rule: profiled_reach.induct)
  case (p_run p0 p t sig inst)
  then show ?case by (simp add: profiled_run_inv)
next
  case (p_enter p0 p t i)
  then have inv: "profiled_inv p" by simp
  have pg: "profile_gate (profiled_enter t p) j = profile_gate p j" for j
    by (rule profile_gate_global) (simp_all add: profiled_enter_def)
  have k: "t \<in> set (p_known p)" using profiled_invD(6) [OF inv p_enter(2)] .
  show ?case
  proof (rule profiled_invI)
    fix u j assume "u \<in> in_gate (p_global (profiled_enter t p))" "p_inst (profiled_enter t p) u = Some j"
    then show "u \<in> set (g_running (profile_gate (profiled_enter t p) j))"
      using acquire_in_gate(1) [of t "p_sig p t" "p_global p"] profiled_invD(7) [OF inv, of u j] p_enter(2,3)
      unfolding pg by (auto simp: profiled_enter_def)
  qed (unfold pg, use k p_enter(4) profiled_invD [OF inv] in
      \<open>auto simp: profiled_enter_def acquire_inv acquire_in_gate(3)\<close>)
next
  case (p_finish p0 p t)
  then have inv: "profiled_inv p" by simp
  note rel = release_in_gate [OF profiled_invD(1) [OF inv] p_finish(2)]
  have pg: "profile_gate (profiled_finish t p) j = profile_gate p j" for j
    by (rule profile_gate_global) (simp_all add: profiled_finish_def)
  show ?case
    by (rule profiled_invI, unfold pg)
      (use rel p_finish(2) profiled_invD [OF inv] in \<open>auto simp: profiled_finish_def release_inv\<close>)
next
  case (p_leave p0 p t i)
  then show ?case by (simp add: profiled_leave_inv)
next
  case (p_abort p0 p n)
  have pg: "profile_gate (profiled_abort n p) i = abort_signal n (profile_gate p i)" for i
    by (simp add: profile_gate_def profiled_abort_def abort_signal_def split: option.splits)
  from p_abort show ?case by (simp add: profiled_inv_def pg) (simp add: profiled_abort_def)
next
  case (p_abort_global p0 p w t)
  then have inv: "profiled_inv p" by simp
  have pg: "profile_gate (profiled_abort_global t p) j = profile_gate p j" for j
    by (rule profile_gate_global) (simp_all add: profiled_abort_global_def)
  show ?case
    by (rule profiled_invI, unfold pg) (use onAbort_in_gate [of t "p_global p"] profiled_invD [OF inv] in
      \<open>auto simp: profiled_abort_global_def onAbort_inv\<close>)
next
  case (p_abort_profile p0 p w i t)
  then have inv: "profiled_inv p" by simp
  have pg: "profile_gate (profiled_abort_profile t i p) j =
      (if j = i then onAbort t (profile_gate p i) else profile_gate p j)" for j
    by (rule profile_gate_upd) (simp_all add: profiled_abort_profile_def)
  show ?case
  proof (rule profiled_invI, unfold pg)
    fix j show "gate_tasks (if j = i then onAbort t (profile_gate p i) else profile_gate p j)
        \<subseteq> set (p_known (profiled_abort_profile t i p))"
      using onAbort_in_gate(3) [of t "profile_gate p i"] profiled_invD(4) [OF inv]
      by (auto simp: profiled_abort_profile_def)
  qed (use onAbort_in_gate(2) [of t "profile_gate p i"] profiled_invD [OF inv] in
      \<open>auto simp: profiled_abort_profile_def onAbort_inv\<close>)
qed

lemma create_profiled_inv: "createProfiledReasonerGate limit = Inr p \<Longrightarrow> profiled_inv p"
  by (auto simp: createProfiledReasonerGate_def createConcurrencyGate_def profiled_inv_def profile_gate_def
      gate_inv_def gate_tasks_def in_gate_def split: if_splits)

lemma profiled_one_global:
  assumes "profiled_inv p" "p_inst p t = Some i" "p_inst p u = Some i"
    "t \<in> in_gate (p_global p)" "u \<in> in_gate (p_global p)"
  shows "t = u"
proof -
  have "t \<in> set (g_running (profile_gate p i))" "u \<in> set (g_running (profile_gate p i))"
    using assms profiled_invD(7) by blast+
  moreover have "length (g_running (profile_gate p i)) \<le> 1"
    using profiled_invD(2,3) [OF assms(1)] by (metis gate_inv_def)
  ultimately show ?thesis
    by (metis One_nat_def in_set_conv_nth le_0_eq less_Suc0 less_le_trans)
qed

section \<open>Properties\<close>

definition gate1 :: gate where
  "gate1 = \<lparr>g_limit = 1, g_active = 0, g_waiting = [], g_aborted = [], g_running = [], g_settled = []\<rparr>"

text \<open>Two calls on a gate of limit 1; the second one waits.\<close>

definition gate1_busy :: gate where
  "gate1_busy = acquire 1 None (acquire 0 None gate1)"

lemma gate1_busy_eq: "gate1_busy = \<lparr>g_limit = 1, g_active = 1, g_waiting = [\<lparr>w_task = 1, w_signal = None\<rparr>], g_aborted = [],
    g_running = [0], g_settled = [Admitted 0]\<rparr>"
  by code_simp

lemma gate1_run: "gate_run gate1 [Acquire 0 None, Acquire 1 None] gate1_busy"
proof -
  have 0: "gate_step gate1 (Acquire 0 None) (acquire 0 None gate1)"
    by (rule step_acquire) (simp add: gate1_def gate_tasks_def)
  have "gate_tasks (acquire 0 None gate1) = {0}"
    by (auto simp: gate1_def acquire_def admitNext_def signal_aborted_def gate_tasks_def settled_tasks_def)
  then have 1: "gate_step (acquire 0 None gate1) (Acquire 1 None) gate1_busy"
    unfolding gate1_busy_def by (intro step_acquire) simp
  from run_step [OF run_step [OF run_start 0] 1] show ?thesis by simp
qed

lemma create_gate1: "createConcurrencyGate 1 = Inr gate1"
  by (simp add: createConcurrencyGate_def gate1_def)

text \<open>
  C35: the gate bounds concurrency and wastes none. In every state that calls,
  aborts and completions can reach from a new gate with \<open>limit\<close>, at most \<open>limit\<close>
  operations run, the counter is exact, no operation runs twice at once, and a
  call waits only while all \<open>limit\<close> places are taken.
\<close>

theorem gate_bounds_concurrency:
  assumes "createConcurrencyGate limit = Inr g0" "gate_run g0 es g"
  shows "int (length (g_running g)) \<le> limit \<and> g_active g = length (g_running g) \<and> distinct (g_running g) \<and>
    (g_waiting g \<noteq> [] \<longrightarrow> int (length (g_running g)) = limit) \<and> w_task ` set (g_waiting g) \<inter> set (g_running g) = {}"
proof -
  have "gate_inv g" using gate_run_inv [OF assms(2)] create_inv [OF assms(1)] .
  moreover have "int (g_limit g) = limit"
    using gate_run_limit [OF assms(2)] assms(1) by (auto simp: createConcurrencyGate_def split: if_splits)
  ultimately show ?thesis unfolding gate_inv_def by (auto simp: of_nat_le_iff)
qed

theorem gate_bounds_concurrency_witness:
  "g_waiting gate1_busy \<noteq> [] \<and> int (length (g_running gate1_busy)) = 1"
  using gate_bounds_concurrency [OF create_gate1 gate1_run] by (simp add: gate1_busy_eq)

text \<open>
  Admission is first come, first served. Along every run of a new gate the
  calls that were admitted, followed by those that still wait, are a
  subsequence of the calls in their order of arrival: only aborted calls are
  left out, and nobody overtakes.
\<close>

theorem gate_admits_in_order:
  assumes "createConcurrencyGate limit = Inr g0" "gate_run g0 es g"
  shows "subseq (admitted (g_settled g) @ map w_task (g_waiting g)) (arrivals es)"
  using gate_run_order [OF assms(2) create_order [OF assms(1)]] by (simp add: admission_order_def)

theorem gate_admits_in_order_witness:
  "subseq (admitted (g_settled gate1_busy) @ map w_task (g_waiting gate1_busy)) [0, 1] \<and> admitted (g_settled gate1_busy) = [0]"
  using gate_admits_in_order [OF create_gate1 gate1_run] by (simp add: gate1_busy_eq arrivals_def admitted_def)

lemma profiled_reach_limit: "profiled_reach p0 p \<Longrightarrow> g_limit (p_global p) = g_limit (p_global p0)"
  by (induction rule: profiled_reach.induct)
    (simp_all add: profiled_run_def profiled_enter_def profiled_finish_def profiled_leave_def profiled_abort_def
      profiled_abort_global_def profiled_abort_profile_def Let_def split: option.split)

definition profiled1 :: profiled where
  "profiled1 = \<lparr>p_global = gate1, p_profiles = Map.empty, p_inst = (\<lambda>_. None), p_sig = (\<lambda>_. None), p_known = []\<rparr>"

definition profiled1_busy :: profiled where
  "profiled1_busy = profiled_enter 0 (profiled_run 0 None (Some ''a'') profiled1)"

lemma profiled1_run: "profiled_reach profiled1 profiled1_busy"
proof -
  have r: "profiled_reach profiled1 (profiled_run 0 None (Some ''a'') profiled1)"
    by (rule p_run [OF p_start]) (simp add: profiled1_def)
  have "p_inst (profiled_run 0 None (Some ''a'') profiled1) 0 = Some ''a''"
    "0 \<in> set (g_running (profile_gate (profiled_run 0 None (Some ''a'') profiled1) ''a''))"
    "0 \<notin> gate_tasks (p_global (profiled_run 0 None (Some ''a'') profiled1))"
    by (simp_all add: profiled_run_def profile_gate_def profiled1_def acquire_def admitNext_def signal_aborted_def gate_tasks_def gate1_def)
  from p_enter [OF r this] show ?thesis by (simp add: profiled1_busy_def)
qed

text \<open>
  Profile admission comes before global admission. In every state the
  profiled gate can reach, at most \<open>limit\<close> operations run globally, at most one
  operation per instance is admitted by the instance's gate, and two calls of one
  instance are never both inside the global gate, running or waiting: a busy profile
  holds at most one place of the global capacity.
\<close>

theorem busy_profile_takes_one_place:
  assumes "createProfiledReasonerGate limit = Inr p0" "profiled_reach p0 p"
  shows "int (length (g_running (p_global p))) \<le> limit \<and> length (g_running (profile_gate p i)) \<le> 1 \<and>
    (p_inst p t = Some i \<and> p_inst p u = Some i \<and> t \<in> in_gate (p_global p) \<and> u \<in> in_gate (p_global p) \<longrightarrow> t = u)"
proof -
  note inv = profiled_reach_inv [OF assms(2) create_profiled_inv [OF assms(1)]]
  have "length (g_running (profile_gate p i)) \<le> 1" using profiled_invD(2,3) [OF inv, of i] by (simp add: gate_inv_def)
  moreover have "int (length (g_running (p_global p))) \<le> limit"
    using profiled_invD(1) [OF inv] profiled_reach_limit [OF assms(2)] assms(1)
    by (auto simp: gate_inv_def createProfiledReasonerGate_def createConcurrencyGate_def split: if_splits)
  ultimately show ?thesis using profiled_one_global [OF inv] by blast
qed

theorem busy_profile_takes_one_place_witness:
  "length (g_running (profile_gate profiled1_busy ''a'')) \<le> 1 \<and> 0 \<in> in_gate (p_global profiled1_busy)"
proof
  have c: "createProfiledReasonerGate 1 = Inr profiled1"
    by (simp add: createProfiledReasonerGate_def create_gate1 profiled1_def)
  from busy_profile_takes_one_place [OF c profiled1_run, of "''a''"]
  show "length (g_running (profile_gate profiled1_busy ''a'')) \<le> 1" by blast
  show "0 \<in> in_gate (p_global profiled1_busy)"
    by (simp add: profiled1_busy_def profiled_enter_def profiled_run_def profile_gate_def profiled1_def acquire_def admitNext_def
        signal_aborted_def gate_tasks_def gate1_def in_gate_def)
qed

end
