(* ===== verification/Simulation.thy ===== *)
theory Simulation
  imports Main
begin

text \<open>
  Interfaces that several components share: a concrete step relation that
  refines an abstract one through an abstraction function, and what an abstract
  invariant gives for the concrete runs.
\<close>

locale simulation =
  fixes cstep :: "'c \<Rightarrow> 'c \<Rightarrow> bool"
    and astep :: "'a \<Rightarrow> 'a \<Rightarrow> bool"
    and abs :: "'c \<Rightarrow> 'a"
  assumes simulates: "cstep s s' \<Longrightarrow> astep (abs s) (abs s')"
begin

lemma run_simulates: "cstep\<^sup>*\<^sup>* s s' \<Longrightarrow> astep\<^sup>*\<^sup>* (abs s) (abs s')"
  by (induction rule: rtranclp_induct) (auto intro: simulates rtranclp.rtrancl_into_rtrancl)

lemma invariant_lifts:
  assumes "\<And>a a'. astep a a' \<Longrightarrow> I a \<Longrightarrow> I a'" "cstep\<^sup>*\<^sup>* s s'" "I (abs s)"
  shows "I (abs s')"
  using assms(2,3) by (induction rule: rtranclp_induct) (auto intro: simulates assms(1))

end

end
