(* ===== verification/Json.thy ===== *)
theory Json
  imports Prelude
begin

text \<open>
  JSON values, \<open>JSON.stringify\<close> and the journal's \<open>canonicalJson\<close>
  (\<open>packages/agent-worker/src/local-messaging-journal.mjs\<close>), the text whose
  SHA-256 identifies an envelope.  Numbers are the safe integers.  The main fact
  is that the canonical text determines the value up to the order of object
  keys, so two envelopes with the same canonical text are the same envelope.
\<close>

section \<open>Values and their text\<close>

datatype json =
    JNull
  | JBool bool
  | JNum int
  | JStr string
  | JArr "json list"
  | JObj "(string \<times> json) list"

definition hexd :: "nat \<Rightarrow> char" where
  "hexd n = (hex_chars ! n)"

text \<open>The escapes of \<open>JSON.stringify\<close> (QuoteJSONString).\<close>

definition esc :: "char \<Rightarrow> string" where
  "esc c = (let n = of_char c :: nat in
     if c = CHR 0x22 then [CHR 0x5C, CHR 0x22]
     else if c = CHR 0x5C then [CHR 0x5C, CHR 0x5C]
     else if n = 8 then [CHR 0x5C, CHR ''b'']
     else if n = 9 then [CHR 0x5C, CHR ''t'']
     else if n = 10 then [CHR 0x5C, CHR ''n'']
     else if n = 12 then [CHR 0x5C, CHR ''f'']
     else if n = 13 then [CHR 0x5C, CHR ''r'']
     else if n < 32 then [CHR 0x5C, CHR ''u'', CHR ''0'', CHR ''0'', hexd (n div 16), hexd (n mod 16)]
     else [c])"

definition quote :: "string \<Rightarrow> string" where
  "quote s = [CHR 0x22] @ concat (map esc s) @ [CHR 0x22]"

fun digits :: "nat \<Rightarrow> string" where
  "digits n = (if n < 10 then [''0123456789'' ! n] else digits (n div 10) @ [''0123456789'' ! (n mod 10)])"

declare digits.simps [simp del]

definition num_text :: "int \<Rightarrow> string" where
  "num_text n = (if n < 0 then CHR ''-'' # digits (nat (- n)) else digits (nat n))"

fun join :: "string \<Rightarrow> string list \<Rightarrow> string" where
  "join sep [] = []"
| "join sep [x] = x"
| "join sep (x # y # ys) = x @ sep @ join sep (y # ys)"

definition member_text :: "string \<times> string \<Rightarrow> string" where
  "member_text kv = quote (fst kv) @ '':'' @ snd kv"

primrec stringify :: "json \<Rightarrow> string" where
  "stringify JNull = ''null''"
| "stringify (JBool b) = (if b then ''true'' else ''false'')"
| "stringify (JNum n) = num_text n"
| "stringify (JStr s) = quote s"
| "stringify (JArr xs) = ''['' @ join '','' (map stringify xs) @ '']''"
| "stringify (JObj kvs) = ''{'' @ join '','' (map member_text (map (map_prod id stringify) kvs)) @ ''}''"

text \<open>The source's \<open>canonicalJson\<close>: as \<open>JSON.stringify\<close>, with the keys of every object sorted.\<close>

primrec canonicalJson :: "json \<Rightarrow> string" where
  "canonicalJson JNull = stringify JNull"
| "canonicalJson (JBool b) = stringify (JBool b)"
| "canonicalJson (JNum n) = stringify (JNum n)"
| "canonicalJson (JStr s) = stringify (JStr s)"
| "canonicalJson (JArr xs) = ''['' @ join '','' (map canonicalJson xs) @ '']''"
| "canonicalJson (JObj kvs) =
     ''{'' @ join '','' (map member_text (sort_key fst (map (map_prod id canonicalJson) kvs))) @ ''}''"

text \<open>A value with the keys of every object sorted: the value up to key order.\<close>

primrec sort_keys :: "json \<Rightarrow> json" where
  "sort_keys JNull = JNull"
| "sort_keys (JBool b) = JBool b"
| "sort_keys (JNum n) = JNum n"
| "sort_keys (JStr s) = JStr s"
| "sort_keys (JArr xs) = JArr (map sort_keys xs)"
| "sort_keys (JObj kvs) = JObj (sort_key fst (map (map_prod id sort_keys) kvs))"

definition obj_get :: "json \<Rightarrow> string \<Rightarrow> json option" where
  "obj_get j k = (case j of JObj kvs \<Rightarrow> map_of kvs k | _ \<Rightarrow> None)"

text \<open>\<open>{...obj, k: v}\<close>: an existing key keeps its place.\<close>

definition obj_put :: "(string \<times> json) list \<Rightarrow> string \<Rightarrow> json \<Rightarrow> (string \<times> json) list" where
  "obj_put kvs k v = (if k \<in> fst ` set kvs then map (\<lambda>p. if fst p = k then (k, v) else p) kvs else kvs @ [(k, v)])"

section \<open>The text determines the value\<close>

lemma sort_key_map_prod:
  "sort_key fst (map (map_prod id f) kvs) = map (map_prod id f) (sort_key fst kvs)"
proof -
  have ins: "insort_key fst (map_prod id f p) (map (map_prod id f) ys) = map (map_prod id f) (insort_key fst p ys)" for p ys
    by (induction ys) auto
  show ?thesis by (induction kvs) (simp_all add: ins [simplified id_def] id_def)
qed

lemma canonicalJson_stringify: "canonicalJson j = stringify (sort_keys j)"
proof (induction j)
  case (JArr xs)
  then have "map canonicalJson xs = map (stringify \<circ> sort_keys) xs" by simp
  then show ?case by (simp only: canonicalJson.simps stringify.simps sort_keys.simps map_map)
next
  case (JObj kvs)
  have "map (map_prod id canonicalJson) kvs = map (map_prod id stringify) (map (map_prod id sort_keys) kvs)"
    using JObj by (auto simp: snds.simps)
  then show ?case by (simp only: canonicalJson.simps stringify.simps sort_keys.simps sort_key_map_prod)
qed simp_all

definition hexval :: "char \<Rightarrow> nat" where
  "hexval c = length (takeWhile (\<lambda>h. h \<noteq> c) hex_chars)"

definition unesc :: "string \<Rightarrow> (char \<times> string) option" where
  "unesc s = (case s of [] \<Rightarrow> None | x # xs \<Rightarrow>
     if x \<noteq> CHR 0x5C then Some (x, xs) else
     (case xs of [] \<Rightarrow> None | y # ys \<Rightarrow>
       if y = CHR 0x22 then Some (CHR 0x22, ys)
       else if y = CHR 0x5C then Some (CHR 0x5C, ys)
       else if y = CHR ''b'' then Some (char_of (8 :: nat), ys)
       else if y = CHR ''t'' then Some (char_of (9 :: nat), ys)
       else if y = CHR ''n'' then Some (char_of (10 :: nat), ys)
       else if y = CHR ''f'' then Some (char_of (12 :: nat), ys)
       else if y = CHR ''r'' then Some (char_of (13 :: nat), ys)
       else Some (char_of (16 * hexval (ys ! 2) + hexval (ys ! 3)), drop 4 ys)))"

lemma hexd_inverse:
  assumes "n < 16"
  shows "hexval (hexd n) = n"
proof -
  have "list_all (\<lambda>n. hexval (hexd n) = n) [0..<16]"
    by code_simp
  with assms show ?thesis by (simp add: list_all_iff)
qed

lemma unesc_simps:
  "x \<noteq> CHR 0x5C \<Longrightarrow> unesc (x # xs) = Some (x, xs)"
  "unesc (CHR 0x5C # CHR 0x22 # xs) = Some (CHR 0x22, xs)"
  "unesc (CHR 0x5C # CHR 0x5C # xs) = Some (CHR 0x5C, xs)"
  "unesc (CHR 0x5C # CHR ''b'' # xs) = Some (char_of (8 :: nat), xs)"
  "unesc (CHR 0x5C # CHR ''t'' # xs) = Some (char_of (9 :: nat), xs)"
  "unesc (CHR 0x5C # CHR ''n'' # xs) = Some (char_of (10 :: nat), xs)"
  "unesc (CHR 0x5C # CHR ''f'' # xs) = Some (char_of (12 :: nat), xs)"
  "unesc (CHR 0x5C # CHR ''r'' # xs) = Some (char_of (13 :: nat), xs)"
  "n < 32 \<Longrightarrow> unesc (CHR 0x5C # CHR ''u'' # CHR ''0'' # CHR ''0'' # hexd (n div 16) # hexd (n mod 16) # xs)
     = Some (char_of n, xs)"
  by (simp_all add: unesc_def hexd_inverse)

lemma unesc_esc: "unesc (esc c @ r) = Some (c, r)"
proof -
  define n where "n = (of_char c :: nat)"
  have c: "char_of n = c" by (simp add: n_def)
  have e: "esc c = (if c = CHR 0x22 then [CHR 0x5C, CHR 0x22]
     else if c = CHR 0x5C then [CHR 0x5C, CHR 0x5C]
     else if n = 8 then [CHR 0x5C, CHR ''b''] else if n = 9 then [CHR 0x5C, CHR ''t'']
     else if n = 10 then [CHR 0x5C, CHR ''n''] else if n = 12 then [CHR 0x5C, CHR ''f'']
     else if n = 13 then [CHR 0x5C, CHR ''r'']
     else if n < 32 then [CHR 0x5C, CHR ''u'', CHR ''0'', CHR ''0'', hexd (n div 16), hexd (n mod 16)]
     else [c])"
    by (simp add: esc_def n_def Let_def)
  show ?thesis
  proof (cases "c = CHR 0x22 \<or> c = CHR 0x5C")
    case True
    then show ?thesis unfolding e by (auto simp: unesc_simps)
  next
    case False
    consider "n = 8" | "n = 9" | "n = 10" | "n = 12" | "n = 13" | "n \<notin> {8, 9, 10, 12, 13}" by blast
    then show ?thesis
      unfolding e using False c by cases (auto simp: unesc_simps)
  qed
qed

lemma esc_prefix: "esc c @ r = esc d @ s \<Longrightarrow> c = d \<and> r = s"
  by (metis unesc_esc option.inject prod.inject)

lemma esc_not_quote: "esc c @ r \<noteq> CHR 0x22 # s"
  by (auto simp: esc_def Let_def)

lemma quote_body_prefix:
  "concat (map esc s) @ CHR 0x22 # r = concat (map esc t) @ CHR 0x22 # u \<Longrightarrow> s = t \<and> r = u"
proof (induction s arbitrary: t)
  case Nil
  show ?case
  proof (cases t)
    case (Cons d t')
    with Nil.prems have "esc d @ (concat (map esc t') @ CHR 0x22 # u) = CHR 0x22 # r" by simp
    then show ?thesis by (simp only: esc_not_quote)
  qed (use Nil.prems in simp)
next
  case (Cons c s)
  show ?case
  proof (cases t)
    case Nil
    with Cons.prems have "esc c @ (concat (map esc s) @ CHR 0x22 # r) = CHR 0x22 # u" by simp
    then show ?thesis by (simp only: esc_not_quote)
  next
    case t: (Cons d t')
    have "esc c @ (concat (map esc s) @ CHR 0x22 # r) = esc d @ (concat (map esc t') @ CHR 0x22 # u)"
      using Cons.prems t by simp
    from esc_prefix [OF this] Cons.IH [of t'] t show ?thesis by blast
  qed
qed

lemma quote_prefix: "quote s @ r = quote t @ u \<Longrightarrow> s = t \<and> r = u"
  by (rule quote_body_prefix) (simp add: quote_def)

text \<open>A number's text ends where a non-digit begins.\<close>

definition is_digit :: "char \<Rightarrow> bool" where
  "is_digit c = (c \<in> set ''0123456789'')"

definition delim :: "string \<Rightarrow> bool" where
  "delim r = (r = [] \<or> \<not> is_digit (hd r))"

definition digit_val :: "char \<Rightarrow> nat" where
  "digit_val c = length (takeWhile (\<lambda>h. h \<noteq> c) ''0123456789'')"

definition digit_char :: "nat \<Rightarrow> char" where
  "digit_char n = ''0123456789'' ! n"

definition dec_val :: "string \<Rightarrow> nat" where
  "dec_val s = foldl (\<lambda>a c. 10 * a + digit_val c) 0 s"

lemma digit_char: "n < 10 \<Longrightarrow> digit_val (digit_char n) = n" "n < 10 \<Longrightarrow> is_digit (digit_char n)"
proof -
  have "list_all (\<lambda>n. digit_val (digit_char n) = n \<and> is_digit (digit_char n)) [0..<10]"
    by code_simp
  then show "n < 10 \<Longrightarrow> digit_val (digit_char n) = n" "n < 10 \<Longrightarrow> is_digit (digit_char n)"
    by (simp_all add: list_all_iff)
qed

lemma digits_unfold: "digits n = (if n < 10 then [digit_char n] else digits (n div 10) @ [digit_char (n mod 10)])"
  by (subst digits.simps) (simp add: digit_char_def)

lemma dec_val_digits: "dec_val (digits n) = n"
proof (induction n rule: digits.induct)
  case (1 n)
  then show ?case
    by (subst digits_unfold) (simp add: dec_val_def digit_char)
qed

lemma list_all_digits: "list_all is_digit (digits n)"
proof (induction n rule: digits.induct)
  case (1 n)
  then show ?case
    by (subst digits_unfold) (simp add: digit_char)
qed

lemma digits_nonempty: "digits n \<noteq> []"
  by (subst digits_unfold) simp

lemma takeWhile_digits: "delim r \<Longrightarrow> takeWhile is_digit (digits n @ r) = digits n"
  using list_all_digits [of n] by (subst takeWhile_append2) (auto simp: delim_def takeWhile_eq_Nil_iff list_all_iff)

lemma digits_prefix: "delim r \<Longrightarrow> delim s \<Longrightarrow> digits m @ r = digits n @ s \<Longrightarrow> m = n \<and> r = s"
  by (metis dec_val_digits same_append_eq takeWhile_digits)

lemma hd_digits: "is_digit (hd (digits n @ r))"
  using list_all_digits [of n] digits_nonempty [of n] by (cases "digits n") auto

lemma is_digit_simps [simp]:
  "\<not> is_digit (CHR ''-'')" "\<not> is_digit (CHR '','')" "\<not> is_digit (CHR '']'')" "\<not> is_digit (CHR ''}'')"
  "\<not> is_digit (CHR 0x22)" "\<not> is_digit (CHR ''['')" "\<not> is_digit (CHR ''{'')" "\<not> is_digit (CHR ''n'')"
  "\<not> is_digit (CHR ''t'')" "\<not> is_digit (CHR ''f'')"
  by (simp_all add: is_digit_def)

lemma digits_first: "digits m @ r = c # s \<Longrightarrow> is_digit c"
  using hd_digits [of m r] by simp

lemma num_text_prefix:
  assumes "delim r" "delim s" "num_text m @ r = num_text n @ s"
  shows "m = n \<and> r = s"
proof (cases "m < 0")
  case True
  show ?thesis
  proof (cases "n < 0")
    case n: True
    with True assms(3) have "digits (nat (- m)) @ r = digits (nat (- n)) @ s" by (simp add: num_text_def)
    from digits_prefix [OF assms(1,2) this] True n show ?thesis by auto
  next
    case False
    with True assms(3) have "digits (nat n) @ s = CHR ''-'' # digits (nat (- m)) @ r" by (simp add: num_text_def)
    from digits_first [OF this] show ?thesis by simp
  qed
next
  case False
  show ?thesis
  proof (cases "n < 0")
    case True
    with False assms(3) have "digits (nat m) @ r = CHR ''-'' # digits (nat (- n)) @ s" by (simp add: num_text_def)
    from digits_first [OF this] show ?thesis by simp
  next
    case n: False
    with False assms(3) have "digits (nat m) @ r = digits (nat n) @ s" by (simp add: num_text_def)
    from digits_prefix [OF assms(1,2) this] False n show ?thesis by (simp add: eq_nat_nat_iff)
  qed
qed

lemma num_text_first: "num_text m @ r = c # s \<Longrightarrow> is_digit c \<or> c = CHR ''-''"
  by (auto simp: num_text_def dest: digits_first split: if_splits)

subsection \<open>Separated lists\<close>

definition tail_text :: "('a \<Rightarrow> string) \<Rightarrow> 'a list \<Rightarrow> string" where
  "tail_text enc xs = concat (map (\<lambda>x. CHR '','' # enc x) xs)"

lemma join_map_Cons: "join '','' (map enc (x # xs)) = enc x @ tail_text enc xs"
  by (induction xs arbitrary: x) (simp_all add: tail_text_def)

text \<open>
  \<open>prefix_code\<close>: in front of texts that do not start with a digit, the encoding of
  \<open>x\<close> can be cut off in one way only.
\<close>

definition prefix_code :: "('a \<Rightarrow> string) \<Rightarrow> 'a \<Rightarrow> bool" where
  "prefix_code enc x \<longleftrightarrow> (\<forall>y r s. delim r \<longrightarrow> delim s \<longrightarrow> enc x @ r = enc y @ s \<longrightarrow> x = y \<and> r = s)"

lemma delim_close: "cl \<in> {CHR '']'', CHR ''}''} \<Longrightarrow> delim (tail_text enc xs @ cl # r)"
  by (cases xs) (auto simp: tail_text_def delim_def)

lemma tail_text_prefix:
  assumes "\<And>x. x \<in> set xs \<Longrightarrow> prefix_code enc x" "cl \<in> {CHR '']'', CHR ''}''}"
    "tail_text enc xs @ cl # r = tail_text enc ys @ cl # s"
  shows "xs = ys \<and> r = s"
  using assms
proof (induction xs arbitrary: ys)
  case Nil
  then show ?case by (cases ys) (auto simp: tail_text_def)
next
  case (Cons x xs)
  show ?case
  proof (cases ys)
    case Nil
    with Cons.prems show ?thesis by (auto simp: tail_text_def)
  next
    case ys: (Cons y ys')
    then have "enc x @ (tail_text enc xs @ cl # r) = enc y @ (tail_text enc ys' @ cl # s)"
      using Cons.prems(3) by (simp add: tail_text_def)
    then have "x = y \<and> tail_text enc xs @ cl # r = tail_text enc ys' @ cl # s"
      using Cons.prems(1,2) delim_close by (metis list.set_intros(1) prefix_code_def)
    with Cons.IH [of ys'] Cons.prems(1,2) ys show ?thesis by auto
  qed
qed

lemma join_prefix:
  assumes "\<And>x. x \<in> set xs \<Longrightarrow> prefix_code enc x" "cl \<in> {CHR '']'', CHR ''}''}"
    and first: "\<And>x r s. enc x @ r \<noteq> cl # s"
    and eq: "join '','' (map enc xs) @ cl # r = join '','' (map enc ys) @ cl # s"
  shows "xs = ys \<and> r = s"
proof (cases xs)
  case Nil
  then show ?thesis
  proof (cases ys)
    case (Cons y ys')
    with Nil eq have "enc y @ (tail_text enc ys' @ cl # s) = cl # r" by (simp add: join_map_Cons del: list.map(2))
    with first show ?thesis by blast
  qed (use eq Nil in simp)
next
  case xs: (Cons x xs')
  show ?thesis
  proof (cases ys)
    case Nil
    with xs eq have "enc x @ (tail_text enc xs' @ cl # r) = cl # s" by (simp add: join_map_Cons del: list.map(2))
    with first show ?thesis by blast
  next
    case ys: (Cons y ys')
    have "enc x @ (tail_text enc xs' @ cl # r) = enc y @ (tail_text enc ys' @ cl # s)"
      using eq xs ys by (simp add: join_map_Cons del: list.map(2))
    then have "x = y \<and> tail_text enc xs' @ cl # r = tail_text enc ys' @ cl # s"
      using assms(1,2) xs delim_close by (metis list.set_intros(1) prefix_code_def)
    with tail_text_prefix [of xs' enc cl r ys' s] assms(1,2) xs ys show ?thesis by auto
  qed
qed

subsection \<open>The encoding of values is a prefix code\<close>

definition head_class :: "char \<Rightarrow> nat" where
  "head_class c = (if c = CHR ''n'' then 0 else if c = CHR ''t'' \<or> c = CHR ''f'' then 1
     else if is_digit c \<or> c = CHR ''-'' then 2 else if c = CHR 0x22 then 3
     else if c = CHR ''['' then 4 else if c = CHR ''{'' then 5 else 6)"

fun json_class :: "json \<Rightarrow> nat" where
  "json_class JNull = 0" | "json_class (JBool b) = 1" | "json_class (JNum n) = 2"
| "json_class (JStr s) = 3" | "json_class (JArr xs) = 4" | "json_class (JObj kvs) = 5"

lemma stringify_first: "stringify j @ r = c # s \<Longrightarrow> head_class c = json_class j"
proof (cases j)
  case (JNum n)
  moreover assume "stringify j @ r = c # s"
  ultimately have "is_digit c \<or> c = CHR ''-''" using num_text_first by simp
  with JNum show ?thesis by (auto simp: head_class_def is_digit_def)
qed (auto simp: head_class_def quote_def split: if_splits)

lemma stringify_nonempty: "stringify j \<noteq> []"
  by (cases j) (auto simp: num_text_def digits_nonempty quote_def)

lemma stringify_same_class: "stringify a @ r = stringify b @ s \<Longrightarrow> json_class a = json_class b"
  by (metis append_is_Nil_conv list.exhaust stringify_first stringify_nonempty)

lemma stringify_not_close: "stringify j @ r \<noteq> CHR '']'' # s"
  using stringify_first [of j r "CHR '']''" s] by (cases j) (auto simp: head_class_def is_digit_def)

lemma member_not_close: "(member_text \<circ> map_prod id stringify) p @ r \<noteq> CHR ''}'' # s"
  by (simp add: member_text_def quote_def)

lemma member_prefix_code: "prefix_code stringify (snd p) \<Longrightarrow> prefix_code (member_text \<circ> map_prod id stringify) p"
  unfolding prefix_code_def
proof (intro allI impI)
  fix q r s assume v: "\<forall>y r s. delim r \<longrightarrow> delim s \<longrightarrow> stringify (snd p) @ r = stringify y @ s \<longrightarrow> snd p = y \<and> r = s"
    and d: "delim r" "delim s"
    and "(member_text \<circ> map_prod id stringify) p @ r = (member_text \<circ> map_prod id stringify) q @ s"
  then have "quote (fst p) @ CHR '':'' # (stringify (snd p) @ r) = quote (fst q) @ CHR '':'' # (stringify (snd q) @ s)"
    by (simp add: member_text_def)
  from quote_prefix [OF this] have "fst p = fst q" "stringify (snd p) @ r = stringify (snd q) @ s" by auto
  with v d show "p = q \<and> r = s" by (simp add: prod_eq_iff)
qed

lemma json_class_eqD:
  "json_class b = 0 \<Longrightarrow> b = JNull" "json_class b = 1 \<Longrightarrow> \<exists>x. b = JBool x" "json_class b = 2 \<Longrightarrow> \<exists>n. b = JNum n"
  "json_class b = 3 \<Longrightarrow> \<exists>s. b = JStr s" "json_class b = 4 \<Longrightarrow> \<exists>xs. b = JArr xs" "json_class b = 5 \<Longrightarrow> \<exists>kvs. b = JObj kvs"
  by (cases b; simp)+

lemma stringify_prefix_code: "prefix_code stringify a"
proof (induction a)
  case JNull
  show ?case
    unfolding prefix_code_def
  proof (intro allI impI)
    fix y r s assume eq: "stringify JNull @ r = stringify y @ s"
    have "y = JNull" using stringify_same_class [OF eq] json_class_eqD(1) [of y] by simp
    with eq show "JNull = y \<and> r = s" by simp
  qed
next
  case (JBool b)
  show ?case
    unfolding prefix_code_def
  proof (intro allI impI)
    fix y r s assume eq: "stringify (JBool b) @ r = stringify y @ s"
    obtain x where "y = JBool x" using stringify_same_class [OF eq] json_class_eqD(2) [of y] by auto
    with eq show "JBool b = y \<and> r = s" by (simp split: if_splits)
  qed
next
  case (JNum n)
  show ?case
    unfolding prefix_code_def
  proof (intro allI impI)
    fix y r s assume d: "delim r" "delim s" and eq: "stringify (JNum n) @ r = stringify y @ s"
    obtain x where "y = JNum x" using stringify_same_class [OF eq] json_class_eqD(3) [of y] by auto
    with eq num_text_prefix [OF d, of n x] show "JNum n = y \<and> r = s" by simp
  qed
next
  case (JStr t)
  show ?case
    unfolding prefix_code_def
  proof (intro allI impI)
    fix y r s assume eq: "stringify (JStr t) @ r = stringify y @ s"
    obtain x where "y = JStr x" using stringify_same_class [OF eq] json_class_eqD(4) [of y] by auto
    with eq quote_prefix [of t r x s] show "JStr t = y \<and> r = s" by simp
  qed
next
  case (JArr xs)
  show ?case
    unfolding prefix_code_def
  proof (intro allI impI)
    fix y r s assume eq: "stringify (JArr xs) @ r = stringify y @ s"
    obtain ys where y: "y = JArr ys" using stringify_same_class [OF eq] json_class_eqD(5) [of y] by auto
    have "join '','' (map stringify xs) @ CHR '']'' # r = join '','' (map stringify ys) @ CHR '']'' # s"
      using eq y by simp
    then have "xs = ys \<and> r = s"
      by (rule join_prefix [rotated 3]) (use JArr stringify_not_close in auto)
    with y show "JArr xs = y \<and> r = s" by simp
  qed
next
  case (JObj kvs)
  have pc: "prefix_code (member_text \<circ> map_prod id stringify) p" if "p \<in> set kvs" for p
    using JObj [OF that] member_prefix_code by (metis prod.collapse snds.intros)
  show ?case
    unfolding prefix_code_def
  proof (intro allI impI)
    fix y r s assume eq: "stringify (JObj kvs) @ r = stringify y @ s"
    obtain ys where y: "y = JObj ys" using stringify_same_class [OF eq] json_class_eqD(6) [of y] by auto
    have "join '','' (map (member_text \<circ> map_prod id stringify) kvs) @ CHR ''}'' # r =
        join '','' (map (member_text \<circ> map_prod id stringify) ys) @ CHR ''}'' # s"
      using eq y by simp
    then have "kvs = ys \<and> r = s"
      by (rule join_prefix [rotated 3]) (use pc member_not_close in auto)
    with y show "JObj kvs = y \<and> r = s" by simp
  qed
qed

lemma stringify_inject: "stringify a = stringify b \<longleftrightarrow> a = b"
  using stringify_prefix_code [of a] unfolding prefix_code_def
  by (metis append_Nil2 delim_def)

lemma canonicalJson_eq_iff: "canonicalJson a = canonicalJson b \<longleftrightarrow> sort_keys a = sort_keys b"
  by (simp add: canonicalJson_stringify stringify_inject)

text \<open>
  The canonical text identifies the value. Two JSON values have the same
  \<open>canonicalJson\<close> text exactly when they are equal up to the order of the keys of
  their objects, at every depth: neither quoting nor number or list syntax ever
  makes two different values collide.
\<close>

theorem canonical_text_identifies_value: "canonicalJson a = canonicalJson b \<longleftrightarrow> sort_keys a = sort_keys b"
  by (rule canonicalJson_eq_iff)

end
