(* ===== verification/Identity_Primitives.thy ===== *)
theory Identity_Primitives
  imports Json
begin

text \<open>
  \<open>packages/agent-worker/src/identity-primitives.mjs\<close> and the platform functions
  the sources call but do not contain.  \<open>node_env\<close> carries them as parameters:
  \<open>sha256\<close> is \<open>createHash("sha256").update(text).digest("hex")\<close> of
  \<open>node:crypto\<close>, \<open>url_parse\<close> is \<open>new URL(text)\<close> (\<^const>\<open>None\<close> when it throws).
\<close>

record url =
  u_protocol :: string
  u_hostname :: string
  u_username :: string
  u_password :: string
  u_origin :: string

record node_env =
  sha256 :: "string \<Rightarrow> string"
  url_parse :: "string \<Rightarrow> url option"

section \<open>Identifier patterns\<close>

definition starts_with :: "string \<Rightarrow> string \<Rightarrow> bool" where
  "starts_with p x = (take (length p) x = p)"

definition AGENT_ID_PATTERN :: "string \<Rightarrow> bool" where
  "AGENT_ID_PATTERN x = (starts_with ''agent_'' x \<and> matches_class hex_chars 32 32 (drop 6 x))"

definition INSTANCE_ID_PATTERN :: "string \<Rightarrow> bool" where
  "INSTANCE_ID_PATTERN x = matches_class hex_chars 64 64 x"

definition SESSION_ID_PATTERN :: "string \<Rightarrow> bool" where
  "SESSION_ID_PATTERN x = (starts_with ''session-'' x \<and> matches_class hex_chars 64 64 (drop 8 x))"

definition PEER_ID_PATTERN :: "string \<Rightarrow> bool" where
  "PEER_ID_PATTERN x = (starts_with ''peer_'' x \<and> matches_class hex_chars 32 32 (drop 5 x))"

definition deriveClientInstanceId :: "node_env \<Rightarrow> string \<Rightarrow> string" where
  "deriveClientInstanceId E profile = sha256 E (''triangle-client-instance-v1'' @ [CHR 0x00] @ profile)"

text \<open>
  \<open>isValidBareHttpsOrigin\<close>.  On a text that starts with \<open>https://\<close> the group of
  the raw path expression is what follows the first of \<open>/ ? #\<close> after the scheme.
\<close>

definition isValidBareHttpsOrigin :: "node_env \<Rightarrow> string \<Rightarrow> bool" where
  "isValidBareHttpsOrigin E value =
    (if \<not> starts_with ''https://'' value then False
     else if dropWhile (\<lambda>c. c \<notin> set ''/?#'') (drop 8 value) \<noteq> [] then False
     else case url_parse E value of
         None \<Rightarrow> False
       | Some u \<Rightarrow> u_protocol u = ''https:'' \<and> u_hostname u \<noteq> [] \<and> u_username u = [] \<and> u_password u = [] \<and>
           CHR ''@'' \<notin> set value \<and> CHR ''?'' \<notin> set value \<and> CHR ''#'' \<notin> set value \<and> u_origin u = value)"

lemma peer_not_agent: "PEER_ID_PATTERN x \<Longrightarrow> \<not> AGENT_ID_PATTERN x"
  by (cases x) (auto simp: PEER_ID_PATTERN_def AGENT_ID_PATTERN_def starts_with_def)

lemma instance_not_principal:
  assumes "INSTANCE_ID_PATTERN x" shows "\<not> AGENT_ID_PATTERN x \<and> \<not> PEER_ID_PATTERN x"
proof -
  from assms have "length x = 64" by (simp add: INSTANCE_ID_PATTERN_def matches_class_def)
  then show ?thesis by (auto simp: AGENT_ID_PATTERN_def PEER_ID_PATTERN_def matches_class_def)
qed

end
