(* ===== verification/Reply_Route.thy ===== *)
theory Reply_Route
  imports Identity_Primitives
begin

text \<open>
  \<open>packages/agent-worker/src/local-reply-route-contract.mjs\<close> and
  \<open>local-reply-route-store.mjs\<close>: the pin that binds the reply of an interactive
  request to the identities observed when the request was admitted.  A reply is
  admitted only for the pinned addresses, principals and origins, and the pin's
  generations never go back.
\<close>

section \<open>The contract\<close>

record observation =
  o_address :: string
  o_generation :: int
  o_principal :: "string option"
  o_origin :: "string option"
  o_binding_generation :: "int option"

record reply_route =
  r_schema :: string
  r_transport :: string
  r_key :: string
  r_request :: string
  r_local :: observation
  r_remote :: observation

definition ADDRESS_PATTERN :: "string \<Rightarrow> bool" where
  "ADDRESS_PATTERN x = (INSTANCE_ID_PATTERN x \<or> SESSION_ID_PATTERN x)"

definition REQUEST_PATTERN :: "string \<Rightarrow> bool" where
  "REQUEST_PATTERN x = matches_class ident_chars 1 256 x"

text \<open>\<open>observation(value, { interactive })\<close>: it validates and copies.\<close>

definition observe :: "node_env \<Rightarrow> bool \<Rightarrow> observation \<Rightarrow> observation result" where
  "observe E interactive v =
    (if \<not> (if interactive then SESSION_ID_PATTERN (o_address v) else ADDRESS_PATTERN (o_address v)) \<or> \<not> 0 < o_generation v
     then Inl (Coded ''invalid_reply_identity'')
     else case o_principal v of
         None \<Rightarrow> if o_origin v \<noteq> None \<or> o_binding_generation v \<noteq> None
                 then Inl (Coded ''invalid_reply_identity'') else Inr v
       | Some p \<Rightarrow> if \<not> AGENT_ID_PATTERN p \<or> \<not> (case o_origin v of None \<Rightarrow> False | Some og \<Rightarrow> isValidBareHttpsOrigin E og) \<or>
                     \<not> (case o_binding_generation v of None \<Rightarrow> False | Some g \<Rightarrow> 0 < g)
                   then Inl (Coded ''invalid_reply_identity'') else Inr v)"

definition route_key :: "string \<Rightarrow> string \<Rightarrow> string" where
  "route_key address request_id = stringify (JArr [JStr ''local-socket'', JStr address, JStr request_id])"

definition createLocalReplyRoute :: "node_env \<Rightarrow> string \<Rightarrow> observation \<Rightarrow> observation \<Rightarrow> reply_route result" where
  "createLocalReplyRoute E requestId local remote =
    (if \<not> REQUEST_PATTERN requestId then Inl (Coded ''invalid_reply_route'')
     else case observe E True local of Inl e \<Rightarrow> Inl e
       | Inr owner \<Rightarrow> (case observe E False remote of Inl e \<Rightarrow> Inl e
           | Inr peer \<Rightarrow> Inr \<lparr>r_schema = ''local_reply_route_v1'', r_transport = ''local-socket'',
               r_key = route_key (o_address peer) requestId, r_request = requestId, r_local = owner, r_remote = peer\<rparr>))"

definition renew :: "observation \<Rightarrow> observation \<Rightarrow> string \<Rightarrow> unit result" where
  "renew pinned current code =
    (if o_address pinned \<noteq> o_address current \<or> o_principal pinned \<noteq> o_principal current \<or> o_origin pinned \<noteq> o_origin current
     then Inl (Coded code)
     else if o_generation current < o_generation pinned \<or>
        (case o_binding_generation pinned of None \<Rightarrow> False
         | Some g \<Rightarrow> opt_or (o_binding_generation current) 0 < g)
     then Inl (Coded ''reply_generation_regressed'')
     else Inr ())"

definition verifyLocalReplyRoute :: "node_env \<Rightarrow> reply_route \<Rightarrow> observation \<Rightarrow> observation \<Rightarrow> reply_route result" where
  "verifyLocalReplyRoute E route local remote =
    (if r_schema route \<noteq> ''local_reply_route_v1'' \<or> r_transport route \<noteq> ''local-socket''
     then Inl (Coded ''invalid_reply_route'')
     else case createLocalReplyRoute E (r_request route) (r_local route) (r_remote route) of Inl e \<Rightarrow> Inl e
       | Inr pinned \<Rightarrow>
          if r_key route \<noteq> r_key pinned then Inl (Coded ''invalid_reply_route'')
          else (case createLocalReplyRoute E (r_request pinned) local remote of Inl e \<Rightarrow> Inl e
            | Inr current \<Rightarrow>
               (case renew (r_local pinned) (r_local current) ''reply_session_mismatch'' of Inl e \<Rightarrow> Inl e
                | Inr _ \<Rightarrow> (case renew (r_remote pinned) (r_remote current) ''reply_remote_mismatch'' of Inl e \<Rightarrow> Inl e
                   | Inr _ \<Rightarrow> Inr current))))"

section \<open>The store\<close>

text \<open>
  The table \<open>local_reply_routes\<close> as key, route pairs (the JSON text of a route is
  the route).  The three operations run inside the journal's transaction.
\<close>

type_synonym route_table = "(string \<times> reply_route) list"

definition route_read :: "node_env \<Rightarrow> string \<Rightarrow> route_table \<Rightarrow> reply_route option result" where
  "route_read E key tab = (case sel fst key tab of
      None \<Rightarrow> Inr None
    | Some (_, route) \<Rightarrow>
       (case createLocalReplyRoute E (r_request route) (r_local route) (r_remote route) of
          Inl e \<Rightarrow> Inl e
        | Inr valid \<Rightarrow>
            if r_schema route \<noteq> r_schema valid \<or> r_transport route \<noteq> r_transport valid \<or>
               r_key route \<noteq> r_key valid \<or> r_key route \<noteq> key
            then Inl (Coded ''invalid_reply_route'') else Inr (Some valid)))"

definition route_write :: "string \<Rightarrow> reply_route \<Rightarrow> route_table \<Rightarrow> route_table" where
  "route_write key route tab = upd_where (\<lambda>p. fst p = key) (\<lambda>p. (key, route)) tab"

definition pinInTransaction :: "node_env \<Rightarrow> string \<Rightarrow> observation \<Rightarrow> observation \<Rightarrow> (route_table, reply_route) op" where
  "pinInTransaction E requestId local remote tab =
    (case createLocalReplyRoute E requestId local remote of Inl e \<Rightarrow> (Inl e, tab)
     | Inr route \<Rightarrow> (case route_read E (r_key route) tab of Inl e \<Rightarrow> (Inl e, tab)
        | Inr (Some old) \<Rightarrow>
            (case verifyLocalReplyRoute E old (r_local route) (r_remote route) of
               Inl _ \<Rightarrow> (Inl (Coded ''reply_route_conflict''), tab)
             | Inr nxt \<Rightarrow> (Inr nxt, route_write (r_key route) nxt tab))
        | Inr None \<Rightarrow> (Inr route, tab @ [(r_key route, route)])))"

definition verifyInTransaction :: "node_env \<Rightarrow> string \<Rightarrow> observation \<Rightarrow> observation \<Rightarrow> route_table \<Rightarrow> reply_route result" where
  "verifyInTransaction E key local remote tab =
    (case route_read E key tab of Inl e \<Rightarrow> Inl e
     | Inr None \<Rightarrow> Inl (Coded ''reply_route_missing'')
     | Inr (Some old) \<Rightarrow> verifyLocalReplyRoute E old local remote)"

definition advanceInTransaction :: "node_env \<Rightarrow> string \<Rightarrow> observation \<Rightarrow> observation \<Rightarrow> (route_table, reply_route) op" where
  "advanceInTransaction E key local remote tab =
    (case verifyInTransaction E key local remote tab of Inl e \<Rightarrow> (Inl e, tab)
     | Inr nxt \<Rightarrow> (Inr nxt, route_write key nxt tab))"

section \<open>What a pin guarantees\<close>

text \<open>\<open>renews a b\<close>: \<open>b\<close> is the identity \<open>a\<close>, at the same or a later generation.\<close>

definition renews :: "observation \<Rightarrow> observation \<Rightarrow> bool" where
  "renews a b \<longleftrightarrow> o_address b = o_address a \<and> o_principal b = o_principal a \<and> o_origin b = o_origin a \<and>
     o_generation a \<le> o_generation b \<and>
     (case o_binding_generation a of None \<Rightarrow> True | Some g \<Rightarrow> (\<exists>h. o_binding_generation b = Some h \<and> g \<le> h))"

definition valid_observation :: "node_env \<Rightarrow> bool \<Rightarrow> observation \<Rightarrow> bool" where
  "valid_observation E i v \<longleftrightarrow> observe E i v = Inr v"

lemma observe_Inr: "observe E i v = Inr w \<Longrightarrow> w = v \<and> valid_observation E i v"
  by (auto simp: observe_def valid_observation_def split: if_splits option.splits)

lemma renews_refl [simp, intro]: "renews a a"
  by (simp add: renews_def split: option.splits)

lemma renews_trans: "renews a b \<Longrightarrow> renews b c \<Longrightarrow> renews a c"
  by (fastforce simp: renews_def split: option.splits)

lemma renew_Inr:
  assumes "renew a b code = Inr u" "valid_observation E i a" "valid_observation E i b"
  shows "renews a b"
proof -
  have same: "o_address b = o_address a" "o_principal b = o_principal a" "o_origin b = o_origin a"
    and gen: "o_generation a \<le> o_generation b"
    and bg: "case o_binding_generation a of None \<Rightarrow> True | Some g \<Rightarrow> g \<le> opt_or (o_binding_generation b) 0"
    using assms(1) by (auto simp: renew_def split: if_splits option.splits)
  have pos: "o_binding_generation a = Some g \<Longrightarrow> 0 < g" for g
    using assms(2) by (auto simp: valid_observation_def observe_def split: if_splits option.splits)
  have "g \<le> opt_or (o_binding_generation b) 0 \<Longrightarrow> o_binding_generation a = Some g \<Longrightarrow>
      \<exists>h. o_binding_generation b = Some h \<and> g \<le> h" for g
    using pos by (cases "o_binding_generation b") force+
  with same gen bg show ?thesis by (auto simp: renews_def split: option.splits)
qed

lemma createLocalReplyRoute_Inr:
  "createLocalReplyRoute E q l m = Inr r \<longleftrightarrow> REQUEST_PATTERN q \<and> valid_observation E True l \<and> valid_observation E False m \<and>
     r = \<lparr>r_schema = ''local_reply_route_v1'', r_transport = ''local-socket'', r_key = route_key (o_address m) q,
          r_request = q, r_local = l, r_remote = m\<rparr>"
  by (auto simp: createLocalReplyRoute_def valid_observation_def split: sum.splits dest: observe_Inr)

definition valid_route :: "node_env \<Rightarrow> reply_route \<Rightarrow> bool" where
  "valid_route E r \<longleftrightarrow> createLocalReplyRoute E (r_request r) (r_local r) (r_remote r) = Inr r"

lemma route_read_Some: "route_read E key tab = Inr (Some r) \<Longrightarrow> sel fst key tab = Some (key, r) \<and> valid_route E r \<and> r_key r = key"
  by (auto simp: route_read_def createLocalReplyRoute_Inr valid_route_def split: option.splits sum.splits if_splits
      dest: sel_SomeD)

lemma route_read_None: "route_read E key tab = Inr None \<Longrightarrow> sel fst key tab = None"
  by (auto simp: route_read_def split: option.splits sum.splits if_splits)

lemma verify_Inr:
  assumes "verifyLocalReplyRoute E old l m = Inr nxt" "valid_route E old"
  shows "valid_route E nxt \<and> r_key nxt = r_key old \<and> r_request nxt = r_request old \<and> r_local nxt = l \<and> r_remote nxt = m \<and>
    renews (r_local old) l \<and> renews (r_remote old) m"
proof -
  from assms have old: "createLocalReplyRoute E (r_request old) (r_local old) (r_remote old) = Inr old"
    by (simp add: valid_route_def)
  with assms(1) obtain u v where c: "createLocalReplyRoute E (r_request old) l m = Inr nxt"
    and r: "renew (r_local old) (r_local nxt) ''reply_session_mismatch'' = Inr u"
      "renew (r_remote old) (r_remote nxt) ''reply_remote_mismatch'' = Inr v"
    by (auto simp: verifyLocalReplyRoute_def split: if_splits sum.splits)
  have lm: "r_local nxt = l" "r_remote nxt = m" "r_request nxt = r_request old"
    and vl: "valid_observation E True l" and vm: "valid_observation E False m"
    and k: "r_key nxt = route_key (o_address m) (r_request old)"
    using c by (auto simp: createLocalReplyRoute_Inr)
  have o: "valid_observation E True (r_local old)" "valid_observation E False (r_remote old)"
    "r_key old = route_key (o_address (r_remote old)) (r_request old)"
    using old by (cases old; simp add: createLocalReplyRoute_Inr)+
  have rl: "renews (r_local old) l" using renew_Inr [OF r(1) o(1)] vl lm by simp
  have rm: "renews (r_remote old) m" using renew_Inr [OF r(2) o(2)] vm lm by simp
  have "valid_route E nxt" using c lm by (simp add: valid_route_def)
  with rl rm lm k o(3) show ?thesis by (simp add: renews_def)
qed

text \<open>A pin of the table: the valid route stored under its key.\<close>

definition pinned :: "node_env \<Rightarrow> route_table \<Rightarrow> string \<Rightarrow> reply_route option" where
  "pinned E tab key = (case route_read E key tab of Inr (Some r) \<Rightarrow> Some r | _ \<Rightarrow> None)"

text \<open>\<open>advances tab tab'\<close>: every pin is still there, for the same identities, no generation went back.\<close>

definition advances :: "node_env \<Rightarrow> route_table \<Rightarrow> route_table \<Rightarrow> bool" where
  "advances E tab tab' \<longleftrightarrow> (\<forall>k r. pinned E tab k = Some r \<longrightarrow>
     (\<exists>r'. pinned E tab' k = Some r' \<and> r_request r' = r_request r \<and>
        renews (r_local r) (r_local r') \<and> renews (r_remote r) (r_remote r')))"

lemma advances_refl [simp, intro]: "advances E tab tab"
  by (simp add: advances_def)

lemma advances_trans: "advances E a b \<Longrightarrow> advances E b c \<Longrightarrow> advances E a c"
  unfolding advances_def by (fastforce intro: renews_trans)

lemma sel_route_write:
  "sel fst k (route_write key r tab) = (if k = key \<and> sel fst key tab \<noteq> None then Some (key, r) else sel fst k tab)"
  by (induction tab) (auto simp: route_write_def upd_where_def sel_Cons)

lemma pinned_eq: "pinned E tab k = Some r \<longleftrightarrow> sel fst k tab = Some (k, r) \<and> valid_route E r \<and> r_key r = k"
proof
  show "pinned E tab k = Some r \<Longrightarrow> sel fst k tab = Some (k, r) \<and> valid_route E r \<and> r_key r = k"
    using route_read_Some by (auto simp: pinned_def split: sum.splits option.splits)
next
  assume a: "sel fst k tab = Some (k, r) \<and> valid_route E r \<and> r_key r = k"
  then have "createLocalReplyRoute E (r_request r) (r_local r) (r_remote r) = Inr r" by (simp add: valid_route_def)
  with a show "pinned E tab k = Some r" by (simp add: pinned_def route_read_def)
qed

lemma route_write_advances:
  assumes "pinned E tab key = Some old" "valid_route E nxt" "r_key nxt = key" "r_request nxt = r_request old"
    "renews (r_local old) (r_local nxt)" "renews (r_remote old) (r_remote nxt)"
  shows "advances E tab (route_write key nxt tab)"
  unfolding advances_def
proof (intro allI impI)
  fix k r assume "pinned E tab k = Some r"
  then show "\<exists>r'. pinned E (route_write key nxt tab) k = Some r' \<and> r_request r' = r_request r \<and>
      renews (r_local r) (r_local r') \<and> renews (r_remote r) (r_remote r')"
    using assms by (cases "k = key") (auto simp: pinned_eq sel_route_write)
qed

lemma route_insert_advances:
  "sel fst key tab = None \<Longrightarrow> advances E tab (tab @ [(key, r)])"
  by (auto simp: advances_def pinned_eq sel_append sel_Cons)

lemma verifyInTransaction_Inr:
  assumes "verifyInTransaction E key l m tab = Inr nxt"
  obtains old where "pinned E tab key = Some old" "valid_route E nxt" "r_key nxt = key" "r_request nxt = r_request old"
    "r_local nxt = l" "r_remote nxt = m" "renews (r_local old) l" "renews (r_remote old) m"
proof -
  from assms obtain old where old: "route_read E key tab = Inr (Some old)" "verifyLocalReplyRoute E old l m = Inr nxt"
    by (auto simp: verifyInTransaction_def split: sum.splits option.splits)
  from route_read_Some [OF old(1)] have "valid_route E old" "r_key old = key" by auto
  with verify_Inr [OF old(2)] old(1) that [of old] show thesis by (auto simp: pinned_def)
qed

lemma pinInTransaction_advances: "advances E tab (snd (pinInTransaction E q l m tab))"
proof (cases "createLocalReplyRoute E q l m")
  case (Inr route)
  show ?thesis
  proof (cases "route_read E (r_key route) tab")
    case Inr2: (Inr o')
    show ?thesis
    proof (cases o')
      case None
      with Inr Inr2 show ?thesis
        by (simp add: pinInTransaction_def route_insert_advances route_read_None)
    next
      case (Some old)
      with Inr2 have r: "valid_route E old" "pinned E tab (r_key route) = Some old" "r_key old = r_key route"
        using route_read_Some by (auto simp: pinned_def)
      show ?thesis
      proof (cases "verifyLocalReplyRoute E old (r_local route) (r_remote route)")
        case (Inr nxt)
        with verify_Inr [OF this r(1)] r have "advances E tab (route_write (r_key route) nxt tab)"
          by (intro route_write_advances) auto
        with \<open>createLocalReplyRoute E q l m = Inr route\<close> Inr2 Some Inr show ?thesis
          by (simp add: pinInTransaction_def)
      qed (use Inr Inr2 Some in \<open>simp add: pinInTransaction_def\<close>)
    qed
  qed (use Inr in \<open>simp add: pinInTransaction_def\<close>)
qed (simp add: pinInTransaction_def)

lemma advanceInTransaction_advances: "advances E tab (snd (advanceInTransaction E key l m tab))"
proof (cases "verifyInTransaction E key l m tab")
  case (Inr nxt)
  from verifyInTransaction_Inr [OF Inr] show ?thesis
    using Inr by (simp add: advanceInTransaction_def) (metis route_write_advances)
qed (simp add: advanceInTransaction_def)

end
