(* ===== verification/Journal_State.thy ===== *)
theory Journal_State
  imports Reply_Route "HOL-Library.Product_Lexorder"
begin

text \<open>
  The durable state of the local messaging journal
  (\<open>packages/agent-worker/src/local-messaging-journal.mjs\<close>): one record per table
  of its SQLite schema, the rows as the code maps them to results
  (\<open>mapMessageRow\<close>, \<open>mapReplyRow\<close>), and the helpers the operations share.
  A nullable column is an \<^typ>\<open>'a option\<close>; a column that holds JSON text holds
  the JSON value; the enumerated text columns are datatypes.
\<close>

section \<open>Rows\<close>

datatype phase = Queued_local | Executing | Completed | Held | Failed

record message_row =
  m_message_id :: string
  m_sender :: string
  m_recipient :: string
  m_recipient_type :: string
  m_request_id :: string
  m_in_reply_to :: "string option"
  m_text :: string
  m_metadata :: "json option"
  m_canonical_hash :: string
  m_phase :: phase
  m_reason :: "string option"
  m_runtime_error :: "string option"
  m_created_at :: int
  m_updated_at :: int
  m_to_principal :: "string option"
  m_resolved_via :: "string option"
  m_reply_route_key :: "string option"
  m_late_result_text :: "string option"
  m_claim_token :: "string option"
  m_claim_session_id :: "string option"
  m_claim_generation :: "int option"
  m_lease_expires_at :: "int option"
  m_claim_operation_id :: "string option"
  m_sender_provenance :: "json option"

record reply_row =
  y_message_id :: string
  y_sender :: string
  y_recipient :: string
  y_request_id :: string
  y_in_reply_to :: string
  y_text :: string
  y_metadata :: "json option"
  y_canonical_hash :: string
  y_consumed :: bool
  y_created_at :: int
  y_updated_at :: int
  y_sender_provenance :: "json option"
  y_reconcile_id :: "string option"

record pair_row =
  pa_pair_key :: string
  pa_message_id :: string
  pa_created_at :: int

datatype reconcile_action = MarkFailed | MarkCompleted | AcceptLateResult

record recon_row =
  rc_reconcile_id :: string
  rc_message_id :: string
  rc_action :: reconcile_action
  rc_from_phase :: phase
  rc_from_reason :: "string option"
  rc_expected_version :: string
  rc_late_sha256 :: "string option"
  rc_reply_message_id :: "string option"
  rc_outcome_phase :: phase
  rc_note :: "string option"
  rc_created_at :: int

datatype delivery_state = Idle | Submitting | AcceptedAwaitingAck | Uncertain | StaleHeld

text \<open>
  A wake fingerprint is a text: the version 2 form lists the hashes of the
  obligations, any other text is a legacy fingerprint.
\<close>

datatype fingerprint = V2 "string list" | Legacy string

record wake_row =
  wb_target :: string
  wb_binding_id :: string
  wb_auth_binding_id :: "string option"
  wb_thread_id :: string
  wb_generation :: int
  wb_state :: delivery_state
  wb_active_wake :: "string option"
  wb_active_fp :: "fingerprint option"
  wb_acked_fp :: "fingerprint option"
  wb_acked_wake :: "string option"
  wb_receipt_queued :: "string option"
  wb_receipt_thread :: "string option"
  wb_last_submitted :: "int option"
  wb_created_at :: int
  wb_updated_at :: int

datatype history_state = HSubmitting | HAccepted | HUncertain | HAcknowledged

record history_row =
  h_target :: string
  h_session :: string
  h_binding :: string
  h_generation :: int
  h_wake :: string
  h_state :: history_state
  h_created_at :: int
  h_updated_at :: int

datatype lifecycle = Observed | Ended

record host_process =
  hp_pid :: int
  hp_start :: string
  hp_scope :: string

record discovered_row =
  d_id :: string
  d_installation :: string
  d_workspace :: string
  d_session_hash :: string
  d_lifecycle :: lifecycle
  d_generation :: int
  d_event_at :: int
  d_last_seen :: int
  d_harness :: string
  d_origin :: string
  d_title :: "string option"
  d_host :: "host_process option"

record ended_row =
  en_id :: string
  en_event_at :: int
  en_generation :: int
  en_last_seen :: int

record discovery_result =
  dr_id :: string
  dr_generation :: int
  dr_stale :: bool
  dr_duplicate :: bool

record event_row =
  ev_event_id :: string
  ev_digest :: string
  ev_result :: discovery_result
  ev_received_at :: int

record attachment_row =
  at_id :: string
  at_child :: string
  at_generation :: int
  at_installation :: string
  at_expires :: int
  at_wake_capable :: bool

section \<open>Rows as the callers see them\<close>

record message_view =
  v_messageId :: string
  v_senderProvenance :: "json option"
  v_sender :: string
  v_recipient :: string
  v_recipientType :: string
  v_requestId :: string
  v_inReplyTo :: "string option"
  v_text :: string
  v_metadata :: "json option"
  v_loopDepth :: "json option"
  v_phase :: phase
  v_reason :: "string option"
  v_runtimeError :: "string option"
  v_claimSessionId :: "string option"
  v_claimGeneration :: "int option"
  v_leaseExpiresAt :: "int option"
  v_hasLateResult :: bool
  v_createdAt :: int
  v_updatedAt :: int
  v_to_principal :: "string option"
  v_resolved_via :: "string option"

record reply_view =
  w_messageId :: string
  w_senderProvenance :: "json option"
  w_sender :: string
  w_recipient :: string
  w_requestId :: string
  w_inReplyTo :: string
  w_text :: string
  w_metadata :: "json option"
  w_loopDepth :: "json option"
  w_consumed :: bool
  w_reconciled :: "string option"
  w_createdAt :: int
  w_updatedAt :: int

definition loop_depth_of :: "json option \<Rightarrow> json option" where
  "loop_depth_of md = (case md of None \<Rightarrow> None | Some j \<Rightarrow>
     (case obj_get j ''_loopDepth'' of None \<Rightarrow> None | Some JNull \<Rightarrow> None | Some d \<Rightarrow> Some d))"

definition mapMessageRow :: "message_row \<Rightarrow> message_view" where
  "mapMessageRow r = \<lparr>
     v_messageId = m_message_id r, v_senderProvenance = m_sender_provenance r,
     v_sender = m_sender r, v_recipient = m_recipient r, v_recipientType = m_recipient_type r,
     v_requestId = m_request_id r, v_inReplyTo = m_in_reply_to r, v_text = m_text r,
     v_metadata = m_metadata r, v_loopDepth = loop_depth_of (m_metadata r), v_phase = m_phase r,
     v_reason = m_reason r, v_runtimeError = m_runtime_error r, v_claimSessionId = m_claim_session_id r,
     v_claimGeneration = m_claim_generation r, v_leaseExpiresAt = m_lease_expires_at r,
     v_hasLateResult = truthy (m_late_result_text r), v_createdAt = m_created_at r,
     v_updatedAt = m_updated_at r, v_to_principal = m_to_principal r, v_resolved_via = m_resolved_via r\<rparr>"

definition mapReplyRow :: "reply_row \<Rightarrow> reply_view" where
  "mapReplyRow r = \<lparr>
     w_messageId = y_message_id r, w_senderProvenance = y_sender_provenance r,
     w_sender = y_sender r, w_recipient = y_recipient r, w_requestId = y_request_id r,
     w_inReplyTo = y_in_reply_to r, w_text = y_text r, w_metadata = y_metadata r,
     w_loopDepth = loop_depth_of (y_metadata r), w_consumed = y_consumed r,
     w_reconciled = (if truthy (y_reconcile_id r) then y_reconcile_id r else None),
     w_createdAt = y_created_at r, w_updatedAt = y_updated_at r\<rparr>"

section \<open>The journal\<close>

record journal =
  j_messages :: "message_row list"
  j_replies :: "reply_row list"
  j_pairs :: "pair_row list"
  j_recons :: "recon_row list"
  j_bindings :: "wake_row list"
  j_history :: "history_row list"
  j_discovered :: "discovered_row list"
  j_ended :: "ended_row list"
  j_events :: "event_row list"
  j_attachments :: "attachment_row list"
  j_routes :: route_table
  j_uncertain :: "message_view list"
  j_closed :: bool

text \<open>
  The options of \<open>createLocalMessagingJournal\<close> that the operations read; \<open>c_routes\<close>
  says that a reply route store was injected.
\<close>

record journal_cfg =
  c_maxPairRequests :: int
  c_pairWindowMs :: int
  c_titles :: bool
  c_routes :: bool

definition DEFAULT_MAX_PAIR_EXCHANGES :: int where
  "DEFAULT_MAX_PAIR_EXCHANGES = 10"

definition DEFAULT_PAIR_WINDOW_MS :: int where
  "DEFAULT_PAIR_WINDOW_MS = 10 * 60 * 1000"

definition RETENTION_MS :: int where
  "RETENTION_MS = 8 * 24 * 60 * 60 * 1000"

definition MAX_PAYLOAD_BYTES :: nat where
  "MAX_PAYLOAD_BYTES = 256 * 1024"

definition default_cfg :: journal_cfg where
  "default_cfg = \<lparr>c_maxPairRequests = DEFAULT_MAX_PAIR_EXCHANGES, c_pairWindowMs = DEFAULT_PAIR_WINDOW_MS,
     c_titles = True, c_routes = False\<rparr>"

text \<open>An empty journal: the freshly created schema.\<close>

definition empty_journal :: journal where
  "empty_journal = \<lparr>j_messages = [], j_replies = [], j_pairs = [], j_recons = [], j_bindings = [],
     j_history = [], j_discovered = [], j_ended = [], j_events = [], j_attachments = [], j_routes = [],
     j_uncertain = [], j_closed = False\<rparr>"

text \<open>\<open>assertNotClosed()\<close> at the head of every operation.\<close>

definition assertNotClosed :: "(journal, 'a) op \<Rightarrow> (journal, 'a) op" where
  "assertNotClosed body s = (if j_closed s then (Inl (Coded ''journal_closed''), s) else body s)"

definition pairKeyFor :: "string \<Rightarrow> string \<Rightarrow> string" where
  "pairKeyFor a b = (if a < b then a @ [CHR 0x00] @ b else b @ [CHR 0x00] @ a)"

lemma pairKeyFor_commute: "pairKeyFor a b = pairKeyFor b a"
  by (auto simp: pairKeyFor_def)

section \<open>Envelopes\<close>

text \<open>
  The fields a caller supplies.  Required identifiers are plain strings: a missing
  one and the empty string are both falsy and are rejected alike.
\<close>

record envelope =
  e_sender :: string
  e_recipient :: string
  e_messageId :: string
  e_requestId :: string
  e_inReplyTo :: "string option"
  e_text :: "string option"
  e_metadata :: "json option"
  e_recipientType :: "string option"
  e_to_principal :: "string option"
  e_resolved_via :: "string option"

definition opt_json :: "string option \<Rightarrow> json" where
  "opt_json x = (case x of None \<Rightarrow> JNull | Some t \<Rightarrow> JStr t)"

definition meta_json :: "json option \<Rightarrow> json" where
  "meta_json x = (case x of None \<Rightarrow> JNull | Some j \<Rightarrow> j)"

definition envelope_json :: "envelope \<Rightarrow> json" where
  "envelope_json e = JObj [
     (''sender'', JStr (e_sender e)), (''recipient'', JStr (e_recipient e)),
     (''messageId'', JStr (e_messageId e)), (''requestId'', JStr (e_requestId e)),
     (''inReplyTo'', opt_json (e_inReplyTo e)), (''text'', opt_json (e_text e)),
     (''metadata'', meta_json (e_metadata e))]"

definition computeEnvelopeHash :: "node_env \<Rightarrow> envelope \<Rightarrow> string" where
  "computeEnvelopeHash E e = sha256 E (canonicalJson (envelope_json e))"

text \<open>\<open>metadata ? JSON.stringify(metadata) : null\<close>\<close>

definition meta_store :: "json option \<Rightarrow> json option" where
  "meta_store md = (case md of None \<Rightarrow> None
     | Some j \<Rightarrow> if j = JNull \<or> j = JBool False \<or> j = JNum 0 \<or> j = JStr [] then None else Some j)"

text \<open>
  \<open>(metadata?._loopDepth ?? 1) + 1\<close>; JavaScript's \<open>+\<close> concatenates when the
  operand is not a number or a boolean.
\<close>

primrec js_string :: "json \<Rightarrow> string" where
  "js_string JNull = ''null''"
| "js_string (JBool b) = (if b then ''true'' else ''false'')"
| "js_string (JNum n) = num_text n"
| "js_string (JStr s) = s"
| "js_string (JArr xs) = join '','' (map (\<lambda>p. if fst p = JNull then [] else snd p) (map (\<lambda>x. (x, js_string x)) xs))"
| "js_string (JObj kvs) = ''[object Object]''"

definition depth_plus_one :: "json option \<Rightarrow> json" where
  "depth_plus_one d = (case d of None \<Rightarrow> JNum 2
     | Some (JNum n) \<Rightarrow> JNum (n + 1)
     | Some (JBool b) \<Rightarrow> JNum (if b then 2 else 1)
     | Some j \<Rightarrow> JStr (js_string j @ ''1''))"

text \<open>\<open>{ ...(metadata || {}), _loopDepth: depth }\<close>\<close>

definition with_depth :: "json option \<Rightarrow> json \<Rightarrow> json" where
  "with_depth md d = (case md of Some (JObj kvs) \<Rightarrow> JObj (obj_put kvs ''_loopDepth'' d)
     | _ \<Rightarrow> JObj [(''_loopDepth'', d)])"

definition isRouteIntentMatch :: "message_row \<Rightarrow> string option \<Rightarrow> string option \<Rightarrow> bool" where
  "isRouteIntentMatch existing incomingPrincipal incomingVia =
    (let storedPrincipal = m_to_principal existing; storedVia = m_resolved_via existing in
     if storedPrincipal \<noteq> incomingPrincipal then False
     else if storedPrincipal \<noteq> None then storedVia = Some ''principal'' \<and> incomingVia = Some ''principal''
     else if storedVia = Some ''principal'' \<or> incomingVia = Some ''principal'' then False
     else if storedVia = None \<or> incomingVia = None then True
     else storedVia = incomingVia)"

section \<open>Session state that outlives its discovery row\<close>

definition ascii_lower :: "char \<Rightarrow> char" where
  "ascii_lower c = (let n = of_char c :: nat in if 65 \<le> n \<and> n \<le> 90 then char_of (n + 32) else c)"

definition to_lower :: "string \<Rightarrow> string" where
  "to_lower x = map ascii_lower x"

text \<open>\<open>LIKE 'session-%'\<close>: SQLite's LIKE ignores ASCII case.\<close>

definition like_session :: "string \<Rightarrow> bool" where
  "like_session x = (to_lower (take 8 x) = ''session-'')"

definition pruneOrphanedSessionState :: "journal \<Rightarrow> journal" where
  "pruneOrphanedSessionState s =
    (let live = d_id ` set (j_discovered s) in
     s\<lparr>j_history := del_where (\<lambda>h. like_session (h_target h) \<and> h_target h \<notin> live) (j_history s),
       j_bindings := del_where (\<lambda>b. like_session (wb_target b) \<and> wb_target b \<notin> live) (j_bindings s),
       j_attachments := del_where (\<lambda>a. at_id a \<notin> live) (j_attachments s)\<rparr>)"

lemma prune_frame [simp]:
  "j_messages (pruneOrphanedSessionState s) = j_messages s" "j_replies (pruneOrphanedSessionState s) = j_replies s"
  "j_pairs (pruneOrphanedSessionState s) = j_pairs s" "j_recons (pruneOrphanedSessionState s) = j_recons s"
  "j_discovered (pruneOrphanedSessionState s) = j_discovered s" "j_ended (pruneOrphanedSessionState s) = j_ended s"
  "j_events (pruneOrphanedSessionState s) = j_events s" "j_routes (pruneOrphanedSessionState s) = j_routes s"
  "j_closed (pruneOrphanedSessionState s) = j_closed s" "j_uncertain (pruneOrphanedSessionState s) = j_uncertain s"
  by (simp_all add: pruneOrphanedSessionState_def Let_def)

section \<open>The identity behind a pin\<close>

definition checkAttachedIdentity :: "string \<Rightarrow> int \<Rightarrow> int \<Rightarrow> string option \<Rightarrow> journal \<Rightarrow> unit result" where
  "checkAttachedIdentity address generation now bindingId s =
    (case sel d_id address (j_discovered s) of
       None \<Rightarrow> Inl (Coded ''session_fenced'')
     | Some d \<Rightarrow>
        (case sel at_id address (j_attachments s) of
           None \<Rightarrow> Inl (Coded ''session_fenced'')
         | Some a \<Rightarrow>
             if d_lifecycle d = Ended \<or> d_generation d \<noteq> generation \<or> at_generation a \<noteq> generation \<or>
                at_expires a \<le> now \<or> (bindingId \<noteq> None \<and> Some (at_child a) \<noteq> bindingId)
             then Inl (Coded ''session_fenced'') else Inr ()))"

section \<open>Same hash, same envelope\<close>

lemma sort_keys_meta: "sort_keys (meta_json x) = meta_json (map_option sort_keys x)"
  by (cases x) (simp_all add: meta_json_def)

text \<open>Envelopes that agree up to the order of the metadata's object keys.\<close>

definition same_envelope :: "envelope \<Rightarrow> envelope \<Rightarrow> bool" where
  "same_envelope a b \<longleftrightarrow> e_sender a = e_sender b \<and> e_recipient a = e_recipient b \<and> e_messageId a = e_messageId b \<and>
     e_requestId a = e_requestId b \<and> e_inReplyTo a = e_inReplyTo b \<and> e_text a = e_text b \<and>
     sort_keys (meta_json (e_metadata a)) = sort_keys (meta_json (e_metadata b))"

lemma opt_json_inject: "opt_json x = opt_json y \<longleftrightarrow> x = y"
  by (auto simp: opt_json_def split: option.splits)

lemma sort_keys_opt_json [simp]: "sort_keys (opt_json x) = opt_json x"
  by (cases x) (simp_all add: opt_json_def)

lemma canonical_envelope_iff: "canonicalJson (envelope_json a) = canonicalJson (envelope_json b) \<longleftrightarrow> same_envelope a b"
  unfolding canonicalJson_eq_iff same_envelope_def envelope_json_def
  by (auto simp: opt_json_inject)

end
