(* ===== verification/Journal_Messages.thy ===== *)
theory Journal_Messages
  imports Journal_State
begin

text \<open>
  Admission, replies and execution transitions of the journal
  (\<open>local-messaging-journal.mjs\<close>): \<open>recordSend\<close>, \<open>recordReply\<close>,
  \<open>completeExecutionWithReply\<close>, \<open>listReplies\<close>, \<open>consumeReply\<close>, \<open>getRecord\<close>,
  \<open>recoverQueued\<close>, \<open>claimExecution\<close>, \<open>completeExecution\<close>, \<open>holdExecution\<close>,
  \<open>recordExecutionFailure\<close>, \<open>compact\<close>, \<open>status\<close> and the crash recovery of the
  open.  Readings of the clock (\<open>Date.now()\<close>) are arguments.
\<close>

section \<open>The size of a record\<close>

text \<open>\<open>JSON.stringify(mapMessageRow(row))\<close>\<close>

definition phase_text :: "phase \<Rightarrow> string" where
  "phase_text p = (case p of Queued_local \<Rightarrow> ''queued_local'' | Executing \<Rightarrow> ''executing''
     | Completed \<Rightarrow> ''completed'' | Held \<Rightarrow> ''held'' | Failed \<Rightarrow> ''failed'')"

definition opt_num_json :: "int option \<Rightarrow> json" where
  "opt_num_json x = (case x of None \<Rightarrow> JNull | Some n \<Rightarrow> JNum n)"

definition opt_member :: "string \<Rightarrow> json option \<Rightarrow> (string \<times> json) list" where
  "opt_member k v = (case v of None \<Rightarrow> [] | Some j \<Rightarrow> [(k, j)])"

definition message_json :: "message_view \<Rightarrow> json" where
  "message_json v = JObj (
     [(''messageId'', JStr (v_messageId v))] @ opt_member ''senderProvenance'' (v_senderProvenance v) @
     [(''sender'', JStr (v_sender v)), (''recipient'', JStr (v_recipient v)),
      (''recipientType'', JStr (v_recipientType v)), (''requestId'', JStr (v_requestId v)),
      (''inReplyTo'', opt_json (v_inReplyTo v)), (''text'', JStr (v_text v)),
      (''metadata'', meta_json (v_metadata v))] @ opt_member ''loopDepth'' (v_loopDepth v) @
     [(''phase'', JStr (phase_text (v_phase v))), (''reason'', opt_json (v_reason v)),
      (''runtimeError'', opt_json (v_runtimeError v)), (''claimSessionId'', opt_json (v_claimSessionId v)),
      (''claimGeneration'', opt_num_json (v_claimGeneration v)), (''leaseExpiresAt'', opt_num_json (v_leaseExpiresAt v)),
      (''hasLateResult'', JBool (v_hasLateResult v)), (''createdAt'', JNum (v_createdAt v)),
      (''updatedAt'', JNum (v_updatedAt v)), (''to_principal'', opt_json (v_to_principal v)),
      (''resolved_via'', opt_json (v_resolved_via v))])"

definition view_bytes :: "message_view \<Rightarrow> nat" where
  "view_bytes v = length (stringify (message_json v))"

section \<open>Admission\<close>

record send_options =
  so_to_principal :: "string option"
  so_resolved_via :: "string option"
  so_recipientType :: "string option"
  so_maxPairRequests :: "int option"
  so_pairWindowMs :: "int option"
  so_now :: "int option"
  so_replyRoute :: "reply_route option"
  so_replySenderBindingId :: "string option"
  so_senderProvenance :: "json option"

definition no_options :: send_options where
  "no_options = \<lparr>so_to_principal = None, so_resolved_via = None, so_recipientType = None, so_maxPairRequests = None,
     so_pairWindowMs = None, so_now = None, so_replyRoute = None, so_replySenderBindingId = None,
     so_senderProvenance = None\<rparr>"

definition envelope_incomplete :: "envelope \<Rightarrow> bool" where
  "envelope_incomplete e = (e_sender e = [] \<or> e_recipient e = [] \<or> e_messageId e = [] \<or> e_requestId e = [] \<or> e_text e = None)"

definition send_recipient_type :: "envelope \<Rightarrow> send_options \<Rightarrow> string" where
  "send_recipient_type e opts = opt_or (coalesce (e_recipientType e) (so_recipientType opts)) ''runner''"

definition bad_reply_route :: "journal_cfg \<Rightarrow> envelope \<Rightarrow> send_options \<Rightarrow> bool" where
  "bad_reply_route C e opts = (case so_replyRoute opts of None \<Rightarrow> False
     | Some route \<Rightarrow> \<not> c_routes C \<or> r_request route \<noteq> e_requestId e \<or> o_address (r_local route) \<noteq> e_recipient e \<or>
         o_address (r_remote route) \<noteq> e_sender e \<or>
         coalesce (e_recipientType e) (so_recipientType opts) \<noteq> Some ''interactive'')"

definition new_message_row :: "node_env \<Rightarrow> int \<Rightarrow> envelope \<Rightarrow> send_options \<Rightarrow> message_row" where
  "new_message_row E now e opts = \<lparr>
     m_message_id = e_messageId e, m_sender = e_sender e, m_recipient = e_recipient e,
     m_recipient_type = send_recipient_type e opts, m_request_id = e_requestId e, m_in_reply_to = e_inReplyTo e,
     m_text = opt_or (e_text e) [], m_metadata = meta_store (e_metadata e), m_canonical_hash = computeEnvelopeHash E e,
     m_phase = Queued_local, m_reason = None, m_runtime_error = None, m_created_at = now, m_updated_at = now,
     m_to_principal = coalesce (e_to_principal e) (so_to_principal opts),
     m_resolved_via = coalesce (e_resolved_via e) (so_resolved_via opts),
     m_reply_route_key = None, m_late_result_text = None, m_claim_token = None, m_claim_session_id = None,
     m_claim_generation = None, m_lease_expires_at = None, m_claim_operation_id = None, m_sender_provenance = None\<rparr>"

definition pair_count :: "string \<Rightarrow> int \<Rightarrow> pair_row list \<Rightarrow> nat" where
  "pair_count key cutoff rows = length (filter (\<lambda>p. pa_pair_key p = key \<and> cutoff < pa_created_at p) rows)"

text \<open>The reply pin of an admission: the two identity checks, the pin, the two columns.\<close>

definition pin_request :: "node_env \<Rightarrow> int \<Rightarrow> string \<Rightarrow> send_options \<Rightarrow> reply_route \<Rightarrow> (journal, unit) op" where
  "pin_request E now mid opts route s =
    (if \<not> truthy (so_replySenderBindingId opts) then (Inl (Coded ''session_fenced''), s)
     else case checkAttachedIdentity (o_address (r_local route)) (o_generation (r_local route)) now None s of
        Inl e \<Rightarrow> (Inl e, s)
      | Inr _ \<Rightarrow>
        (case checkAttachedIdentity (o_address (r_remote route)) (o_generation (r_remote route)) now (so_replySenderBindingId opts) s of
           Inl e \<Rightarrow> (Inl e, s)
         | Inr _ \<Rightarrow>
           (case pinInTransaction E (r_request route) (r_local route) (r_remote route) (j_routes s) of
              (Inl e, tab) \<Rightarrow> (Inl e, s\<lparr>j_routes := tab\<rparr>)
            | (Inr pin, tab) \<Rightarrow> (Inr (), s\<lparr>j_routes := tab,
                 j_messages := upd_where (\<lambda>r. m_message_id r = mid)
                   (\<lambda>r. r\<lparr>m_reply_route_key := Some (r_key pin), m_sender_provenance := so_senderProvenance opts\<rparr>)
                   (j_messages s)\<rparr>))))"

definition recordSend_tx :: "node_env \<Rightarrow> journal_cfg \<Rightarrow> int \<Rightarrow> envelope \<Rightarrow> send_options \<Rightarrow> (journal, message_view \<times> bool) op" where
  "recordSend_tx E C clock e opts s =
    (case sel m_message_id (e_messageId e) (j_messages s) of
       Some existing \<Rightarrow>
         if m_canonical_hash existing = computeEnvelopeHash E e \<and>
            m_recipient_type existing = send_recipient_type e opts \<and>
            isRouteIntentMatch existing (coalesce (e_to_principal e) (so_to_principal opts))
              (coalesce (e_resolved_via e) (so_resolved_via opts)) \<and>
            m_reply_route_key existing = map_option r_key (so_replyRoute opts)
         then (Inr (mapMessageRow existing, True), s)
         else (Inl (Coded ''duplicate_id_conflict''), s)
     | None \<Rightarrow>
        (let effectiveMax = opt_or (so_maxPairRequests opts) (c_maxPairRequests C);
             effectiveWindow = opt_or (so_pairWindowMs opts) (c_pairWindowMs C);
             now = opt_or (so_now opts) clock;
             pairKey = pairKeyFor (e_sender e) (e_recipient e)
         in if effectiveMax \<le> int (pair_count pairKey (now - effectiveWindow) (j_pairs s))
            then (Inl (Coded ''exchange_limit_exceeded''), s)
            else
              let s1 = s\<lparr>j_messages := j_messages s @ [new_message_row E now e opts]\<rparr>
              in case (case so_replyRoute opts of None \<Rightarrow> (Inr (), s1)
                       | Some route \<Rightarrow> pin_request E now (e_messageId e) opts route s1) of
                   (Inl err, s2) \<Rightarrow> (Inl err, s2)
                 | (Inr _, s2) \<Rightarrow>
                     if sel pa_message_id (e_messageId e) (j_pairs s2) \<noteq> None
                     then (Inl (OtherErr ''SQLITE_CONSTRAINT_PRIMARYKEY''), s2)
                     else
                       let s3 = s2\<lparr>j_pairs := j_pairs s2 @ [\<lparr>pa_pair_key = pairKey, pa_message_id = e_messageId e, pa_created_at = now\<rparr>]\<rparr>
                       in case sel m_message_id (e_messageId e) (j_messages s3) of
                            None \<Rightarrow> (Inl TypeErr, s3)
                          | Some row \<Rightarrow>
                              if so_replyRoute opts \<noteq> None \<and> MAX_PAYLOAD_BYTES - 4096 < view_bytes (mapMessageRow row)
                              then (Inl (Coded ''payload_too_large''), s3)
                              else (Inr (mapMessageRow row, False), s3)))"

definition recordSend :: "node_env \<Rightarrow> journal_cfg \<Rightarrow> int \<Rightarrow> envelope \<Rightarrow> send_options \<Rightarrow> (journal, message_view \<times> bool) op" where
  "recordSend E C clock e opts = assertNotClosed (\<lambda>s.
     if envelope_incomplete e then (Inl (Coded ''invalid_envelope''), s)
     else if bad_reply_route C e opts then (Inl (Coded ''invalid_reply_route''), s)
     else transaction (recordSend_tx E C clock e opts) s)"

section \<open>Replies\<close>

definition new_reply_row :: "node_env \<Rightarrow> int \<Rightarrow> envelope \<Rightarrow> reply_row" where
  "new_reply_row E now e = \<lparr>
     y_message_id = e_messageId e, y_sender = e_sender e, y_recipient = e_recipient e,
     y_request_id = e_requestId e, y_in_reply_to = opt_or (e_inReplyTo e) [], y_text = opt_or (e_text e) [],
     y_metadata = meta_store (e_metadata e), y_canonical_hash = computeEnvelopeHash E e, y_consumed = False,
     y_created_at = now, y_updated_at = now, y_sender_provenance = None, y_reconcile_id = None\<rparr>"

definition recordReplySync :: "node_env \<Rightarrow> int \<Rightarrow> envelope \<Rightarrow> (journal, reply_view \<times> bool) op" where
  "recordReplySync E now e = assertNotClosed (\<lambda>s.
     if envelope_incomplete e \<or> \<not> truthy (e_inReplyTo e) then (Inl (Coded ''invalid_envelope''), s)
     else case sel m_message_id (opt_or (e_inReplyTo e) []) (j_messages s) of
        None \<Rightarrow> (Inl (Coded ''invalid_reply_correlation''), s)
      | Some orig \<Rightarrow>
          if e_recipient e \<noteq> m_sender orig then (Inl (Coded ''invalid_reply_recipient''), s)
          else if e_sender e \<noteq> m_recipient orig then (Inl (Coded ''invalid_reply_sender''), s)
          else if e_requestId e \<noteq> m_request_id orig then (Inl (Coded ''invalid_reply_correlation''), s)
          else case sel y_message_id (e_messageId e) (j_replies s) of
              Some existing \<Rightarrow>
                if y_canonical_hash existing = computeEnvelopeHash E e
                then (Inr (mapReplyRow existing, True), s)
                else (Inl (Coded ''duplicate_id_conflict''), s)
            | None \<Rightarrow>
                (Inr (mapReplyRow (new_reply_row E now e), False),
                 s\<lparr>j_replies := j_replies s @ [new_reply_row E now e]\<rparr>))"

definition recordReply :: "node_env \<Rightarrow> int \<Rightarrow> envelope \<Rightarrow> (journal, reply_view \<times> bool) op" where
  "recordReply = recordReplySync"

definition set_phase :: "phase \<Rightarrow> int \<Rightarrow> message_row \<Rightarrow> message_row" where
  "set_phase p now r = r\<lparr>m_phase := p, m_updated_at := now\<rparr>"

definition completeExecutionWithReply_tx :: "node_env \<Rightarrow> int \<Rightarrow> int \<Rightarrow> envelope \<Rightarrow> (journal, reply_view \<times> bool) op" where
  "completeExecutionWithReply_tx E now1 now2 e s =
    (let mid = opt_or (e_inReplyTo e) [] in
     case sel m_message_id mid (j_messages s) of
       None \<Rightarrow> (Inl (Coded ''invalid_reply_correlation''), s)
     | Some orig \<Rightarrow>
         if m_recipient_type orig \<noteq> ''runner'' \<or> truthy (m_reply_route_key orig) then (Inl (Coded ''invalid_recipient_type''), s)
         else if m_phase orig \<notin> {Executing, Completed} then (Inl (Coded ''execution_not_active''), s)
         else
           let stored = find (\<lambda>y. y_in_reply_to y = mid) (j_replies s) in
           if (case stored of None \<Rightarrow> False | Some y \<Rightarrow> y_message_id y \<noteq> e_messageId e)
           then (Inl (Coded ''duplicate_id_conflict''), s)
           else if m_phase orig = Completed \<and> stored = None then (Inl (Coded ''execution_not_active''), s)
           else case recordReplySync E now1 e s of
               (Inl err, s1) \<Rightarrow> (Inl err, s1)
             | (Inr reply, s1) \<Rightarrow>
                 if m_phase orig = Executing then
                   if changes (\<lambda>r. m_message_id r = m_message_id orig \<and> m_phase r = Executing) (j_messages s1) \<noteq> 1
                   then (Inl (Coded ''execution_not_active''), s1)
                   else (Inr reply, s1\<lparr>j_messages := upd_where (\<lambda>r. m_message_id r = m_message_id orig \<and> m_phase r = Executing)
                           (set_phase Completed now2) (j_messages s1)\<rparr>)
                 else (Inr reply, s1))"

definition completeExecutionWithReply :: "node_env \<Rightarrow> int \<Rightarrow> int \<Rightarrow> envelope \<Rightarrow> (journal, reply_view \<times> bool) op" where
  "completeExecutionWithReply E now1 now2 e = assertNotClosed (\<lambda>s.
     if e_inReplyTo e = None then (Inl (Coded ''invalid_envelope''), s)
     else transaction (completeExecutionWithReply_tx E now1 now2 e) s)"

text \<open>
  A listing cursor, decoded: absent, unreadable, or the position after which the
  listing continues.
\<close>

datatype cursor_in = NoCursor | BadCursor | After int string

definition clamp_limit :: "int \<Rightarrow> int \<Rightarrow> nat" where
  "clamp_limit limit hi = nat (min (max 1 limit) hi)"

definition reply_pos :: "reply_row \<Rightarrow> int \<times> string" where
  "reply_pos y = (y_created_at y, y_message_id y)"

definition listReplies :: "string \<Rightarrow> string option \<Rightarrow> string option \<Rightarrow> int \<Rightarrow> cursor_in \<Rightarrow>
    (journal, (reply_view \<times> (int \<times> string)) list) op" where
  "listReplies requester requestId inReplyTo limit cur = assertNotClosed (\<lambda>s.
     if requester = [] then (Inl (Coded ''invalid_params''), s)
     else if cur = BadCursor then (Inl (Coded ''invalid_cursor''), s)
     else
       let rows = filter (\<lambda>y. y_recipient y = requester \<and> \<not> y_consumed y \<and>
              (truthy requestId \<longrightarrow> Some (y_request_id y) = requestId) \<and>
              (truthy inReplyTo \<longrightarrow> Some (y_in_reply_to y) = inReplyTo) \<and>
              (case cur of After t i \<Rightarrow> (t, i) < reply_pos y | _ \<Rightarrow> True)) (j_replies s)
       in (Inr (map (\<lambda>y. (mapReplyRow y, reply_pos y)) (take (clamp_limit limit 200) (sort_key reply_pos rows))), s))"

definition consumeReply :: "int \<Rightarrow> string \<Rightarrow> string \<Rightarrow> (journal, string) op" where
  "consumeReply now requester mid = assertNotClosed (\<lambda>s.
     if requester = [] \<or> mid = [] then (Inl (Coded ''invalid_params''), s)
     else case sel y_message_id mid (j_replies s) of
        None \<Rightarrow> (Inl (Coded ''reply_not_found''), s)
      | Some y \<Rightarrow>
          if y_recipient y \<noteq> requester then (Inl (Coded ''foreign_access_denied''), s)
          else (Inr mid, s\<lparr>j_replies := upd_where (\<lambda>y. y_message_id y = mid)
                 (\<lambda>y. y\<lparr>y_consumed := True, y_updated_at := now\<rparr>) (j_replies s)\<rparr>))"

definition getRecord :: "string \<Rightarrow> (journal, (message_view + reply_view) option) op" where
  "getRecord mid = assertNotClosed (\<lambda>s.
     case sel m_message_id mid (j_messages s) of
       Some r \<Rightarrow> (Inr (Some (Inl (mapMessageRow r))), s)
     | None \<Rightarrow> (case sel y_message_id mid (j_replies s) of
          Some y \<Rightarrow> (Inr (Some (Inr (mapReplyRow y))), s)
        | None \<Rightarrow> (Inr None, s)))"

section \<open>Execution transitions\<close>

definition hold_executing :: "int \<Rightarrow> message_row list \<Rightarrow> message_row list" where
  "hold_executing now rows = upd_where (\<lambda>r. m_phase r = Executing)
     (\<lambda>r. (set_phase Held now r)\<lparr>m_reason := Some ''crash_recovery''\<rparr>) rows"

definition held_views :: "message_row list \<Rightarrow> message_view list" where
  "held_views rows = map (\<lambda>r. (mapMessageRow r)\<lparr>v_phase := Held, v_reason := Some ''crash_recovery''\<rparr>)
     (filter (\<lambda>r. m_phase r = Executing) rows)"

text \<open>The crash recovery that \<open>createLocalMessagingJournal\<close> runs when it opens the database.\<close>

definition open_recovery :: "int \<Rightarrow> journal \<Rightarrow> journal" where
  "open_recovery now s = s\<lparr>
     j_messages := hold_executing now (j_messages s),
     j_bindings := upd_where (\<lambda>b. wb_state b = Submitting) (\<lambda>b. b\<lparr>wb_state := Uncertain, wb_updated_at := now\<rparr>) (j_bindings s),
     j_uncertain := held_views (j_messages s), j_closed := False\<rparr>"

definition recoverQueued :: "int \<Rightarrow> (journal, message_view list \<times> message_view list) op" where
  "recoverQueued now = assertNotClosed (\<lambda>s.
     let s1 = s\<lparr>j_messages := hold_executing now (j_messages s), j_uncertain := j_uncertain s @ held_views (j_messages s)\<rparr>;
         queued = sort_key m_created_at (filter (\<lambda>r. m_phase r = Queued_local \<and> m_recipient_type r = ''runner'') (j_messages s1))
     in (Inr (map mapMessageRow queued, j_uncertain s1), s1))"

definition claimExecution :: "int \<Rightarrow> string \<Rightarrow> (journal, message_view option) op" where
  "claimExecution now mid = assertNotClosed (\<lambda>s.
     let P = (\<lambda>r. m_message_id r = mid \<and> m_phase r = Queued_local \<and> m_recipient_type r = ''runner'');
         s1 = s\<lparr>j_messages := upd_where P (set_phase Executing now) (j_messages s)\<rparr>
     in if changes P (j_messages s) = 0 then (Inr None, s1)
        else (Inr (map_option mapMessageRow (sel m_message_id mid (j_messages s1))), s1))"

definition completeExecution :: "int \<Rightarrow> string \<Rightarrow> (journal, message_view option) op" where
  "completeExecution now mid = assertNotClosed (\<lambda>s.
     let s1 = s\<lparr>j_messages := upd_where (\<lambda>r. m_message_id r = mid) (set_phase Completed now) (j_messages s)\<rparr>
     in (Inr (map_option mapMessageRow (sel m_message_id mid (j_messages s1))), s1))"

definition holdExecution :: "int \<Rightarrow> string \<Rightarrow> string \<Rightarrow> string option \<Rightarrow> (journal, message_view option) op" where
  "holdExecution now mid reason lateResultText = assertNotClosed (\<lambda>s.
     let s1 = s\<lparr>j_messages := upd_where (\<lambda>r. m_message_id r = mid)
           (\<lambda>r. (set_phase Held now r)\<lparr>m_reason := Some reason,
                  m_late_result_text := coalesce lateResultText (m_late_result_text r)\<rparr>) (j_messages s)\<rparr>
     in (Inr (map_option mapMessageRow (sel m_message_id mid (j_messages s1))), s1))"

definition getLateResult :: "string \<Rightarrow> (journal, (string \<times> string) option) op" where
  "getLateResult mid = assertNotClosed (\<lambda>s.
     (Inr (case sel m_message_id mid (j_messages s) of None \<Rightarrow> None
        | Some r \<Rightarrow> if truthy (m_late_result_text r) then Some (m_message_id r, opt_or (m_late_result_text r) []) else None), s))"

definition recordExecutionFailure :: "int \<Rightarrow> string \<Rightarrow> string \<Rightarrow> string option \<Rightarrow> (journal, message_view option) op" where
  "recordExecutionFailure now mid reason runtimeError = assertNotClosed (\<lambda>s.
     let s1 = s\<lparr>j_messages := upd_where (\<lambda>r. m_message_id r = mid \<and> m_phase r \<in> {Queued_local, Executing})
           (\<lambda>r. (set_phase Held now r)\<lparr>m_reason := Some reason,
                  m_runtime_error := (if truthy runtimeError then runtimeError else None)\<rparr>) (j_messages s)\<rparr>
     in (Inr (map_option mapMessageRow (sel m_message_id mid (j_messages s1))), s1))"

section \<open>Retention and counts\<close>

definition compactable_message :: "int \<Rightarrow> reply_row list \<Rightarrow> message_row \<Rightarrow> bool" where
  "compactable_message cutoff replies r = (m_phase r \<in> {Completed, Failed} \<and> m_updated_at r \<le> cutoff \<and>
     \<not> (\<exists>y \<in> set replies. y_in_reply_to y = m_message_id r))"

definition compact :: "journal_cfg \<Rightarrow> int \<Rightarrow> int \<Rightarrow> (journal, nat \<times> nat) op" where
  "compact C now retentionMs = assertNotClosed (\<lambda>s.
     let cutoff = now - retentionMs;
         goneReplies = (\<lambda>y. y_consumed y \<and> y_updated_at y \<le> cutoff);
         replies = del_where goneReplies (j_replies s);
         goneMessages = compactable_message cutoff replies;
         pairCutoff = min cutoff (now - c_pairWindowMs C);
         s1 = s\<lparr>j_replies := replies, j_messages := del_where goneMessages (j_messages s),
                j_pairs := del_where (\<lambda>p. pa_created_at p \<le> pairCutoff) (j_pairs s)\<rparr>
     in (Inr (changes goneMessages (j_messages s), changes goneReplies (j_replies s)), pruneOrphanedSessionState s1))"

record status_view =
  st_queued :: nat
  st_executing :: nat
  st_completed :: nat
  st_held :: nat
  st_pendingReplies :: nat

definition status :: "(journal, status_view) op" where
  "status = assertNotClosed (\<lambda>s.
     (Inr \<lparr>st_queued = changes (\<lambda>r. m_phase r = Queued_local) (j_messages s),
           st_executing = changes (\<lambda>r. m_phase r = Executing) (j_messages s),
           st_completed = changes (\<lambda>r. m_phase r = Completed) (j_messages s),
           st_held = changes (\<lambda>r. m_phase r = Held) (j_messages s),
           st_pendingReplies = changes (\<lambda>y. \<not> y_consumed y) (j_replies s)\<rparr>, s))"

definition close_journal :: "journal \<Rightarrow> journal" where
  "close_journal s = s\<lparr>j_closed := True\<rparr>"

section \<open>Sample values\<close>

text \<open>A concrete platform and a concrete request, on which the hypotheses of the properties are shown to hold.\<close>

definition plain_env :: node_env where
  "plain_env = \<lparr>sha256 = (\<lambda>x. x), url_parse = (\<lambda>x. None)\<rparr>"

definition sample_envelope :: envelope where
  "sample_envelope = \<lparr>e_sender = ''a'', e_recipient = ''b'', e_messageId = ''m1'', e_requestId = ''r1'', e_inReplyTo = None,
     e_text = Some ''hi'', e_metadata = None, e_recipientType = None, e_to_principal = None, e_resolved_via = None\<rparr>"

definition sample_reply :: envelope where
  "sample_reply = \<lparr>e_sender = ''b'', e_recipient = ''a'', e_messageId = ''y1'', e_requestId = ''r1'', e_inReplyTo = Some ''m1'',
     e_text = Some ''ok'', e_metadata = None, e_recipientType = None, e_to_principal = None, e_resolved_via = None\<rparr>"

end
