(* ===== verification/Journal_Reconcile.thy ===== *)
theory Journal_Reconcile
  imports Journal_Messages
begin

text \<open>
  Owner reconciliation of held records (\<open>local-messaging-journal.mjs\<close>):
  \<open>validateReconcileRequest\<close>, the shared eligibility checks, \<open>reconcileMessage\<close>
  and the owner's views.  A held record is closed as failed, completed with the
  reply it already has, or completed with its retained late result; the audit
  row, the record and the reply change together.
\<close>

section \<open>Requests\<close>

record recon_request =
  q_messageId :: string
  q_reconcileId :: string
  q_action :: "reconcile_action option"
  q_expectVersion :: string
  q_expectLateHash :: "string option"
  q_expectReplyId :: "string option"
  q_note :: "string option"

record norm_request =
  n_messageId :: string
  n_reconcileId :: string
  n_action :: reconcile_action
  n_expectVersion :: string
  n_expectLateHash :: "string option"
  n_expectReplyId :: "string option"
  n_note :: "string option"

definition RECONCILE_ID_PATTERN :: "string \<Rightarrow> bool" where
  "RECONCILE_ID_PATTERN x = matches_class ident_chars 1 128 x"

definition RECONCILE_MESSAGE_ID_PATTERN :: "string \<Rightarrow> bool" where
  "RECONCILE_MESSAGE_ID_PATTERN x = matches_class ident_chars 1 256 x"

definition SHA256_HEX :: "string \<Rightarrow> bool" where
  "SHA256_HEX x = matches_class hex_chars 64 64 x"

definition validateReconcileRequest :: "recon_request \<Rightarrow> norm_request result" where
  "validateReconcileRequest q =
    (if \<not> RECONCILE_MESSAGE_ID_PATTERN (q_messageId q) then Inl (Coded ''invalid_params'')
     else if \<not> RECONCILE_ID_PATTERN (q_reconcileId q) then Inl (Coded ''invalid_params'')
     else case q_action q of None \<Rightarrow> Inl (Coded ''invalid_params'')
     | Some action \<Rightarrow>
        if \<not> SHA256_HEX (q_expectVersion q) then Inl (Coded ''invalid_params'')
        else if (case q_expectLateHash q of None \<Rightarrow> False | Some h \<Rightarrow> \<not> SHA256_HEX h) then Inl (Coded ''invalid_params'')
        else if action = AcceptLateResult \<and> q_expectLateHash q = None then Inl (Coded ''invalid_params'')
        else if action = MarkCompleted \<and> \<not> (case q_expectReplyId q of None \<Rightarrow> False | Some i \<Rightarrow> RECONCILE_MESSAGE_ID_PATTERN i)
        then Inl (Coded ''invalid_params'')
        else if action \<noteq> MarkCompleted \<and> q_expectReplyId q \<noteq> None then Inl (Coded ''invalid_params'')
        else if (case q_note q of None \<Rightarrow> False | Some t \<Rightarrow> 256 < length t) then Inl (Coded ''invalid_params'')
        else Inr \<lparr>n_messageId = q_messageId q, n_reconcileId = q_reconcileId q, n_action = action,
               n_expectVersion = q_expectVersion q, n_expectLateHash = q_expectLateHash q,
               n_expectReplyId = q_expectReplyId q, n_note = q_note q\<rparr>)"

section \<open>Eligibility\<close>

definition replyIdsFor :: "journal \<Rightarrow> string \<Rightarrow> string list" where
  "replyIdsFor s mid = sort (map y_message_id (filter (\<lambda>y. y_in_reply_to y = mid) (j_replies s)))"

definition late_hash :: "node_env \<Rightarrow> string option \<Rightarrow> string option" where
  "late_hash E late = (if truthy late then Some (sha256 E (opt_or late [])) else None)"

definition reconcileVersion :: "node_env \<Rightarrow> message_row \<Rightarrow> string list \<Rightarrow> string" where
  "reconcileVersion E r replyIds = sha256 E (stringify (JArr [
     JStr (m_message_id r), JStr (phase_text (m_phase r)), opt_json (m_reason r), JNum (m_updated_at r),
     opt_num_json (m_lease_expires_at r), opt_json (m_claim_operation_id r),
     opt_json (late_hash E (m_late_result_text r)), JArr (map JStr replyIds)]))"

definition checkReconcileRetry :: "recon_row \<Rightarrow> norm_request \<Rightarrow> unit result" where
  "checkReconcileRetry prior n =
    (if rc_message_id prior = n_messageId n \<and> rc_action prior = n_action n \<and>
        rc_expected_version prior = n_expectVersion n \<and> rc_late_sha256 prior = n_expectLateHash n \<and>
        rc_note prior = n_note n \<and> (n_action n \<noteq> MarkCompleted \<or> rc_reply_message_id prior = n_expectReplyId n)
     then Inr () else Inl (Coded ''duplicate_id_conflict''))"

definition accepted_reply_id :: "string \<Rightarrow> string" where
  "accepted_reply_id reconcileId = ''rep-rc-'' @ reconcileId"

definition checkReconcileRecord :: "node_env \<Rightarrow> journal \<Rightarrow> message_row option \<Rightarrow> norm_request \<Rightarrow>
    (message_row \<times> string list \<times> string option) result" where
  "checkReconcileRecord E s row n =
    (case row of None \<Rightarrow> Inl (Coded ''not_found'')
     | Some r \<Rightarrow>
        if m_phase r = Executing then Inl (Coded ''not_reconcilable'')
        else if m_phase r \<noteq> Held then Inl (Coded ''not_reconcilable'')
        else
          let replyIds = replyIdsFor s (n_messageId n); lateText = m_late_result_text r in
          if reconcileVersion E r replyIds \<noteq> n_expectVersion n then Inl (Coded ''stale_view'')
          else case n_action n of
            AcceptLateResult \<Rightarrow>
              if replyIds \<noteq> [] then Inl (Coded ''reply_exists'')
              else if \<not> truthy lateText then Inl (Coded ''late_result_missing'')
              else if late_hash E lateText \<noteq> n_expectLateHash n then Inl (Coded ''late_result_mismatch'')
              else if truthy (m_reply_route_key r) then Inl (Coded ''reply_route_pinned'')
              else if sel y_message_id (accepted_reply_id (n_reconcileId n)) (j_replies s) \<noteq> None
              then Inl (Coded ''duplicate_id_conflict'')
              else Inr (r, replyIds, lateText)
          | _ \<Rightarrow>
              if late_hash E lateText \<noteq> n_expectLateHash n then Inl (Coded ''late_result_mismatch'')
              else if n_action n = MarkFailed \<and> replyIds \<noteq> [] then Inl (Coded ''reply_exists'')
              else if n_action n = MarkCompleted \<and> \<not> (\<exists>i \<in> set replyIds. Some i = n_expectReplyId n)
              then Inl (Coded ''reply_missing'')
              else Inr (r, replyIds, lateText))"

text \<open>The read-only refusal before the writable open.\<close>

definition precheckReconcileDatabase :: "node_env \<Rightarrow> journal \<Rightarrow> norm_request \<Rightarrow> unit result" where
  "precheckReconcileDatabase E s n =
    (case sel rc_reconcile_id (n_reconcileId n) (j_recons s) of
       Some prior \<Rightarrow> checkReconcileRetry prior n
     | None \<Rightarrow> (case checkReconcileRecord E s (sel m_message_id (n_messageId n) (j_messages s)) n of
          Inl e \<Rightarrow> Inl e | Inr _ \<Rightarrow> Inr ()))"

section \<open>Reconciliation\<close>

record recon_result =
  rr_reconcileId :: string
  rr_messageId :: string
  rr_action :: reconcile_action
  rr_outcomePhase :: phase
  rr_replyMessageId :: "string option"
  rr_isDuplicate :: bool

definition accepted_envelope :: "string \<Rightarrow> message_row \<Rightarrow> string option \<Rightarrow> envelope" where
  "accepted_envelope reconcileId r lateText = \<lparr>
     e_sender = m_recipient r, e_recipient = m_sender r, e_messageId = accepted_reply_id reconcileId,
     e_requestId = m_request_id r, e_inReplyTo = Some (m_message_id r), e_text = lateText,
     e_metadata = Some (JObj [(''_loopDepth'', depth_plus_one (loop_depth_of (m_metadata r)))]),
     e_recipientType = None, e_to_principal = None, e_resolved_via = None\<rparr>"

definition accepted_reply_row :: "node_env \<Rightarrow> int \<Rightarrow> string \<Rightarrow> message_row \<Rightarrow> string option \<Rightarrow> reply_row" where
  "accepted_reply_row E now reconcileId r lateText =
     (new_reply_row E now (accepted_envelope reconcileId r lateText))\<lparr>y_reconcile_id := Some reconcileId\<rparr>"

definition recon_outcome :: "reconcile_action \<Rightarrow> phase \<times> string" where
  "recon_outcome a = (case a of
      AcceptLateResult \<Rightarrow> (Completed, ''owner_accepted_late_result'')
    | MarkFailed \<Rightarrow> (Failed, ''owner_marked_failed'')
    | MarkCompleted \<Rightarrow> (Completed, ''owner_marked_completed''))"

definition reconcileMessage_tx :: "node_env \<Rightarrow> int \<Rightarrow> norm_request \<Rightarrow> (journal, recon_result) op" where
  "reconcileMessage_tx E now n s =
    (case sel rc_reconcile_id (n_reconcileId n) (j_recons s) of
       Some prior \<Rightarrow> (case checkReconcileRetry prior n of
          Inl e \<Rightarrow> (Inl e, s)
        | Inr _ \<Rightarrow> (Inr \<lparr>rr_reconcileId = n_reconcileId n, rr_messageId = n_messageId n, rr_action = n_action n,
             rr_outcomePhase = rc_outcome_phase prior, rr_replyMessageId = rc_reply_message_id prior, rr_isDuplicate = True\<rparr>, s))
     | None \<Rightarrow>
        (case checkReconcileRecord E s (sel m_message_id (n_messageId n) (j_messages s)) n of
           Inl e \<Rightarrow> (Inl e, s)
         | Inr (r, replyIds, lateText) \<Rightarrow>
            (let (outcomePhase, reason) = recon_outcome (n_action n);
                 replyMessageId = (case n_action n of
                     AcceptLateResult \<Rightarrow> Some (accepted_reply_id (n_reconcileId n))
                   | MarkFailed \<Rightarrow> None
                   | MarkCompleted \<Rightarrow> n_expectReplyId n);
                 s1 = (if n_action n = AcceptLateResult
                       then s\<lparr>j_replies := j_replies s @ [accepted_reply_row E now (n_reconcileId n) r lateText]\<rparr>
                       else s);
                 s2 = s1\<lparr>j_messages := upd_where (\<lambda>r. m_message_id r = n_messageId n \<and> m_phase r = Held)
                        (\<lambda>r. (set_phase outcomePhase now r)\<lparr>m_reason := Some reason, m_late_result_text := None\<rparr>) (j_messages s1)\<rparr>;
                 s3 = s2\<lparr>j_recons := j_recons s2 @ [\<lparr>rc_reconcile_id = n_reconcileId n, rc_message_id = n_messageId n,
                        rc_action = n_action n, rc_from_phase = m_phase r, rc_from_reason = m_reason r,
                        rc_expected_version = n_expectVersion n, rc_late_sha256 = n_expectLateHash n,
                        rc_reply_message_id = replyMessageId, rc_outcome_phase = outcomePhase,
                        rc_note = n_note n, rc_created_at = now\<rparr>]\<rparr>
             in (Inr \<lparr>rr_reconcileId = n_reconcileId n, rr_messageId = n_messageId n, rr_action = n_action n,
                   rr_outcomePhase = outcomePhase, rr_replyMessageId = replyMessageId, rr_isDuplicate = False\<rparr>, s3))))"

definition reconcileMessage :: "node_env \<Rightarrow> int \<Rightarrow> recon_request \<Rightarrow> (journal, recon_result) op" where
  "reconcileMessage E now q = assertNotClosed (\<lambda>s.
     case validateReconcileRequest q of Inl e \<Rightarrow> (Inl e, s)
     | Inr n \<Rightarrow> transaction (reconcileMessage_tx E now n) s)"

section \<open>The owner's views\<close>

record held_view =
  hv_messageId :: string
  hv_requestId :: string
  hv_sender :: string
  hv_recipient :: string
  hv_recipientType :: string
  hv_phase :: phase
  hv_reason :: "string option"
  hv_createdAt :: int
  hv_updatedAt :: int
  hv_leaseExpiresAt :: "int option"
  hv_pinned :: bool
  hv_hasLateResult :: bool
  hv_lateResultBytes :: nat
  hv_lateResultSha256 :: "string option"
  hv_replyMessageIds :: "string list"
  hv_version :: "string option"
  hv_actions :: "reconcile_action list"

definition held_actions :: "message_row \<Rightarrow> string list \<Rightarrow> reconcile_action list" where
  "held_actions r replyIds =
    (if m_phase r = Held \<and> replyIds \<noteq> [] then [MarkCompleted]
     else if m_phase r = Held then
       MarkFailed # (if truthy (m_late_result_text r) \<and> \<not> truthy (m_reply_route_key r) then [AcceptLateResult] else [])
     else [])"

definition heldView :: "node_env \<Rightarrow> message_row \<Rightarrow> string list \<Rightarrow> held_view" where
  "heldView E r replyIds = \<lparr>
     hv_messageId = m_message_id r, hv_requestId = m_request_id r, hv_sender = m_sender r, hv_recipient = m_recipient r,
     hv_recipientType = m_recipient_type r, hv_phase = m_phase r, hv_reason = m_reason r,
     hv_createdAt = m_created_at r, hv_updatedAt = m_updated_at r, hv_leaseExpiresAt = m_lease_expires_at r,
     hv_pinned = truthy (m_reply_route_key r), hv_hasLateResult = truthy (m_late_result_text r),
     hv_lateResultBytes = (if truthy (m_late_result_text r) then length (opt_or (m_late_result_text r) []) else 0),
     hv_lateResultSha256 = late_hash E (m_late_result_text r), hv_replyMessageIds = replyIds,
     hv_version = (if m_phase r = Held then Some (reconcileVersion E r replyIds) else None),
     hv_actions = held_actions r replyIds\<rparr>"

definition listHeldRecords :: "node_env \<Rightarrow> journal \<Rightarrow> held_view list" where
  "listHeldRecords E s = map (\<lambda>r. heldView E r (replyIdsFor s (m_message_id r)))
     (sort_key (\<lambda>r. (m_created_at r, m_message_id r)) (filter (\<lambda>r. m_phase r \<in> {Held, Executing}) (j_messages s)))"

definition getHeldView :: "node_env \<Rightarrow> string \<Rightarrow> (journal, held_view option) op" where
  "getHeldView E mid = assertNotClosed (\<lambda>s.
     (Inr (map_option (\<lambda>r. heldView E r (replyIdsFor s mid))
        (find (\<lambda>r. m_message_id r = mid \<and> m_phase r \<in> {Held, Executing}) (j_messages s))), s))"

definition readHeldLateResult :: "string \<Rightarrow> journal \<Rightarrow> (string \<times> string) result" where
  "readHeldLateResult mid s =
    (if \<not> RECONCILE_MESSAGE_ID_PATTERN mid then Inl (Coded ''invalid_params'')
     else case sel m_message_id mid (j_messages s) of None \<Rightarrow> Inl (Coded ''not_found'')
     | Some r \<Rightarrow> if \<not> truthy (m_late_result_text r) then Inl (Coded ''late_result_missing'')
         else Inr (m_message_id r, opt_or (m_late_result_text r) []))"

definition getReconciliation :: "string \<Rightarrow> (journal, recon_row option) op" where
  "getReconciliation rid = assertNotClosed (\<lambda>s. (Inr (sel rc_reconcile_id rid (j_recons s)), s))"

end
