(* ===== verification/Journal_Inbox.thy ===== *)
theory Journal_Inbox
  imports Journal_Messages
begin

text \<open>
  The interactive inbox of the journal (\<open>local-messaging-journal.mjs\<close>): signed
  pagination cursors, \<open>listInbox\<close>, \<open>claimInboxMessage\<close> with its lease, and
  \<open>recordInteractiveReply\<close> with its claim fences.
\<close>

section \<open>Cursors\<close>

text \<open>
  A cursor is the position \<open>(requester, createdAt, messageId)\<close> and a signature of
  its JSON text; the base64url wrapping is left out and any other text is
  \<open>Malformed\<close>.  \<open>hmac\<close> is \<open>createHmac("sha256", cursorSecret)\<close> of \<open>node:crypto\<close>
  with the random secret of this process.
\<close>

datatype inbox_cursor = Malformed | Cursor string int string string

definition cursor_payload :: "string \<Rightarrow> int \<Rightarrow> string \<Rightarrow> string" where
  "cursor_payload r t m = stringify (JObj [(''r'', JStr r), (''t'', JNum t), (''m'', JStr m)])"

definition encodeCursor :: "(string \<Rightarrow> string) \<Rightarrow> string \<Rightarrow> int \<Rightarrow> string \<Rightarrow> inbox_cursor" where
  "encodeCursor hmac requester t m = Cursor requester t m (hmac (cursor_payload requester t m))"

definition decodeCursor :: "(string \<Rightarrow> string) \<Rightarrow> inbox_cursor \<Rightarrow> string \<Rightarrow> (int \<times> string) result" where
  "decodeCursor hmac c requester = (case c of
      Malformed \<Rightarrow> Inl (Coded ''invalid_cursor'')
    | Cursor r t m mac \<Rightarrow>
        if mac \<noteq> hmac (cursor_payload r t m) then Inl (Coded ''invalid_cursor'')
        else if r \<noteq> requester then Inl (Coded ''invalid_cursor'')
        else Inr (t, m))"

section \<open>Listing\<close>

definition message_pos :: "message_row \<Rightarrow> int \<times> string" where
  "message_pos r = (m_created_at r, m_message_id r)"

definition lease_expired :: "int \<Rightarrow> message_row \<Rightarrow> bool" where
  "lease_expired now r = (case m_lease_expires_at r of None \<Rightarrow> False | Some l \<Rightarrow> l \<noteq> 0 \<and> l \<le> now)"

definition hold_expired :: "int \<Rightarrow> message_row \<Rightarrow> message_row" where
  "hold_expired now r = (set_phase Held now r)\<lparr>m_reason := Some ''lease_expired''\<rparr>"

definition reap_expired :: "int \<Rightarrow> string \<Rightarrow> message_row list \<Rightarrow> message_row list" where
  "reap_expired now requester rows = upd_where
     (\<lambda>r. m_recipient r = requester \<and> m_phase r = Executing \<and> m_recipient_type r = ''interactive'' \<and>
          (case m_lease_expires_at r of None \<Rightarrow> False | Some l \<Rightarrow> l \<le> now)) (hold_expired now) rows"

definition inbox_rows :: "string \<Rightarrow> (int \<times> string) option \<Rightarrow> message_row list \<Rightarrow> message_row list" where
  "inbox_rows requester pos rows = sort_key message_pos (filter (\<lambda>r. m_recipient r = requester \<and>
     m_phase r = Queued_local \<and> m_recipient_type r = ''interactive'' \<and>
     (case pos of None \<Rightarrow> True | Some p \<Rightarrow> p < message_pos r)) rows)"

definition MAX_INBOX_PAYLOAD_BYTES :: nat where
  "MAX_INBOX_PAYLOAD_BYTES = 180 * 1024"

text \<open>The loop over the candidate rows: the page, and whether it stopped early.\<close>

fun page_loop :: "nat \<Rightarrow> nat \<Rightarrow> message_row list \<Rightarrow> message_row list \<Rightarrow> message_row list \<times> bool" where
  "page_loop maxCount totalBytes items [] = (items, False)"
| "page_loop maxCount totalBytes items (r # rows) =
    (if maxCount \<le> length items then (items, True)
     else let rowBytes = view_bytes (mapMessageRow r) + 2 in
       if items \<noteq> [] \<and> MAX_INBOX_PAYLOAD_BYTES < totalBytes + rowBytes then (items, True)
       else page_loop maxCount (totalBytes + rowBytes) (items @ [r]) rows)"

definition page_cursor :: "(string \<Rightarrow> string) \<Rightarrow> string \<Rightarrow> message_row list \<times> bool \<Rightarrow> inbox_cursor option" where
  "page_cursor hmac requester p = (if snd p \<and> fst p \<noteq> [] then
     Some (encodeCursor hmac requester (m_created_at (last (fst p))) (m_message_id (last (fst p)))) else None)"

definition listInbox :: "(string \<Rightarrow> string) \<Rightarrow> int \<Rightarrow> string \<Rightarrow> int \<Rightarrow> inbox_cursor option \<Rightarrow>
    (journal, message_view list \<times> inbox_cursor option) op" where
  "listInbox hmac now requester limit cursor = assertNotClosed (\<lambda>s.
     if requester = [] then (Inl (Coded ''invalid_params''), s)
     else
       let s1 = s\<lparr>j_messages := reap_expired now requester (j_messages s)\<rparr> in
       case (case cursor of None \<Rightarrow> Inr None
             | Some c \<Rightarrow> (case decodeCursor hmac c requester of Inl e \<Rightarrow> Inl e | Inr p \<Rightarrow> Inr (Some p))) of
         Inl e \<Rightarrow> (Inl e, s1)
       | Inr pos \<Rightarrow>
           let maxCount = clamp_limit limit 100;
               candidates = take (maxCount + 1) (inbox_rows requester pos (j_messages s1));
               page = page_loop maxCount 64 [] candidates
           in (Inr (map mapMessageRow (fst page), page_cursor hmac requester page), s1))"

section \<open>Claims\<close>

definition IDENTIFIER_PATTERN :: "string \<Rightarrow> bool" where
  "IDENTIFIER_PATTERN x = matches_class ident_chars 1 256 x"

record claim_result =
  cr_messageId :: string
  cr_claimToken :: "string option"
  cr_claimId :: "string option"
  cr_leaseExpiresAt :: "int option"
  cr_requestId :: string
  cr_isRetry :: bool

definition boundedLease :: "int \<Rightarrow> int" where
  "boundedLease d = min (max (if d = 0 then 3600000 else d) 1000) 3600000"

definition claim_token :: "node_env \<Rightarrow> string \<Rightarrow> int \<Rightarrow> string" where
  "claim_token E uuid now = sha256 E (uuid @ [CHR 0x00] @ num_text now)"

definition claimInboxMessage :: "node_env \<Rightarrow> string \<Rightarrow> int \<Rightarrow> string \<Rightarrow> string \<Rightarrow> string \<Rightarrow> int \<Rightarrow> string \<Rightarrow> int \<Rightarrow>
    (journal, claim_result option) op" where
  "claimInboxMessage E uuid now mid requester sessionId generation claimId leaseDurationMs = assertNotClosed (\<lambda>s.
     if mid = [] \<or> requester = [] \<or> sessionId = [] \<or> claimId = [] \<or> \<not> IDENTIFIER_PATTERN claimId
     then (Inl (Coded ''invalid_params''), s)
     else case sel m_message_id mid (j_messages s) of
        None \<Rightarrow> (Inl (Coded ''not_found''), s)
      | Some r \<Rightarrow>
          if m_recipient r \<noteq> requester then (Inl (Coded ''foreign_access_denied''), s)
          else if m_recipient_type r \<noteq> ''interactive'' then (Inl (Coded ''invalid_recipient_type''), s)
          else if m_phase r = Executing then
            if lease_expired now r then
              (Inl (Coded ''lease_expired''),
               s\<lparr>j_messages := upd_where (\<lambda>r. m_message_id r = mid) (hold_expired now) (j_messages s)\<rparr>)
            else if m_claim_session_id r = Some sessionId \<and> m_claim_generation r = Some generation then
              if m_claim_operation_id r = Some claimId
              then (Inr (Some \<lparr>cr_messageId = m_message_id r, cr_claimToken = m_claim_token r,
                      cr_claimId = m_claim_operation_id r, cr_leaseExpiresAt = m_lease_expires_at r,
                      cr_requestId = m_request_id r, cr_isRetry = True\<rparr>), s)
              else (Inr None, s)
            else (Inr None, s)
          else if m_phase r \<noteq> Queued_local then (Inr None, s)
          else
            let token = claim_token E uuid now; lease = now + boundedLease leaseDurationMs;
                P = (\<lambda>r. m_message_id r = mid \<and> m_recipient r = requester \<and> m_phase r = Queued_local \<and> m_recipient_type r = ''interactive'');
                s1 = s\<lparr>j_messages := upd_where P (\<lambda>r. (set_phase Executing now r)\<lparr>m_claim_token := Some token,
                       m_claim_session_id := Some sessionId, m_claim_generation := Some generation,
                       m_claim_operation_id := Some claimId, m_lease_expires_at := Some lease\<rparr>) (j_messages s)\<rparr>
            in if changes P (j_messages s) = 0 then (Inr None, s1)
               else (Inr (Some \<lparr>cr_messageId = mid, cr_claimToken = Some token, cr_claimId = Some claimId,
                      cr_leaseExpiresAt = Some lease, cr_requestId = m_request_id r, cr_isRetry = False\<rparr>), s1))"

section \<open>Replies to claimed messages\<close>

record reply_identity =
  ri_bindingId :: "string option"
  ri_local :: observation
  ri_remote :: observation
  ri_senderProvenance :: "json option"

record interactive_reply =
  ir_messageId :: string
  ir_claimToken :: string
  ir_sessionId :: string
  ir_generation :: int
  ir_requester :: string
  ir_text :: "string option"
  ir_replyId :: "string option"
  ir_metadata :: "json option"
  ir_identity :: "reply_identity option"

text \<open>
  What a committed transaction leaves to the caller: the reply, or an error that
  is thrown after \<open>COMMIT\<close> (the late text is kept, the reply is refused).
\<close>

datatype reply_outcome = Replied reply_view bool | CommittedError string

text \<open>The pin check of a reply to a pinned request.\<close>

definition reply_pin_check :: "node_env \<Rightarrow> journal_cfg \<Rightarrow> int \<Rightarrow> interactive_reply \<Rightarrow> message_row \<Rightarrow> journal \<Rightarrow>
    reply_route option result" where
  "reply_pin_check E C now q orig s =
    (if \<not> truthy (m_reply_route_key orig) then Inr None
     else if \<not> c_routes C then Inl (Coded ''reply_route_unavailable'')
     else case ir_identity q of None \<Rightarrow> Inl (Coded ''reply_route_unavailable'')
     | Some ident \<Rightarrow>
        if \<not> truthy (ri_bindingId ident) then Inl (Coded ''session_fenced'')
        else case checkAttachedIdentity (ir_requester q) (ir_generation q) now (ri_bindingId ident) s of
           Inl e \<Rightarrow> Inl e
         | Inr _ \<Rightarrow>
           if o_generation (ri_local ident) \<noteq> ir_generation q then Inl (Coded ''generation_fenced'')
           else case verifyInTransaction E (opt_or (m_reply_route_key orig) []) (ri_local ident) (ri_remote ident) (j_routes s) of
              Inl e \<Rightarrow> Inl e
            | Inr pin \<Rightarrow>
                if o_address (r_local pin) \<noteq> ir_requester q \<or> o_address (r_remote pin) \<noteq> m_sender orig
                then Inl (Coded ''reply_session_mismatch'') else Inr (Some pin))"

text \<open>The claim tuple checks, before anything is accepted or written.\<close>

definition claim_fence :: "interactive_reply \<Rightarrow> message_row \<Rightarrow> reply_route option \<Rightarrow> unit result" where
  "claim_fence q orig pin =
    (if \<not> truthy (m_claim_token orig) \<or> \<not> truthy (m_claim_session_id orig) \<or> m_claim_generation orig = None
     then Inl (Coded ''claim_failed'')
     else if m_claim_session_id orig \<noteq> Some (ir_sessionId q) then Inl (Coded ''session_fenced'')
     else if m_claim_generation orig \<noteq> Some (ir_generation q) \<and>
        \<not> (case pin of None \<Rightarrow> False | Some p \<Rightarrow> opt_or (m_claim_generation orig) 0 < ir_generation q \<and>
              o_generation (r_local p) = ir_generation q)
     then Inl (Coded ''generation_fenced'')
     else if m_claim_token orig \<noteq> Some (ir_claimToken q) then Inl (Coded ''invalid_claim_token'')
     else Inr ())"

definition reply_envelope :: "interactive_reply \<Rightarrow> message_row \<Rightarrow> string \<Rightarrow> envelope" where
  "reply_envelope q orig replyId = \<lparr>
     e_sender = ir_requester q, e_recipient = m_sender orig, e_messageId = replyId, e_requestId = m_request_id orig,
     e_inReplyTo = Some (ir_messageId q), e_text = ir_text q,
     e_metadata = Some (with_depth (ir_metadata q) (depth_plus_one (loop_depth_of (m_metadata orig)))),
     e_recipientType = None, e_to_principal = None, e_resolved_via = None\<rparr>"

text \<open>\<open>commitAcceptedReply\<close>: advance the pin and move the claim generation with it.\<close>

definition commitAcceptedReply :: "node_env \<Rightarrow> interactive_reply \<Rightarrow> message_row \<Rightarrow> reply_route option \<Rightarrow> (journal, unit) op" where
  "commitAcceptedReply E q orig pin s = (case pin of None \<Rightarrow> (Inr (), s)
     | Some p \<Rightarrow>
        (case advanceInTransaction E (opt_or (m_reply_route_key orig) []) (r_local p) (r_remote p) (j_routes s) of
           (Inl e, tab) \<Rightarrow> (Inl e, s\<lparr>j_routes := tab\<rparr>)
         | (Inr _, tab) \<Rightarrow> (Inr (), s\<lparr>j_routes := tab, j_messages := upd_where (\<lambda>r. m_message_id r = ir_messageId q)
              (\<lambda>r. r\<lparr>m_claim_generation := Some (ir_generation q)\<rparr>) (j_messages s)\<rparr>)))"

definition finish_reply :: "node_env \<Rightarrow> interactive_reply \<Rightarrow> message_row \<Rightarrow> reply_route option \<Rightarrow> reply_row \<Rightarrow> bool \<Rightarrow>
    (journal, reply_outcome) op" where
  "finish_reply E q orig pin y dup s = (case commitAcceptedReply E q orig pin s of
      (Inl e, s') \<Rightarrow> (Inl e, s')
    | (Inr _, s') \<Rightarrow> (Inr (Replied (mapReplyRow y) dup), s'))"

definition reply_to_completed :: "node_env \<Rightarrow> interactive_reply \<Rightarrow> message_row \<Rightarrow> reply_route option \<Rightarrow> (journal, reply_outcome) op" where
  "reply_to_completed E q orig pin s =
    (case find (\<lambda>y. y_in_reply_to y = ir_messageId q) (j_replies s) of
       None \<Rightarrow> (Inl (Coded ''reply_not_accepted''), s)
     | Some y \<Rightarrow>
         if truthy (ir_replyId q) \<and> ir_replyId q \<noteq> Some (y_message_id y) \<and> \<not> truthy (y_reconcile_id y)
         then (Inl (Coded ''duplicate_id_conflict''), s)
         else if y_sender y = ir_requester q \<and> Some (y_text y) = ir_text q \<and>
            y_canonical_hash y = computeEnvelopeHash E (reply_envelope q orig (y_message_id y))
         then finish_reply E q orig pin y True s
         else (Inl (Coded ''duplicate_id_conflict''), s))"

definition reply_to_executing :: "node_env \<Rightarrow> string \<Rightarrow> int \<Rightarrow> interactive_reply \<Rightarrow> message_row \<Rightarrow> reply_route option \<Rightarrow>
    (journal, reply_outcome) op" where
  "reply_to_executing E uuid now q orig pin s =
    (let replyId = (if truthy (ir_replyId q) then opt_or (ir_replyId q) [] else ''rep-'' @ uuid);
         env = reply_envelope q orig replyId
     in case sel y_message_id replyId (j_replies s) of
          Some y \<Rightarrow>
            if y_canonical_hash y = computeEnvelopeHash E env then finish_reply E q orig pin y True s
            else (Inl (Coded ''duplicate_id_conflict''), s)
        | None \<Rightarrow>
            let y = (new_reply_row E now env)\<lparr>y_sender_provenance :=
                      (case (pin, ir_identity q) of (Some _, Some ident) \<Rightarrow> ri_senderProvenance ident | _ \<Rightarrow> None)\<rparr>;
                s1 = s\<lparr>j_replies := j_replies s @ [y],
                       j_messages := upd_where (\<lambda>r. m_message_id r = ir_messageId q) (set_phase Completed now) (j_messages s)\<rparr>
            in finish_reply E q orig pin y False s1)"

definition recordInteractiveReply_tx :: "node_env \<Rightarrow> journal_cfg \<Rightarrow> string \<Rightarrow> int \<Rightarrow> interactive_reply \<Rightarrow> (journal, reply_outcome) op" where
  "recordInteractiveReply_tx E C uuid now q s =
    (case sel m_message_id (ir_messageId q) (j_messages s) of
       None \<Rightarrow> (Inl (Coded ''invalid_reply_correlation''), s)
     | Some orig \<Rightarrow>
         if m_recipient orig \<noteq> ir_requester q then (Inl (Coded ''foreign_access_denied''), s)
         else if m_recipient_type orig \<noteq> ''interactive'' then (Inl (Coded ''invalid_reply_recipient''), s)
         else case reply_pin_check E C now q orig s of
            Inl e \<Rightarrow> (Inl e, s)
          | Inr pin \<Rightarrow>
            (case claim_fence q orig pin of Inl e \<Rightarrow> (Inl e, s)
             | Inr _ \<Rightarrow>
               (case m_phase orig of
                  Completed \<Rightarrow> reply_to_completed E q orig pin s
                | Held \<Rightarrow> (Inr (CommittedError ''reply_not_accepted''),
                    s\<lparr>j_messages := upd_where (\<lambda>r. m_message_id r = ir_messageId q)
                       (\<lambda>r. r\<lparr>m_late_result_text := coalesce (ir_text q) (m_late_result_text r), m_updated_at := now\<rparr>) (j_messages s)\<rparr>)
                | Executing \<Rightarrow>
                    if lease_expired now orig then
                      (Inr (CommittedError ''lease_expired''),
                       s\<lparr>j_messages := upd_where (\<lambda>r. m_message_id r = ir_messageId q)
                         (\<lambda>r. (hold_expired now r)\<lparr>m_late_result_text := ir_text q\<rparr>) (j_messages s)\<rparr>)
                    else reply_to_executing E uuid now q orig pin s
                | _ \<Rightarrow> (Inl (Coded ''reply_not_accepted''), s))))"

definition recordInteractiveReply :: "node_env \<Rightarrow> journal_cfg \<Rightarrow> string \<Rightarrow> int \<Rightarrow> interactive_reply \<Rightarrow> (journal, reply_view \<times> bool) op" where
  "recordInteractiveReply E C uuid now q = assertNotClosed (\<lambda>s.
     if ir_messageId q = [] \<or> ir_claimToken q = [] \<or> ir_text q = None \<or> ir_requester q = [] \<or> ir_sessionId q = []
     then (Inl (Coded ''invalid_params''), s)
     else case transaction (recordInteractiveReply_tx E C uuid now q) s of
        (Inl e, s') \<Rightarrow> (Inl e, s')
      | (Inr (CommittedError c), s') \<Rightarrow> (Inl (Coded c), s')
      | (Inr (Replied v dup), s') \<Rightarrow> (Inr (v, dup), s'))"

definition getReplyRouteForMessage :: "node_env \<Rightarrow> journal_cfg \<Rightarrow> string \<Rightarrow> (journal, reply_route option) op" where
  "getReplyRouteForMessage E C mid = assertNotClosed (\<lambda>s.
     case sel m_message_id mid (j_messages s) of None \<Rightarrow> (Inr None, s)
     | Some r \<Rightarrow>
        if \<not> truthy (m_reply_route_key r) then (Inr None, s)
        else if \<not> c_routes C then (Inl (Coded ''reply_route_unavailable''), s)
        else case route_read E (opt_or (m_reply_route_key r) []) (j_routes s) of
            Inl e \<Rightarrow> (Inl e, s)
          | Inr None \<Rightarrow> (Inl (Coded ''reply_route_missing''), s)
          | Inr (Some route) \<Rightarrow> (Inr (Some route), s))"

record inbox_counts =
  ic_queued :: nat
  ic_executing :: nat
  ic_held :: nat

definition getInteractiveInboxCounts :: "string \<Rightarrow> (journal, inbox_counts) op" where
  "getInteractiveInboxCounts recipient = assertNotClosed (\<lambda>s.
     let n = (\<lambda>p. changes (\<lambda>r. m_recipient r = recipient \<and> m_phase r = p \<and> m_recipient_type r = ''interactive'') (j_messages s))
     in (Inr \<lparr>ic_queued = n Queued_local, ic_executing = n Executing, ic_held = n Held\<rparr>, s))"

end
