(* ===== verification/Journal_Wake.thy ===== *)
theory Journal_Wake
  imports Journal_Messages
begin

text \<open>
  Wake bindings of the journal (\<open>local-messaging-journal.mjs\<close>): a target has at
  most one outstanding wake, a wake is fenced by session, generation and binding,
  and a backlog that was acknowledged is not announced again.
\<close>

section \<open>Obligations and fingerprints\<close>

definition wakeItemHash :: "node_env \<Rightarrow> json list \<Rightarrow> string" where
  "wakeItemHash E xs = sha256 E (stringify (JArr xs))"

definition wakeSnapshotCovered :: "fingerprint \<Rightarrow> fingerprint option \<Rightarrow> bool" where
  "wakeSnapshotCovered current acknowledged =
    (if Some current = acknowledged then True
     else case (current, acknowledged) of
        (V2 now, Some (V2 prior)) \<Rightarrow> list_all (\<lambda>x. x \<in> set prior) now
      | _ \<Rightarrow> False)"

record obligations =
  ob_unreadReplies :: "reply_view list"
  ob_heldMessages :: "message_view list"
  ob_queuedMessages :: "message_view list"
  ob_hasLateResult :: bool
  ob_fingerprint :: fingerprint

definition time_or :: "int \<Rightarrow> int \<Rightarrow> int" where
  "time_or a b = (if a = 0 then b else a)"

definition reply_item :: "node_env \<Rightarrow> reply_row \<Rightarrow> string" where
  "reply_item E y = wakeItemHash E [JStr ''reply'', JStr (y_message_id y), JNum (y_created_at y)]"

definition held_item :: "node_env \<Rightarrow> message_row \<Rightarrow> string" where
  "held_item E m = wakeItemHash E [JStr ''held'', JStr (m_message_id m), JNum (time_or (m_updated_at m) (m_created_at m)),
     JBool (truthy (m_late_result_text m))]"

definition queued_item :: "node_env \<Rightarrow> message_row \<Rightarrow> string" where
  "queued_item E m = wakeItemHash E [JStr ''queued'', JStr (m_message_id m), JNum (time_or (m_updated_at m) (m_created_at m))]"

definition msg_pos :: "message_row \<Rightarrow> int \<times> string" where
  "msg_pos r = (m_created_at r, m_message_id r)"

definition unread_rows :: "string \<Rightarrow> journal \<Rightarrow> reply_row list" where
  "unread_rows target s = sort_key reply_pos (filter (\<lambda>y. y_recipient y = target \<and> \<not> y_consumed y) (j_replies s))"

definition held_rows :: "string \<Rightarrow> journal \<Rightarrow> message_row list" where
  "held_rows target s = sort_key msg_pos (filter (\<lambda>m. m_sender m = target \<and> m_phase m = Held) (j_messages s))"

definition queued_rows :: "string \<Rightarrow> journal \<Rightarrow> message_row list" where
  "queued_rows target s = sort_key msg_pos (filter (\<lambda>m. m_recipient m = target \<and> m_phase m = Queued_local \<and>
     m_recipient_type m = ''interactive'') (j_messages s))"

definition getWakeObligationsSync :: "node_env \<Rightarrow> string \<Rightarrow> bool \<Rightarrow> journal \<Rightarrow> obligations" where
  "getWakeObligationsSync E target interactiveOption s =
    (let isInteractive = (interactiveOption \<or> (case sel wb_target target (j_bindings s) of None \<Rightarrow> False
           | Some b \<Rightarrow> starts_with ''claude-session:'' (wb_thread_id b)));
         unread = unread_rows target s; held = held_rows target s;
         queued = (if isInteractive then queued_rows target s else [])
     in \<lparr>ob_unreadReplies = map mapReplyRow unread, ob_heldMessages = map mapMessageRow held,
         ob_queuedMessages = map mapMessageRow queued,
         ob_hasLateResult = (\<exists>m \<in> set held. m_late_result_text m \<noteq> None),
         ob_fingerprint = V2 (sort (map (reply_item E) unread @ map (held_item E) held @ map (queued_item E) queued))\<rparr>)"

definition getWakeObligations :: "node_env \<Rightarrow> string \<Rightarrow> bool \<Rightarrow> (journal, obligations) op" where
  "getWakeObligations E target opt = assertNotClosed (\<lambda>s. (Inr (getWakeObligationsSync E target opt s), s))"

definition fp_includes :: "string \<Rightarrow> fingerprint option \<Rightarrow> bool" where
  "fp_includes item fp = (case fp of Some (V2 items) \<Rightarrow> item \<in> set items | _ \<Rightarrow> False)"

definition getMessageWakeEvidence :: "node_env \<Rightarrow> string \<Rightarrow> (journal, string) op" where
  "getMessageWakeEvidence E mid = assertNotClosed (\<lambda>s.
     case sel m_message_id mid (j_messages s) of None \<Rightarrow> (Inr ''unknown'', s)
     | Some m \<Rightarrow>
        if m_phase m \<noteq> Queued_local \<or> m_recipient_type m \<noteq> ''interactive'' then (Inr ''unknown'', s)
        else case sel wb_target (m_recipient m) (j_bindings s) of None \<Rightarrow> (Inr ''unknown'', s)
        | Some b \<Rightarrow>
            if wb_state b = AcceptedAwaitingAck \<and> fp_includes (queued_item E m) (wb_active_fp b) then (Inr ''accepted'', s)
            else if fp_includes (queued_item E m) (wb_acked_fp b) then (Inr ''acknowledged'', s)
            else (Inr ''unknown'', s))"

section \<open>Bindings\<close>

definition is_hex_ci :: "char \<Rightarrow> bool" where
  "is_hex_ci c = in_class hex_chars (ascii_lower c)"

definition UUID_PATTERN :: "string \<Rightarrow> bool" where
  "UUID_PATTERN x = (length x = 36 \<and>
     (\<forall>i < 36. if i \<in> {8, 13, 18, 23} then x ! i = CHR ''-'' else is_hex_ci (x ! i)))"

definition is_uuid :: "string option \<Rightarrow> bool" where
  "is_uuid x = (case x of None \<Rightarrow> False | Some t \<Rightarrow> t \<noteq> [] \<and> UUID_PATTERN t)"

definition new_wake_row :: "string \<Rightarrow> string \<Rightarrow> string option \<Rightarrow> string \<Rightarrow> int \<Rightarrow> int \<Rightarrow> wake_row" where
  "new_wake_row target binding auth thread gen now = \<lparr>wb_target = target, wb_binding_id = binding, wb_auth_binding_id = auth,
     wb_thread_id = thread, wb_generation = gen, wb_state = Idle, wb_active_wake = None, wb_active_fp = None,
     wb_acked_fp = None, wb_acked_wake = None, wb_receipt_queued = None, wb_receipt_thread = None,
     wb_last_submitted = None, wb_created_at = now, wb_updated_at = now\<rparr>"

definition upd_binding :: "string \<Rightarrow> (wake_row \<Rightarrow> wake_row) \<Rightarrow> journal \<Rightarrow> journal" where
  "upd_binding target f s = s\<lparr>j_bindings := upd_where (\<lambda>b. wb_target b = target) f (j_bindings s)\<rparr>"

definition get_binding :: "string \<Rightarrow> journal \<Rightarrow> wake_row option" where
  "get_binding target s = sel wb_target target (j_bindings s)"

definition getWakeBinding :: "string \<Rightarrow> (journal, wake_row option) op" where
  "getWakeBinding target = assertNotClosed (\<lambda>s. (Inr (get_binding target s), s))"

definition rebind_state :: "delivery_state \<Rightarrow> delivery_state" where
  "rebind_state st = (if st \<noteq> Idle then StaleHeld else Idle)"

definition initWakeBinding :: "string \<Rightarrow> int \<Rightarrow> string \<Rightarrow> string option \<Rightarrow> string option \<Rightarrow> string \<Rightarrow> int option \<Rightarrow>
    (journal, wake_row option) op" where
  "initWakeBinding uuid now target bindingId authBindingId threadId generation = assertNotClosed (\<lambda>s.
     if target = [] \<or> threadId = [] then (Inl (Coded ''invalid_params''), s)
     else
       let effectiveAuth = coalesce authBindingId (if truthy bindingId \<and> \<not> is_uuid bindingId then bindingId else None);
           uuidBinding = (if is_uuid bindingId then to_lower (opt_or bindingId []) else uuid);
           s1 = (case get_binding target s of
              None \<Rightarrow> s\<lparr>j_bindings := j_bindings s @ [new_wake_row target uuidBinding effectiveAuth threadId
                        (case generation of Some g \<Rightarrow> if 1 \<le> g then g else 1 | None \<Rightarrow> 1) now]\<rparr>
            | Some b \<Rightarrow>
               let threadChanged = (wb_thread_id b \<noteq> threadId);
                   authChanged = (truthy effectiveAuth \<and> truthy (wb_auth_binding_id b) \<and> wb_auth_binding_id b \<noteq> effectiveAuth);
                   uuidChanged = (is_uuid bindingId \<and> wb_binding_id b \<noteq> to_lower (opt_or bindingId []))
               in if threadChanged \<or> authChanged \<or> uuidChanged
                  then upd_binding target (\<lambda>b. b\<lparr>wb_binding_id := uuidBinding,
                         wb_auth_binding_id := coalesce effectiveAuth (wb_auth_binding_id b), wb_thread_id := threadId,
                         wb_generation := wb_generation b + 1, wb_state := rebind_state (wb_state b), wb_updated_at := now\<rparr>) s
                  else s)
       in (Inr (get_binding target s1), s1))"

definition session_thread :: "string \<Rightarrow> string" where
  "session_thread sessionId = ''claude-session:'' @ sessionId"

definition initInteractiveWakeBinding :: "int \<Rightarrow> string \<Rightarrow> string \<Rightarrow> int \<Rightarrow> string \<Rightarrow> (journal, wake_row option) op" where
  "initInteractiveWakeBinding now senderId sessionId generation bindingId = assertNotClosed (\<lambda>s.
     if senderId = [] \<or> sessionId = [] \<or> bindingId = [] then (Inl (Coded ''invalid_params''), s)
     else
       let canonical = to_lower bindingId; threadId = session_thread sessionId;
           s1 = (case get_binding senderId s of
              None \<Rightarrow> s\<lparr>j_bindings := j_bindings s @ [new_wake_row senderId canonical None threadId generation now]\<rparr>
            | Some b \<Rightarrow>
                if wb_binding_id b \<noteq> canonical \<or> wb_generation b \<noteq> generation \<or> wb_thread_id b \<noteq> threadId
                then upd_binding senderId (\<lambda>b. b\<lparr>wb_binding_id := canonical, wb_thread_id := threadId,
                       wb_generation := generation, wb_state := rebind_state (wb_state b), wb_updated_at := now\<rparr>) s
                else s)
       in (Inr (get_binding senderId s1), s1))"

definition is_current_binding :: "string \<Rightarrow> int \<Rightarrow> string \<Rightarrow> wake_row \<Rightarrow> bool" where
  "is_current_binding canonical generation threadId b = (wb_binding_id b = canonical \<and> wb_generation b = generation \<and>
     wb_thread_id b = threadId \<and> wb_state b \<noteq> StaleHeld)"

definition bindAttachedSessionWake :: "int \<Rightarrow> string \<Rightarrow> string \<Rightarrow> int \<Rightarrow> string \<Rightarrow> (journal, wake_row option) op" where
  "bindAttachedSessionWake now senderId sessionId generation bindingId = assertNotClosed (\<lambda>s.
     if senderId = [] \<or> sessionId = [] \<or> bindingId = [] \<or> generation < 1 then (Inl (Coded ''invalid_params''), s)
     else
       let canonical = to_lower bindingId; threadId = session_thread sessionId;
           s1 = (case get_binding senderId s of
              None \<Rightarrow> s\<lparr>j_bindings := j_bindings s @ [new_wake_row senderId canonical None threadId generation now]\<rparr>
            | Some b \<Rightarrow>
                if is_current_binding canonical generation threadId b then s
                else if wb_generation b = generation \<and> wb_thread_id b = threadId \<and> wb_state b \<noteq> StaleHeld then
                  (upd_binding senderId (\<lambda>b. b\<lparr>wb_binding_id := canonical, wb_updated_at := now\<rparr>) s)
                    \<lparr>j_history := upd_where (\<lambda>h. h_target h = senderId \<and> h_session h = sessionId \<and> h_generation h = generation \<and>
                        h_binding h = wb_binding_id b) (\<lambda>h. h\<lparr>h_binding := canonical\<rparr>) (j_history s)\<rparr>
                else upd_binding senderId (\<lambda>b. b\<lparr>wb_binding_id := canonical, wb_thread_id := threadId, wb_generation := generation,
                       wb_state := Idle, wb_active_wake := None, wb_active_fp := None, wb_receipt_queued := None,
                       wb_receipt_thread := None, wb_updated_at := now\<rparr>) s)
       in (Inr (get_binding senderId s1), s1))"

section \<open>Interactive wakes\<close>

text \<open>The fences that \<open>reserve\<close>, \<open>report\<close> and \<open>ack\<close> share, in the order of the code.\<close>

definition wake_fence :: "string \<Rightarrow> string \<Rightarrow> int \<Rightarrow> string \<Rightarrow> journal \<Rightarrow> wake_row result" where
  "wake_fence target sessionId generation canonical s =
    (case get_binding target s of None \<Rightarrow> Inl (Coded ''foreign_access_denied'')
     | Some b \<Rightarrow>
        if wb_state b = StaleHeld then Inl (Coded ''stale_wake_rebound'')
        else if wb_thread_id b \<noteq> session_thread sessionId then Inl (Coded ''session_fenced'')
        else if wb_generation b \<noteq> generation then Inl (Coded ''stale_wake_generation'')
        else if wb_binding_id b \<noteq> canonical then Inl (Coded ''binding_changed'')
        else Inr b)"

definition history_key :: "string \<Rightarrow> string \<Rightarrow> string \<Rightarrow> int \<Rightarrow> string \<Rightarrow> history_row \<Rightarrow> bool" where
  "history_key target session binding gen wake h = (h_target h = target \<and> h_session h = session \<and> h_binding h = binding \<and>
     h_generation h = gen \<and> h_wake h = wake)"

definition wake_params_bad :: "string \<Rightarrow> string \<Rightarrow> string \<Rightarrow> string \<Rightarrow> int \<Rightarrow> bool" where
  "wake_params_bad target wakeId sessionId bindingId generation =
     (target = [] \<or> wakeId = [] \<or> sessionId = [] \<or> bindingId = [] \<or> generation < 1)"

definition MIN_WAKE_INTERVAL_MS :: int where
  "MIN_WAKE_INTERVAL_MS = 15000"

datatype reserve_result =
    DuplicateWake "history_state + delivery_state"
  | Busy delivery_state
  | RateLimited
  | NoObligations
  | UnchangedBacklog
  | Reserved string int nat nat nat bool

definition reserveInteractiveWake_tx :: "node_env \<Rightarrow> int \<Rightarrow> string \<Rightarrow> string \<Rightarrow> string \<Rightarrow> int \<Rightarrow> string \<Rightarrow> (journal, reserve_result) op" where
  "reserveInteractiveWake_tx E now target reservationId sessionId generation canonical s =
    (case wake_fence target sessionId generation canonical s of Inl e \<Rightarrow> (Inl e, s)
     | Inr b \<Rightarrow>
        (case find (history_key target sessionId canonical generation reservationId) (j_history s) of
           Some h \<Rightarrow> (Inr (DuplicateWake (Inl (h_state h))), s)
         | None \<Rightarrow>
            if wb_active_wake b = Some reservationId then (Inr (DuplicateWake (Inr (wb_state b))), s)
            else if wb_state b \<noteq> Idle then (Inr (Busy (wb_state b)), s)
            else if (case wb_last_submitted b of None \<Rightarrow> False | Some t \<Rightarrow> t \<noteq> 0 \<and> now - t < MIN_WAKE_INTERVAL_MS)
            then (Inr RateLimited, s)
            else
              let ob = getWakeObligationsSync E target True s in
              if length (ob_unreadReplies ob) + length (ob_heldMessages ob) + length (ob_queuedMessages ob) = 0
              then (Inr NoObligations, s)
              else if wakeSnapshotCovered (ob_fingerprint ob) (wb_acked_fp b) then (Inr UnchangedBacklog, s)
              else (Inr (Reserved reservationId (wb_generation b) (length (ob_unreadReplies ob))
                      (length (ob_queuedMessages ob)) (length (ob_heldMessages ob)) (ob_hasLateResult ob)),
                    (upd_binding target (\<lambda>b. b\<lparr>wb_state := Submitting, wb_active_wake := Some reservationId,
                        wb_active_fp := Some (ob_fingerprint ob), wb_last_submitted := Some now, wb_updated_at := now\<rparr>) s)
                      \<lparr>j_history := j_history s @ [\<lparr>h_target = target, h_session = sessionId, h_binding = canonical,
                         h_generation = generation, h_wake = reservationId, h_state = HSubmitting,
                         h_created_at = now, h_updated_at = now\<rparr>]\<rparr>)))"

definition reserveInteractiveWake :: "node_env \<Rightarrow> int \<Rightarrow> string \<Rightarrow> string \<Rightarrow> string \<Rightarrow> int \<Rightarrow> string \<Rightarrow> (journal, reserve_result) op" where
  "reserveInteractiveWake E now target reservationId sessionId generation bindingId = assertNotClosed (\<lambda>s.
     if wake_params_bad target reservationId sessionId bindingId generation then (Inl (Coded ''invalid_params''), s)
     else transaction (reserveInteractiveWake_tx E now target reservationId sessionId generation (to_lower bindingId)) s)"

datatype report_result = ReportAlreadyAcked delivery_state | Reported delivery_state

definition reportInteractiveWakeResult_tx :: "int \<Rightarrow> string \<Rightarrow> string \<Rightarrow> int \<Rightarrow> string \<Rightarrow> string \<Rightarrow> string \<Rightarrow> (journal, report_result) op" where
  "reportInteractiveWakeResult_tx now target wakeId generation sessionId canonical result s =
    (case wake_fence target sessionId generation canonical s of Inl e \<Rightarrow> (Inl e, s)
     | Inr b \<Rightarrow>
        if wb_acked_wake b = Some wakeId \<and> wb_active_wake b \<noteq> Some wakeId then (Inr (ReportAlreadyAcked (wb_state b)), s)
        else if wb_active_wake b \<noteq> Some wakeId then (Inl (Coded ''stale_wake_id''), s)
        else
          let (nxt, hnxt) = (if result = ''accepted'' then (AcceptedAwaitingAck, HAccepted) else (Uncertain, HUncertain)) in
          (Inr (Reported nxt),
           s\<lparr>j_bindings := upd_where (\<lambda>b. wb_target b = target \<and> wb_active_wake b = Some wakeId)
               (\<lambda>b. b\<lparr>wb_state := nxt, wb_updated_at := now\<rparr>) (j_bindings s),
             j_history := upd_where (history_key target sessionId canonical generation wakeId)
               (\<lambda>h. h\<lparr>h_state := hnxt, h_updated_at := now\<rparr>) (j_history s)\<rparr>))"

definition reportInteractiveWakeResult :: "int \<Rightarrow> string \<Rightarrow> string \<Rightarrow> int \<Rightarrow> string \<Rightarrow> string \<Rightarrow> string \<Rightarrow> (journal, report_result) op" where
  "reportInteractiveWakeResult now target wakeId generation sessionId bindingId result = assertNotClosed (\<lambda>s.
     if wake_params_bad target wakeId sessionId bindingId generation \<or> result = [] then (Inl (Coded ''invalid_params''), s)
     else transaction (reportInteractiveWakeResult_tx now target wakeId generation sessionId (to_lower bindingId) result) s)"

definition ack_binding :: "int \<Rightarrow> wake_row \<Rightarrow> wake_row" where
  "ack_binding now b = b\<lparr>wb_state := Idle, wb_acked_fp := wb_active_fp b, wb_acked_wake := wb_active_wake b,
     wb_active_wake := None, wb_active_fp := None, wb_updated_at := now\<rparr>"

text \<open>The result of an acknowledgement says whether it was a duplicate.\<close>

definition ackInteractiveWake_tx :: "int \<Rightarrow> string \<Rightarrow> string \<Rightarrow> int \<Rightarrow> string \<Rightarrow> string \<Rightarrow> (journal, bool) op" where
  "ackInteractiveWake_tx now target wakeId generation sessionId canonical s =
    (case wake_fence target sessionId generation canonical s of Inl e \<Rightarrow> (Inl e, s)
     | Inr b \<Rightarrow>
        if wb_active_wake b \<noteq> Some wakeId then
          if wb_acked_wake b = Some wakeId then (Inr True, s)
          else if find (history_key target sessionId canonical generation wakeId) (j_history s) \<noteq> None then (Inr True, s)
          else (Inl (Coded ''stale_wake_id''), s)
        else
          (Inr False,
           s\<lparr>j_bindings := upd_where (\<lambda>b. wb_target b = target \<and> wb_active_wake b = Some wakeId) (ack_binding now) (j_bindings s),
             j_history := upd_where (history_key target sessionId canonical generation wakeId)
               (\<lambda>h. h\<lparr>h_state := HAcknowledged, h_updated_at := now\<rparr>) (j_history s)\<rparr>))"

definition ackInteractiveWake :: "int \<Rightarrow> string \<Rightarrow> string \<Rightarrow> int \<Rightarrow> string \<Rightarrow> string \<Rightarrow> (journal, bool) op" where
  "ackInteractiveWake now target wakeId generation sessionId bindingId = assertNotClosed (\<lambda>s.
     if wake_params_bad target wakeId sessionId bindingId generation then (Inl (Coded ''invalid_params''), s)
     else transaction (ackInteractiveWake_tx now target wakeId generation sessionId (to_lower bindingId)) s)"

section \<open>Desktop wakes\<close>

definition setWakeSubmitting :: "string \<Rightarrow> string \<Rightarrow> fingerprint \<Rightarrow> int \<Rightarrow> (journal, wake_row option) op" where
  "setWakeSubmitting target wakeId fp submittedAt = assertNotClosed (\<lambda>s.
     case get_binding target s of None \<Rightarrow> (Inl (Coded ''unknown_wake_target''), s)
     | Some b \<Rightarrow>
        if wb_state b \<noteq> Idle then (Inl (Coded ''wake_state_conflict''), s)
        else let s1 = upd_binding target (\<lambda>b. b\<lparr>wb_state := Submitting, wb_active_wake := Some wakeId, wb_active_fp := Some fp,
                 wb_last_submitted := Some submittedAt, wb_updated_at := submittedAt\<rparr>) s
          in (Inr (get_binding target s1), s1))"

definition setWakeAccepted :: "int \<Rightarrow> string \<Rightarrow> string \<Rightarrow> string \<Rightarrow> string \<Rightarrow> (journal, wake_row option) op" where
  "setWakeAccepted now target wakeId queuedId threadId = assertNotClosed (\<lambda>s.
     let s1 = s\<lparr>j_bindings := upd_where (\<lambda>b. wb_target b = target \<and> wb_active_wake b = Some wakeId)
           (\<lambda>b. b\<lparr>wb_state := AcceptedAwaitingAck, wb_receipt_queued := Some queuedId, wb_receipt_thread := Some threadId,
                  wb_updated_at := now\<rparr>) (j_bindings s)\<rparr>
     in (Inr (get_binding target s1), s1))"

definition setWakeUncertain :: "int \<Rightarrow> string \<Rightarrow> string \<Rightarrow> (journal, wake_row option) op" where
  "setWakeUncertain now target wakeId = assertNotClosed (\<lambda>s.
     let s1 = s\<lparr>j_bindings := upd_where (\<lambda>b. wb_target b = target \<and> wb_active_wake b = Some wakeId)
           (\<lambda>b. b\<lparr>wb_state := Uncertain, wb_updated_at := now\<rparr>) (j_bindings s)\<rparr>
     in (Inr (get_binding target s1), s1))"

definition reconcileStaleWake :: "int \<Rightarrow> string \<Rightarrow> string \<Rightarrow> string \<Rightarrow> string \<Rightarrow> int \<Rightarrow> (journal, unit) op" where
  "reconcileStaleWake now requester threadId authBindingId wakeId generation = assertNotClosed (\<lambda>s.
     case get_binding requester s of None \<Rightarrow> (Inl (Coded ''foreign_access_denied''), s)
     | Some b \<Rightarrow>
        if wb_state b \<noteq> StaleHeld then (Inl (Coded ''wake_not_stale''), s)
        else if wb_generation b \<noteq> generation then (Inl (Coded ''stale_wake_generation''), s)
        else if wakeId = [] \<or> wb_active_wake b \<noteq> Some wakeId then (Inl (Coded ''stale_wake_id''), s)
        else if wb_thread_id b \<noteq> threadId \<or> authBindingId = [] \<or> wb_auth_binding_id b \<noteq> Some authBindingId
        then (Inl (Coded ''binding_changed''), s)
        else (Inr (), upd_binding requester (\<lambda>b. b\<lparr>wb_state := Idle, wb_active_wake := None, wb_active_fp := None,
               wb_acked_fp := None, wb_acked_wake := None, wb_receipt_queued := None, wb_receipt_thread := None,
               wb_last_submitted := None, wb_updated_at := now\<rparr>) s))"

definition ackWake :: "int \<Rightarrow> string \<Rightarrow> string \<Rightarrow> int \<Rightarrow> (journal, unit) op" where
  "ackWake now requester wakeId generation = assertNotClosed (\<lambda>s.
     if requester = [] \<or> wakeId = [] then (Inl (Coded ''invalid_params''), s)
     else case get_binding requester s of None \<Rightarrow> (Inl (Coded ''foreign_access_denied''), s)
     | Some b \<Rightarrow>
        if wb_state b = StaleHeld then (Inl (Coded ''stale_wake_rebound''), s)
        else if wb_generation b \<noteq> generation then (Inl (Coded ''stale_wake_generation''), s)
        else if wb_active_wake b \<noteq> Some wakeId then (Inl (Coded ''stale_wake_id''), s)
        else (Inr (), upd_binding requester (ack_binding now) s))"

end
