(* ===== verification/Journal_Discovery.thy ===== *)
theory Journal_Discovery
  imports Journal_Messages
begin

text \<open>
  Session discovery and attachment custody of the journal
  (\<open>local-messaging-journal.mjs\<close>, \<open>sessionAddress\<close> of
  \<open>local-messaging-interactive-session.mjs\<close>).  Lifecycle events arrive at least
  once and out of order; an event is applied once, a stale one changes nothing,
  and a session that starts again after it ended gets the next generation.
\<close>

datatype event_kind = KStart | KActivity | KEnd

record discovery_event =
  de_eventId :: string
  de_sessionId :: string
  de_kind :: event_kind
  de_workspace :: string
  de_observedAt :: int
  de_harness :: "string option"
  de_origin :: "string option"
  de_title :: "string option"
  de_host :: "host_process option"

definition sessionAddress :: "node_env \<Rightarrow> string \<Rightarrow> string \<Rightarrow> string \<Rightarrow> string" where
  "sessionAddress E installationId workspace sessionId =
     ''session-'' @ sha256 E (installationId @ [CHR 0x00] @ workspace @ [CHR 0x00] @ to_lower sessionId)"

definition event_harness :: "discovery_event \<Rightarrow> string" where
  "event_harness ev = (if truthy (de_harness ev) then opt_or (de_harness ev) [] else ''claude'')"

definition event_address :: "node_env \<Rightarrow> string \<Rightarrow> discovery_event \<Rightarrow> string" where
  "event_address E inst ev = sessionAddress E inst (de_workspace ev)
     (if event_harness ev = ''codex'' then ''codex:'' @ de_sessionId ev else de_sessionId ev)"

definition DIRECTORY_LIMIT :: nat where
  "DIRECTORY_LIMIT = 128"

text \<open>What is known of an address: its row, or the tombstone of an evicted ended session.\<close>

definition known_session :: "string \<Rightarrow> journal \<Rightarrow> (int \<times> int \<times> lifecycle) option" where
  "known_session sid s = (case sel d_id sid (j_discovered s) of
      Some d \<Rightarrow> Some (d_event_at d, d_generation d, d_lifecycle d)
    | None \<Rightarrow> (case sel en_id sid (j_ended s) of
         Some t \<Rightarrow> Some (en_event_at t, en_generation t, Ended)
       | None \<Rightarrow> None))"

definition stale_event :: "discovery_event \<Rightarrow> (int \<times> int \<times> lifecycle) option \<Rightarrow> bool" where
  "stale_event ev old = (case old of None \<Rightarrow> False
     | Some (event_at, gen, lc) \<Rightarrow> de_observedAt ev < event_at \<or>
         (de_observedAt ev = event_at \<and> de_kind ev \<noteq> KEnd) \<or> (lc = Ended \<and> de_kind ev = KActivity))"

definition next_generation :: "discovery_event \<Rightarrow> bool \<Rightarrow> (int \<times> int \<times> lifecycle) option \<Rightarrow> int" where
  "next_generation ev stale old = (case old of None \<Rightarrow> 1
     | Some (event_at, gen, lc) \<Rightarrow> gen + (if lc = Ended \<and> de_kind ev = KStart \<and> \<not> stale then 1 else 0))"

definition put_ended :: "ended_row \<Rightarrow> ended_row list \<Rightarrow> ended_row list" where
  "put_ended t rows = (if sel en_id (en_id t) rows = None then rows @ [t]
     else upd_where (\<lambda>x. en_id x = en_id t) (\<lambda>_. t) rows)"

text \<open>Make room in a full directory: the least recently seen ended session becomes a tombstone.\<close>

definition evict_ended :: "(journal, unit) op" where
  "evict_ended s = (case sort_key (\<lambda>d. (d_last_seen d, d_id d)) (filter (\<lambda>d. d_lifecycle d = Ended) (j_discovered s)) of
      [] \<Rightarrow> (Inl (Coded ''directory_full''), s)
    | d # _ \<Rightarrow> (Inr (), s\<lparr>
        j_ended := put_ended \<lparr>en_id = d_id d, en_event_at = d_event_at d, en_generation = d_generation d, en_last_seen = d_last_seen d\<rparr> (j_ended s),
        j_discovered := del_where (\<lambda>x. d_id x = d_id d) (j_discovered s)\<rparr>))"

definition new_discovered :: "node_env \<Rightarrow> journal_cfg \<Rightarrow> string \<Rightarrow> string \<Rightarrow> discovery_event \<Rightarrow> int \<Rightarrow> int \<Rightarrow> discovered_row" where
  "new_discovered E C inst sid ev gen receivedAt = \<lparr>
     d_id = sid, d_installation = inst, d_workspace = de_workspace ev, d_session_hash = sha256 E (de_sessionId ev),
     d_lifecycle = (if de_kind ev = KEnd then Ended else Observed), d_generation = gen, d_event_at = de_observedAt ev,
     d_last_seen = receivedAt, d_harness = event_harness ev,
     d_origin = (if truthy (de_origin ev) then opt_or (de_origin ev) [] else ''unknown''),
     d_title = (if c_titles C then de_title ev else None), d_host = de_host ev\<rparr>"

text \<open>\<open>ON CONFLICT(id) DO UPDATE\<close>\<close>

definition merge_discovered :: "event_kind \<Rightarrow> discovered_row \<Rightarrow> discovered_row \<Rightarrow> discovered_row" where
  "merge_discovered kind ex d = d\<lparr>
     d_lifecycle := d_lifecycle ex, d_generation := d_generation ex, d_session_hash := d_session_hash ex,
     d_event_at := d_event_at ex, d_last_seen := d_last_seen ex,
     d_origin := (if d_origin ex = ''unknown'' then d_origin d else d_origin ex),
     d_title := coalesce (d_title ex) (d_title d),
     d_host := (if d_host ex = None \<and> kind \<noteq> KStart then d_host d else d_host ex)\<rparr>"

definition put_discovered :: "event_kind \<Rightarrow> discovered_row \<Rightarrow> discovered_row list \<Rightarrow> discovered_row list" where
  "put_discovered kind ex rows = (if sel d_id (d_id ex) rows = None then rows @ [ex]
     else upd_where (\<lambda>d. d_id d = d_id ex) (merge_discovered kind ex) rows)"

definition age_out :: "int \<Rightarrow> journal \<Rightarrow> journal" where
  "age_out cutoff s = s\<lparr>
     j_events := del_where (\<lambda>e. ev_received_at e < cutoff) (j_events s),
     j_discovered := del_where (\<lambda>d. d_last_seen d < cutoff) (j_discovered s),
     j_ended := del_where (\<lambda>t. en_last_seen t < cutoff) (j_ended s)\<rparr>"

definition apply_event :: "node_env \<Rightarrow> journal_cfg \<Rightarrow> string \<Rightarrow> string \<Rightarrow> discovery_event \<Rightarrow> int \<Rightarrow> int \<Rightarrow> journal \<Rightarrow> journal" where
  "apply_event E C inst sid ev gen receivedAt s = s\<lparr>
     j_discovered := put_discovered (de_kind ev) (new_discovered E C inst sid ev gen receivedAt) (j_discovered s),
     j_ended := (if de_kind ev = KEnd
        then put_ended \<lparr>en_id = sid, en_event_at = de_observedAt ev, en_generation = gen, en_last_seen = receivedAt\<rparr> (j_ended s)
        else del_where (\<lambda>t. en_id t = sid) (j_ended s))\<rparr>"

definition recordDiscoveryEvent_tx :: "node_env \<Rightarrow> journal_cfg \<Rightarrow> string \<Rightarrow> discovery_event \<Rightarrow> string \<Rightarrow> int \<Rightarrow> (journal, discovery_result) op" where
  "recordDiscoveryEvent_tx E C inst ev digest receivedAt s =
    (let sid = event_address E inst ev in
     case sel ev_event_id (de_eventId ev) (j_events s) of
       Some previous \<Rightarrow>
         if ev_digest previous \<noteq> digest then (Inl (Coded ''duplicate_id_conflict''), s)
         else (Inr ((ev_result previous)\<lparr>dr_duplicate := True\<rparr>), s)
     | None \<Rightarrow>
        (let cutoff = receivedAt - RETENTION_MS;
             s1 = age_out cutoff s;
             stored = sel d_id sid (j_discovered s1);
             old = known_session sid s1;
             stale = stale_event ev old;
             full = (stored = None \<and> \<not> stale \<and> DIRECTORY_LIMIT \<le> length (j_discovered s1))
         in case (if full then evict_ended s1 else (Inr (), s1)) of
              (Inl e, s2) \<Rightarrow> (Inl e, s2)
            | (Inr _, s2) \<Rightarrow>
               (let generation = next_generation ev stale old;
                    s3 = (if stale then s2 else apply_event E C inst sid ev generation receivedAt s2);
                    removed = (full \<or> changes (\<lambda>d. d_last_seen d < cutoff) (j_discovered s) > 0);
                    s4 = (if removed then pruneOrphanedSessionState s3 else s3);
                    result = \<lparr>dr_id = sid, dr_generation = generation, dr_stale = stale, dr_duplicate = False\<rparr>
                in (Inr result, s4\<lparr>j_events := j_events s4 @ [\<lparr>ev_event_id = de_eventId ev, ev_digest = digest,
                      ev_result = result, ev_received_at = receivedAt\<rparr>]\<rparr>))))"

definition recordDiscoveryEvent :: "node_env \<Rightarrow> journal_cfg \<Rightarrow> string \<Rightarrow> discovery_event \<Rightarrow> string \<Rightarrow> int \<Rightarrow> (journal, discovery_result) op" where
  "recordDiscoveryEvent E C inst ev digest receivedAt = assertNotClosed (\<lambda>s.
     if event_harness ev \<notin> {''claude'', ''codex''} then (Inl (Coded ''invalid_discovery_event''), s)
     else transaction (recordDiscoveryEvent_tx E C inst ev digest receivedAt) s)"

section \<open>Directory and custody\<close>

record session_view =
  sv_id :: string
  sv_title :: "string option"
  sv_harness :: string
  sv_origin :: "string option"
  sv_workspace :: string
  sv_generation :: int
  sv_presence :: string
  sv_lifecycle :: lifecycle
  sv_lastSeenAt :: int
  sv_host :: "host_process option"

text \<open>\<open>sanitize\<close> is \<open>sanitizeSessionTitle\<close>, whose Unicode normalisation is not modelled; the label text is left out.\<close>

definition discoveredSessionView :: "(string option \<Rightarrow> string option) \<Rightarrow> journal_cfg \<Rightarrow> string \<Rightarrow> discovered_row \<Rightarrow> session_view" where
  "discoveredSessionView sanitize C workspace d = \<lparr>
     sv_id = d_id d, sv_title = (if c_titles C then sanitize (d_title d) else None), sv_harness = d_harness d,
     sv_origin = (if d_harness d = ''codex'' then Some (d_origin d) else None), sv_workspace = workspace,
     sv_generation = d_generation d, sv_presence = (if d_lifecycle d = Ended then ''offline'' else ''unknown''),
     sv_lifecycle = d_lifecycle d, sv_lastSeenAt = d_last_seen d, sv_host = d_host d\<rparr>"

definition listDiscoveredSessions :: "(string option \<Rightarrow> string option) \<Rightarrow> journal_cfg \<Rightarrow> string \<Rightarrow> string \<Rightarrow> (journal, session_view list) op" where
  "listDiscoveredSessions sanitize C inst workspace = assertNotClosed (\<lambda>s.
     (Inr (map (discoveredSessionView sanitize C workspace)
        (sort_key d_id (filter (\<lambda>d. d_installation d = inst \<and> d_workspace d = workspace) (j_discovered s)))), s))"

definition getDiscoveredSession :: "(string option \<Rightarrow> string option) \<Rightarrow> journal_cfg \<Rightarrow> string \<Rightarrow> string \<Rightarrow> string \<Rightarrow> (journal, session_view option) op" where
  "getDiscoveredSession sanitize C sid inst workspace = assertNotClosed (\<lambda>s.
     (Inr (map_option (discoveredSessionView sanitize C workspace)
        (find (\<lambda>d. d_id d = sid \<and> d_installation d = inst \<and> d_workspace d = workspace) (j_discovered s))), s))"

definition attachDiscoveredSession :: "int \<Rightarrow> string \<Rightarrow> string \<Rightarrow> int \<Rightarrow> string \<Rightarrow> bool \<Rightarrow> (journal, unit) op" where
  "attachDiscoveredSession now sid childId generation installationId wakeCapable = assertNotClosed (\<lambda>s.
     let row = \<lparr>at_id = sid, at_child = childId, at_generation = generation, at_installation = installationId,
                at_expires = now + 30000, at_wake_capable = wakeCapable\<rparr> in
     case sel at_id sid (j_attachments s) of
       Some a \<Rightarrow>
         if at_installation a = installationId \<and> now < at_expires a \<and> at_child a \<noteq> childId
         then (Inl (Coded ''attachment_busy''), s)
         else (Inr (), s\<lparr>j_attachments := upd_where (\<lambda>a. at_id a = sid) (\<lambda>_. row) (j_attachments s)\<rparr>)
     | None \<Rightarrow> (Inr (), s\<lparr>j_attachments := j_attachments s @ [row]\<rparr>))"

definition getSessionAttachment :: "string \<Rightarrow> (journal, attachment_row option) op" where
  "getSessionAttachment sid = assertNotClosed (\<lambda>s. (Inr (sel at_id sid (j_attachments s)), s))"

definition listSessionAttachments :: "(journal, attachment_row list) op" where
  "listSessionAttachments = assertNotClosed (\<lambda>s. (Inr (j_attachments s), s))"

definition detachDiscoveredSession :: "string \<Rightarrow> string \<Rightarrow> (journal, unit) op" where
  "detachDiscoveredSession sid childId = assertNotClosed (\<lambda>s.
     (Inr (), s\<lparr>j_attachments := upd_where (\<lambda>a. at_id a = sid \<and> at_child a = childId) (\<lambda>a. a\<lparr>at_expires := 0\<rparr>) (j_attachments s)\<rparr>))"

definition discoveryUsage :: "(journal, nat) op" where
  "discoveryUsage = assertNotClosed (\<lambda>s. (Inr (length (j_discovered s)), s))"

end
