(* ===== verification/Journal_Custody.thy ===== *)
theory Journal_Custody
  imports Simulation Journal_Reconcile Journal_Inbox Journal_Wake Journal_Discovery
begin

text \<open>
  The whole journal as one state machine: every operation that can change the
  database is a \<open>journal_call\<close>, and \<open>exec\<close> is its effect.  The abstract
  specification is the custody of messages and replies: what an operation may
  do to a message row and to a reply row.  Every call refines it, so the
  invariants of custody hold in every reachable journal.
\<close>

section \<open>Calls\<close>

datatype journal_call =
    CSend int envelope send_options
  | CReply int envelope
  | CCompleteWithReply int int envelope
  | CConsume int string string
  | CRecover int
  | CReopen int
  | CClaim int string
  | CComplete int string
  | CHold int string string "string option"
  | CFailure int string string "string option"
  | CCompact int int
  | CReconcile int recon_request
  | CListInbox "string \<Rightarrow> string" int string int "inbox_cursor option"
  | CClaimInbox string int string string string int string int
  | CInteractiveReply string int interactive_reply
  | CInitWake string int string "string option" "string option" string "int option"
  | CInitInteractiveWake int string string int string
  | CBindAttached int string string int string
  | CReserve int string string string int string
  | CReport int string string int string string string
  | CAck int string string int string string
  | CSetSubmitting string string fingerprint int
  | CSetAccepted int string string string string
  | CSetUncertain int string string
  | CReconcileStale int string string string string int
  | CAckWake int string string int
  | CDiscover string discovery_event string int
  | CAttach int string string int string bool
  | CDetach string string

fun exec :: "node_env \<Rightarrow> journal_cfg \<Rightarrow> journal_call \<Rightarrow> journal \<Rightarrow> journal" where
  "exec E C (CSend clock e opts) s = snd (recordSend E C clock e opts s)"
| "exec E C (CReply now e) s = snd (recordReply E now e s)"
| "exec E C (CCompleteWithReply now1 now2 e) s = snd (completeExecutionWithReply E now1 now2 e s)"
| "exec E C (CConsume now requester mid) s = snd (consumeReply now requester mid s)"
| "exec E C (CRecover now) s = snd (recoverQueued now s)"
| "exec E C (CReopen now) s = open_recovery now (close_journal s)"
| "exec E C (CClaim now mid) s = snd (claimExecution now mid s)"
| "exec E C (CComplete now mid) s = snd (completeExecution now mid s)"
| "exec E C (CHold now mid reason late) s = snd (holdExecution now mid reason late s)"
| "exec E C (CFailure now mid reason err) s = snd (recordExecutionFailure now mid reason err s)"
| "exec E C (CCompact now retention) s = snd (compact C now retention s)"
| "exec E C (CReconcile now q) s = snd (reconcileMessage E now q s)"
| "exec E C (CListInbox hmac now requester limit cur) s = snd (listInbox hmac now requester limit cur s)"
| "exec E C (CClaimInbox uuid now mid requester sid gen cid lease) s = snd (claimInboxMessage E uuid now mid requester sid gen cid lease s)"
| "exec E C (CInteractiveReply uuid now q) s = snd (recordInteractiveReply E C uuid now q s)"
| "exec E C (CInitWake uuid now target bid auth thread gen) s = snd (initWakeBinding uuid now target bid auth thread gen s)"
| "exec E C (CInitInteractiveWake now sender sid gen bid) s = snd (initInteractiveWakeBinding now sender sid gen bid s)"
| "exec E C (CBindAttached now sender sid gen bid) s = snd (bindAttachedSessionWake now sender sid gen bid s)"
| "exec E C (CReserve now target rid sid gen bid) s = snd (reserveInteractiveWake E now target rid sid gen bid s)"
| "exec E C (CReport now target wid gen sid bid res) s = snd (reportInteractiveWakeResult now target wid gen sid bid res s)"
| "exec E C (CAck now target wid gen sid bid) s = snd (ackInteractiveWake now target wid gen sid bid s)"
| "exec E C (CSetSubmitting target wid fp at) s = snd (setWakeSubmitting target wid fp at s)"
| "exec E C (CSetAccepted now target wid queued thread) s = snd (setWakeAccepted now target wid queued thread s)"
| "exec E C (CSetUncertain now target wid) s = snd (setWakeUncertain now target wid s)"
| "exec E C (CReconcileStale now requester thread auth wid gen) s = snd (reconcileStaleWake now requester thread auth wid gen s)"
| "exec E C (CAckWake now requester wid gen) s = snd (ackWake now requester wid gen s)"
| "exec E C (CDiscover inst ev digest at) s = snd (recordDiscoveryEvent E C inst ev digest at s)"
| "exec E C (CAttach now sid child gen inst cap) s = snd (attachDiscoveredSession now sid child gen inst cap s)"
| "exec E C (CDetach sid child) s = snd (detachDiscoveredSession sid child s)"

fun is_compact :: "journal_call \<Rightarrow> bool" where
  "is_compact (CCompact now retention) = True"
| "is_compact c = False"

primrec exec_all :: "node_env \<Rightarrow> journal_cfg \<Rightarrow> journal_call list \<Rightarrow> journal \<Rightarrow> journal" where
  "exec_all E C [] s = s"
| "exec_all E C (c # cs) s = exec_all E C cs (exec E C c s)"

inductive journal_step :: "node_env \<Rightarrow> journal_cfg \<Rightarrow> journal \<Rightarrow> journal \<Rightarrow> bool" for E C where
  call: "journal_step E C s (exec E C c s)"

inductive_cases journal_stepE: "journal_step E C s s'"

lemma exec_all_steps: "(journal_step E C)\<^sup>*\<^sup>* s (exec_all E C cs s)"
proof (induction cs arbitrary: s)
  case (Cons c cs)
  from Cons.IH [of "exec E C c s"] show ?case
    by (simp add: converse_rtranclp_into_rtranclp [of "journal_step E C", OF journal_step.call])
qed simp

section \<open>The specification: custody of messages and replies\<close>

text \<open>The columns of a message that no operation changes once it is admitted.\<close>

definition message_identity where
  "message_identity r = (m_message_id r, m_sender r, m_recipient r, m_recipient_type r, m_request_id r, m_in_reply_to r,
     m_text r, m_metadata r, m_canonical_hash r, m_created_at r, m_to_principal r, m_resolved_via r,
     m_reply_route_key r, m_sender_provenance r)"

text \<open>The moves of a phase: nothing returns to \<open>queued_local\<close>, only a queued message starts, only a held one fails.\<close>

definition phase_step :: "phase \<Rightarrow> phase \<Rightarrow> bool" where
  "phase_step p q \<longleftrightarrow> q = p \<or> (q = Executing \<and> p = Queued_local) \<or> q \<in> {Completed, Held} \<or> (q = Failed \<and> p = Held)"

definition evolves :: "message_row \<Rightarrow> message_row \<Rightarrow> bool" where
  "evolves r r' \<longleftrightarrow> message_identity r' = message_identity r \<and> phase_step (m_phase r) (m_phase r')"

definition reply_identity_of where
  "reply_identity_of y = (y_message_id y, y_sender y, y_recipient y, y_request_id y, y_in_reply_to y, y_text y, y_metadata y,
     y_canonical_hash y, y_created_at y, y_sender_provenance y, y_reconcile_id y)"

definition reply_evolves :: "reply_row \<Rightarrow> reply_row \<Rightarrow> bool" where
  "reply_evolves y y' \<longleftrightarrow> reply_identity_of y' = reply_identity_of y \<and> (y_consumed y \<longrightarrow> y_consumed y')"

text \<open>A reply answers the message it names, from its recipient to its sender, for the same request.\<close>

definition correlated :: "reply_row \<Rightarrow> message_row \<Rightarrow> bool" where
  "correlated y m \<longleftrightarrow> y_in_reply_to y = m_message_id m \<and> y_sender y = m_recipient m \<and> y_recipient y = m_sender m \<and>
     y_request_id y = m_request_id m"

type_synonym custody_state = "message_row list \<times> reply_row list"

text \<open>The steps that lose nothing.\<close>

inductive custody_keep :: "custody_state \<Rightarrow> custody_state \<Rightarrow> bool" where
  Admit: "\<lbrakk>sel m_message_id (m_message_id r) ms = None; m_phase r = Queued_local\<rbrakk> \<Longrightarrow> custody_keep (ms, ys) (ms @ [r], ys)"
| Touch: "list_all2 evolves ms ms' \<Longrightarrow> custody_keep (ms, ys) (ms', ys)"
| Answer: "\<lbrakk>list_all2 evolves ms ms'; m \<in> set ms; correlated y m; sel y_message_id (y_message_id y) ys = None\<rbrakk> \<Longrightarrow>
    custody_keep (ms, ys) (ms', ys @ [y])"
| Mark: "list_all2 reply_evolves ys ys' \<Longrightarrow> custody_keep (ms, ys) (ms, ys')"

text \<open>Compaction drops consumed replies and finished messages that no kept reply answers.\<close>

inductive custody_step :: "custody_state \<Rightarrow> custody_state \<Rightarrow> bool" where
  Keep: "custody_keep c c' \<Longrightarrow> custody_step c c'"
| Retire: "\<lbrakk>\<And>y. P y \<Longrightarrow> y_consumed y;
    \<And>m. Q m \<Longrightarrow> m_phase m \<in> {Completed, Failed} \<and> \<not> (\<exists>y \<in> set (del_where P ys). y_in_reply_to y = m_message_id m)\<rbrakk> \<Longrightarrow>
    custody_step (ms, ys) (del_where Q ms, del_where P ys)"

definition custody :: "journal \<Rightarrow> custody_state" where
  "custody s = (j_messages s, j_replies s)"

abbreviation refines :: "journal \<Rightarrow> journal \<Rightarrow> bool" where
  "refines s s' \<equiv> custody_keep (custody s) (custody s')"

section \<open>Every operation refines custody\<close>

lemma phase_step_simps [simp]: "phase_step p p" "phase_step p Completed" "phase_step p Held" "phase_step Queued_local Executing"
  "phase_step Held Failed"
  by (simp_all add: phase_step_def)

lemma evolves_refl [simp, intro]: "evolves r r"
  by (simp add: evolves_def)

lemma evolves_rows_refl [simp, intro]: "list_all2 evolves ms ms"
  by (simp add: list.rel_refl)

lemma stutter: "custody s' = custody s \<Longrightarrow> refines s s'"
  by (simp add: custody_def Touch)

lemma list_all2_upd_where:
  "(\<And>r. r \<in> set rows \<Longrightarrow> R r r) \<Longrightarrow> (\<And>r. r \<in> set rows \<Longrightarrow> P r \<Longrightarrow> R r (f r)) \<Longrightarrow> list_all2 R rows (upd_where P f rows)"
  by (induction rows) (auto simp: upd_where_def)

lemma touch_upd: "(\<And>r. r \<in> set ms \<Longrightarrow> P r \<Longrightarrow> evolves r (f r)) \<Longrightarrow> list_all2 evolves ms (upd_where P f ms)"
  by (rule list_all2_upd_where) auto

lemma refines_touch:
  "(\<And>r. P r \<Longrightarrow> evolves r (f r)) \<Longrightarrow> j_messages s' = upd_where P f (j_messages s) \<Longrightarrow> j_replies s' = j_replies s \<Longrightarrow> refines s s'"
  by (simp add: custody_def Touch touch_upd)

lemmas refines_upd = Touch touch_upd

lemma refines_notClosed: "refines s (snd (body s)) \<Longrightarrow> refines s (snd (assertNotClosed body s))"
  by (simp add: assertNotClosed_def stutter)

lemma refines_transaction: "(\<And>x s'. body s = (Inr x, s') \<Longrightarrow> refines s s') \<Longrightarrow> refines s (snd (transaction body s))"
  by (auto simp: transaction_def stutter split: prod.splits sum.splits)

lemma evolves_simps:
  "evolves r (set_phase Completed now r)" "evolves r (set_phase Held now r)"
  "m_phase r = Queued_local \<Longrightarrow> evolves r (set_phase Executing now r)"
  by (simp_all add: evolves_def set_phase_def message_identity_def)

lemmas evolve_defs = evolves_def set_phase_def message_identity_def


lemma recordSend_tx_admits:
  assumes "recordSend_tx E C clock e opts s = (Inr x, s')"
  shows "s' = s \<or> (\<exists>r. sel m_message_id (m_message_id r) (j_messages s) = None \<and> m_phase r = Queued_local \<and>
    j_messages s' = j_messages s @ [r] \<and> j_replies s' = j_replies s)"
proof (cases "sel m_message_id (e_messageId e) (j_messages s)")
  case (Some ex)
  with assms show ?thesis by (auto simp: recordSend_tx_def split: if_splits)
next
  case None
  let ?now = "opt_or (so_now opts) clock"
  let ?row = "new_message_row E ?now e opts"
  let ?s1 = "s\<lparr>j_messages := j_messages s @ [?row]\<rparr>"
  have row: "m_message_id ?row = e_messageId e" "m_phase ?row = Queued_local" by (simp_all add: new_message_row_def)
  have old: "upd_where (\<lambda>r. m_message_id r = e_messageId e) f (j_messages s) = j_messages s" for f
    using None by (intro upd_where_none) (force simp: sel_None_iff)
  have new: "upd_where (\<lambda>r. m_message_id r = e_messageId e) f (j_messages s @ [?row]) = j_messages s @ [f ?row]" for f
    using old [of f] row by (simp add: upd_where_def)
  obtain s2 where s2: "(case so_replyRoute opts of None \<Rightarrow> (Inr (), ?s1)
      | Some route \<Rightarrow> pin_request E ?now (e_messageId e) opts route ?s1) = (Inr (), s2)"
    and s': "j_messages s' = j_messages s2" "j_replies s' = j_replies s2"
    using assms None by (auto simp: recordSend_tx_def Let_def split: if_splits prod.splits sum.splits option.splits)
  have "\<exists>r. m_message_id r = e_messageId e \<and> m_phase r = Queued_local \<and> j_messages s2 = j_messages s @ [r] \<and> j_replies s2 = j_replies s"
  proof (cases "so_replyRoute opts")
    case None
    with s2 row show ?thesis by auto
  next
    case (Some route)
    with s2 row show ?thesis
      by (auto simp: pin_request_def new split: if_splits prod.splits sum.splits)
  qed
  with s' None show ?thesis by auto
qed

lemma refines_recordSend: "refines s (snd (recordSend E C clock e opts s))"
  unfolding recordSend_def
proof (rule refines_notClosed)
  have "refines s (snd (transaction (recordSend_tx E C clock e opts) s))"
    by (rule refines_transaction, drule recordSend_tx_admits) (auto simp: custody_def intro: Admit Touch)
  then show "refines s (snd (if envelope_incomplete e then (Inl (Coded ''invalid_envelope''), s)
      else if bad_reply_route C e opts then (Inl (Coded ''invalid_reply_route''), s)
      else transaction (recordSend_tx E C clock e opts) s))"
    by (simp add: stutter)
qed

text \<open>What a successful \<open>recordReplySync\<close> does: nothing (a duplicate), or one new correlated reply.\<close>

lemma recordReplySync_cases:
  assumes "recordReplySync E now e s = (Inr x, s')"
  obtains "s' = s" "snd x" | m where "m \<in> set (j_messages s)" "correlated (new_reply_row E now e) m"
    "sel y_message_id (y_message_id (new_reply_row E now e)) (j_replies s) = None"
    "s' = s\<lparr>j_replies := j_replies s @ [new_reply_row E now e]\<rparr>" "x = (mapReplyRow (new_reply_row E now e), False)"
proof -
  from assms obtain m where m: "sel m_message_id (opt_or (e_inReplyTo e) []) (j_messages s) = Some m"
      "e_recipient e = m_sender m" "e_sender e = m_recipient m" "e_requestId e = m_request_id m"
    by (auto simp: recordReplySync_def assertNotClosed_def split: if_splits option.splits)
  from m sel_SomeD [OF m(1)] have c: "m \<in> set (j_messages s)" "correlated (new_reply_row E now e) m"
    by (auto simp: correlated_def new_reply_row_def)
  show thesis
  proof (cases "sel y_message_id (e_messageId e) (j_replies s)")
    case None
    with assms m have "s' = s\<lparr>j_replies := j_replies s @ [new_reply_row E now e]\<rparr>"
      "x = (mapReplyRow (new_reply_row E now e), False)"
      by (auto simp: recordReplySync_def assertNotClosed_def split: if_splits option.splits)
    moreover have "y_message_id (new_reply_row E now e) = e_messageId e" by (simp add: new_reply_row_def)
    ultimately show thesis using that(2) c None by metis
  next
    case (Some y)
    with assms m have "s' = s \<and> snd x"
      by (auto simp: recordReplySync_def assertNotClosed_def split: if_splits)
    then show thesis using that(1) by simp
  qed
qed

lemma recordReplySync_error: "recordReplySync E now e s = (Inl err, s') \<Longrightarrow> s' = s"
  by (auto simp: recordReplySync_def assertNotClosed_def split: if_splits option.splits)

lemma refines_recordReply: "refines s (snd (recordReply E now e s))"
proof (cases "recordReply E now e s")
  case (Pair r s')
  show ?thesis
  proof (cases r)
    case (Inl err)
    with Pair have "s' = s" using recordReplySync_error [of E now e s err s'] by (simp add: recordReply_def)
    with Pair show ?thesis by (simp add: stutter)
  next
    case (Inr x)
    with Pair have "recordReplySync E now e s = (Inr x, s')" by (simp add: recordReply_def)
    then have "refines s s'"
      by (rule recordReplySync_cases) (auto simp: custody_def intro: Answer Touch)
    with Pair show ?thesis by simp
  qed
qed

text \<open>A committed \<open>completeExecutionWithReply\<close>: the reply is recorded and the executing message completed.\<close>

lemma completeExecutionWithReply_tx_Inr:
  assumes "completeExecutionWithReply_tx E now1 now2 e s = (Inr x, s')"
  obtains orig s1 where "sel m_message_id (opt_or (e_inReplyTo e) []) (j_messages s) = Some orig"
    "m_phase orig = Executing \<or> m_phase orig = Completed" "recordReplySync E now1 e s = (Inr x, s1)"
    "s' = (if m_phase orig = Executing then s1\<lparr>j_messages := upd_where (\<lambda>r. m_message_id r = m_message_id orig \<and> m_phase r = Executing)
        (set_phase Completed now2) (j_messages s1)\<rparr> else s1)"
proof -
  from assms obtain orig where orig: "sel m_message_id (opt_or (e_inReplyTo e) []) (j_messages s) = Some orig"
    by (auto simp: completeExecutionWithReply_tx_def Let_def split: option.splits)
  have ph: "m_phase orig = Executing \<or> m_phase orig = Completed"
    using assms orig by (auto simp: completeExecutionWithReply_tx_def Let_def split: if_splits)
  obtain res s1 where r: "recordReplySync E now1 e s = (res, s1)" by force
  then obtain y where y: "res = Inr y"
    using assms orig by (cases res) (auto simp: completeExecutionWithReply_tx_def Let_def split: if_splits)
  have "y = x \<and> s' = (if m_phase orig = Executing then s1\<lparr>j_messages := upd_where (\<lambda>r. m_message_id r = m_message_id orig \<and> m_phase r = Executing)
        (set_phase Completed now2) (j_messages s1)\<rparr> else s1)"
    using assms orig r y by (simp add: completeExecutionWithReply_tx_def Let_def split: if_splits)
  with orig ph r y show thesis by (intro that) auto
qed

lemma refines_completeExecutionWithReply: "refines s (snd (completeExecutionWithReply E now1 now2 e s))"
proof -
  have tx: "refines s s'" if tx: "completeExecutionWithReply_tx E now1 now2 e s = (Inr x, s')" for x s'
  proof -
    from tx obtain orig s1 where "sel m_message_id (opt_or (e_inReplyTo e) []) (j_messages s) = Some orig"
        "m_phase orig = Executing \<or> m_phase orig = Completed"
      and r: "recordReplySync E now1 e s = (Inr x, s1)"
      and s': "s' = (if m_phase orig = Executing then s1\<lparr>j_messages := upd_where (\<lambda>r. m_message_id r = m_message_id orig \<and> m_phase r = Executing)
        (set_phase Completed now2) (j_messages s1)\<rparr> else s1)"
      by (rule completeExecutionWithReply_tx_Inr)
    have ev: "list_all2 evolves (j_messages s) (j_messages s')" if "j_messages s1 = j_messages s"
      using that by (simp add: s' touch_upd evolves_simps)
    have ys: "j_replies s' = j_replies s1" by (simp add: s')
    from r show ?thesis
      by (rule recordReplySync_cases) (use ev ys in \<open>auto simp: custody_def intro: Touch Answer\<close>)
  qed
  show ?thesis unfolding completeExecutionWithReply_def
    by (rule refines_notClosed) (simp add: stutter refines_transaction tx)
qed

lemma refines_consumeReply: "refines s (snd (consumeReply now requester mid s))"
  unfolding consumeReply_def
  by (rule refines_notClosed)
    (auto simp: stutter custody_def reply_evolves_def reply_identity_of_def split: option.splits intro!: Mark list_all2_upd_where Touch)

lemma refines_open: "refines s (open_recovery now (close_journal s))"
  by (auto simp: custody_def open_recovery_def hold_executing_def close_journal_def evolve_defs intro!: refines_upd)

lemma refines_recoverQueued: "refines s (snd (recoverQueued now s))"
  unfolding recoverQueued_def Let_def
  by (rule refines_notClosed) (auto simp: custody_def hold_executing_def evolve_defs intro!: refines_upd)

lemma refines_claimExecution: "refines s (snd (claimExecution now mid s))"
  unfolding claimExecution_def Let_def
  by (rule refines_notClosed) (auto simp: custody_def evolves_simps intro!: refines_upd)

lemma refines_completeExecution: "refines s (snd (completeExecution now mid s))"
  unfolding completeExecution_def Let_def
  by (rule refines_notClosed) (auto simp: custody_def evolves_simps intro!: refines_upd)

lemma refines_holdExecution: "refines s (snd (holdExecution now mid reason late s))"
  unfolding holdExecution_def Let_def
  by (rule refines_notClosed) (auto simp: custody_def evolve_defs intro!: refines_upd)

lemma refines_recordExecutionFailure: "refines s (snd (recordExecutionFailure now mid reason err s))"
  unfolding recordExecutionFailure_def Let_def
  by (rule refines_notClosed) (auto simp: custody_def evolve_defs intro!: refines_upd)

lemma compact_retires: "custody_step (custody s) (custody (snd (compact C now retention s)))"
proof (cases "j_closed s")
  case True
  then show ?thesis by (simp add: compact_def assertNotClosed_def stutter Keep)
next
  case False
  then show ?thesis
    by (auto simp: compact_def assertNotClosed_def Let_def custody_def compactable_message_def intro!: Retire)
qed

lemma refines_listInbox: "refines s (snd (listInbox hmac now requester limit cur s))"
  unfolding listInbox_def Let_def
proof (rule refines_notClosed)
  let ?s1 = "s\<lparr>j_messages := reap_expired now requester (j_messages s)\<rparr>"
  have "refines s ?s1"
    by (auto simp: custody_def reap_expired_def hold_expired_def evolve_defs intro!: refines_upd)
  then show "refines s (snd (if requester = [] then (Inl (Coded ''invalid_params''), s)
     else case case cur of None \<Rightarrow> Inr None
             | Some c \<Rightarrow> (case decodeCursor hmac c requester of Inl e \<Rightarrow> Inl e | Inr p \<Rightarrow> Inr (Some p)) of
         Inl e \<Rightarrow> (Inl e, ?s1)
       | Inr pos \<Rightarrow>
           (Inr (map mapMessageRow (fst (page_loop (clamp_limit limit 100) 64 []
              (take (clamp_limit limit 100 + 1) (inbox_rows requester pos (j_messages ?s1))))),
             page_cursor hmac requester (page_loop (clamp_limit limit 100) 64 []
              (take (clamp_limit limit 100 + 1) (inbox_rows requester pos (j_messages ?s1))))), ?s1)))"
    by (auto simp: stutter split: sum.splits)
qed


lemma checkReconcileRecord_Inr:
  assumes "checkReconcileRecord E s row n = Inr (r, ids, late)"
  shows "row = Some r \<and> m_phase r = Held \<and> ids = replyIdsFor s (n_messageId n) \<and> late = m_late_result_text r \<and>
    (n_action n = AcceptLateResult \<longrightarrow> ids = [] \<and> truthy late \<and> \<not> truthy (m_reply_route_key r) \<and>
       sel y_message_id (accepted_reply_id (n_reconcileId n)) (j_replies s) = None)"
  using assms
  by (cases "n_action n") (simp_all add: checkReconcileRecord_def Let_def split: option.splits if_splits)

lemma recon_outcome_evolves:
  "m_phase r = Held \<Longrightarrow> evolves r ((set_phase (fst (recon_outcome a)) now r)\<lparr>m_reason := x, m_late_result_text := y\<rparr>)"
  by (cases a) (simp_all add: evolve_defs recon_outcome_def)

lemma accepted_reply_correlated: "correlated (accepted_reply_row E now rid r late) r"
  by (simp add: correlated_def accepted_reply_row_def new_reply_row_def accepted_envelope_def)

text \<open>The state a fresh reconciliation commits.\<close>

lemma reconcileMessage_tx_fresh:
  assumes "reconcileMessage_tx E now n s = (Inr x, s')" "sel rc_reconcile_id (n_reconcileId n) (j_recons s) = None"
  obtains r ids late where
    "checkReconcileRecord E s (sel m_message_id (n_messageId n) (j_messages s)) n = Inr (r, ids, late)"
    "j_messages s' = upd_where (\<lambda>r. m_message_id r = n_messageId n \<and> m_phase r = Held)
       (\<lambda>r. (set_phase (fst (recon_outcome (n_action n))) now r)\<lparr>m_reason := Some (snd (recon_outcome (n_action n))),
          m_late_result_text := None\<rparr>) (j_messages s)"
    "j_replies s' = (if n_action n = AcceptLateResult then j_replies s @ [accepted_reply_row E now (n_reconcileId n) r late]
       else j_replies s)"
proof -
  from assms obtain r ids late where
    c: "checkReconcileRecord E s (sel m_message_id (n_messageId n) (j_messages s)) n = Inr (r, ids, late)"
    by (auto simp: reconcileMessage_tx_def split: sum.splits prod.splits)
  have "j_messages s' = upd_where (\<lambda>r. m_message_id r = n_messageId n \<and> m_phase r = Held)
       (\<lambda>r. (set_phase (fst (recon_outcome (n_action n))) now r)\<lparr>m_reason := Some (snd (recon_outcome (n_action n))),
          m_late_result_text := None\<rparr>) (j_messages s) \<and>
    j_replies s' = (if n_action n = AcceptLateResult then j_replies s @ [accepted_reply_row E now (n_reconcileId n) r late]
       else j_replies s)"
    using assms c by (auto simp: reconcileMessage_tx_def Let_def split: prod.splits)
  with c show thesis by (intro that) auto
qed

lemma refines_reconcileMessage: "refines s (snd (reconcileMessage E now q s))"
proof -
  have tx: "refines s s'" if tx: "reconcileMessage_tx E now n s = (Inr x, s')" for n x s'
  proof (cases "sel rc_reconcile_id (n_reconcileId n) (j_recons s)")
    case (Some prior)
    with tx show ?thesis by (auto simp: reconcileMessage_tx_def stutter split: sum.splits)
  next
    case None
    from tx None show ?thesis
    proof (rule reconcileMessage_tx_fresh)
      fix r ids late
      assume c: "checkReconcileRecord E s (sel m_message_id (n_messageId n) (j_messages s)) n = Inr (r, ids, late)"
        and ms: "j_messages s' = upd_where (\<lambda>r. m_message_id r = n_messageId n \<and> m_phase r = Held)
          (\<lambda>r. (set_phase (fst (recon_outcome (n_action n))) now r)\<lparr>m_reason := Some (snd (recon_outcome (n_action n))),
             m_late_result_text := None\<rparr>) (j_messages s)"
        and ys: "j_replies s' = (if n_action n = AcceptLateResult
          then j_replies s @ [accepted_reply_row E now (n_reconcileId n) r late] else j_replies s)"
      have ev: "list_all2 evolves (j_messages s) (j_messages s')"
        unfolding ms by (rule touch_upd) (simp add: recon_outcome_evolves)
      have "r \<in> set (j_messages s)" using checkReconcileRecord_Inr [OF c] sel_SomeD by metis
      moreover have "n_action n = AcceptLateResult \<Longrightarrow>
          sel y_message_id (y_message_id (accepted_reply_row E now (n_reconcileId n) r late)) (j_replies s) = None"
        using checkReconcileRecord_Inr [OF c] by (simp add: accepted_reply_row_def new_reply_row_def accepted_envelope_def)
      ultimately show ?thesis
        using ev by (auto simp: custody_def ys intro: Touch Answer accepted_reply_correlated)
    qed
  qed
  show ?thesis unfolding reconcileMessage_def
    by (rule refines_notClosed) (auto simp: stutter intro: refines_transaction tx split: sum.splits)
qed

lemma refines_claimInboxMessage: "refines s (snd (claimInboxMessage E uuid now mid requester sid gen cid lease s))"
  unfolding claimInboxMessage_def Let_def
  by (rule refines_notClosed)
    (auto simp: stutter custody_def hold_expired_def evolve_defs intro!: refines_upd split: option.splits)


definition bump_claim :: "interactive_reply \<Rightarrow> message_row \<Rightarrow> message_row" where
  "bump_claim q = (\<lambda>r. r\<lparr>m_claim_generation := Some (ir_generation q)\<rparr>)"

lemma finish_reply_Inr:
  assumes "finish_reply E q orig pin y dup s = (Inr x, s')"
  shows "x = Replied (mapReplyRow y) dup \<and> j_replies s' = j_replies s \<and> (j_messages s' = j_messages s \<or>
    j_messages s' = upd_where (\<lambda>r. m_message_id r = ir_messageId q) (bump_claim q) (j_messages s))"
proof (cases pin)
  case None
  with assms show ?thesis by (auto simp: finish_reply_def commitAcceptedReply_def)
next
  case (Some p)
  obtain res tab where "advanceInTransaction E (opt_or (m_reply_route_key orig) []) (r_local p) (r_remote p) (j_routes s) = (res, tab)"
    by force
  with assms Some show ?thesis
    by (cases res) (auto simp: finish_reply_def commitAcceptedReply_def bump_claim_def)
qed

lemma upd_where_twice: "(\<And>r. P r \<Longrightarrow> P (f r)) \<Longrightarrow> upd_where P g (upd_where P f rows) = upd_where P (\<lambda>r. g (f r)) rows"
  by (simp add: upd_where_def)

lemma reply_to_executing_cases:
  assumes "reply_to_executing E uuid now q orig pin s = (Inr x, s')"
  obtains (dup) y where "finish_reply E q orig pin y True s = (Inr x, s')"
  | (new) y u where "sel y_message_id (y_message_id y) (j_replies s) = None"
      "y_in_reply_to y = ir_messageId q \<and> y_sender y = ir_requester q \<and> y_recipient y = m_sender orig \<and> y_request_id y = m_request_id orig"
      "u = s\<lparr>j_replies := j_replies s @ [y],
         j_messages := upd_where (\<lambda>r. m_message_id r = ir_messageId q) (set_phase Completed now) (j_messages s)\<rparr>"
      "finish_reply E q orig pin y False u = (Inr x, s')"
proof -
  define replyId where "replyId = (if truthy (ir_replyId q) then opt_or (ir_replyId q) [] else ''rep-'' @ uuid)"
  define prov where "prov = (case (pin, ir_identity q) of (Some _, Some ident) \<Rightarrow> ri_senderProvenance ident | _ \<Rightarrow> None)"
  let ?y = "(new_reply_row E now (reply_envelope q orig replyId))\<lparr>y_sender_provenance := prov\<rparr>"
  show thesis
  proof (cases "sel y_message_id replyId (j_replies s)")
    case (Some y)
    with assms have "finish_reply E q orig pin y True s = (Inr x, s')"
      by (auto simp: reply_to_executing_def replyId_def [symmetric] Let_def split: if_splits)
    then show thesis by (rule dup)
  next
    case None
    with assms have "finish_reply E q orig pin ?y False (s\<lparr>j_replies := j_replies s @ [?y],
         j_messages := upd_where (\<lambda>r. m_message_id r = ir_messageId q) (set_phase Completed now) (j_messages s)\<rparr>) = (Inr x, s')"
      by (simp add: reply_to_executing_def replyId_def [symmetric] prov_def Let_def)
    with None show thesis
      by (intro new [of ?y]) (simp_all add: new_reply_row_def reply_envelope_def)
  qed
qed

text \<open>What a committed interactive reply leaves: a touched message, and at most one new correlated reply.\<close>

lemma recordInteractiveReply_tx_refines:
  assumes "recordInteractiveReply_tx E C uuid now q s = (Inr x, s')"
  shows "refines s s'"
proof -
  let ?P = "\<lambda>r. m_message_id r = ir_messageId q"
  from assms obtain orig pin where orig: "sel m_message_id (ir_messageId q) (j_messages s) = Some orig"
    and own: "m_recipient orig = ir_requester q" "m_recipient_type orig = ''interactive''"
    and pin: "reply_pin_check E C now q orig s = Inr pin" "claim_fence q orig pin = Inr ()"
    by (auto simp: recordInteractiveReply_tx_def split: option.splits if_splits sum.splits)
  from sel_SomeD [OF orig] have mem: "orig \<in> set (j_messages s)" "m_message_id orig = ir_messageId q" by auto
  have fin: "j_replies u' = j_replies u \<and> (j_messages u' = j_messages u \<or> j_messages u' = upd_where ?P (bump_claim q) (j_messages u))"
    if "finish_reply E q orig pin y d u = (Inr z, u')" for y d u z u'
    using finish_reply_Inr [OF that] by blast
  have touch: "refines s u" if "j_replies u = j_replies s"
    "j_messages u = j_messages s \<or> j_messages u = upd_where ?P (bump_claim q) (j_messages s)" for u
    using that by (auto simp: custody_def bump_claim_def evolve_defs intro!: refines_upd)
  note tx = assms [unfolded recordInteractiveReply_tx_def orig option.case own pin sum.case, simplified]
  show ?thesis
  proof (cases "m_phase orig")
    case Completed
    with tx have "reply_to_completed E q orig pin s = (Inr x, s')" by simp
    then obtain y where "finish_reply E q orig pin y True s = (Inr x, s')"
      by (auto simp: reply_to_completed_def split: option.splits if_splits)
    with fin touch show ?thesis by blast
  next
    case Executing
    show ?thesis
    proof (cases "lease_expired now orig")
      case True
      with tx Executing show ?thesis by (auto simp: custody_def hold_expired_def evolve_defs intro!: refines_upd)
    next
      case False
      with tx Executing have "reply_to_executing E uuid now q orig pin s = (Inr x, s')" by simp
      then show ?thesis
      proof (cases rule: reply_to_executing_cases)
        case (dup y)
        with fin touch show ?thesis by blast
      next
        case (new y u)
        from fin [OF new(4)] new(3) have ys: "j_replies s' = j_replies s @ [y]" by auto
        from fin [OF new(4)] new(3) have "list_all2 evolves (j_messages s) (j_messages s')"
          by (auto simp: upd_where_twice set_phase_def bump_claim_def evolves_def message_identity_def intro!: touch_upd)
        with new(1,2) mem ys own show ?thesis
          by (auto simp: custody_def correlated_def intro!: Answer [where m = orig])
      qed
    qed
  next
    case Held
    with tx show ?thesis by (auto simp: custody_def evolve_defs intro!: refines_upd)
  qed (use tx in auto)
qed


lemma refines_recordInteractiveReply: "refines s (snd (recordInteractiveReply E C uuid now q s))"
  unfolding recordInteractiveReply_def
proof (rule refines_notClosed)
  let ?tx = "transaction (recordInteractiveReply_tx E C uuid now q) s"
  have "refines s (snd ?tx)"
    by (rule refines_transaction) (rule recordInteractiveReply_tx_refines)
  then show "refines s (snd (if ir_messageId q = [] \<or> ir_claimToken q = [] \<or> ir_text q = None \<or> ir_requester q = [] \<or> ir_sessionId q = []
     then (Inl (Coded ''invalid_params''), s)
     else case ?tx of (Inl e, s') \<Rightarrow> (Inl e, s') | (Inr (CommittedError c), s') \<Rightarrow> (Inl (Coded c), s')
      | (Inr (Replied v dup), s') \<Rightarrow> (Inr (v, dup), s')))"
    by (auto simp: stutter split: prod.splits sum.splits reply_outcome.splits)
qed

subsection \<open>Wake and discovery operations leave custody alone\<close>

lemma upd_binding_custody [simp]: "custody (upd_binding target f s) = custody s"
  by (simp add: upd_binding_def custody_def)

lemma custody_frame [simp]:
  "custody (s\<lparr>j_bindings := b\<rparr>) = custody s" "custody (s\<lparr>j_history := h\<rparr>) = custody s" "custody (s\<lparr>j_discovered := d\<rparr>) = custody s"
  "custody (s\<lparr>j_ended := t\<rparr>) = custody s" "custody (s\<lparr>j_events := ev\<rparr>) = custody s" "custody (s\<lparr>j_attachments := a\<rparr>) = custody s"
  "custody (pruneOrphanedSessionState s) = custody s"
  by (simp_all add: custody_def)

lemma notClosed_custody: "custody (snd (body s)) = custody s \<Longrightarrow> custody (snd (assertNotClosed body s)) = custody s"
  by (simp add: assertNotClosed_def)

lemma transaction_custody: "custody (snd (body s)) = custody s \<Longrightarrow> custody (snd (transaction body s)) = custody s"
  by (auto simp: transaction_def split: prod.splits sum.splits)

lemma if_custody: "custody (snd (if b then (Inl e, s) else p)) = (if b then custody s else custody (snd p))"
  by simp

lemma wake_init_custody:
  "custody (snd (initWakeBinding uuid now target bid auth thread gen s)) = custody s"
  "custody (snd (initInteractiveWakeBinding now sender sid g bnd s)) = custody s"
  "custody (snd (bindAttachedSessionWake now sender sid g bnd s)) = custody s"
  unfolding initWakeBinding_def initInteractiveWakeBinding_def bindAttachedSessionWake_def
  by (rule notClosed_custody, simp add: Let_def split: option.split)+

lemma wake_interactive_custody:
  "custody (snd (reserveInteractiveWake E now target rid sid gen bid s)) = custody s"
  "custody (snd (reportInteractiveWakeResult now target wid gen sid bid res s)) = custody s"
  "custody (snd (ackInteractiveWake now target wid gen sid bid s)) = custody s"
proof -
  have "custody (snd (reserveInteractiveWake_tx E now target rid sid gen b s)) = custody s" for b
    by (simp add: reserveInteractiveWake_tx_def Let_def split: sum.split option.split)
  moreover have "custody (snd (reportInteractiveWakeResult_tx now target wid gen sid b res s)) = custody s" for b
    by (simp add: reportInteractiveWakeResult_tx_def Let_def split: sum.split option.split)
  moreover have "custody (snd (ackInteractiveWake_tx now target wid gen sid b s)) = custody s" for b
    by (simp add: ackInteractiveWake_tx_def split: sum.split option.split)
  ultimately show
    "custody (snd (reserveInteractiveWake E now target rid sid gen bid s)) = custody s"
    "custody (snd (reportInteractiveWakeResult now target wid gen sid bid res s)) = custody s"
    "custody (snd (ackInteractiveWake now target wid gen sid bid s)) = custody s"
    unfolding reserveInteractiveWake_def reportInteractiveWakeResult_def ackInteractiveWake_def
    by (simp_all add: notClosed_custody transaction_custody)
qed

lemma wake_desktop_custody:
  "custody (snd (setWakeSubmitting target wid fp at s)) = custody s"
  "custody (snd (setWakeAccepted now target wid queued thread s)) = custody s"
  "custody (snd (setWakeUncertain now target wid s)) = custody s"
  "custody (snd (reconcileStaleWake now requester thread auth wid gen s)) = custody s"
  "custody (snd (ackWake now requester wid gen s)) = custody s"
  unfolding setWakeSubmitting_def setWakeAccepted_def setWakeUncertain_def reconcileStaleWake_def ackWake_def
  by (rule notClosed_custody, simp add: Let_def split: option.split)+

lemma evict_custody: "custody (snd (evict_ended s)) = custody s"
  by (simp add: evict_ended_def split: list.split)

lemma discovery_custody:
  "custody (snd (recordDiscoveryEvent E C inst ev digest at s)) = custody s"
  "custody (snd (attachDiscoveredSession now sid child gen inst cap s)) = custody s"
  "custody (snd (detachDiscoveredSession sid child s)) = custody s"
proof -
  have age: "custody (age_out cutoff s) = custody s" for cutoff by (simp add: age_out_def)
  have ap: "custody (apply_event E C inst sid ev gen r u) = custody u" for sid gen r u by (simp add: apply_event_def)
  obtain r u where e: "evict_ended (age_out (at - RETENTION_MS) s) = (r, u)" by force
  then have u: "custody u = custody s"
    using evict_custody [of "age_out (at - RETENTION_MS) s"] by (simp add: age)
  have "custody (snd (recordDiscoveryEvent_tx E C inst ev digest at s)) = custody s"
    by (cases r) (simp_all add: recordDiscoveryEvent_tx_def Let_def age ap e u split: option.split)
  then show "custody (snd (recordDiscoveryEvent E C inst ev digest at s)) = custody s"
    unfolding recordDiscoveryEvent_def by (simp add: notClosed_custody transaction_custody)
  show "custody (snd (attachDiscoveredSession now sid child gen inst cap s)) = custody s"
    unfolding attachDiscoveredSession_def by (rule notClosed_custody) (simp add: Let_def split: option.split)
  show "custody (snd (detachDiscoveredSession sid child s)) = custody s"
    unfolding detachDiscoveredSession_def by (rule notClosed_custody) simp
qed

lemmas refines_simps = refines_recordSend refines_recordReply refines_completeExecutionWithReply refines_consumeReply refines_open
  refines_recoverQueued refines_claimExecution refines_completeExecution refines_holdExecution refines_recordExecutionFailure
  refines_reconcileMessage refines_listInbox refines_claimInboxMessage refines_recordInteractiveReply

lemmas custody_simps = wake_init_custody wake_interactive_custody wake_desktop_custody discovery_custody

lemma exec_keeps: "\<not> is_compact c \<Longrightarrow> refines s (exec E C c s)"
  by (cases c) (simp_all add: refines_simps custody_simps stutter)

lemma exec_refines: "custody_step (custody s) (custody (exec E C c s))"
  by (cases c) (simp_all add: refines_simps custody_simps stutter compact_retires Keep)

interpretation journal_custody: simulation "journal_step E C" custody_step custody for E C
  by unfold_locales (auto elim: journal_stepE intro: exec_refines)


section \<open>The custody invariant\<close>

definition custody_inv :: "custody_state \<Rightarrow> bool" where
  "custody_inv c = (unique_key m_message_id (fst c) \<and> unique_key y_message_id (snd c) \<and>
     (\<forall>y \<in> set (snd c). \<exists>m \<in> set (fst c). correlated y m))"

lemma list_all2_map_eq: "list_all2 (\<lambda>a b. f b = f a) xs ys \<Longrightarrow> map f ys = map f xs"
  by (induction rule: list_all2_induct) auto

lemma evolves_key: "evolves r r' \<Longrightarrow> m_message_id r' = m_message_id r"
  by (simp add: evolves_def message_identity_def)

lemma evolves_rows_keys: "list_all2 evolves ms ms' \<Longrightarrow> map m_message_id ms' = map m_message_id ms"
  by (rule list_all2_map_eq) (auto elim: list_all2_mono simp: evolves_key)

lemma reply_rows_keys: "list_all2 reply_evolves ys ys' \<Longrightarrow> map y_message_id ys' = map y_message_id ys"
  by (rule list_all2_map_eq) (auto elim: list_all2_mono simp: reply_evolves_def reply_identity_of_def)

lemma list_all2_memD: "list_all2 R xs ys \<Longrightarrow> x \<in> set xs \<Longrightarrow> \<exists>y \<in> set ys. R x y"
  by (induction rule: list_all2_induct) auto

lemma list_all2_memD2: "list_all2 R xs ys \<Longrightarrow> y \<in> set ys \<Longrightarrow> \<exists>x \<in> set xs. R x y"
  by (induction rule: list_all2_induct) auto

lemma correlated_evolves: "correlated y m \<Longrightarrow> evolves m m' \<Longrightarrow> correlated y m'"
  by (auto simp: correlated_def evolves_def message_identity_def)

lemma correlated_rows:
  assumes "list_all2 evolves ms ms'" "\<forall>y \<in> Y. \<exists>m \<in> set ms. correlated y m"
  shows "\<forall>y \<in> Y. \<exists>m \<in> set ms'. correlated y m"
proof
  fix y assume "y \<in> Y"
  with assms(2) obtain m where "m \<in> set ms" "correlated y m" by blast
  with list_all2_memD [OF assms(1), of m] correlated_evolves show "\<exists>m \<in> set ms'. correlated y m" by blast
qed

lemma correlated_reply_evolves: "correlated y m \<Longrightarrow> reply_evolves y y' \<Longrightarrow> correlated y' m"
  by (auto simp: correlated_def reply_evolves_def reply_identity_of_def)

lemma custody_inv_empty: "custody_inv (custody empty_journal)"
  by (simp add: custody_inv_def custody_def empty_journal_def)

lemma custody_keep_inv: "custody_keep c c' \<Longrightarrow> custody_inv c \<Longrightarrow> custody_inv c'"
proof (induction rule: custody_keep.induct)
  case (Admit r ms ys)
  then show ?case by (auto simp: custody_inv_def intro: unique_key_snoc)
next
  case (Touch ms ms' ys)
  have "\<forall>y \<in> set ys. \<exists>m \<in> set ms'. correlated y m"
    using Touch.prems by (intro correlated_rows [OF Touch.hyps]) (simp add: custody_inv_def)
  with Touch show ?case by (simp add: custody_inv_def unique_key_def evolves_rows_keys)
next
  case (Answer ms ms' m y ys)
  then have "\<forall>z \<in> set (ys @ [y]). \<exists>m \<in> set ms. correlated z m" by (auto simp: custody_inv_def)
  with Answer.hyps(1) have "\<forall>z \<in> set (ys @ [y]). \<exists>m \<in> set ms'. correlated z m"
    by (rule correlated_rows)
  with Answer show ?case by (simp add: custody_inv_def unique_key_snoc) (simp add: unique_key_def evolves_rows_keys)
next
  case (Mark ys ys' ms)
  have "\<exists>m \<in> set ms. correlated y' m" if "y' \<in> set ys'" for y'
    using list_all2_memD2 [OF Mark.hyps that] Mark.prems correlated_reply_evolves by (fastforce simp: custody_inv_def)
  with Mark show ?case by (simp add: custody_inv_def unique_key_def reply_rows_keys)
qed

lemma custody_step_inv: "custody_step c c' \<Longrightarrow> custody_inv c \<Longrightarrow> custody_inv c'"
proof (induction rule: custody_step.induct)
  case (Keep c c')
  then show ?case by (rule custody_keep_inv)
next
  case (Retire P Q ys ms)
  have "\<exists>m \<in> set (del_where Q ms). correlated y m" if y: "y \<in> set (del_where P ys)" for y
  proof -
    from y Retire.prems obtain m where m: "m \<in> set ms" "correlated y m" by (auto simp: custody_inv_def)
    with y Retire.hyps(2) [of m] have "\<not> Q m" unfolding correlated_def by blast
    with m show ?thesis by auto
  qed
  with Retire.prems show ?case by (auto simp: custody_inv_def)
qed

lemma exec_all_inv: "custody_inv (custody (exec_all E C cs empty_journal))"
  by (rule journal_custody.invariant_lifts [where I = custody_inv, OF custody_step_inv exec_all_steps custody_inv_empty])

section \<open>At most one claim\<close>

text \<open>The message a call starts: the claims that were granted, retries of the same claim apart.\<close>

fun granted :: "node_env \<Rightarrow> journal_cfg \<Rightarrow> journal_call \<Rightarrow> journal \<Rightarrow> string option" where
  "granted E C (CClaim now mid) s = (case fst (claimExecution now mid s) of Inr (Some v) \<Rightarrow> Some mid | _ \<Rightarrow> None)"
| "granted E C (CClaimInbox uuid now mid requester sid gen cid lease) s =
    (case fst (claimInboxMessage E uuid now mid requester sid gen cid lease s) of
       Inr (Some cr) \<Rightarrow> if cr_isRetry cr then None else Some mid
     | _ \<Rightarrow> None)"
| "granted E C c s = None"

primrec grants :: "node_env \<Rightarrow> journal_cfg \<Rightarrow> journal_call list \<Rightarrow> journal \<Rightarrow> string list" where
  "grants E C [] s = []"
| "grants E C (c # cs) s = (case granted E C c s of None \<Rightarrow> [] | Some m \<Rightarrow> [m]) @ grants E C cs (exec E C c s)"

text \<open>A message that has left the queue.\<close>

definition started :: "string \<Rightarrow> journal \<Rightarrow> bool" where
  "started mid s = (\<exists>r \<in> set (j_messages s). m_message_id r = mid \<and> m_phase r \<noteq> Queued_local)"


lemma started_rows:
  assumes "list_all2 evolves ms ms'" "\<exists>r \<in> set ms. m_message_id r = mid \<and> m_phase r \<noteq> Queued_local"
  shows "\<exists>r \<in> set ms'. m_message_id r = mid \<and> m_phase r \<noteq> Queued_local"
proof -
  from assms(2) obtain r where r: "r \<in> set ms" "m_message_id r = mid" "m_phase r \<noteq> Queued_local" by blast
  from list_all2_memD [OF assms(1) r(1)] obtain r' where "r' \<in> set ms'" "evolves r r'" by blast
  with r show ?thesis by (auto simp: evolves_def phase_step_def message_identity_def)
qed

lemma started_keep: "custody_keep c c' \<Longrightarrow> \<exists>r \<in> set (fst c). m_message_id r = mid \<and> m_phase r \<noteq> Queued_local \<Longrightarrow>
    \<exists>r \<in> set (fst c'). m_message_id r = mid \<and> m_phase r \<noteq> Queued_local"
  by (induction rule: custody_keep.induct) (simp_all only: fst_conv started_rows set_append bex_Un, blast)

lemma started_exec: "\<not> is_compact c \<Longrightarrow> started mid s \<Longrightarrow> started mid (exec E C c s)"
  using started_keep [OF exec_keeps, of c s mid E C] by (simp add: started_def custody_def)

lemma queued_unique_not_started:
  assumes "unique_key m_message_id (j_messages s)" "r \<in> set (j_messages s)" "m_message_id r = mid" "m_phase r = Queued_local"
  shows "\<not> started mid s"
proof
  assume "started mid s"
  then obtain r' where r': "r' \<in> set (j_messages s)" "m_message_id r' = mid" "m_phase r' \<noteq> Queued_local" by (auto simp: started_def)
  have "inj_on m_message_id (set (j_messages s))" using assms(1) by (simp add: unique_key_def distinct_map)
  with r' assms(2,3) have "r' = r" by (auto dest: inj_onD)
  with r' assms(4) show False by simp
qed

lemma started_updI: "r \<in> set (j_messages s) \<Longrightarrow> P r \<Longrightarrow> m_message_id (f r) = mid \<Longrightarrow> m_phase (f r) \<noteq> Queued_local \<Longrightarrow>
    j_messages s' = upd_where P f (j_messages s) \<Longrightarrow> started mid s'"
  unfolding started_def set_upd_where by (rule bexI [of _ "f r"]) (auto simp: set_upd_where image_iff intro!: bexI [of _ r])

lemma claimExecution_starts:
  assumes "fst (claimExecution now mid s) = Inr (Some v)" "unique_key m_message_id (j_messages s)"
  shows "\<not> started mid s \<and> started mid (snd (claimExecution now mid s))"
proof -
  let ?P = "\<lambda>r. m_message_id r = mid \<and> m_phase r = Queued_local \<and> m_recipient_type r = ''runner''"
  from assms(1) have open': "\<not> j_closed s" and "changes ?P (j_messages s) \<noteq> 0"
    by (auto simp: claimExecution_def assertNotClosed_def Let_def split: if_splits)
  then obtain r where r: "r \<in> set (j_messages s)" "?P r" by (auto simp: changes_zero_iff)
  moreover have "j_messages (snd (claimExecution now mid s)) = upd_where ?P (set_phase Executing now) (j_messages s)"
    using open' by (simp add: claimExecution_def assertNotClosed_def Let_def)
  ultimately have "started mid (snd (claimExecution now mid s))"
    by (intro started_updI [of r s ?P "set_phase Executing now"]) (simp_all add: set_phase_def)
  with r show ?thesis using queued_unique_not_started [OF assms(2)] by blast
qed

lemma claimInboxMessage_starts:
  assumes "fst (claimInboxMessage E uuid now mid requester sid gen cid lease s) = Inr (Some cr)" "\<not> cr_isRetry cr"
    "unique_key m_message_id (j_messages s)"
  shows "\<not> started mid s \<and> started mid (snd (claimInboxMessage E uuid now mid requester sid gen cid lease s))"
proof -
  let ?P = "\<lambda>r. m_message_id r = mid \<and> m_recipient r = requester \<and> m_phase r = Queued_local \<and> m_recipient_type r = ''interactive''"
  define f where "f r = (set_phase Executing now r)\<lparr>m_claim_token := Some (claim_token E uuid now), m_claim_session_id := Some sid,
      m_claim_generation := Some gen, m_claim_operation_id := Some cid, m_lease_expires_at := Some (now + boundedLease lease)\<rparr>" for r
  have "changes ?P (j_messages s) \<noteq> 0 \<and>
      j_messages (snd (claimInboxMessage E uuid now mid requester sid gen cid lease s)) = upd_where ?P f (j_messages s)"
    using assms(1,2) by (auto simp: claimInboxMessage_def assertNotClosed_def Let_def f_def [abs_def] split: if_splits option.splits)
  then obtain r where r: "r \<in> set (j_messages s)" "?P r"
    and eq: "j_messages (snd (claimInboxMessage E uuid now mid requester sid gen cid lease s)) = upd_where ?P f (j_messages s)"
    by (auto simp: changes_zero_iff)
  then have "started mid (snd (claimInboxMessage E uuid now mid requester sid gen cid lease s))"
    by (intro started_updI [of r s ?P f]) (simp_all add: f_def set_phase_def)
  with r show ?thesis using queued_unique_not_started [OF assms(3)] by blast
qed

lemma granted_starts:
  assumes "granted E C c s = Some mid" "custody_inv (custody s)"
  shows "\<not> started mid s \<and> started mid (exec E C c s)"
proof -
  have u: "unique_key m_message_id (j_messages s)" using assms(2) by (simp add: custody_inv_def custody_def)
  show ?thesis
    using assms(1) claimExecution_starts [OF _ u] claimInboxMessage_starts [OF _ _ u]
    by (cases c) (auto split: sum.splits option.splits if_splits)
qed

lemma grants_not_started:
  assumes "custody_inv (custody s)" "list_all (\<lambda>c. \<not> is_compact c) cs"
  shows "distinct (grants E C cs s) \<and> (\<forall>m \<in> set (grants E C cs s). \<not> started m s)"
  using assms
proof (induction cs arbitrary: s)
  case (Cons c cs)
  let ?s = "exec E C c s"
  from Cons have IH: "distinct (grants E C cs ?s) \<and> (\<forall>m \<in> set (grants E C cs ?s). \<not> started m ?s)"
    by (simp add: custody_step_inv [OF exec_refines])
  moreover have "started m s \<Longrightarrow> started m ?s" for m using Cons.prems(2) by (simp add: started_exec)
  ultimately show ?case
    using granted_starts [OF _ Cons.prems(1), of E C c] by (auto split: option.splits)
qed simp

section \<open>Properties\<close>

definition sample_run :: "journal_call list" where
  "sample_run = [CSend 1 sample_envelope no_options, CClaim 2 ''m1'', CReply 3 sample_reply]"

text \<open>
  C1: every state changing operation of the journal, with every argument and
  from every state, is a step of the custody specification: it admits one fresh
  queued message, moves rows along the permitted phases without changing what
  they say, records one fresh reply to a message it has, marks replies consumed,
  or retires finished rows; wake and discovery operations leave custody alone.
\<close>

theorem journal_refines_custody: "custody_step (custody s) (custody (exec E C c s))"
  by (rule exec_refines)

text \<open>
  C14: after any sequence of calls on a new journal, whatever their arguments,
  message ids and reply ids are unique and every stored reply answers a stored
  message, from that message's recipient to its sender, for the same request.
\<close>

theorem journal_custody_invariant:
  "let s = exec_all E C cs empty_journal in
    distinct (map m_message_id (j_messages s)) \<and> distinct (map y_message_id (j_replies s)) \<and>
    (\<forall>y \<in> set (j_replies s). \<exists>m \<in> set (j_messages s). y_in_reply_to y = m_message_id m \<and>
       y_sender y = m_recipient m \<and> y_recipient y = m_sender m \<and> y_request_id y = m_request_id m)"
  using exec_all_inv [of E C cs]
  by (auto simp: Let_def custody_inv_def custody_def unique_key_def correlated_def)

theorem journal_custody_invariant_witness:
  "j_replies (exec_all plain_env default_cfg sample_run empty_journal) \<noteq> [] \<and>
   (\<exists>m \<in> set (j_messages (exec_all plain_env default_cfg sample_run empty_journal)).
      m_sender m = y_recipient (hd (j_replies (exec_all plain_env default_cfg sample_run empty_journal))))"
proof -
  let ?s = "exec_all plain_env default_cfg sample_run empty_journal"
  have ne: "j_replies ?s \<noteq> []" by code_simp
  then have "hd (j_replies ?s) \<in> set (j_replies ?s)" by simp
  with journal_custody_invariant [of plain_env default_cfg sample_run] ne show ?thesis
    unfolding Let_def by metis
qed

text \<open>
  C2: without compaction in between, no message is started twice: over any
  sequence of calls on a new journal, runner claims and fresh inbox claims are
  granted at most once per message id (crash recovery, holds, late replies and
  reconciliation never put a message back in the queue).
\<close>

theorem claimed_at_most_once:
  assumes "list_all (\<lambda>c. \<not> is_compact c) cs"
  shows "distinct (grants E C cs empty_journal)"
  using grants_not_started [OF custody_inv_empty assms] by blast

theorem claimed_at_most_once_witness:
  "list_all (\<lambda>c. \<not> is_compact c) [CSend 1 sample_envelope no_options, CClaim 2 ''m1'', CReopen 3, CClaim 4 ''m1''] \<and>
   distinct (grants plain_env default_cfg [CSend 1 sample_envelope no_options, CClaim 2 ''m1'', CReopen 3, CClaim 4 ''m1''] empty_journal)"
  using claimed_at_most_once [of "[CSend 1 sample_envelope no_options, CClaim 2 ''m1'', CReopen 3, CClaim 4 ''m1'']" plain_env default_cfg]
  by simp

lemma keep_rows:
  assumes "custody_keep c c'"
  shows "(r \<in> set (fst c) \<longrightarrow> (\<exists>r' \<in> set (fst c'). evolves r r')) \<and> (y \<in> set (snd c) \<longrightarrow> (\<exists>y' \<in> set (snd c'). reply_evolves y y'))"
  using assms
proof (induction rule: custody_keep.induct)
  case (Touch ms ms' ys)
  then show ?case using list_all2_memD [OF Touch] by (auto simp: reply_evolves_def)
next
  case (Answer ms ms' m y ys)
  then show ?case using list_all2_memD [OF Answer(1)] by (auto simp: reply_evolves_def)
next
  case (Mark ys ys' ms)
  then show ?case using list_all2_memD [OF Mark] by auto
qed (auto simp: reply_evolves_def)

lemma compact_rows:
  assumes "r \<in> set (j_messages s)"
  shows "r \<in> set (j_messages (snd (compact C now ret s))) \<or> (m_phase r \<in> {Completed, Failed} \<and>
    (\<forall>y \<in> set (j_replies (snd (compact C now ret s))). y_in_reply_to y \<noteq> m_message_id r))"
  using assms by (auto simp: compact_def assertNotClosed_def Let_def compactable_message_def)

lemma compact_reply_rows: "y \<in> set (j_replies s) \<Longrightarrow> \<not> y_consumed y \<Longrightarrow> y \<in> set (j_replies (snd (compact C now ret s)))"
  by (auto simp: compact_def assertNotClosed_def Let_def)



end
