(* ===== verification/Journal_Admission.thy ===== *)
theory Journal_Admission
  imports Journal_Custody
begin

text \<open>
  What \<open>recordSend\<close> guarantees: a fresh row is appended with its reply pin and
  its admission, a retry is answered from the stored row, a refusal leaves no trace.
\<close>

section \<open>Admission\<close>

lemma pinInTransaction_key:
  assumes "pinInTransaction E q l m tab = (Inr pin, tab')"
  shows "r_key pin = route_key (o_address m) q"
proof -
  from assms obtain route where route: "createLocalReplyRoute E q l m = Inr route"
    by (auto simp: pinInTransaction_def split: sum.splits)
  then have k: "r_key route = route_key (o_address m) q" by (auto simp: createLocalReplyRoute_Inr)
  from assms route obtain old where old: "route_read E (r_key route) tab = Inr old"
    by (auto simp: pinInTransaction_def split: sum.splits)
  show ?thesis
  proof (cases old)
    case None
    with assms route old k show ?thesis by (auto simp: pinInTransaction_def)
  next
    case (Some o')
    with assms route old have v: "verifyLocalReplyRoute E o' (r_local route) (r_remote route) = Inr pin"
      by (auto simp: pinInTransaction_def split: sum.splits)
    from route_read_Some [of E "r_key route" tab o'] old Some verify_Inr [OF v] k show ?thesis by auto
  qed
qed

definition admitted_row :: "node_env \<Rightarrow> int \<Rightarrow> envelope \<Rightarrow> send_options \<Rightarrow> message_row" where
  "admitted_row E now e opts = (new_message_row E now e opts)\<lparr>
     m_reply_route_key := map_option (\<lambda>r. route_key (o_address (r_remote r)) (r_request r)) (so_replyRoute opts),
     m_sender_provenance := (if so_replyRoute opts = None then None else so_senderProvenance opts)\<rparr>"

lemma admitted_row_simps [simp]:
  "m_message_id (admitted_row E now e opts) = e_messageId e" "m_phase (admitted_row E now e opts) = Queued_local"
  by (simp_all add: admitted_row_def new_message_row_def)

lemma recordSend_tx_fresh:
  assumes "recordSend_tx E C clock e opts s = (Inr x, s')" "sel m_message_id (e_messageId e) (j_messages s) = None"
  defines "now \<equiv> opt_or (so_now opts) clock"
  defines "key \<equiv> pairKeyFor (e_sender e) (e_recipient e)"
  shows "x = (mapMessageRow (admitted_row E now e opts), False) \<and> j_messages s' = j_messages s @ [admitted_row E now e opts] \<and>
    j_replies s' = j_replies s \<and>
    j_pairs s' = j_pairs s @ [\<lparr>pa_pair_key = key, pa_message_id = e_messageId e, pa_created_at = now\<rparr>] \<and>
    int (pair_count key (now - opt_or (so_pairWindowMs opts) (c_pairWindowMs C)) (j_pairs s)) < opt_or (so_maxPairRequests opts) (c_maxPairRequests C)"
proof -
  let ?row = "new_message_row E now e opts"
  let ?s1 = "s\<lparr>j_messages := j_messages s @ [?row]\<rparr>"
  have row: "m_message_id ?row = e_messageId e" by (simp add: new_message_row_def)
  have "upd_where (\<lambda>r. m_message_id r = e_messageId e) f (j_messages s) = j_messages s" for f
    using assms(2) by (intro upd_where_none) (force simp: sel_None_iff)
  then have new: "upd_where (\<lambda>r. m_message_id r = e_messageId e) f (j_messages s @ [?row]) = j_messages s @ [f ?row]" for f
    using row by (simp add: upd_where_def)
  obtain s2 where s2: "(case so_replyRoute opts of None \<Rightarrow> (Inr (), ?s1)
      | Some route \<Rightarrow> pin_request E now (e_messageId e) opts route ?s1) = (Inr (), s2)"
    using assms(1,2) unfolding now_def
    by (auto simp: recordSend_tx_def Let_def split: if_splits prod.splits sum.splits)
  have fin: "j_messages s2 = j_messages s @ [admitted_row E now e opts] \<and> j_replies s2 = j_replies s \<and> j_pairs s2 = j_pairs s"
  proof (cases "so_replyRoute opts")
    case None
    moreover have "?row = admitted_row E now e opts" using None by (simp add: admitted_row_def new_message_row_def)
    ultimately show ?thesis using s2 by auto
  next
    case (Some route)
    with s2 obtain pin tab where pin: "pinInTransaction E (r_request route) (r_local route) (r_remote route) (j_routes s) = (Inr pin, tab)"
      and s2': "s2 = ?s1\<lparr>j_routes := tab, j_messages := upd_where (\<lambda>r. m_message_id r = e_messageId e)
         (\<lambda>r. r\<lparr>m_reply_route_key := Some (r_key pin), m_sender_provenance := so_senderProvenance opts\<rparr>) (j_messages ?s1)\<rparr>"
      by (auto simp: pin_request_def split: if_splits prod.splits sum.splits)
    from pinInTransaction_key [OF pin] Some show ?thesis by (simp add: s2' new admitted_row_def)
  qed
  have sel2: "sel m_message_id (e_messageId e) (j_messages s @ [admitted_row E now e opts]) = Some (admitted_row E now e opts)"
    using assms(2) by (simp add: sel_snoc)
  show ?thesis
    using assms(1) assms(2) s2 fin sel2 unfolding recordSend_tx_def Let_def now_def [symmetric] key_def [symmetric]
    by (auto split: if_splits)
qed

lemma recordSend_Inr:
  assumes "recordSend E C clock e opts s = (Inr x, s')"
  shows "\<not> j_closed s \<and> \<not> envelope_incomplete e \<and> \<not> bad_reply_route C e opts \<and> recordSend_tx E C clock e opts s = (Inr x, s')"
  using assms by (auto simp: recordSend_def assertNotClosed_def transaction_def split: if_splits prod.splits sum.splits)

lemma recordSend_tx_duplicate:
  assumes "recordSend_tx E C clock e opts s = (Inr x, s')" "sel m_message_id (e_messageId e) (j_messages s) = Some r"
  shows "s' = s \<and> x = (mapMessageRow r, True) \<and> m_canonical_hash r = computeEnvelopeHash E e \<and>
    m_recipient_type r = send_recipient_type e opts \<and>
    isRouteIntentMatch r (coalesce (e_to_principal e) (so_to_principal opts)) (coalesce (e_resolved_via e) (so_resolved_via opts)) \<and>
    m_reply_route_key r = map_option r_key (so_replyRoute opts)"
  using assms by (auto simp: recordSend_tx_def split: if_splits)

lemma pin_request_closed: "pin_request E now mid opts route s = (r, s') \<Longrightarrow> j_closed s' = j_closed s"
  by (auto simp: pin_request_def split: if_splits prod.splits sum.splits)

lemma recordSend_tx_closed: "recordSend_tx E C clock e opts s = (Inr x, s') \<Longrightarrow> j_closed s' = j_closed s"
  by (auto simp: recordSend_tx_def Let_def split: if_splits prod.splits sum.splits option.splits dest!: pin_request_closed)

text \<open>
  C16: sending is idempotent.  When \<open>recordSend\<close> accepts an envelope, sending the
  same envelope with the same options again, at any later time, returns the same
  record, marked as a duplicate, and changes nothing - also past the exchange
  limit.  (The routing intent must be consistent, a principal with
  \<open>resolved_via = "principal"\<close>, and the reply route must carry its own key.)
\<close>

theorem recordSend_idempotent:
  assumes "recordSend E C t e opts s = (Inr (v, d), s')"
    and "coalesce (e_to_principal e) (so_to_principal opts) \<noteq> None \<longleftrightarrow>
      coalesce (e_resolved_via e) (so_resolved_via opts) = Some ''principal''"
    and "\<And>r. so_replyRoute opts = Some r \<Longrightarrow> r_key r = route_key (o_address (r_remote r)) (r_request r)"
  shows "recordSend E C t' e opts s' = (Inr (v, True), s')"
proof -
  let ?now = "opt_or (so_now opts) t"
  let ?row = "admitted_row E ?now e opts"
  note ok = recordSend_Inr [OF assms(1)]
  have "recordSend_tx E C t' e opts s' = (Inr (v, True), s')"
  proof (cases "sel m_message_id (e_messageId e) (j_messages s)")
    case (Some r)
    from ok have "recordSend_tx E C t e opts s = (Inr (v, d), s')" by simp
    from recordSend_tx_duplicate [OF this Some] show ?thesis by (simp add: recordSend_tx_def Some)
  next
    case None
    from ok have "recordSend_tx E C t e opts s = (Inr (v, d), s')" by simp
    from recordSend_tx_fresh [OF this None] have "v = mapMessageRow ?row" "j_messages s' = j_messages s @ [?row]" by simp_all
    moreover have "sel m_message_id (e_messageId e) (j_messages s @ [?row]) = Some ?row" using None by (simp add: sel_snoc)
    moreover have "isRouteIntentMatch ?row (coalesce (e_to_principal e) (so_to_principal opts)) (coalesce (e_resolved_via e) (so_resolved_via opts))"
      using assms(2) by (auto simp: isRouteIntentMatch_def admitted_row_def new_message_row_def Let_def)
    moreover have "m_reply_route_key ?row = map_option r_key (so_replyRoute opts)"
      using assms(3) by (cases "so_replyRoute opts") (simp_all add: admitted_row_def)
    moreover have "m_canonical_hash ?row = computeEnvelopeHash E e" "m_recipient_type ?row = send_recipient_type e opts"
      by (simp_all add: admitted_row_def new_message_row_def)
    ultimately show ?thesis by (simp add: recordSend_tx_def)
  qed
  moreover have "\<not> j_closed s'" using ok recordSend_tx_closed [of E C t e opts s "(v, d)" s'] by simp
  ultimately show ?thesis using ok by (simp add: recordSend_def assertNotClosed_def)
qed

text \<open>
  A rejected send leaves no trace: whatever the reason (closed journal,
  incomplete envelope, conflicting duplicate, exchange limit, fenced session,
  conflicting reply pin, oversized record), the journal is exactly as before.
\<close>

theorem recordSend_error_no_effect:
  assumes "fst (recordSend E C t e opts s) = Inl err"
  shows "snd (recordSend E C t e opts s) = s"
  using assms transaction_error_state [of "recordSend_tx E C t e opts" s err]
  by (auto simp: recordSend_def assertNotClosed_def split: if_splits)

text \<open>
  A message id names one envelope.  If a send is accepted as a duplicate,
  the stored row was written for an envelope \<open>e0\<close> with this hash; when SHA-256 does
  not collide on the two canonical texts, the two envelopes agree in sender,
  recipient, ids, correlation, text and metadata (up to the order of object keys).
\<close>

theorem duplicate_send_same_envelope:
  assumes "recordSend E C t e opts s = (Inr (v, True), s')"
    and "sel m_message_id (e_messageId e) (j_messages s) = Some r"
    and "m_canonical_hash r = computeEnvelopeHash E e0"
    and "sha256 E (canonicalJson (envelope_json e0)) = sha256 E (canonicalJson (envelope_json e)) \<Longrightarrow>
      canonicalJson (envelope_json e0) = canonicalJson (envelope_json e)"
  shows "same_envelope e0 e \<and> s' = s"
proof -
  from recordSend_Inr [OF assms(1)] have "recordSend_tx E C t e opts s = (Inr (v, True), s')" by simp
  from recordSend_tx_duplicate [OF this assms(2)] have "m_canonical_hash r = computeEnvelopeHash E e" "s' = s" by simp_all
  with assms(3,4) show ?thesis by (simp add: computeEnvelopeHash_def canonical_envelope_iff)
qed


section \<open>Witnesses\<close>

definition sent_once :: journal where
  "sent_once = snd (recordSend plain_env default_cfg 1 sample_envelope no_options empty_journal)"

lemma ok_pair: "\<not> isl (fst p) \<Longrightarrow> snd (projr (fst p)) = d \<Longrightarrow> snd p = s \<Longrightarrow> \<exists>v. p = (Inr (v, d), s)"
  by (cases p; cases "fst p") auto

lemma sent_once_Inr: "\<exists>v. recordSend plain_env default_cfg 1 sample_envelope no_options empty_journal = (Inr (v, False), sent_once)"
  by (rule ok_pair) code_simp+

lemma sent_twice_Inr: "\<exists>v. recordSend plain_env default_cfg 9 sample_envelope no_options sent_once = (Inr (v, True), sent_once)"
  by (rule ok_pair) code_simp+

lemma sent_once_row: "\<exists>r. sel m_message_id ''m1'' (j_messages sent_once) = Some r \<and> m_canonical_hash r = computeEnvelopeHash plain_env sample_envelope"
proof -
  have "map_option m_canonical_hash (sel m_message_id ''m1'' (j_messages sent_once)) = Some (computeEnvelopeHash plain_env sample_envelope)"
    by code_simp
  then show ?thesis by auto
qed

theorem recordSend_idempotent_witness:
  "\<exists>v. recordSend plain_env default_cfg 1 sample_envelope no_options empty_journal = (Inr (v, False), sent_once) \<and>
     recordSend plain_env default_cfg 9 sample_envelope no_options sent_once = (Inr (v, True), sent_once)"
proof -
  from sent_once_Inr obtain v where
    v: "recordSend plain_env default_cfg 1 sample_envelope no_options empty_journal = (Inr (v, False), sent_once)" by blast
  from recordSend_idempotent [OF v, of 9] v show ?thesis by (auto simp: sample_envelope_def no_options_def)
qed

theorem recordSend_error_no_effect_witness:
  "fst (recordSend plain_env default_cfg 5 (sample_envelope\<lparr>e_text := Some ''other''\<rparr>) no_options sent_once) = Inl (Coded ''duplicate_id_conflict'') \<and>
   snd (recordSend plain_env default_cfg 5 (sample_envelope\<lparr>e_text := Some ''other''\<rparr>) no_options sent_once) = sent_once"
proof -
  have f: "fst (recordSend plain_env default_cfg 5 (sample_envelope\<lparr>e_text := Some ''other''\<rparr>) no_options sent_once) = Inl (Coded ''duplicate_id_conflict'')"
    by code_simp
  with recordSend_error_no_effect [OF f] show ?thesis by blast
qed

theorem duplicate_send_same_envelope_witness:
  "\<exists>v. recordSend plain_env default_cfg 9 sample_envelope no_options sent_once = (Inr (v, True), sent_once) \<and>
     same_envelope sample_envelope sample_envelope"
proof -
  from sent_twice_Inr obtain v where
    v: "recordSend plain_env default_cfg 9 sample_envelope no_options sent_once = (Inr (v, True), sent_once)" by blast
  from sent_once_row obtain r where r: "sel m_message_id (e_messageId sample_envelope) (j_messages sent_once) = Some r"
    "m_canonical_hash r = computeEnvelopeHash plain_env sample_envelope" by (auto simp: sample_envelope_def)
  from duplicate_send_same_envelope [OF v r] v show ?thesis by blast
qed

end
