(* ===== verification/Journal_Execution.thy ===== *)
theory Journal_Execution
  imports Journal_Admission
begin

text \<open>
  What the execution transitions guarantee: atomic and repeatable completion,
  failures that never overwrite an outcome, crash recovery and retention.
\<close>

section \<open>Completion with a reply\<close>

lemma completeExecutionWithReply_tx_guard:
  assumes "completeExecutionWithReply_tx E now1 now2 e s = (Inr x, s')"
    "sel m_message_id (opt_or (e_inReplyTo e) []) (j_messages s) = Some orig"
  shows "m_recipient_type orig = ''runner'' \<and> \<not> truthy (m_reply_route_key orig) \<and>
    (case find (\<lambda>y. y_in_reply_to y = opt_or (e_inReplyTo e) []) (j_replies s) of
       None \<Rightarrow> m_phase orig = Executing | Some y \<Rightarrow> y_message_id y = e_messageId e)"
  using assms by (auto simp: completeExecutionWithReply_tx_def Let_def split: if_splits option.splits)

lemma recordReplySync_stored:
  assumes "recordReplySync E now e s = (Inr (v, d), s')"
  obtains y where "sel y_message_id (e_messageId e) (j_replies s') = Some y" "v = mapReplyRow y"
    "y_canonical_hash y = computeEnvelopeHash E e" "j_messages s' = j_messages s" "j_closed s' = j_closed s"
    "\<not> d \<longrightarrow> y = new_reply_row E now e \<and> j_replies s' = j_replies s @ [y]"
proof (cases "sel y_message_id (e_messageId e) (j_replies s)")
  case (Some y)
  with assms have "s' = s \<and> v = mapReplyRow y \<and> y_canonical_hash y = computeEnvelopeHash E e \<and> d"
    by (auto simp: recordReplySync_def assertNotClosed_def split: if_splits option.splits)
  with Some that show thesis by auto
next
  case None
  let ?y = "new_reply_row E now e"
  from assms None have "s' = s\<lparr>j_replies := j_replies s @ [?y]\<rparr> \<and> v = mapReplyRow ?y \<and> \<not> d"
    by (auto simp: recordReplySync_def assertNotClosed_def split: if_splits option.splits)
  moreover have "y_message_id ?y = e_messageId e" "y_canonical_hash ?y = computeEnvelopeHash E e" by (simp_all add: new_reply_row_def)
  ultimately show thesis using None that [of ?y] by (simp add: sel_snoc)
qed

lemma recordReplySync_again:
  assumes "recordReplySync E now e s = (Inr (v, d), s')"
    "sel y_message_id (e_messageId e) (j_replies u) = Some y" "v = mapReplyRow y" "y_canonical_hash y = computeEnvelopeHash E e"
    "sel m_message_id (opt_or (e_inReplyTo e) []) (j_messages u) = Some m'" "\<not> j_closed u"
    "\<And>m. sel m_message_id (opt_or (e_inReplyTo e) []) (j_messages s) = Some m \<Longrightarrow> message_identity m' = message_identity m"
  shows "recordReplySync E now' e u = (Inr (v, True), u)"
  using assms by (auto simp: recordReplySync_def assertNotClosed_def message_identity_def split: if_splits option.splits)

lemma find_snoc: "find P (xs @ [x]) = (case find P xs of None \<Rightarrow> if P x then Some x else None | Some y \<Rightarrow> Some y)"
  by (induction xs) auto

lemma completeExecutionWithReply_Inr:
  assumes "completeExecutionWithReply E now1 now2 e s = (Inr x, s')"
  shows "\<not> j_closed s \<and> e_inReplyTo e \<noteq> None \<and> completeExecutionWithReply_tx E now1 now2 e s = (Inr x, s')"
  using assms by (auto simp: completeExecutionWithReply_def assertNotClosed_def transaction_def split: if_splits prod.splits sum.splits)

text \<open>The two halves of a committed completion: the message row and the reply row.\<close>

lemma completion_rows:
  assumes "completeExecutionWithReply_tx E now1 now2 e s = (Inr (v, d), s')"
  obtains orig m y where "sel m_message_id (opt_or (e_inReplyTo e) []) (j_messages s) = Some orig"
    "sel m_message_id (opt_or (e_inReplyTo e) []) (j_messages s') = Some m" "message_identity m = message_identity orig"
    "m_phase m = Completed" "sel y_message_id (e_messageId e) (j_replies s') = Some y" "v = mapReplyRow y"
    "y_canonical_hash y = computeEnvelopeHash E e" "j_closed s' = j_closed s"
    "recordReplySync E now1 e s = (Inr (v, d), s\<lparr>j_replies := j_replies s'\<rparr>)"
    "\<not> d \<longrightarrow> y = new_reply_row E now1 e \<and> j_replies s' = j_replies s @ [y]"
proof -
  let ?mid = "opt_or (e_inReplyTo e) []"
  from assms obtain orig s1 where orig: "sel m_message_id ?mid (j_messages s) = Some orig"
    and ph: "m_phase orig = Executing \<or> m_phase orig = Completed"
    and r: "recordReplySync E now1 e s = (Inr (v, d), s1)"
    and s': "s' = (if m_phase orig = Executing then s1\<lparr>j_messages := upd_where (\<lambda>r. m_message_id r = m_message_id orig \<and> m_phase r = Executing)
        (set_phase Completed now2) (j_messages s1)\<rparr> else s1)"
    by (rule completeExecutionWithReply_tx_Inr)
  from r obtain y where y: "sel y_message_id (e_messageId e) (j_replies s1) = Some y" "v = mapReplyRow y"
    "y_canonical_hash y = computeEnvelopeHash E e" "j_messages s1 = j_messages s" "j_closed s1 = j_closed s"
    "\<not> d \<longrightarrow> y = new_reply_row E now1 e \<and> j_replies s1 = j_replies s @ [y]"
    by (rule recordReplySync_stored)
  define m where "m = (if m_phase orig = Executing then set_phase Completed now2 orig else orig)"
  have ys: "j_replies s' = j_replies s1" "j_closed s' = j_closed s" using y(5) by (simp_all add: s')
  have "s1 = s\<lparr>j_replies := j_replies s1\<rparr>"
    using r by (elim recordReplySync_cases) simp_all
  then have rr: "recordReplySync E now1 e s = (Inr (v, d), s\<lparr>j_replies := j_replies s'\<rparr>)" using r ys by simp
  have mm: "sel m_message_id ?mid (j_messages s') = Some m"
    using orig sel_SomeD [OF orig] by (simp add: s' m_def y(4) sel_upd_where set_phase_def)
  have idm: "message_identity m = message_identity orig" "m_phase m = Completed"
    using ph by (auto simp: m_def set_phase_def message_identity_def)
  with orig mm y ys rr show thesis by (intro that [of orig m y]) simp_all
qed

text \<open>
  C11: a runner completion is all or nothing.  When \<open>completeExecutionWithReply\<close>
  returns, the message it answers is completed and the returned reply is the one
  stored under its id, with the hash of the envelope; when it throws, the journal is unchanged.
\<close>

theorem completion_atomic:
  "(case completeExecutionWithReply E now1 now2 e s of
      (Inl err, s') \<Rightarrow> s' = s
    | (Inr (v, d), s') \<Rightarrow> (\<exists>m y. sel m_message_id (opt_or (e_inReplyTo e) []) (j_messages s') = Some m \<and> m_phase m = Completed \<and>
        sel y_message_id (e_messageId e) (j_replies s') = Some y \<and> v = mapReplyRow y \<and> y_canonical_hash y = computeEnvelopeHash E e))"
proof (cases "completeExecutionWithReply E now1 now2 e s")
  case (Pair r s')
  show ?thesis
  proof (cases r)
    case (Inl err)
    with Pair transaction_error_state [of "completeExecutionWithReply_tx E now1 now2 e" s err] show ?thesis
      by (auto simp: completeExecutionWithReply_def assertNotClosed_def split: if_splits)
  next
    case (Inr x)
    then obtain v d where x: "r = Inr (v, d)" by (cases x) simp
    with Pair completeExecutionWithReply_Inr [of E now1 now2 e s "(v, d)" s']
    have "completeExecutionWithReply_tx E now1 now2 e s = (Inr (v, d), s')" by simp
    then show ?thesis by (rule completion_rows) (simp add: Pair x)
  qed
qed

lemma completion_refind:
  assumes "completeExecutionWithReply_tx E now1 now2 e s = (Inr (v, False), s')"
    "j_replies s' = j_replies s @ [new_reply_row E now1 e]"
  shows "\<exists>z. find (\<lambda>y. y_in_reply_to y = opt_or (e_inReplyTo e) []) (j_replies s') = Some z \<and> y_message_id z = e_messageId e"
proof -
  from assms(1) obtain orig where "sel m_message_id (opt_or (e_inReplyTo e) []) (j_messages s) = Some orig"
    by (rule completion_rows)
  from completeExecutionWithReply_tx_guard [OF assms(1) this] show ?thesis
    by (auto simp: assms(2) find_snoc new_reply_row_def split: option.splits)
qed

text \<open>
  Completing is idempotent.  A dispatcher that repeats a completion which
  recorded its reply gets the same reply back, marked as a duplicate, at any
  later time, and the journal does not change.
\<close>

theorem completion_idempotent:
  assumes "completeExecutionWithReply E now1 now2 e s = (Inr (v, False), s')"
  shows "completeExecutionWithReply E now3 now4 e s' = (Inr (v, True), s')"
proof -
  from completeExecutionWithReply_Inr [OF assms]
  have ok: "\<not> j_closed s" "e_inReplyTo e \<noteq> None" and tx: "completeExecutionWithReply_tx E now1 now2 e s = (Inr (v, False), s')" by simp_all
  from tx obtain orig m y where rows: "sel m_message_id (opt_or (e_inReplyTo e) []) (j_messages s) = Some orig"
    "sel m_message_id (opt_or (e_inReplyTo e) []) (j_messages s') = Some m" "message_identity m = message_identity orig"
    "m_phase m = Completed" "sel y_message_id (e_messageId e) (j_replies s') = Some y" "v = mapReplyRow y"
    "y_canonical_hash y = computeEnvelopeHash E e" "j_closed s' = j_closed s"
    "recordReplySync E now1 e s = (Inr (v, False), s\<lparr>j_replies := j_replies s'\<rparr>)"
    "\<not> False \<longrightarrow> y = new_reply_row E now1 e \<and> j_replies s' = j_replies s @ [y]"
    by (rule completion_rows)
  have again: "recordReplySync E now3 e s' = (Inr (v, True), s')"
    using recordReplySync_again [OF rows(9) rows(5,6,7,2)] ok rows(1,3,8) by simp
  from completion_refind [OF tx] rows(10) obtain z where
    z: "find (\<lambda>y. y_in_reply_to y = opt_or (e_inReplyTo e) []) (j_replies s') = Some z" "y_message_id z = e_messageId e" by auto
  have "m_recipient_type m = ''runner'' \<and> \<not> truthy (m_reply_route_key m)"
    using completeExecutionWithReply_tx_guard [OF tx rows(1)] rows(3) by (simp add: message_identity_def)
  with again z rows have "completeExecutionWithReply_tx E now3 now4 e s' = (Inr (v, True), s')"
    by (simp add: completeExecutionWithReply_tx_def)
  with ok rows(8) show ?thesis by (simp add: completeExecutionWithReply_def assertNotClosed_def)
qed

section \<open>Failures, recovery and retention\<close>

text \<open>
  Recording a failure never overwrites an outcome.  The message moves to
  held with the reason only from \<open>queued_local\<close> or \<open>executing\<close>; a row that is
  completed, failed or already held, and every other message, is left as it is.
\<close>

theorem failure_preserves_outcomes:
  assumes "recordExecutionFailure now mid reason err s = (Inr v, s')" "unique_key m_message_id (j_messages s)"
    "sel m_message_id k (j_messages s) = Some r"
  shows "sel m_message_id k (j_messages s') =
    (if k = mid \<and> m_phase r \<in> {Queued_local, Executing}
     then Some (r\<lparr>m_phase := Held, m_updated_at := now, m_reason := Some reason, m_runtime_error := (if truthy err then err else None)\<rparr>)
     else Some r)"
  using assms sel_SomeD [OF assms(3)]
  by (auto simp: recordExecutionFailure_def assertNotClosed_def Let_def set_phase_def sel_upd_where split: if_splits)

text \<open>
  Opening the journal after a crash leaves no message executing: every
  message that was executing is held with reason \<open>crash_recovery\<close> and reported as
  uncertain, every other message is untouched, and a wake that was being
  submitted is uncertain.
\<close>

theorem recovery_holds_executing:
  "(\<forall>r \<in> set (j_messages (open_recovery now s)). m_phase r \<noteq> Executing) \<and>
   j_messages (open_recovery now s) = map (\<lambda>r. if m_phase r = Executing
       then r\<lparr>m_phase := Held, m_updated_at := now, m_reason := Some ''crash_recovery''\<rparr> else r) (j_messages s) \<and>
   map v_messageId (j_uncertain (open_recovery now s)) = map m_message_id (filter (\<lambda>r. m_phase r = Executing) (j_messages s)) \<and>
   (\<forall>b \<in> set (j_bindings (open_recovery now s)). wb_state b \<noteq> Submitting)"
  by (auto simp: open_recovery_def hold_executing_def held_views_def upd_where_def set_phase_def mapMessageRow_def
      delivery_state.distinct comp_def)

text \<open>
  Compaction keeps what is still needed.  It removes only replies that were
  consumed and messages that are completed or failed and that no remaining reply
  answers, all untouched for the retention time; and for every later instant the
  number of admissions that count against an exchange limit is the same.
\<close>

theorem compaction_is_safe:
  assumes "compact C now retention s = (Inr n, s')"
  shows "set (j_replies s') = {y \<in> set (j_replies s). \<not> (y_consumed y \<and> y_updated_at y \<le> now - retention)} \<and>
    set (j_messages s') = {r \<in> set (j_messages s). \<not> (m_phase r \<in> {Completed, Failed} \<and> m_updated_at r \<le> now - retention \<and>
       (\<forall>y \<in> set (j_replies s'). y_in_reply_to y \<noteq> m_message_id r))} \<and>
    (\<forall>key later. now \<le> later \<longrightarrow>
       pair_count key (later - c_pairWindowMs C) (j_pairs s') = pair_count key (later - c_pairWindowMs C) (j_pairs s))"
proof -
  from assms have "\<not> j_closed s" by (auto simp: compact_def assertNotClosed_def)
  with assms have s': "j_replies s' = del_where (\<lambda>y. y_consumed y \<and> y_updated_at y \<le> now - retention) (j_replies s)"
    "j_messages s' = del_where (compactable_message (now - retention) (j_replies s')) (j_messages s)"
    "j_pairs s' = del_where (\<lambda>p. pa_created_at p \<le> min (now - retention) (now - c_pairWindowMs C)) (j_pairs s)"
    by (auto simp: compact_def assertNotClosed_def Let_def)
  have "pair_count key (later - c_pairWindowMs C) (j_pairs s') = pair_count key (later - c_pairWindowMs C) (j_pairs s)"
    if "now \<le> later" for key later
    unfolding pair_count_def s'(3) del_where_def filter_filter
    using that by (intro arg_cong [where f = length] filter_cong) auto
  moreover have "set (j_messages s') = {r \<in> set (j_messages s). \<not> (m_phase r \<in> {Completed, Failed} \<and> m_updated_at r \<le> now - retention \<and>
       (\<forall>y \<in> set (j_replies s'). y_in_reply_to y \<noteq> m_message_id r))}"
    unfolding s'(2) by (auto simp: compactable_message_def)
  ultimately show ?thesis by (auto simp: s'(1))
qed

definition running :: journal where
  "running = exec_all plain_env default_cfg [CSend 1 sample_envelope no_options, CClaim 2 ''m1''] empty_journal"

definition finished :: journal where
  "finished = snd (completeExecutionWithReply plain_env 3 3 sample_reply running)"

lemma finished_Inr: "\<exists>v. completeExecutionWithReply plain_env 3 3 sample_reply running = (Inr (v, False), finished)"
  by (rule ok_pair) code_simp+

theorem completion_idempotent_witness:
  "\<exists>v. completeExecutionWithReply plain_env 3 3 sample_reply running = (Inr (v, False), finished) \<and>
     completeExecutionWithReply plain_env 7 8 sample_reply finished = (Inr (v, True), finished)"
proof -
  from finished_Inr obtain v where v: "completeExecutionWithReply plain_env 3 3 sample_reply running = (Inr (v, False), finished)" by blast
  from completion_idempotent [OF v, of 7 8] v show ?thesis by blast
qed

lemma unique_keyI: "distinct (map key rows) \<Longrightarrow> unique_key key rows"
  by (simp add: unique_key_def)

theorem failure_preserves_outcomes_witness:
  "sel m_message_id ''m1'' (j_messages (snd (recordExecutionFailure 9 ''m1'' ''late'' None finished))) = Some (hd (j_messages finished)) \<and>
   m_phase (hd (j_messages finished)) = Completed"
proof -
  have u: "unique_key m_message_id (j_messages finished)" by (rule unique_keyI) code_simp
  have r: "sel m_message_id ''m1'' (j_messages finished) = Some (hd (j_messages finished))" by code_simp
  have p: "m_phase (hd (j_messages finished)) = Completed" by code_simp
  have "\<not> isl (fst (recordExecutionFailure 9 ''m1'' ''late'' None finished))" by code_simp
  then obtain v where v: "recordExecutionFailure 9 ''m1'' ''late'' None finished = (Inr v, snd (recordExecutionFailure 9 ''m1'' ''late'' None finished))"
    by (metis prod.collapse sum.collapse(2))
  from failure_preserves_outcomes [OF v u r] p show ?thesis by simp
qed

theorem recovery_holds_executing_witness:
  "list_all (\<lambda>r. m_phase r = Executing) (j_messages running) \<and> j_messages running \<noteq> [] \<and>
   list_all (\<lambda>r. m_phase r \<noteq> Executing) (j_messages (open_recovery 5 running))"
proof -
  have "list_all (\<lambda>r. m_phase r = Executing) (j_messages running) \<and> j_messages running \<noteq> []" by code_simp
  moreover from recovery_holds_executing [of 5 running]
  have "\<forall>r \<in> set (j_messages (open_recovery 5 running)). m_phase r \<noteq> Executing" by (rule conjunct1)
  ultimately show ?thesis unfolding list_all_iff by blast
qed

theorem compaction_is_safe_witness:
  "hd (j_replies finished) \<in> set (j_replies (snd (compact default_cfg 100000000000 RETENTION_MS finished)))"
proof -
  have "\<not> isl (fst (compact default_cfg 100000000000 RETENTION_MS finished))" by code_simp
  then obtain n where n: "compact default_cfg 100000000000 RETENTION_MS finished = (Inr n, snd (compact default_cfg 100000000000 RETENTION_MS finished))"
    by (metis prod.collapse sum.collapse(2))
  have "hd (j_replies finished) \<in> set (j_replies finished)" "\<not> y_consumed (hd (j_replies finished))" by code_simp+
  with conjunct1 [OF compaction_is_safe [OF n]] show ?thesis by blast
qed

end
