(* ===== verification/Journal_Reconciliation.thy ===== *)
theory Journal_Reconciliation
  imports Journal_Execution
begin

text \<open>
  What owner reconciliation guarantees: it closes exactly the held record that
  was reviewed, it can be repeated, its read-only precheck refuses exactly what
  it would refuse, and the actions offered for a record are the ones it accepts.
\<close>

lemma sel_upd_other:
  "(\<And>r. key (f r) = key r) \<Longrightarrow> (\<And>r. P r \<Longrightarrow> key r \<noteq> k) \<Longrightarrow> sel key k (upd_where P f rows) = sel key k rows"
  by (induction rows) (auto simp: sel_Cons upd_where_def)

definition audit_row :: "int \<Rightarrow> norm_request \<Rightarrow> message_row \<Rightarrow> recon_row" where
  "audit_row now n r = \<lparr>rc_reconcile_id = n_reconcileId n, rc_message_id = n_messageId n, rc_action = n_action n,
     rc_from_phase = m_phase r, rc_from_reason = m_reason r, rc_expected_version = n_expectVersion n,
     rc_late_sha256 = n_expectLateHash n,
     rc_reply_message_id = (case n_action n of AcceptLateResult \<Rightarrow> Some (accepted_reply_id (n_reconcileId n))
        | MarkFailed \<Rightarrow> None | MarkCompleted \<Rightarrow> n_expectReplyId n),
     rc_outcome_phase = fst (recon_outcome (n_action n)), rc_note = n_note n, rc_created_at = now\<rparr>"

lemma reconcile_fresh_audit:
  assumes "reconcileMessage_tx E now n s = (Inr x, s')" "sel rc_reconcile_id (n_reconcileId n) (j_recons s) = None"
    "checkReconcileRecord E s (sel m_message_id (n_messageId n) (j_messages s)) n = Inr (r, ids, late)"
  shows "j_recons s' = j_recons s @ [audit_row now n r] \<and> j_closed s' = j_closed s \<and>
    x = \<lparr>rr_reconcileId = n_reconcileId n, rr_messageId = n_messageId n, rr_action = n_action n,
      rr_outcomePhase = rc_outcome_phase (audit_row now n r), rr_replyMessageId = rc_reply_message_id (audit_row now n r), rr_isDuplicate = False\<rparr>"
  using assms by (cases "n_action n") (auto simp: reconcileMessage_tx_def Let_def audit_row_def recon_outcome_def)

lemma audit_row_retry: "checkReconcileRetry (audit_row now n r) n = Inr ()"
  by (simp add: checkReconcileRetry_def audit_row_def)

lemma reconcileMessage_Inr:
  assumes "reconcileMessage E now q s = (Inr x, s')"
  obtains n where "\<not> j_closed s" "validateReconcileRequest q = Inr n" "reconcileMessage_tx E now n s = (Inr x, s')"
  using assms by (auto simp: reconcileMessage_def assertNotClosed_def transaction_def split: if_splits sum.splits prod.splits)

text \<open>
  Reconciliation is idempotent.  Repeating a request that was carried out, at
  any time, reports the recorded outcome as a duplicate and changes nothing, even
  though the record is no longer held.
\<close>

theorem reconcile_idempotent:
  assumes "reconcileMessage E now q s = (Inr x, s')"
  shows "reconcileMessage E now' q s' = (Inr (x\<lparr>rr_isDuplicate := True\<rparr>), s')"
proof -
  from assms obtain n where ok: "\<not> j_closed s" "validateReconcileRequest q = Inr n" and tx: "reconcileMessage_tx E now n s = (Inr x, s')"
    by (rule reconcileMessage_Inr)
  have "reconcileMessage_tx E now' n s' = (Inr (x\<lparr>rr_isDuplicate := True\<rparr>), s') \<and> j_closed s' = j_closed s"
  proof (cases "sel rc_reconcile_id (n_reconcileId n) (j_recons s)")
    case (Some prior)
    with tx have "s' = s \<and> checkReconcileRetry prior n = Inr () \<and>
        x = \<lparr>rr_reconcileId = n_reconcileId n, rr_messageId = n_messageId n, rr_action = n_action n,
             rr_outcomePhase = rc_outcome_phase prior, rr_replyMessageId = rc_reply_message_id prior, rr_isDuplicate = True\<rparr>"
      by (auto simp: reconcileMessage_tx_def split: sum.splits)
    with Some show ?thesis by (simp add: reconcileMessage_tx_def)
  next
    case None
    from tx None obtain r ids late where
      c: "checkReconcileRecord E s (sel m_message_id (n_messageId n) (j_messages s)) n = Inr (r, ids, late)"
      by (rule reconcileMessage_tx_fresh)
    note f = reconcile_fresh_audit [OF tx None c]
    have "sel rc_reconcile_id (n_reconcileId n) (j_recons s') = Some (audit_row now n r)"
      using f None by (simp add: sel_snoc) (simp add: audit_row_def)
    with f show ?thesis by (simp add: reconcileMessage_tx_def audit_row_retry)
  qed
  with ok show ?thesis by (simp add: reconcileMessage_def assertNotClosed_def)
qed

text \<open>
  The read-only precheck is exact.  For a well formed request it refuses, with
  the same error, precisely what the transaction would refuse on that journal.
\<close>

theorem precheck_is_exact:
  assumes "validateReconcileRequest q = Inr n" "\<not> j_closed s"
  shows "precheckReconcileDatabase E s n = Inl err \<longleftrightarrow> fst (reconcileMessage E now q s) = Inl err"
proof (cases "sel rc_reconcile_id (n_reconcileId n) (j_recons s)")
  case (Some prior)
  with assms show ?thesis
    by (auto simp: precheckReconcileDatabase_def reconcileMessage_def assertNotClosed_def transaction_def reconcileMessage_tx_def
        split: sum.splits)
next
  case None
  with assms show ?thesis
    by (cases "checkReconcileRecord E s (sel m_message_id (n_messageId n) (j_messages s)) n")
      (auto simp: precheckReconcileDatabase_def reconcileMessage_def assertNotClosed_def transaction_def reconcileMessage_tx_def Let_def
        split: prod.splits)
qed

text \<open>
  Reconciliation closes the one record it names.  A reconciliation that is
  not a repetition found the record held at the reviewed version; afterwards it
  has the outcome of the action and no late text, every other record is unchanged,
  one audit row was appended, and a reply was stored exactly when the late result
  was accepted: the only reply to that message, with the late text.
\<close>

theorem reconcile_closes_one_record:
  assumes "reconcileMessage E now q s = (Inr x, s')" "\<not> rr_isDuplicate x" "unique_key m_message_id (j_messages s)"
  shows "\<exists>n r. validateReconcileRequest q = Inr n \<and> sel m_message_id (n_messageId n) (j_messages s) = Some r \<and> m_phase r = Held \<and>
     reconcileVersion E r (replyIdsFor s (n_messageId n)) = n_expectVersion n \<and>
     (\<forall>k. sel m_message_id k (j_messages s') = (if k = n_messageId n
        then Some (r\<lparr>m_phase := fst (recon_outcome (n_action n)), m_updated_at := now, m_reason := Some (snd (recon_outcome (n_action n))),
                     m_late_result_text := None\<rparr>)
        else sel m_message_id k (j_messages s))) \<and>
     (\<exists>a. j_recons s' = j_recons s @ [a] \<and> rc_reconcile_id a = n_reconcileId n \<and> rc_message_id a = n_messageId n) \<and>
     (if n_action n = AcceptLateResult
      then replyIdsFor s (n_messageId n) = [] \<and> (\<exists>y. j_replies s' = j_replies s @ [y] \<and> y_in_reply_to y = n_messageId n \<and>
             Some (y_text y) = m_late_result_text r \<and> y_recipient y = m_sender r \<and> \<not> y_consumed y)
      else j_replies s' = j_replies s)"
proof -
  from assms(1) obtain n where ok: "validateReconcileRequest q = Inr n" and tx: "reconcileMessage_tx E now n s = (Inr x, s')"
    by (rule reconcileMessage_Inr)
  have none: "sel rc_reconcile_id (n_reconcileId n) (j_recons s) = None"
    using tx assms(2) by (auto simp: reconcileMessage_tx_def split: option.splits sum.splits)
  from tx none obtain r ids late where
    c: "checkReconcileRecord E s (sel m_message_id (n_messageId n) (j_messages s)) n = Inr (r, ids, late)"
    and ms: "j_messages s' = upd_where (\<lambda>r. m_message_id r = n_messageId n \<and> m_phase r = Held)
       (\<lambda>r. (set_phase (fst (recon_outcome (n_action n))) now r)\<lparr>m_reason := Some (snd (recon_outcome (n_action n))),
          m_late_result_text := None\<rparr>) (j_messages s)"
    and ys: "j_replies s' = (if n_action n = AcceptLateResult then j_replies s @ [accepted_reply_row E now (n_reconcileId n) r late]
       else j_replies s)"
    by (rule reconcileMessage_tx_fresh)
  note cr = checkReconcileRecord_Inr [OF c]
  have r: "sel m_message_id (n_messageId n) (j_messages s) = Some r" "m_phase r = Held" using cr by simp_all
  have ver: "reconcileVersion E r (replyIdsFor s (n_messageId n)) = n_expectVersion n"
    using c r by (auto simp: checkReconcileRecord_def Let_def split: if_splits)
  have rows: "sel m_message_id k (j_messages s') = (if k = n_messageId n
        then Some (r\<lparr>m_phase := fst (recon_outcome (n_action n)), m_updated_at := now, m_reason := Some (snd (recon_outcome (n_action n))),
                     m_late_result_text := None\<rparr>)
        else sel m_message_id k (j_messages s))" for k
  proof (cases "k = n_messageId n")
    case True
    with r sel_SomeD [OF r(1)] show ?thesis by (simp add: ms sel_upd_where set_phase_def)
  next
    case False
    then show ?thesis unfolding ms by (subst sel_upd_other) (auto simp: set_phase_def)
  qed
  have aud: "j_recons s' = j_recons s @ [audit_row now n r]" using reconcile_fresh_audit [OF tx none c] by simp
  have rep: "if n_action n = AcceptLateResult
      then replyIdsFor s (n_messageId n) = [] \<and> (\<exists>y. j_replies s' = j_replies s @ [y] \<and> y_in_reply_to y = n_messageId n \<and>
             Some (y_text y) = m_late_result_text r \<and> y_recipient y = m_sender r \<and> \<not> y_consumed y)
      else j_replies s' = j_replies s"
    using cr sel_SomeD [OF r(1)] ys
    by (auto simp: accepted_reply_row_def new_reply_row_def accepted_envelope_def truthy_def split: option.splits)
  from ok r ver rows aud rep show ?thesis by (intro exI [of _ n] exI [of _ r]) (auto simp: audit_row_def)
qed

text \<open>The request an owner builds from the view of a held record.\<close>

definition request_from_view :: "held_view \<Rightarrow> reconcile_action \<Rightarrow> string \<Rightarrow> norm_request" where
  "request_from_view v a rid = \<lparr>n_messageId = hv_messageId v, n_reconcileId = rid, n_action = a,
     n_expectVersion = opt_or (hv_version v) [], n_expectLateHash = hv_lateResultSha256 v,
     n_expectReplyId = (if a = MarkCompleted then (case hv_replyMessageIds v of [] \<Rightarrow> None | i # _ \<Rightarrow> Some i) else None), n_note = None\<rparr>"

text \<open>
  The owner is offered exactly what works.  For a record of the listing, an
  action is offered if and only if the reconciliation built from that view is
  eligible (the id of the reply it would create being unused).
\<close>

theorem offered_actions_are_exact:
  assumes "unique_key m_message_id (j_messages s)" "r \<in> set (j_messages s)"
    "sel y_message_id (accepted_reply_id rid) (j_replies s) = None"
    "v = heldView E r (replyIdsFor s (m_message_id r))"
  shows "a \<in> set (hv_actions v) \<longleftrightarrow>
    \<not> isl (checkReconcileRecord E s (sel m_message_id (m_message_id r) (j_messages s)) (request_from_view v a rid))"
proof -
  have "sel m_message_id (m_message_id r) (j_messages s) = Some r" using assms(1,2) by (simp add: sel_Some_iff_mem)
  then show ?thesis
    using assms(3)
    by (cases a; cases "replyIdsFor s (m_message_id r)"; cases "m_phase r")
      (auto simp: assms(4) heldView_def held_actions_def request_from_view_def checkReconcileRecord_def Let_def late_hash_def)
qed


section \<open>Witnesses\<close>

text \<open>A platform whose digests have the shape the request validation asks for, and a journal with one held record.\<close>

definition digest_env :: node_env where
  "digest_env = \<lparr>sha256 = (\<lambda>x. replicate 64 (CHR ''a'')), url_parse = (\<lambda>x. None)\<rparr>"

definition held_journal :: journal where
  "held_journal = exec_all digest_env default_cfg
     [CSend 1 sample_envelope no_options, CClaim 2 ''m1'', CHold 3 ''m1'' ''runner_timeout'' (Some ''late'')] empty_journal"

definition accept_request :: recon_request where
  "accept_request = \<lparr>q_messageId = ''m1'', q_reconcileId = ''rc1'', q_action = Some AcceptLateResult,
     q_expectVersion = replicate 64 (CHR ''a''), q_expectLateHash = Some (replicate 64 (CHR ''a'')), q_expectReplyId = None, q_note = None\<rparr>"

definition reconciled_journal :: journal where
  "reconciled_journal = snd (reconcileMessage digest_env 4 accept_request held_journal)"

lemma ok_result: "\<not> isl (fst p) \<Longrightarrow> p = (Inr (projr (fst p)), snd p)"
  by (cases p; cases "fst p") auto

lemma accept_Inr: "reconcileMessage digest_env 4 accept_request held_journal =
    (Inr (projr (fst (reconcileMessage digest_env 4 accept_request held_journal))), reconciled_journal)"
  unfolding reconciled_journal_def by (rule ok_result) code_simp

theorem reconcile_idempotent_witness:
  "reconcileMessage digest_env 9 accept_request reconciled_journal =
     (Inr ((projr (fst (reconcileMessage digest_env 4 accept_request held_journal)))\<lparr>rr_isDuplicate := True\<rparr>), reconciled_journal)"
  by (rule reconcile_idempotent [OF accept_Inr])

theorem precheck_is_exact_witness:
  "precheckReconcileDatabase digest_env empty_journal (projr (validateReconcileRequest accept_request)) = Inl (Coded ''not_found'') \<and>
   fst (reconcileMessage digest_env 4 accept_request empty_journal) = Inl (Coded ''not_found'')"
proof -
  have v: "validateReconcileRequest accept_request = Inr (projr (validateReconcileRequest accept_request))" by code_simp
  have c: "\<not> j_closed empty_journal" by code_simp
  have p: "precheckReconcileDatabase digest_env empty_journal (projr (validateReconcileRequest accept_request)) = Inl (Coded ''not_found'')" by code_simp
  with precheck_is_exact [OF v c] show ?thesis by blast
qed

theorem reconcile_closes_one_record_witness:
  "\<exists>n r. validateReconcileRequest accept_request = Inr n \<and> sel m_message_id (n_messageId n) (j_messages held_journal) = Some r \<and> m_phase r = Held"
proof -
  have d: "\<not> rr_isDuplicate (projr (fst (reconcileMessage digest_env 4 accept_request held_journal)))" by code_simp
  have u: "unique_key m_message_id (j_messages held_journal)" by (rule unique_keyI) code_simp
  from reconcile_closes_one_record [OF accept_Inr d u] show ?thesis by blast
qed

theorem offered_actions_are_exact_witness:
  "AcceptLateResult \<in> set (hv_actions (heldView digest_env (hd (j_messages held_journal)) (replyIdsFor held_journal (m_message_id (hd (j_messages held_journal)))))) \<and>
   \<not> isl (checkReconcileRecord digest_env held_journal (sel m_message_id (m_message_id (hd (j_messages held_journal))) (j_messages held_journal))
      (request_from_view (heldView digest_env (hd (j_messages held_journal)) (replyIdsFor held_journal (m_message_id (hd (j_messages held_journal))))) AcceptLateResult ''rc1''))"
proof -
  have u: "unique_key m_message_id (j_messages held_journal)" by (rule unique_keyI) code_simp
  have m: "hd (j_messages held_journal) \<in> set (j_messages held_journal)" by code_simp
  have y: "sel y_message_id (accepted_reply_id ''rc1'') (j_replies held_journal) = None" by code_simp
  have a: "AcceptLateResult \<in> set (hv_actions (heldView digest_env (hd (j_messages held_journal)) (replyIdsFor held_journal (m_message_id (hd (j_messages held_journal))))))"
    by code_simp
  with offered_actions_are_exact [OF u m y refl, of AcceptLateResult digest_env] show ?thesis by blast
qed

end
