(* ===== verification/Journal_Delivery.thy ===== *)
theory Journal_Delivery
  imports Journal_Execution
begin

text \<open>
  What the interactive inbox guarantees: following the cursors lists every queued
  message once and in order, a claim is granted with a bounded lease and can be
  repeated, and only the holder of the claim can answer.
\<close>

section \<open>Pagination\<close>

text \<open>Follow \<open>nextCursor\<close> until there is none; the first argument bounds the number of pages.\<close>

fun collect_inbox :: "nat \<Rightarrow> (string \<Rightarrow> string) \<Rightarrow> int \<Rightarrow> string \<Rightarrow> int \<Rightarrow> inbox_cursor option \<Rightarrow> journal \<Rightarrow> message_view list option" where
  "collect_inbox 0 hmac now requester limit cur s = None"
| "collect_inbox (Suc n) hmac now requester limit cur s =
    (case listInbox hmac now requester limit cur s of
       (Inl e, s1) \<Rightarrow> None
     | (Inr (items, None), s1) \<Rightarrow> Some items
     | (Inr (items, Some c), s1) \<Rightarrow> map_option (\<lambda>rest. items @ rest) (collect_inbox n hmac now requester limit (Some c) s1))"

lemma page_loop_split:
  "\<exists>pre post. rows = pre @ post \<and> page_loop m b items rows = (items @ pre, post \<noteq> []) \<and>
     (length items \<le> m \<longrightarrow> length (items @ pre) \<le> m) \<and> (items = [] \<and> rows \<noteq> [] \<and> 1 \<le> m \<longrightarrow> pre \<noteq> [])"
proof (induction rows arbitrary: b items)
  case (Cons r rows)
  let ?n = "view_bytes (mapMessageRow r) + 2"
  consider (full) "m \<le> length items" | (bytes) "\<not> m \<le> length items" "items \<noteq> []" "MAX_INBOX_PAYLOAD_BYTES < b + ?n"
    | (take) "\<not> m \<le> length items" "\<not> (items \<noteq> [] \<and> MAX_INBOX_PAYLOAD_BYTES < b + ?n)" by blast
  then show ?case
  proof cases
    case full
    then show ?thesis by (intro exI [of _ "[]"] exI [of _ "r # rows"]) auto
  next
    case bytes
    then show ?thesis by (intro exI [of _ "[]"] exI [of _ "r # rows"]) auto
  next
    case take
    from Cons.IH [of "b + ?n" "items @ [r]"] obtain pre post where
      "rows = pre @ post" "page_loop m (b + ?n) (items @ [r]) rows = ((items @ [r]) @ pre, post \<noteq> [])"
      "length (items @ [r]) \<le> m \<longrightarrow> length ((items @ [r]) @ pre) \<le> m" by blast
    with take show ?thesis by (intro exI [of _ "r # pre"] exI [of _ post]) (auto simp: Let_def)
  qed
qed simp

lemma filter_upd_neutral:
  "(\<And>r. P r \<Longrightarrow> \<not> Q r \<and> \<not> Q (f r)) \<Longrightarrow> filter Q (upd_where P f rows) = filter Q rows"
  by (induction rows) (auto simp: upd_where_def)

lemma inbox_rows_reap [simp]: "inbox_rows requester pos (reap_expired now requester' rows) = inbox_rows requester pos rows"
  unfolding inbox_rows_def reap_expired_def
  by (subst filter_upd_neutral) (auto simp: hold_expired_def set_phase_def)

lemma reap_reap [simp]: "reap_expired now requester (reap_expired now requester rows) = reap_expired now requester rows"
  by (auto simp: reap_expired_def upd_where_def hold_expired_def set_phase_def)

text \<open>The rows after a position are the rest of the sorted list.\<close>

lemma inbox_rows_filter: "inbox_rows requester (Some p) rows = filter (\<lambda>r. p < message_pos r) (inbox_rows requester None rows)"
  by (simp add: inbox_rows_def filter_sort conj_commute conj_left_commute)

lemma inbox_rows_strict:
  assumes "unique_key m_message_id rows"
  shows "sorted_wrt (\<lambda>a b. message_pos a < message_pos b) (inbox_rows requester None rows)"
proof -
  let ?R = "inbox_rows requester None rows"
  have "distinct (map m_message_id (filter Q rows))" for Q
    using assms by (simp add: unique_key_def distinct_map_filter)
  then have "inj_on m_message_id (set ?R)" "distinct ?R"
    by (simp_all add: inbox_rows_def distinct_map)
  then have "distinct (map message_pos ?R)" by (auto simp: distinct_map inj_on_def message_pos_def)
  moreover have "sorted (map message_pos ?R)" by (simp add: inbox_rows_def)
  ultimately have "sorted_wrt (<) (map message_pos ?R)" by (simp add: strict_sorted_iff)
  then show ?thesis by (simp add: sorted_wrt_map)
qed

lemma rows_after:
  assumes "sorted_wrt (\<lambda>a b. message_pos a < message_pos b) (a @ l # b)"
  shows "filter (\<lambda>r. message_pos l < message_pos r) (a @ l # b) = b"
  using assms by (auto simp: sorted_wrt_append filter_empty_conv filter_id_conv less_not_sym)

lemma decode_encode [simp]: "decodeCursor hmac (encodeCursor hmac requester t i) requester = Inr (t, i)"
  by (simp add: decodeCursor_def encodeCursor_def)

definition after :: "message_row list \<Rightarrow> (string \<Rightarrow> string) \<Rightarrow> string \<Rightarrow> inbox_cursor option" where
  "after done hmac requester = (if done = [] then None
     else Some (encodeCursor hmac requester (m_created_at (last done)) (m_message_id (last done))))"

lemma listInbox_page:
  assumes "requester \<noteq> []" "\<not> j_closed s" "inbox_rows requester None (j_messages s) = before @ rest" "unique_key m_message_id (j_messages s)"
  obtains page post where "rest = page @ post" "rest \<noteq> [] \<longrightarrow> page \<noteq> []" "length page \<le> clamp_limit limit 100"
    "listInbox hmac now requester limit (after before hmac requester) s =
       (Inr (map mapMessageRow page, if post = [] then None else after (before @ page) hmac requester),
        s\<lparr>j_messages := reap_expired now requester (j_messages s)\<rparr>)"
proof -
  let ?m = "clamp_limit limit 100"
  have m1: "1 \<le> ?m" by (simp add: clamp_limit_def)
  define pos where "pos = (if before = [] then None else Some (message_pos (last before)))"
  have rows: "inbox_rows requester pos (j_messages s) = rest"
  proof (cases "before = []")
    case False
    then have "before = butlast before @ [last before]" by simp
    with inbox_rows_strict [OF assms(4), of requester] assms(3)
    have "sorted_wrt (\<lambda>a b. message_pos a < message_pos b) (butlast before @ last before # rest)" by (metis append_Cons append_assoc append_Nil)
    from rows_after [OF this] have "filter (\<lambda>r. message_pos (last before) < message_pos r) (before @ rest) = rest"
      using False by (metis append_Cons append_assoc append_Nil append_butlast_last_id)
    with False assms(3) show ?thesis by (simp add: pos_def inbox_rows_filter)
  qed (use assms(3) in \<open>simp add: pos_def\<close>)
  from page_loop_split [of "take (?m + 1) rest" ?m 64 "[]"] obtain page post' where
    p: "take (?m + 1) rest = page @ post'" "page_loop ?m 64 [] (take (?m + 1) rest) = (page, post' \<noteq> [])"
      "length page \<le> ?m" "take (?m + 1) rest \<noteq> [] \<longrightarrow> page \<noteq> []"
    using m1 by auto
  define post where "post = drop (length page) rest"
  have split: "rest = page @ post"
    using p(1) unfolding post_def by (metis append_eq_conv_conj append_take_drop_id append_assoc)
  have stop: "post' \<noteq> [] \<longleftrightarrow> post \<noteq> []"
  proof
    assume "post' \<noteq> []"
    with p(1) have "length page < length (take (?m + 1) rest)" by simp
    then show "post \<noteq> []" by (simp add: post_def)
  next
    assume "post \<noteq> []"
    then have "length page < length rest" by (simp add: post_def)
    with p(3) have "length page < length (take (?m + 1) rest)" by simp
    with p(1) show "post' \<noteq> []" by auto
  qed
  have ne: "rest \<noteq> [] \<longrightarrow> page \<noteq> []" using p(4) by simp
  have cur: "(case after before hmac requester of None \<Rightarrow> Inr None
      | Some c \<Rightarrow> (case decodeCursor hmac c requester of Inl e \<Rightarrow> Inl e | Inr x \<Rightarrow> Inr (Some x))) = Inr pos"
    by (simp add: after_def pos_def message_pos_def)
  have pc: "page_cursor hmac requester (page, post' \<noteq> []) = (if post = [] then None else after (before @ page) hmac requester)"
    using ne split stop by (auto simp: page_cursor_def after_def)
  have "listInbox hmac now requester limit (after before hmac requester) s =
       (Inr (map mapMessageRow page, if post = [] then None else after (before @ page) hmac requester),
        s\<lparr>j_messages := reap_expired now requester (j_messages s)\<rparr>)"
    using assms(1,2) p(2) pc unfolding listInbox_def assertNotClosed_def Let_def cur
    by (simp add: rows)
  with split ne p(3) show thesis by (rule that)
qed

lemma collect_from:
  assumes "requester \<noteq> []" "\<not> j_closed s" "inbox_rows requester None (j_messages s) = before @ rest" "unique_key m_message_id (j_messages s)"
    "length rest < n"
  shows "collect_inbox n hmac now requester limit (after before hmac requester) s = Some (map mapMessageRow rest)"
  using assms
proof (induction n arbitrary: before rest s)
  case (Suc n)
  let ?s1 = "s\<lparr>j_messages := reap_expired now requester (j_messages s)\<rparr>"
  from listInbox_page [OF Suc.prems(1-4), of limit hmac now] obtain page post where
    p: "rest = page @ post" "rest \<noteq> [] \<longrightarrow> page \<noteq> []"
      "listInbox hmac now requester limit (after before hmac requester) s =
         (Inr (map mapMessageRow page, if post = [] then None else after (before @ page) hmac requester), ?s1)" by blast
  show ?case
  proof (cases "post = []")
    case True
    with p show ?thesis by simp
  next
    case False
    with p have page: "page \<noteq> []" by auto
    have keys: "unique_key m_message_id (j_messages ?s1)"
      using Suc.prems(4) by (auto simp: reap_expired_def hold_expired_def set_phase_def intro!: unique_key_upd_where)
    have "length post < n" using Suc.prems(5) p(1) page by (cases page) auto
    then have "collect_inbox n hmac now requester limit (after (before @ page) hmac requester) ?s1 = Some (map mapMessageRow post)"
      using Suc.IH [of ?s1 "before @ page" post] Suc.prems p(1) page keys by simp
    moreover obtain c where "after (before @ page) hmac requester = Some c" using page by (simp add: after_def)
    ultimately show ?thesis using p False by simp
  qed
qed simp

text \<open>
  C19: listing the inbox page by page finds everything once.  From the first page,
  following the returned cursors, whatever the page size asked for and whatever
  the byte budget cuts off, the pages together are exactly the queued interactive
  messages of the requester, in order of time and id, and the listing ends.
\<close>

theorem inbox_pages_list_everything:
  assumes "requester \<noteq> []" "\<not> j_closed s" "unique_key m_message_id (j_messages s)"
    "length (inbox_rows requester None (j_messages s)) < n"
  shows "collect_inbox n hmac now requester limit None s = Some (map mapMessageRow (inbox_rows requester None (j_messages s)))"
  using collect_from [OF assms(1,2) _ assms(3,4), of "[]" hmac now limit] by (simp add: after_def)


section \<open>Claims\<close>

lemma claim_Inr:
  assumes "claimInboxMessage E uuid now mid requester sid gen cid lease s = (Inr (Some cr), s')" "\<not> cr_isRetry cr"
  obtains r where "sel m_message_id mid (j_messages s) = Some r" "m_phase r = Queued_local" "m_recipient r = requester"
    "m_recipient_type r = ''interactive''" "\<not> j_closed s" "IDENTIFIER_PATTERN cid" "mid \<noteq> []" "requester \<noteq> []" "sid \<noteq> []" "cid \<noteq> []"
    "cr = \<lparr>cr_messageId = mid, cr_claimToken = Some (claim_token E uuid now), cr_claimId = Some cid,
       cr_leaseExpiresAt = Some (now + boundedLease lease), cr_requestId = m_request_id r, cr_isRetry = False\<rparr>"
    "s' = s\<lparr>j_messages := upd_where (\<lambda>r. m_message_id r = mid \<and> m_recipient r = requester \<and> m_phase r = Queued_local \<and> m_recipient_type r = ''interactive'')
       (\<lambda>r. (set_phase Executing now r)\<lparr>m_claim_token := Some (claim_token E uuid now), m_claim_session_id := Some sid,
          m_claim_generation := Some gen, m_claim_operation_id := Some cid, m_lease_expires_at := Some (now + boundedLease lease)\<rparr>) (j_messages s)\<rparr>"
proof -
  from assms obtain r where r: "sel m_message_id mid (j_messages s) = Some r" "\<not> j_closed s" "IDENTIFIER_PATTERN cid"
      "mid \<noteq> []" "requester \<noteq> []" "sid \<noteq> []" "cid \<noteq> []" "m_recipient r = requester" "m_recipient_type r = ''interactive''"
    by (auto simp: claimInboxMessage_def assertNotClosed_def split: if_splits option.splits)
  have ph: "m_phase r = Queued_local"
    using assms r by (auto simp: claimInboxMessage_def assertNotClosed_def split: if_splits)
  show thesis
    using assms r ph by (intro that [of r]) (simp_all add: claimInboxMessage_def assertNotClosed_def Let_def split: if_splits)
qed

lemma boundedLease_bounds: "1000 \<le> boundedLease d \<and> boundedLease d \<le> 3600000"
  by (simp add: boundedLease_def)

text \<open>
  C17: a claim is exclusive, leased and repeatable.  A granted claim took a queued
  message of the claimant; its lease is between one second and one hour whatever
  was asked for; until the lease ends, repeating the claim with the same session,
  generation and claim id returns the same token and lease and changes nothing,
  and any other session, generation or claim id gets nothing.
\<close>

theorem claim_is_exclusive_and_repeatable:
  assumes "claimInboxMessage E uuid now mid requester sid gen cid lease s = (Inr (Some cr), s')" "\<not> cr_isRetry cr"
    "IDENTIFIER_PATTERN cid'" "cid' \<noteq> []" "sid' \<noteq> []" "cr_leaseExpiresAt cr = Some expiry" "later < expiry"
  shows "now + 1000 \<le> expiry \<and> expiry \<le> now + 3600000 \<and>
    claimInboxMessage E uuid' later mid requester sid' gen' cid' lease' s' =
      (Inr (if sid' = sid \<and> gen' = gen \<and> cid' = cid then Some (cr\<lparr>cr_isRetry := True\<rparr>) else None), s')"
proof -
  from assms(1,2) obtain r where r: "sel m_message_id mid (j_messages s) = Some r" "m_phase r = Queued_local" "m_recipient r = requester"
    "m_recipient_type r = ''interactive''" "\<not> j_closed s" "IDENTIFIER_PATTERN cid" "mid \<noteq> []" "requester \<noteq> []" "sid \<noteq> []" "cid \<noteq> []"
    and cr: "cr = \<lparr>cr_messageId = mid, cr_claimToken = Some (claim_token E uuid now), cr_claimId = Some cid,
       cr_leaseExpiresAt = Some (now + boundedLease lease), cr_requestId = m_request_id r, cr_isRetry = False\<rparr>"
    and s': "s' = s\<lparr>j_messages := upd_where (\<lambda>r. m_message_id r = mid \<and> m_recipient r = requester \<and> m_phase r = Queued_local \<and> m_recipient_type r = ''interactive'')
       (\<lambda>r. (set_phase Executing now r)\<lparr>m_claim_token := Some (claim_token E uuid now), m_claim_session_id := Some sid,
          m_claim_generation := Some gen, m_claim_operation_id := Some cid, m_lease_expires_at := Some (now + boundedLease lease)\<rparr>) (j_messages s)\<rparr>"
    by (rule claim_Inr)
  define r' where "r' = (set_phase Executing now r)\<lparr>m_claim_token := Some (claim_token E uuid now), m_claim_session_id := Some sid,
          m_claim_generation := Some gen, m_claim_operation_id := Some cid, m_lease_expires_at := Some (now + boundedLease lease)\<rparr>"
  have sel': "sel m_message_id mid (j_messages s') = Some r'"
    using r sel_SomeD [OF r(1)] by (simp add: s' sel_upd_where set_phase_def r'_def)
  have "\<not> lease_expired later r'" using assms(6,7) cr by (simp add: lease_expired_def r'_def)
  then have "claimInboxMessage E uuid' later mid requester sid' gen' cid' lease' s' =
      (Inr (if sid' = sid \<and> gen' = gen \<and> cid' = cid then Some (cr\<lparr>cr_isRetry := True\<rparr>) else None), s')"
    using r assms(3-5) sel' by (auto simp: claimInboxMessage_def assertNotClosed_def r'_def set_phase_def cr s' dest: sel_SomeD)
  with cr assms(6) boundedLease_bounds [of lease] show ?thesis by auto
qed

section \<open>Replies to claims\<close>

lemma recordInteractiveReply_Inr:
  assumes "recordInteractiveReply E C uuid now q s = (Inr (v, d), s')"
  shows "recordInteractiveReply_tx E C uuid now q s = (Inr (Replied v d), s')"
  using assms by (auto simp: recordInteractiveReply_def assertNotClosed_def transaction_def split: if_splits sum.splits prod.splits reply_outcome.splits)


text \<open>
  A reply after the deadline is kept, not delivered.  When the claim's holder
  answers after the lease ended, the call fails with \<open>lease_expired\<close>, the message is
  held, the text is retained as its late result, and no reply is stored.
\<close>

theorem late_reply_is_held:
  assumes "\<not> j_closed s" "sel m_message_id (ir_messageId q) (j_messages s) = Some m" "m_phase m = Executing" "lease_expired now m"
    "m_recipient m = ir_requester q" "m_recipient_type m = ''interactive''" "\<not> truthy (m_reply_route_key m)" "claim_fence q m None = Inr ()"
    "ir_messageId q \<noteq> []" "ir_claimToken q \<noteq> []" "ir_requester q \<noteq> []" "ir_sessionId q \<noteq> []" "ir_text q = Some txt"
  shows "fst (recordInteractiveReply E C uuid now q s) = Inl (Coded ''lease_expired'') \<and>
    j_replies (snd (recordInteractiveReply E C uuid now q s)) = j_replies s \<and>
    sel m_message_id (ir_messageId q) (j_messages (snd (recordInteractiveReply E C uuid now q s))) =
      Some (m\<lparr>m_phase := Held, m_updated_at := now, m_reason := Some ''lease_expired'', m_late_result_text := Some txt\<rparr>)"
  using assms sel_SomeD [OF assms(2)]
  by (simp add: recordInteractiveReply_def assertNotClosed_def transaction_def recordInteractiveReply_tx_def reply_pin_check_def
      sel_upd_where hold_expired_def set_phase_def)

section \<open>Witnesses\<close>

definition inbox_journal :: journal where
  "inbox_journal = exec_all plain_env default_cfg
     [CSend 1 (sample_envelope\<lparr>e_recipientType := Some ''interactive''\<rparr>) no_options,
      CSend 2 (sample_envelope\<lparr>e_recipientType := Some ''interactive'', e_messageId := ''m2''\<rparr>) no_options] empty_journal"

definition claimed_journal :: journal where
  "claimed_journal = snd (claimInboxMessage plain_env ''u'' 10 ''m1'' ''b'' ''s'' 1 ''c'' 5000 inbox_journal)"

definition sample_answer :: interactive_reply where
  "sample_answer = \<lparr>ir_messageId = ''m1'', ir_claimToken = claim_token plain_env ''u'' 10, ir_sessionId = ''s'', ir_generation = 1,
     ir_requester = ''b'', ir_text = Some ''ok'', ir_replyId = Some ''y1'', ir_metadata = None, ir_identity = None\<rparr>"

theorem inbox_pages_list_everything_witness:
  "collect_inbox 3 (\<lambda>x. x) 5 ''b'' 1 None inbox_journal = Some (map mapMessageRow (inbox_rows ''b'' None (j_messages inbox_journal))) \<and>
   length (inbox_rows ''b'' None (j_messages inbox_journal)) = 2"
proof -
  have "''b'' \<noteq> []" by simp
  moreover have "\<not> j_closed inbox_journal" by code_simp
  moreover have "unique_key m_message_id (j_messages inbox_journal)" by (rule unique_keyI) code_simp
  moreover have l: "length (inbox_rows ''b'' None (j_messages inbox_journal)) = 2" by code_simp
  moreover from l have "length (inbox_rows ''b'' None (j_messages inbox_journal)) < 3" by simp
  ultimately show ?thesis by (blast intro: inbox_pages_list_everything)
qed

lemma claimed_Inr: "claimInboxMessage plain_env ''u'' 10 ''m1'' ''b'' ''s'' 1 ''c'' 5000 inbox_journal =
    (Inr (Some (the (projr (fst (claimInboxMessage plain_env ''u'' 10 ''m1'' ''b'' ''s'' 1 ''c'' 5000 inbox_journal))))), claimed_journal)"
proof -
  let ?p = "claimInboxMessage plain_env ''u'' 10 ''m1'' ''b'' ''s'' 1 ''c'' 5000 inbox_journal"
  have "\<not> isl (fst ?p)" "projr (fst ?p) \<noteq> None" by code_simp+
  then show ?thesis unfolding claimed_journal_def by (cases ?p; cases "fst ?p") auto
qed

theorem claim_is_exclusive_and_repeatable_witness:
  "claimInboxMessage plain_env ''v'' 20 ''m1'' ''b'' ''other'' 1 ''c'' 5000 claimed_journal = (Inr None, claimed_journal)"
proof -
  have "\<not> cr_isRetry (the (projr (fst (claimInboxMessage plain_env ''u'' 10 ''m1'' ''b'' ''s'' 1 ''c'' 5000 inbox_journal))))" by code_simp
  moreover have "IDENTIFIER_PATTERN ''c''" by code_simp
  moreover have "cr_leaseExpiresAt (the (projr (fst (claimInboxMessage plain_env ''u'' 10 ''m1'' ''b'' ''s'' 1 ''c'' 5000 inbox_journal)))) = Some 5010"
    by code_simp
  ultimately show ?thesis
    using claim_is_exclusive_and_repeatable [OF claimed_Inr, of "''c''" "''other''" 5010 20 "''v''" 1 5000] by simp
qed

lemma answered_Inr: "\<exists>v. recordInteractiveReply plain_env default_cfg ''w'' 20 sample_answer claimed_journal =
    (Inr (v, False), snd (recordInteractiveReply plain_env default_cfg ''w'' 20 sample_answer claimed_journal))"
  by (rule ok_pair) code_simp+


theorem late_reply_is_held_witness:
  "fst (recordInteractiveReply plain_env default_cfg ''w'' 9000 sample_answer claimed_journal) = Inl (Coded ''lease_expired'')"
proof -
  let ?m = "hd (j_messages claimed_journal)"
  have "\<not> j_closed claimed_journal" "sel m_message_id (ir_messageId sample_answer) (j_messages claimed_journal) = Some ?m"
    "m_phase ?m = Executing" "lease_expired 9000 ?m" "m_recipient ?m = ir_requester sample_answer" "m_recipient_type ?m = ''interactive''"
    "\<not> truthy (m_reply_route_key ?m)" "claim_fence sample_answer ?m None = Inr ()" "ir_messageId sample_answer \<noteq> []"
    "ir_claimToken sample_answer \<noteq> []" "ir_requester sample_answer \<noteq> []" "ir_sessionId sample_answer \<noteq> []" "ir_text sample_answer = Some ''ok''"
    by code_simp+
  from conjunct1 [OF late_reply_is_held [OF this]] show ?thesis .
qed

end
