(* ===== verification/Journal_Frames.thy ===== *)
theory Journal_Frames
  imports Journal_Custody
begin

text \<open>
  Which operations touch the admission table and the reply pins: only
  \<open>recordSend\<close> and \<open>compact\<close> change the admissions, only \<open>recordSend\<close> and
  \<open>recordInteractiveReply\<close> change the pins.
\<close>

definition admission_state :: "journal \<Rightarrow> pair_row list \<times> route_table" where
  "admission_state s = (j_pairs s, j_routes s)"

lemma frame_notClosed: "admission_state (snd (body s)) = admission_state s \<Longrightarrow> admission_state (snd (assertNotClosed body s)) = admission_state s"
  by (simp add: assertNotClosed_def)

lemma frame_transaction:
  "(\<And>x s'. body s = (Inr x, s') \<Longrightarrow> admission_state s' = admission_state s) \<Longrightarrow> admission_state (snd (transaction body s)) = admission_state s"
  by (auto simp: transaction_def split: prod.splits sum.splits)

lemma frame_tx: "admission_state (snd (body s)) = admission_state s \<Longrightarrow> admission_state (snd (transaction body s)) = admission_state s"
  by (auto simp: transaction_def split: prod.splits sum.splits)

lemma admission_frame [simp]:
  "admission_state (s\<lparr>j_messages := a\<rparr>) = admission_state s" "admission_state (s\<lparr>j_replies := b\<rparr>) = admission_state s"
  "admission_state (s\<lparr>j_recons := c\<rparr>) = admission_state s" "admission_state (s\<lparr>j_bindings := d\<rparr>) = admission_state s"
  "admission_state (s\<lparr>j_history := e\<rparr>) = admission_state s" "admission_state (s\<lparr>j_discovered := f\<rparr>) = admission_state s"
  "admission_state (s\<lparr>j_ended := g\<rparr>) = admission_state s" "admission_state (s\<lparr>j_events := h\<rparr>) = admission_state s"
  "admission_state (s\<lparr>j_attachments := i\<rparr>) = admission_state s" "admission_state (s\<lparr>j_uncertain := j\<rparr>) = admission_state s"
  "admission_state (s\<lparr>j_closed := k\<rparr>) = admission_state s"
  "admission_state (pruneOrphanedSessionState s) = admission_state s" "admission_state (upd_binding target fb s) = admission_state s"
  by (simp_all add: admission_state_def upd_binding_def)

lemma frame_execution:
  "admission_state (snd (consumeReply now requester mid s)) = admission_state s"
  "admission_state (snd (recoverQueued now s)) = admission_state s"
  "admission_state (open_recovery now (close_journal s)) = admission_state s"
  "admission_state (snd (claimExecution now mid s)) = admission_state s"
  "admission_state (snd (completeExecution now mid s)) = admission_state s"
  "admission_state (snd (holdExecution now mid reason late s)) = admission_state s"
  "admission_state (snd (recordExecutionFailure now mid reason err s)) = admission_state s"
  "admission_state (snd (claimInboxMessage E uuid now mid requester sid gen cid lease s)) = admission_state s"
  "admission_state (snd (listInbox hmac now requester limit cur s)) = admission_state s"
  unfolding consumeReply_def recoverQueued_def claimExecution_def completeExecution_def holdExecution_def
    recordExecutionFailure_def claimInboxMessage_def listInbox_def open_recovery_def close_journal_def Let_def
  by (rule frame_notClosed, simp split: option.split sum.split | simp)+

lemma frame_recordReplySync: "recordReplySync E now e s = (r, s') \<Longrightarrow> admission_state s' = admission_state s"
  by (auto simp: recordReplySync_def assertNotClosed_def split: if_splits option.splits)

lemma frame_replies:
  "admission_state (snd (recordReply E now e s)) = admission_state s"
  "admission_state (snd (completeExecutionWithReply E now1 now2 e s)) = admission_state s"
  "admission_state (snd (reconcileMessage E now q s)) = admission_state s"
proof -
  show "admission_state (snd (recordReply E now e s)) = admission_state s"
    using frame_recordReplySync [of E now e s] by (cases "recordReplySync E now e s") (simp add: recordReply_def)
  have tx: "admission_state s' = admission_state s" if "completeExecutionWithReply_tx E now1 now2 e s = (Inr x, s')" for x s'
    using that
  proof (rule completeExecutionWithReply_tx_Inr)
    fix orig s1
    assume "recordReplySync E now1 e s = (Inr x, s1)"
      and s': "s' = (if m_phase orig = Executing then s1\<lparr>j_messages := upd_where (\<lambda>r. m_message_id r = m_message_id orig \<and> m_phase r = Executing)
          (set_phase Completed now2) (j_messages s1)\<rparr> else s1)"
    with frame_recordReplySync show "admission_state s' = admission_state s" by (simp add: s')
  qed
  show "admission_state (snd (completeExecutionWithReply E now1 now2 e s)) = admission_state s"
    unfolding completeExecutionWithReply_def by (rule frame_notClosed) (simp add: frame_transaction tx)
  have rc: "admission_state s' = admission_state s" if "reconcileMessage_tx E now n s = (Inr x, s')" for n x s'
    using that by (auto simp: reconcileMessage_tx_def Let_def split: option.splits sum.splits prod.splits if_splits)
  show "admission_state (snd (reconcileMessage E now q s)) = admission_state s"
    unfolding reconcileMessage_def by (rule frame_notClosed) (simp add: frame_transaction rc split: sum.split)
qed

lemma frame_wake:
  "admission_state (snd (initWakeBinding uuid now target bid auth thread gen s)) = admission_state s"
  "admission_state (snd (initInteractiveWakeBinding now sender sid g bnd s)) = admission_state s"
  "admission_state (snd (bindAttachedSessionWake now sender sid g bnd s)) = admission_state s"
  "admission_state (snd (setWakeSubmitting target wid fp at s)) = admission_state s"
  "admission_state (snd (setWakeAccepted now target wid queued thread s)) = admission_state s"
  "admission_state (snd (setWakeUncertain now target wid s)) = admission_state s"
  "admission_state (snd (reconcileStaleWake now requester thread auth2 wid g s)) = admission_state s"
  "admission_state (snd (ackWake now requester wid g s)) = admission_state s"
  unfolding initWakeBinding_def initInteractiveWakeBinding_def bindAttachedSessionWake_def
    setWakeSubmitting_def setWakeAccepted_def setWakeUncertain_def reconcileStaleWake_def ackWake_def
  by (rule frame_notClosed, simp add: Let_def split: option.split)+

lemma frame_interactive_wake:
  "admission_state (snd (reserveInteractiveWake E now target rid sid gen bid s)) = admission_state s"
  "admission_state (snd (reportInteractiveWakeResult now target wid gen sid bid res s)) = admission_state s"
  "admission_state (snd (ackInteractiveWake now target wid gen sid bid s)) = admission_state s"
proof -
  have "admission_state (snd (reserveInteractiveWake_tx E now target rid sid gen b s)) = admission_state s" for b
    by (simp add: reserveInteractiveWake_tx_def Let_def split: sum.split option.split)
  then show "admission_state (snd (reserveInteractiveWake E now target rid sid gen bid s)) = admission_state s"
    unfolding reserveInteractiveWake_def by (simp add: frame_notClosed frame_tx)
  have "admission_state (snd (reportInteractiveWakeResult_tx now target wid gen sid b res s)) = admission_state s" for b
    by (simp add: reportInteractiveWakeResult_tx_def Let_def split: sum.split option.split)
  then show "admission_state (snd (reportInteractiveWakeResult now target wid gen sid bid res s)) = admission_state s"
    unfolding reportInteractiveWakeResult_def by (simp add: frame_notClosed frame_tx)
  have "admission_state (snd (ackInteractiveWake_tx now target wid gen sid b s)) = admission_state s" for b
    by (simp add: ackInteractiveWake_tx_def split: sum.split option.split)
  then show "admission_state (snd (ackInteractiveWake now target wid gen sid bid s)) = admission_state s"
    unfolding ackInteractiveWake_def by (simp add: frame_notClosed frame_tx)
qed

lemma frame_discovery:
  "admission_state (snd (recordDiscoveryEvent E C inst ev digest at s)) = admission_state s"
  "admission_state (snd (attachDiscoveredSession now sid child gen inst cap s)) = admission_state s"
  "admission_state (snd (detachDiscoveredSession sid child s)) = admission_state s"
proof -
  have age: "admission_state (age_out cutoff s) = admission_state s" for cutoff by (simp add: age_out_def)
  have ap: "admission_state (apply_event E C inst sid ev gen r u) = admission_state u" for sid gen r u by (simp add: apply_event_def)
  obtain r u where e: "evict_ended (age_out (at - RETENTION_MS) s) = (r, u)" by force
  then have u: "admission_state u = admission_state s"
    using age by (auto simp: evict_ended_def split: list.splits)
  have "admission_state (snd (recordDiscoveryEvent_tx E C inst ev digest at s)) = admission_state s"
    by (cases r) (simp_all add: recordDiscoveryEvent_tx_def Let_def age ap e u split: option.split)
  then show "admission_state (snd (recordDiscoveryEvent E C inst ev digest at s)) = admission_state s"
    unfolding recordDiscoveryEvent_def by (simp add: frame_notClosed frame_tx)
  show "admission_state (snd (attachDiscoveredSession now sid child gen inst cap s)) = admission_state s"
    unfolding attachDiscoveredSession_def by (rule frame_notClosed) (simp add: Let_def split: option.split)
  show "admission_state (snd (detachDiscoveredSession sid child s)) = admission_state s"
    unfolding detachDiscoveredSession_def by (rule frame_notClosed) simp
qed

lemmas frame_simps = frame_execution frame_replies frame_wake frame_interactive_wake frame_discovery


section \<open>Message operations leave the session tables alone\<close>

definition session_state where
  "session_state s = (j_bindings s, j_history s, j_discovered s, j_ended s, j_events s, j_attachments s)"

lemma session_notClosed: "session_state (snd (body s)) = session_state s \<Longrightarrow> session_state (snd (assertNotClosed body s)) = session_state s"
  by (simp add: assertNotClosed_def)

lemma session_transaction:
  "(\<And>x s'. body s = (Inr x, s') \<Longrightarrow> session_state s' = session_state s) \<Longrightarrow> session_state (snd (transaction body s)) = session_state s"
  by (auto simp: transaction_def split: prod.splits sum.splits)

lemma session_frame [simp]:
  "session_state (s\<lparr>j_messages := a\<rparr>) = session_state s" "session_state (s\<lparr>j_replies := b\<rparr>) = session_state s"
  "session_state (s\<lparr>j_recons := c\<rparr>) = session_state s" "session_state (s\<lparr>j_pairs := d\<rparr>) = session_state s"
  "session_state (s\<lparr>j_routes := e\<rparr>) = session_state s" "session_state (s\<lparr>j_uncertain := j\<rparr>) = session_state s"
  "session_state (s\<lparr>j_closed := k\<rparr>) = session_state s"
  by (simp_all add: session_state_def)

lemma session_execution:
  "session_state (snd (consumeReply now requester mid s)) = session_state s"
  "session_state (snd (recoverQueued now s)) = session_state s"
  "session_state (snd (claimExecution now mid s)) = session_state s"
  "session_state (snd (completeExecution now mid s)) = session_state s"
  "session_state (snd (holdExecution now mid reason late s)) = session_state s"
  "session_state (snd (recordExecutionFailure now mid reason err s)) = session_state s"
  "session_state (snd (claimInboxMessage E uuid now mid requester sid gen cid lease s)) = session_state s"
  "session_state (snd (listInbox hmac now requester limit cur s)) = session_state s"
  unfolding consumeReply_def recoverQueued_def claimExecution_def completeExecution_def holdExecution_def
    recordExecutionFailure_def claimInboxMessage_def listInbox_def Let_def
  by (rule session_notClosed, simp split: option.split sum.split)+

lemma session_recordReplySync: "recordReplySync E now e s = (r, s') \<Longrightarrow> session_state s' = session_state s"
  by (auto simp: recordReplySync_def assertNotClosed_def split: if_splits option.splits)

lemma session_replies:
  "session_state (snd (recordReply E now e s)) = session_state s"
  "session_state (snd (completeExecutionWithReply E now1 now2 e s)) = session_state s"
  "session_state (snd (reconcileMessage E now q s)) = session_state s"
proof -
  show "session_state (snd (recordReply E now e s)) = session_state s"
    using session_recordReplySync [of E now e s] by (cases "recordReplySync E now e s") (simp add: recordReply_def)
  have tx: "session_state s' = session_state s" if "completeExecutionWithReply_tx E now1 now2 e s = (Inr x, s')" for x s'
    using that
  proof (rule completeExecutionWithReply_tx_Inr)
    fix orig s1
    assume "recordReplySync E now1 e s = (Inr x, s1)"
      and s': "s' = (if m_phase orig = Executing then s1\<lparr>j_messages := upd_where (\<lambda>r. m_message_id r = m_message_id orig \<and> m_phase r = Executing)
          (set_phase Completed now2) (j_messages s1)\<rparr> else s1)"
    with session_recordReplySync show "session_state s' = session_state s" by (simp add: s')
  qed
  show "session_state (snd (completeExecutionWithReply E now1 now2 e s)) = session_state s"
    unfolding completeExecutionWithReply_def by (rule session_notClosed) (simp add: session_transaction tx)
  have rc: "session_state s' = session_state s" if "reconcileMessage_tx E now n s = (Inr x, s')" for n x s'
    using that by (auto simp: reconcileMessage_tx_def Let_def split: option.splits sum.splits prod.splits if_splits)
  show "session_state (snd (reconcileMessage E now q s)) = session_state s"
    unfolding reconcileMessage_def by (rule session_notClosed) (simp add: session_transaction rc split: sum.split)
qed

lemma session_pin_request: "pin_request E now mid opts route s = (r, s') \<Longrightarrow> session_state s' = session_state s"
  by (auto simp: pin_request_def split: if_splits prod.splits sum.splits)

lemma session_recordSend: "session_state (snd (recordSend E C clock e opts s)) = session_state s"
proof -
  have "session_state s' = session_state s" if "recordSend_tx E C clock e opts s = (Inr x, s')" for x s'
    using that
    by (auto simp: recordSend_tx_def Let_def split: if_splits prod.splits sum.splits option.splits dest!: session_pin_request)
  then show ?thesis unfolding recordSend_def by (simp add: session_notClosed session_transaction)
qed

lemma session_finish_reply: "finish_reply E q orig pin y d s = (r, s') \<Longrightarrow> session_state s' = session_state s"
  by (auto simp: finish_reply_def commitAcceptedReply_def split: option.splits prod.splits sum.splits)

lemma session_recordInteractiveReply: "session_state (snd (recordInteractiveReply E C uuid now q s)) = session_state s"
proof -
  have ex: "session_state s' = session_state s" if "reply_to_executing E uuid now q orig pin s = (Inr x, s')" for orig pin x s'
    using that by (cases rule: reply_to_executing_cases) (auto dest: session_finish_reply)
  have co: "session_state s' = session_state s" if "reply_to_completed E q orig pin s = (Inr x, s')" for orig pin x s'
    using that by (auto simp: reply_to_completed_def split: option.splits if_splits dest: session_finish_reply)
  have tx: "session_state s' = session_state s" if "recordInteractiveReply_tx E C uuid now q s = (Inr x, s')" for x s'
    using that by (auto simp: recordInteractiveReply_tx_def split: option.splits if_splits sum.splits phase.splits dest: ex co)
  have "session_state (snd (transaction (recordInteractiveReply_tx E C uuid now q) s)) = session_state s"
    by (rule session_transaction) (rule tx)
  then show ?thesis
    unfolding recordInteractiveReply_def
    by (intro session_notClosed) (auto split: prod.splits sum.splits reply_outcome.splits)
qed

lemmas session_simps = session_execution session_replies session_recordSend session_recordInteractiveReply

end
