(* ===== verification/Sliding_Window.thy ===== *)
theory Sliding_Window
  imports Main
begin

text \<open>
  The contract of a sliding window limiter, whatever it stores: a request is
  accepted only while fewer than \<open>cap\<close> of the entries it remembers are inside
  the window that ends now, an accepted request is remembered, and nothing that
  can still count is forgotten.  \<open>inside now t\<close> says that an entry of time \<open>t\<close>
  counts at time \<open>now\<close>; limiters differ in whether the left end belongs to the
  window.  With a clock that does not go back, no window of the whole run holds
  more than \<open>cap\<close> accepted requests.
\<close>

lemma length_filter_impl: "(\<And>x. x \<in> set xs \<Longrightarrow> P x \<Longrightarrow> Q x) \<Longrightarrow> length (filter P xs) \<le> length (filter Q xs)"
  by (induction xs) (auto simp: le_SucI)

locale sliding_window =
  fixes step :: "'r \<Rightarrow> 's \<Rightarrow> 's"
    and accepted :: "'r \<Rightarrow> 's \<Rightarrow> bool"
    and clock :: "'r \<Rightarrow> int"
    and valid :: "'r \<Rightarrow> bool"
    and inv :: "'s \<Rightarrow> bool"
    and recent :: "'s \<Rightarrow> int list"
    and inside :: "int \<Rightarrow> int \<Rightarrow> bool"
    and cap :: nat
  assumes inside_mono: "inside u t \<Longrightarrow> v \<le> u \<Longrightarrow> inside v t"
    and inv_step: "\<lbrakk>valid r; inv s\<rbrakk> \<Longrightarrow> inv (step r s)"
    and refused: "\<lbrakk>valid r; inv s; \<not> accepted r s; clock r \<le> u\<rbrakk> \<Longrightarrow> filter (inside u) (recent (step r s)) = filter (inside u) (recent s)"
    and admitted: "\<lbrakk>valid r; inv s; accepted r s; clock r \<le> u\<rbrakk> \<Longrightarrow>
      filter (inside u) (recent (step r s)) = filter (inside u) (recent s @ [clock r])"
    and below_cap: "\<lbrakk>valid r; inv s; accepted r s\<rbrakk> \<Longrightarrow> length (filter (inside (clock r)) (recent s)) < cap"
begin

text \<open>The times of the requests a run accepts.\<close>

fun accepted_times :: "'r list \<Rightarrow> 's \<Rightarrow> int list" where
  "accepted_times [] s = []"
| "accepted_times (r # rs) s = (if accepted r s then [clock r] else []) @ accepted_times rs (step r s)"

lemma accepted_times_snoc:
  "accepted_times (rs @ [r]) s = accepted_times rs s @ (if accepted r (fold step rs s) then [clock r] else [])"
  by (induction rs arbitrary: s) auto

lemma accepted_times_clock: "t \<in> set (accepted_times rs s) \<Longrightarrow> t \<in> clock ` set rs"
  by (induction rs arbitrary: s) (auto split: if_splits)

lemma run_inv: "inv s \<Longrightarrow> list_all valid rs \<Longrightarrow> inv (fold step rs s)"
  by (induction rs arbitrary: s) (auto intro: inv_step)

lemma run_window:
  assumes "recent s = []" "sorted (map clock rs)" "list_all valid rs" "inv s"
  shows "(\<forall>u. (\<forall>r \<in> set rs. clock r \<le> u) \<longrightarrow> filter (inside u) (recent (fold step rs s)) = filter (inside u) (accepted_times rs s)) \<and>
    (\<forall>u. length (filter (\<lambda>t. t \<le> u \<and> inside u t) (accepted_times rs s)) \<le> cap)"
  using assms(2,3)
proof (induction rs rule: rev_induct)
  case Nil
  then show ?case by (simp add: assms(1))
next
  case (snoc r rs)
  let ?s = "fold step rs s"
  let ?acc = "accepted_times rs s"
  from snoc have v: "valid r" and last: "\<forall>x \<in> set rs. clock x \<le> clock r"
    and IH: "\<And>u. \<forall>x \<in> set rs. clock x \<le> u \<Longrightarrow> filter (inside u) (recent ?s) = filter (inside u) ?acc"
      "\<And>u. length (filter (\<lambda>t. t \<le> u \<and> inside u t) ?acc) \<le> cap"
    by (auto simp: sorted_append)
  have i: "inv ?s" using snoc.prems(2) assms(4) by (simp add: run_inv)
  have keep: "filter (inside u) (recent (fold step (rs @ [r]) s)) = filter (inside u) (accepted_times (rs @ [r]) s)"
    if u: "\<forall>x \<in> set (rs @ [r]). clock x \<le> u" for u
    using u IH(1) [of u] refused [OF v i, of u] admitted [OF v i, of u]
    by (cases "accepted r ?s") (simp_all add: accepted_times_snoc)
  have bound: "length (filter (\<lambda>t. t \<le> u \<and> inside u t) (accepted_times (rs @ [r]) s)) \<le> cap" for u
  proof (cases "accepted r ?s \<and> clock r \<le> u")
    case True
    have "length (filter (\<lambda>t. t \<le> u \<and> inside u t) ?acc) \<le> length (filter (inside (clock r)) ?acc)"
      using inside_mono True by (intro length_filter_impl) blast
    also have "\<dots> = length (filter (inside (clock r)) (recent ?s))" using IH(1) [OF last] by simp
    also have "\<dots> < cap" using below_cap [OF v i] True by blast
    finally show ?thesis using True by (simp add: accepted_times_snoc)
  next
    case False
    then show ?thesis using IH(2) [of u] by (auto simp: accepted_times_snoc)
  qed
  from keep bound show ?case by blast
qed

lemma window_bound:
  "recent s = [] \<Longrightarrow> sorted (map clock rs) \<Longrightarrow> list_all valid rs \<Longrightarrow> inv s \<Longrightarrow>
    length (filter (\<lambda>t. t \<le> u \<and> inside u t) (accepted_times rs s)) \<le> cap"
  using run_window by blast

end

end
