(* ===== verification/Journal_Window.thy ===== *)
theory Journal_Window
  imports Journal_Frames Sliding_Window Journal_Admission
begin

text \<open>
  The two guarantees of the journal that survive restarts: the exchange limit of
  a pair of agents, kept in \<open>local_pair_admissions\<close>, and the reply pins, kept in
  \<open>local_reply_routes\<close>.  Both are stated over arbitrary sequences of journal calls.
\<close>

section \<open>The durable exchange window\<close>

definition pair_times :: "string \<Rightarrow> journal \<Rightarrow> int list" where
  "pair_times key s = map pa_created_at (filter (\<lambda>p. pa_pair_key p = key) (j_pairs s))"

fun admits :: "node_env \<Rightarrow> journal_cfg \<Rightarrow> string \<Rightarrow> int \<times> journal_call \<Rightarrow> journal \<Rightarrow> bool" where
  "admits E C key (t, CSend clock e opts) s = (pairKeyFor (e_sender e) (e_recipient e) = key \<and>
     (case fst (recordSend E C clock e opts s) of Inr (v, d) \<Rightarrow> \<not> d | Inl err \<Rightarrow> False))"
| "admits E C key (t, c) s = False"

text \<open>
  A call made at time \<open>t\<close>: a send or a compaction reads the clock at \<open>t\<close>, and a
  send uses the limits of the journal.
\<close>

fun timed :: "int \<times> journal_call \<Rightarrow> bool" where
  "timed (t, CSend clock e opts) = (clock = t \<and> so_now opts = None \<and> so_maxPairRequests opts = None \<and> so_pairWindowMs opts = None)"
| "timed (t, CCompact now retention) = (now = t)"
| "timed (t, c) = True"

primrec admission_times :: "node_env \<Rightarrow> journal_cfg \<Rightarrow> string \<Rightarrow> (int \<times> journal_call) list \<Rightarrow> journal \<Rightarrow> int list" where
  "admission_times E C key [] s = []"
| "admission_times E C key (c # cs) s =
    (if admits E C key c s then [fst c] else []) @ admission_times E C key cs (exec E C (snd c) s)"

lemma pair_count_times: "pair_count key cutoff (j_pairs s) = length (filter (\<lambda>t. cutoff < t) (pair_times key s))"
  by (simp add: pair_count_def pair_times_def filter_map comp_def filter_filter conj_commute)

lemma recordSend_fails_same: "fst (recordSend E C t e opts s) = Inl err \<Longrightarrow> snd (recordSend E C t e opts s) = s"
  using transaction_error_state [of "recordSend_tx E C t e opts" s err]
  by (auto simp: recordSend_def assertNotClosed_def split: if_splits)

lemma send_times:
  assumes "recordSend E C t e opts s = (Inr (v, d), s')"
  shows "d \<Longrightarrow> s' = s"
    and "\<not> d \<Longrightarrow> j_pairs s' = j_pairs s @ [\<lparr>pa_pair_key = pairKeyFor (e_sender e) (e_recipient e), pa_message_id = e_messageId e,
           pa_created_at = opt_or (so_now opts) t\<rparr>] \<and>
      int (pair_count (pairKeyFor (e_sender e) (e_recipient e)) (opt_or (so_now opts) t - opt_or (so_pairWindowMs opts) (c_pairWindowMs C)) (j_pairs s))
        < opt_or (so_maxPairRequests opts) (c_maxPairRequests C)"
proof -
  from recordSend_Inr [OF assms] have tx: "recordSend_tx E C t e opts s = (Inr (v, d), s')" by simp
  show "d \<Longrightarrow> s' = s"
  proof (cases "sel m_message_id (e_messageId e) (j_messages s)")
    case None
    assume d
    with recordSend_tx_fresh [OF tx None] show ?thesis by simp
  qed (use recordSend_tx_duplicate [OF tx] in simp)
  show "\<not> d \<Longrightarrow> j_pairs s' = j_pairs s @ [\<lparr>pa_pair_key = pairKeyFor (e_sender e) (e_recipient e), pa_message_id = e_messageId e,
           pa_created_at = opt_or (so_now opts) t\<rparr>] \<and>
      int (pair_count (pairKeyFor (e_sender e) (e_recipient e)) (opt_or (so_now opts) t - opt_or (so_pairWindowMs opts) (c_pairWindowMs C)) (j_pairs s))
        < opt_or (so_maxPairRequests opts) (c_maxPairRequests C)"
  proof (cases "sel m_message_id (e_messageId e) (j_messages s)")
    case None
    with recordSend_tx_fresh [OF tx None] show ?thesis by simp
  next
    case (Some r)
    assume "\<not> d"
    with recordSend_tx_duplicate [OF tx Some] show ?thesis by simp
  qed
qed

lemma compact_times:
  "now \<le> u \<Longrightarrow> filter (\<lambda>t. u - c_pairWindowMs C < t) (pair_times key (snd (compact C now ret s))) = filter (\<lambda>t. u - c_pairWindowMs C < t) (pair_times key s)"
  by (auto simp: compact_def assertNotClosed_def Let_def pair_times_def del_where_def filter_map comp_def filter_filter
      intro!: arg_cong [where f = "map pa_created_at"] filter_cong)

lemma send_refused_times:
  assumes "\<not> admits E C key (t, CSend clock e opts) s"
  shows "pair_times key (exec E C (CSend clock e opts) s) = pair_times key s"
proof (cases "recordSend E C clock e opts s")
  case (Pair x s')
  show ?thesis
  proof (cases x)
    case (Inl err)
    with Pair recordSend_fails_same [of E C clock e opts s err] show ?thesis by simp
  next
    case (Inr y)
    obtain v d where y: "y = (v, d)" by (cases y)
    with Inr Pair have r: "recordSend E C clock e opts s = (Inr (v, d), s')" by simp
    show ?thesis
    proof (cases d)
      case True
      with send_times(1) [OF r] r show ?thesis by simp
    next
      case False
      with assms r have "pairKeyFor (e_sender e) (e_recipient e) \<noteq> key" by simp
      with send_times(2) [OF r False] r show ?thesis by (simp add: pair_times_def)
    qed
  qed
qed

lemma finish_reply_tables:
  assumes "finish_reply E q orig pin y d s = (Inr x, s')"
  shows "j_pairs s' = j_pairs s \<and> advances E (j_routes s) (j_routes s')"
proof (cases pin)
  case None
  with assms show ?thesis by (auto simp: finish_reply_def commitAcceptedReply_def)
next
  case (Some p)
  obtain res tab where r: "advanceInTransaction E (opt_or (m_reply_route_key orig) []) (r_local p) (r_remote p) (j_routes s) = (res, tab)"
    by force
  with advanceInTransaction_advances [of E "j_routes s" "opt_or (m_reply_route_key orig) []" "r_local p" "r_remote p"] assms Some
  show ?thesis by (cases res) (auto simp: finish_reply_def commitAcceptedReply_def)
qed

lemma recordInteractiveReply_tx_tables:
  assumes "recordInteractiveReply_tx E C uuid now q s = (Inr x, s')"
  shows "j_pairs s' = j_pairs s \<and> advances E (j_routes s) (j_routes s')"
proof -
  from assms obtain orig pin where orig: "sel m_message_id (ir_messageId q) (j_messages s) = Some orig"
    and own: "m_recipient orig = ir_requester q" "m_recipient_type orig = ''interactive''"
    and pin: "reply_pin_check E C now q orig s = Inr pin" "claim_fence q orig pin = Inr ()"
    by (auto simp: recordInteractiveReply_tx_def split: option.splits if_splits sum.splits)
  note tx = assms [unfolded recordInteractiveReply_tx_def orig option.case own pin sum.case, simplified]
  show ?thesis
  proof (cases "m_phase orig")
    case Completed
    with tx have "reply_to_completed E q orig pin s = (Inr x, s')" by simp
    then obtain y where "finish_reply E q orig pin y True s = (Inr x, s')"
      by (auto simp: reply_to_completed_def split: option.splits if_splits)
    then show ?thesis by (rule finish_reply_tables)
  next
    case Executing
    show ?thesis
    proof (cases "lease_expired now orig")
      case True
      with tx Executing show ?thesis by auto
    next
      case False
      with tx Executing have "reply_to_executing E uuid now q orig pin s = (Inr x, s')" by simp
      then show ?thesis
        by (cases rule: reply_to_executing_cases) (auto dest: finish_reply_tables)
    qed
  next
    case Held
    with tx show ?thesis by auto
  qed (use tx in auto)
qed

lemma recordInteractiveReply_tables:
  "j_pairs (snd (recordInteractiveReply E C uuid now q s)) = j_pairs s \<and>
   advances E (j_routes s) (j_routes (snd (recordInteractiveReply E C uuid now q s)))"
proof (cases "recordInteractiveReply_tx E C uuid now q s")
  case (Pair r s')
  with recordInteractiveReply_tx_tables [of E C uuid now q s] show ?thesis
    by (cases r) (auto simp: recordInteractiveReply_def assertNotClosed_def transaction_def split: reply_outcome.splits)
qed

fun is_send :: "journal_call \<Rightarrow> bool" where
  "is_send (CSend clock e opts) = True"
| "is_send c = False"

lemma other_times:
  assumes "\<not> is_compact c" "\<not> is_send c"
  shows "pair_times key (exec E C c s) = pair_times key s"
proof -
  have "j_pairs (exec E C c s) = j_pairs s"
    using assms frame_simps [unfolded admission_state_def] recordInteractiveReply_tables by (cases c) simp_all
  then show ?thesis by (simp add: pair_times_def)
qed

interpretation admission_window: sliding_window "\<lambda>c. exec E C (snd c)" "admits E C key" fst timed "\<lambda>_. True" "pair_times key"
  "\<lambda>u t. u - c_pairWindowMs C < t" "nat (c_maxPairRequests C)" for E C key
proof
  fix r :: "int \<times> journal_call" and s :: journal and u :: int
  let ?in = "filter (\<lambda>t. u - c_pairWindowMs C < t)"
  assume v: "timed r"
  { assume n: "\<not> admits E C key r s" and u: "fst r \<le> u"
    show "?in (pair_times key (exec E C (snd r) s)) = ?in (pair_times key s)"
    proof (cases "snd r")
      case (CSend t e opts)
      with n show ?thesis by (cases r) (simp add: send_refused_times del: exec.simps)
    next
      case (CCompact now ret)
      with v u show ?thesis by (cases r) (simp add: compact_times)
    qed (use other_times [of "snd r"] in simp_all) }
  assume a: "admits E C key r s"
  then obtain t e opts y where f: "r = (t, CSend t e opts)" "fst (recordSend E C t e opts s) = Inr (y, False)"
    and k: "pairKeyFor (e_sender e) (e_recipient e) = key"
    and o: "so_now opts = None" "so_maxPairRequests opts = None" "so_pairWindowMs opts = None"
    using v by (cases "(E, C, key, r, s)" rule: admits.cases) (auto split: sum.splits prod.splits)
  define s' where "s' = snd (recordSend E C t e opts s)"
  have r: "r = (t, CSend t e opts)" "recordSend E C t e opts s = (Inr (y, False), s')" "pairKeyFor (e_sender e) (e_recipient e) = key"
    using f k by (simp_all add: s'_def prod_eq_iff)
  note st = send_times(2) [OF r(2)]
  show "length (filter (\<lambda>t. fst r - c_pairWindowMs C < t) (pair_times key s)) < nat (c_maxPairRequests C)"
    using st r(1,3) o by (simp add: pair_count_times zless_nat_eq_int_zless)
  show "?in (pair_times key (exec E C (snd r) s)) = ?in (pair_times key s @ [fst r])"
    using st r o by (simp add: pair_times_def)
qed auto


lemma admission_times_eq: "admission_times E C key cs s = admission_window.accepted_times E C key cs s"
  by (induction cs arbitrary: s) simp_all

section \<open>Reply pins\<close>

lemma recordSend_tx_routes:
  assumes "recordSend_tx E C clock e opts s = (Inr x, s')"
  shows "advances E (j_routes s) (j_routes s')"
proof (cases "sel m_message_id (e_messageId e) (j_messages s)")
  case (Some r)
  with recordSend_tx_duplicate [OF assms Some] show ?thesis by simp
next
  case None
  let ?now = "opt_or (so_now opts) clock"
  let ?s1 = "s\<lparr>j_messages := j_messages s @ [new_message_row E ?now e opts]\<rparr>"
  obtain s2 where s2: "(case so_replyRoute opts of None \<Rightarrow> (Inr (), ?s1)
      | Some route \<Rightarrow> pin_request E ?now (e_messageId e) opts route ?s1) = (Inr (), s2)"
    and s': "j_routes s' = j_routes s2"
    using assms None by (auto simp: recordSend_tx_def Let_def split: if_splits prod.splits sum.splits option.splits)
  have "advances E (j_routes s) (j_routes s2)"
  proof (cases "so_replyRoute opts")
    case (Some route)
    obtain r tab where p: "pinInTransaction E (r_request route) (r_local route) (r_remote route) (j_routes s) = (r, tab)" by force
    with pinInTransaction_advances [of E "j_routes s" "r_request route" "r_local route" "r_remote route"] s2 Some show ?thesis
      by (cases r) (auto simp: pin_request_def split: if_splits sum.splits)
  qed (use s2 in auto)
  with s' show ?thesis by simp
qed

lemma recordSend_routes: "advances E (j_routes s) (j_routes (snd (recordSend E C clock e opts s)))"
proof (cases "recordSend_tx E C clock e opts s")
  case (Pair r s')
  with recordSend_tx_routes [of E C clock e opts s] show ?thesis
    by (cases r) (auto simp: recordSend_def assertNotClosed_def transaction_def)
qed

lemma compact_routes: "j_routes (snd (compact C now ret s)) = j_routes s"
  by (simp add: compact_def assertNotClosed_def Let_def)

lemma exec_routes: "advances E (j_routes s) (j_routes (exec E C c s))"
  using frame_simps [unfolded admission_state_def] recordInteractiveReply_tables recordSend_routes compact_routes
  by (cases c) simp_all

section \<open>Properties\<close>

text \<open>
  C32: the exchange limit holds across restarts.  Whatever journal calls are made
  - sends of all agents, claims, replies, crashes and reopenings, compactions
  with any retention - with a clock that does not go back, no window of
  \<open>pairWindowMs\<close> contains more than \<open>maxPairRequests\<close> new admissions between one pair
  of agents, both directions together.
\<close>

theorem durable_exchange_limit:
  assumes "sorted (map fst cs)" "list_all timed cs"
  shows "length (filter (\<lambda>t. u - c_pairWindowMs C < t \<and> t \<le> u) (admission_times E C (pairKeyFor a b) cs empty_journal)) \<le> nat (c_maxPairRequests C)"
proof -
  have "pair_times (pairKeyFor a b) empty_journal = []" by (simp add: pair_times_def empty_journal_def)
  from admission_window.window_bound [OF this assms, of u C E] show ?thesis
    by (simp add: admission_times_eq conj_commute)
qed

definition tight_cfg :: journal_cfg where
  "tight_cfg = default_cfg\<lparr>c_maxPairRequests := 1\<rparr>"

definition send_twice :: "(int \<times> journal_call) list" where
  "send_twice = [(1, CSend 1 sample_envelope no_options), (2, CReopen 2), (3, CCompact 3 0),
     (4, CSend 4 (sample_envelope\<lparr>e_messageId := ''m2''\<rparr>) no_options)]"

theorem durable_exchange_limit_witness:
  "admission_times plain_env tight_cfg (pairKeyFor ''a'' ''b'') send_twice empty_journal = [1] \<and>
   length (filter (\<lambda>t. 4 - c_pairWindowMs tight_cfg < t \<and> t \<le> 4) (admission_times plain_env tight_cfg (pairKeyFor ''a'' ''b'') send_twice empty_journal)) \<le> 1"
proof
  show "admission_times plain_env tight_cfg (pairKeyFor ''a'' ''b'') send_twice empty_journal = [1]" by code_simp
  have "sorted (map fst send_twice)" "list_all timed send_twice" by (simp_all add: send_twice_def no_options_def)
  from durable_exchange_limit [OF this, of 4 tight_cfg plain_env "''a''" "''b''"]
  show "length (filter (\<lambda>t. 4 - c_pairWindowMs tight_cfg < t \<and> t \<le> 4) (admission_times plain_env tight_cfg (pairKeyFor ''a'' ''b'') send_twice empty_journal)) \<le> 1"
    by (simp add: tight_cfg_def)
qed

text \<open>
  A reply pin never goes back.  Every pin of the journal is still there
  after any call, for the same request, addresses, principals and origins, and
  neither its session generations nor its binding generations decrease.
\<close>

theorem reply_pins_only_advance:
  assumes "pinned E (j_routes s) key = Some r"
  shows "\<exists>r'. pinned E (j_routes (exec E C c s)) key = Some r' \<and> r_request r' = r_request r \<and>
    renews (r_local r) (r_local r') \<and> renews (r_remote r) (r_remote r')"
  using exec_routes [of E s C c] assms by (simp add: advances_def)


definition sample_session :: string where
  "sample_session = ''session-'' @ replicate 64 (CHR ''a'')"

definition sample_route :: reply_route where
  "sample_route = (let ob = \<lparr>o_address = sample_session, o_generation = 1, o_principal = None, o_origin = None, o_binding_generation = None\<rparr> in
     \<lparr>r_schema = ''local_reply_route_v1'', r_transport = ''local-socket'', r_key = route_key sample_session ''r1'', r_request = ''r1'',
      r_local = ob, r_remote = ob\<rparr>)"

theorem reply_pins_only_advance_witness:
  "\<exists>r'. pinned plain_env (j_routes (exec plain_env default_cfg (CReopen 5) (empty_journal\<lparr>j_routes := [(r_key sample_route, sample_route)]\<rparr>))) (r_key sample_route) = Some r' \<and>
     renews (r_local sample_route) (r_local r')"
proof -
  have "observe plain_env True (r_local sample_route) = Inr (r_local sample_route)" by code_simp
  moreover have "observe plain_env False (r_remote sample_route) = Inr (r_remote sample_route)" by code_simp
  moreover have "REQUEST_PATTERN (r_request sample_route)" by code_simp
  ultimately have "pinned plain_env [(r_key sample_route, sample_route)] (r_key sample_route) = Some sample_route"
    by (simp add: pinned_eq sel_Cons valid_route_def createLocalReplyRoute_Inr valid_observation_def) (simp add: sample_route_def Let_def)
  then have "pinned plain_env (j_routes (empty_journal\<lparr>j_routes := [(r_key sample_route, sample_route)]\<rparr>)) (r_key sample_route) = Some sample_route"
    by simp
  from reply_pins_only_advance [OF this, of default_cfg "CReopen 5"] show ?thesis by blast
qed

end
