(* ===== verification/Journal_Sessions.thy ===== *)
theory Journal_Sessions
  imports Journal_Frames
begin

text \<open>
  The invariants of the session tables over arbitrary sequences of journal calls:
  a wake binding is idle exactly when it has no active wake, a target has one
  binding, and the session directory never outgrows its limit.  From them: one
  outstanding wake per target, and no second announcement of a handled backlog.
\<close>

section \<open>Wake bindings\<close>

definition coherent :: "wake_row \<Rightarrow> bool" where
  "coherent b = ((wb_state b = Idle) = (wb_active_wake b = None))"

definition bindings_ok :: "wake_row list \<Rightarrow> bool" where
  "bindings_ok rows = (unique_key wb_target rows \<and> list_all coherent rows)"

lemma bindings_ok_Nil [simp]: "bindings_ok []"
  by (simp add: bindings_ok_def)

lemma bindings_ok_upd [intro]:
  assumes "bindings_ok rows" "\<And>b. wb_target (f b) = wb_target b" "\<And>b. P b \<Longrightarrow> coherent b \<Longrightarrow> coherent (f b)"
  shows "bindings_ok (upd_where P f rows)"
  using assms by (auto simp: bindings_ok_def list_all_iff set_upd_where)

lemma bindings_ok_new [intro]:
  "bindings_ok rows \<Longrightarrow> sel wb_target target rows = None \<Longrightarrow> bindings_ok (rows @ [new_wake_row target bid auth thread gen now])"
  by (auto simp: bindings_ok_def coherent_def new_wake_row_def intro!: unique_key_snoc)

lemma bindings_ok_del [intro]: "bindings_ok rows \<Longrightarrow> bindings_ok (del_where P rows)"
  by (auto simp: bindings_ok_def list_all_iff)

lemma bindings_ok_prune: "bindings_ok (j_bindings s) \<Longrightarrow> bindings_ok (j_bindings (pruneOrphanedSessionState s))"
  by (simp add: pruneOrphanedSessionState_def Let_def bindings_ok_del)

lemma bindings_ok_upd_binding:
  "bindings_ok (j_bindings s) \<Longrightarrow> (\<And>b. wb_target (f b) = wb_target b) \<Longrightarrow> (\<And>b. coherent b \<Longrightarrow> coherent (f b)) \<Longrightarrow>
   bindings_ok (j_bindings (upd_binding target f s))"
  by (simp add: upd_binding_def bindings_ok_upd)

lemma notClosed_keeps: "I s \<Longrightarrow> I (snd (body s)) \<Longrightarrow> I (snd (assertNotClosed body s))"
  by (simp add: assertNotClosed_def)

lemma transaction_keeps: "I s \<Longrightarrow> I (snd (body s)) \<Longrightarrow> I (snd (transaction body s))"
  by (auto simp: transaction_def split: prod.splits sum.splits)

lemma rebind_state_Idle [simp]: "rebind_state st = Idle \<longleftrightarrow> st = Idle"
  by (simp add: rebind_state_def)

definition wake_inv :: "journal \<Rightarrow> bool" where
  "wake_inv s = bindings_ok (j_bindings s)"

lemma wake_inv_frame: "session_state s' = session_state s \<Longrightarrow> wake_inv s' = wake_inv s"
  by (simp add: session_state_def wake_inv_def)

lemma wake_inv_notClosed:
  "wake_inv s \<Longrightarrow> bindings_ok (j_bindings (snd (body s))) \<Longrightarrow> wake_inv (snd (assertNotClosed body s))"
  by (simp add: assertNotClosed_def wake_inv_def)

lemma wake_inv_tx:
  "wake_inv s \<Longrightarrow> bindings_ok (j_bindings (snd (body s))) \<Longrightarrow> bindings_ok (j_bindings (snd (transaction body s)))"
  by (auto simp: transaction_def wake_inv_def split: prod.splits sum.splits)

lemma wake_inv_init:
  assumes "wake_inv s"
  shows "wake_inv (snd (initWakeBinding uuid now target bid auth thread gen s))"
    "wake_inv (snd (initInteractiveWakeBinding now target sid g bnd s))"
    "wake_inv (snd (bindAttachedSessionWake now target sid g bnd s))"
  unfolding initWakeBinding_def initInteractiveWakeBinding_def bindAttachedSessionWake_def
  using assms
  by (rule wake_inv_notClosed, cases "get_binding target s";
      use assms in \<open>auto simp: wake_inv_def Let_def coherent_def get_binding_def intro!: bindings_ok_upd_binding bindings_ok_new\<close>)+

lemma wake_inv_desktop:
  assumes "wake_inv s"
  shows "wake_inv (snd (setWakeSubmitting target wid fp at s))"
    "wake_inv (snd (setWakeAccepted now target wid queued thread s))"
    "wake_inv (snd (setWakeUncertain now target wid s))"
    "wake_inv (snd (reconcileStaleWake now target thread auth2 wid g s))"
    "wake_inv (snd (ackWake now target wid g s))"
  unfolding setWakeSubmitting_def setWakeAccepted_def setWakeUncertain_def reconcileStaleWake_def ackWake_def
  using assms
  by (rule wake_inv_notClosed, cases "get_binding target s";
      use assms in \<open>auto simp: wake_inv_def Let_def coherent_def ack_binding_def intro!: bindings_ok_upd_binding bindings_ok_upd\<close>)+

lemma wake_inv_interactive_tx:
  assumes "wake_inv s"
  shows "bindings_ok (j_bindings (snd (reserveInteractiveWake_tx E now target rid sid gen b s)))"
    "bindings_ok (j_bindings (snd (reportInteractiveWakeResult_tx now target wid gen sid b res s)))"
    "bindings_ok (j_bindings (snd (ackInteractiveWake_tx now target wid gen sid b s)))"
  unfolding reserveInteractiveWake_tx_def reportInteractiveWakeResult_tx_def ackInteractiveWake_tx_def
  using assms
  by (cases "wake_fence target sid gen b s";
      auto simp: wake_inv_def Let_def coherent_def ack_binding_def split: option.split intro!: bindings_ok_upd_binding bindings_ok_upd)+

lemma wake_inv_interactive:
  assumes "wake_inv s"
  shows "wake_inv (snd (reserveInteractiveWake E now target rid sid gen bid s))"
    "wake_inv (snd (reportInteractiveWakeResult now target wid gen sid bid res s))"
    "wake_inv (snd (ackInteractiveWake now target wid gen sid bid s))"
  unfolding reserveInteractiveWake_def reportInteractiveWakeResult_def ackInteractiveWake_def
  using assms
  by (rule wake_inv_notClosed; use assms in \<open>simp add: wake_inv_tx wake_inv_interactive_tx\<close>, use assms in \<open>simp add: wake_inv_def\<close>)+

lemma wake_inv_misc:
  assumes "wake_inv s"
  shows "wake_inv (snd (compact C now retention s))"
    "wake_inv (open_recovery now (close_journal s))"
    "wake_inv (snd (attachDiscoveredSession now sid child gen inst cap s))"
    "wake_inv (snd (detachDiscoveredSession sid child s))"
proof -
  from assms have ok: "bindings_ok (j_bindings s)" by (simp add: wake_inv_def)
  show "wake_inv (snd (compact C now retention s))"
    unfolding compact_def using assms by (rule wake_inv_notClosed) (simp add: Let_def bindings_ok_prune ok)
  show "wake_inv (open_recovery now (close_journal s))"
    by (simp add: wake_inv_def open_recovery_def close_journal_def) (rule bindings_ok_upd [OF ok]; simp add: coherent_def)
  show "wake_inv (snd (attachDiscoveredSession now sid child gen inst cap s))"
    unfolding attachDiscoveredSession_def using assms by (rule wake_inv_notClosed) (simp add: Let_def ok split: option.split)
  show "wake_inv (snd (detachDiscoveredSession sid child s))"
    unfolding detachDiscoveredSession_def using assms by (rule wake_inv_notClosed) (simp add: ok)
qed

section \<open>The session directory\<close>

lemma age_out_frame [simp]: "j_bindings (age_out cutoff s) = j_bindings s" "session_state (s\<lparr>j_closed := k\<rparr>) = session_state s"
  by (simp_all add: age_out_def)

lemma apply_event_frame [simp]: "j_bindings (apply_event E C inst sid ev gen at s) = j_bindings s"
  by (simp add: apply_event_def)

lemma evict_endedE:
  assumes "evict_ended s = (Inr u, s')"
  obtains d where "d \<in> set (j_discovered s)" "d_lifecycle d = Ended"
    "s' = s\<lparr>j_ended := put_ended \<lparr>en_id = d_id d, en_event_at = d_event_at d, en_generation = d_generation d, en_last_seen = d_last_seen d\<rparr> (j_ended s),
        j_discovered := del_where (\<lambda>x. d_id x = d_id d) (j_discovered s)\<rparr>"
proof -
  from assms obtain d ds where srt: "sort_key (\<lambda>d. (d_last_seen d, d_id d)) (filter (\<lambda>d. d_lifecycle d = Ended) (j_discovered s)) = d # ds"
    and s': "s' = s\<lparr>j_ended := put_ended \<lparr>en_id = d_id d, en_event_at = d_event_at d, en_generation = d_generation d, en_last_seen = d_last_seen d\<rparr> (j_ended s),
        j_discovered := del_where (\<lambda>x. d_id x = d_id d) (j_discovered s)\<rparr>"
    by (auto simp: evict_ended_def split: list.splits)
  from srt have "d \<in> set (sort_key (\<lambda>d. (d_last_seen d, d_id d)) (filter (\<lambda>d. d_lifecycle d = Ended) (j_discovered s)))" by simp
  then have "d \<in> set (j_discovered s) \<and> d_lifecycle d = Ended" by simp
  with s' show thesis using that by blast
qed

text \<open>The three outcomes of a recorded event: a duplicate, a stale event, an applied one.\<close>

lemma recordDiscoveryEvent_tx_cases:
  assumes "recordDiscoveryEvent_tx E C inst ev digest at s = (Inr r, s')"
  obtains (duplicate) p where "sel ev_event_id (de_eventId ev) (j_events s) = Some p" "ev_digest p = digest"
      "r = (ev_result p)\<lparr>dr_duplicate := True\<rparr>" "s' = s"
  | (fresh) s1 s2 s3 old where "sel ev_event_id (de_eventId ev) (j_events s) = None" "s1 = age_out (at - RETENTION_MS) s"
      "old = known_session (event_address E inst ev) s1"
      "r = \<lparr>dr_id = event_address E inst ev, dr_generation = next_generation ev (stale_event ev old) old,
            dr_stale = stale_event ev old, dr_duplicate = False\<rparr>"
      "s2 = s1 \<or> evict_ended s1 = (Inr (), s2) \<and> \<not> stale_event ev old \<and> sel d_id (event_address E inst ev) (j_discovered s1) = None"
      "s2 = s1 \<Longrightarrow> stale_event ev old \<or> sel d_id (event_address E inst ev) (j_discovered s1) \<noteq> None \<or> length (j_discovered s1) < DIRECTORY_LIMIT \<or> evict_ended s1 = (Inr (), s2)"
      "s3 = (if stale_event ev old then s2 else apply_event E C inst (event_address E inst ev) ev (dr_generation r) at s2)"
      "\<exists>p. s' = (if p then pruneOrphanedSessionState s3 else s3)\<lparr>j_events := j_events s3 @
         [\<lparr>ev_event_id = de_eventId ev, ev_digest = digest, ev_result = r, ev_received_at = at\<rparr>]\<rparr>"
proof (cases "sel ev_event_id (de_eventId ev) (j_events s)")
  case (Some p)
  with assms show thesis by (intro duplicate [of p]) (auto simp: recordDiscoveryEvent_tx_def Let_def split: if_splits)
next
  case None
  define s1 where "s1 = age_out (at - RETENTION_MS) s"
  define old where "old = known_session (event_address E inst ev) s1"
  define full where "full = (sel d_id (event_address E inst ev) (j_discovered s1) = None \<and> \<not> stale_event ev old \<and> DIRECTORY_LIMIT \<le> length (j_discovered s1))"
  obtain q s2 where q: "(if full then evict_ended s1 else (Inr (), s1)) = (q, s2)" by force
  define g where "g = next_generation ev (stale_event ev old) old"
  define s3 where "s3 = (if stale_event ev old then s2 else apply_event E C inst (event_address E inst ev) ev g at s2)"
  define rm where "rm = (full \<or> changes (\<lambda>d. d_last_seen d < at - RETENTION_MS) (j_discovered s) > 0)"
  from assms have "isl q = False \<and> r = \<lparr>dr_id = event_address E inst ev, dr_generation = g, dr_stale = stale_event ev old, dr_duplicate = False\<rparr> \<and>
      s' = (if rm then pruneOrphanedSessionState s3 else s3)\<lparr>j_events := j_events (if rm then pruneOrphanedSessionState s3 else s3) @
         [\<lparr>ev_event_id = de_eventId ev, ev_digest = digest, ev_result = r, ev_received_at = at\<rparr>]\<rparr>"
    using q unfolding s3_def rm_def g_def full_def old_def s1_def
    by (cases q) (simp_all add: recordDiscoveryEvent_tx_def None Let_def, elim conjE, hypsubst, simp)
  then have q': "q = Inr ()" and r: "r = \<lparr>dr_id = event_address E inst ev, dr_generation = g, dr_stale = stale_event ev old, dr_duplicate = False\<rparr>"
    and s': "s' = (if rm then pruneOrphanedSessionState s3 else s3)\<lparr>j_events := j_events s3 @
         [\<lparr>ev_event_id = de_eventId ev, ev_digest = digest, ev_result = r, ev_received_at = at\<rparr>]\<rparr>"
    by (cases q; auto)+
  show thesis
  proof (rule fresh [OF None s1_def old_def])
    show "r = \<lparr>dr_id = event_address E inst ev, dr_generation = next_generation ev (stale_event ev old) old,
            dr_stale = stale_event ev old, dr_duplicate = False\<rparr>" by (simp add: r g_def)
    show "s2 = s1 \<or> evict_ended s1 = (Inr (), s2) \<and> \<not> stale_event ev old \<and> sel d_id (event_address E inst ev) (j_discovered s1) = None"
      using q q' by (auto simp: full_def split: if_splits)
    show "stale_event ev old \<or> sel d_id (event_address E inst ev) (j_discovered s1) \<noteq> None \<or> length (j_discovered s1) < DIRECTORY_LIMIT \<or> evict_ended s1 = (Inr (), s2)"
      using q q' by (auto simp: full_def split: if_splits)
    show "s3 = (if stale_event ev old then s2 else apply_event E C inst (event_address E inst ev) ev (dr_generation r) at s2)"
      by (simp add: s3_def r)
    show "\<exists>p. s' = (if p then pruneOrphanedSessionState s3 else s3)\<lparr>j_events := j_events s3 @
         [\<lparr>ev_event_id = de_eventId ev, ev_digest = digest, ev_result = r, ev_received_at = at\<rparr>]\<rparr>" using s' by blast
  qed
qed

definition dir_inv :: "journal \<Rightarrow> bool" where
  "dir_inv s = (unique_key d_id (j_discovered s) \<and> length (j_discovered s) \<le> DIRECTORY_LIMIT)"

lemma length_del_where: "length (del_where P rows) \<le> length rows"
  by (simp add: del_where_def)

lemma length_del_where_less: "r \<in> set rows \<Longrightarrow> P r \<Longrightarrow> length (del_where P rows) < length rows"
  by (auto simp: del_where_def intro: length_filter_less)

lemma dir_inv_age_out: "dir_inv s \<Longrightarrow> dir_inv (age_out cutoff s)"
  by (auto simp: dir_inv_def age_out_def intro: order.trans [OF length_del_where])

lemma unique_put_discovered: "unique_key d_id rows \<Longrightarrow> unique_key d_id (put_discovered kind ex rows)"
  by (auto simp: put_discovered_def merge_discovered_def intro: unique_key_snoc unique_key_upd_where)

lemma length_put_discovered: "length (put_discovered kind ex rows) = (if sel d_id (d_id ex) rows = None then Suc (length rows) else length rows)"
  by (simp add: put_discovered_def)

lemma d_id_new_discovered [simp]: "d_id (new_discovered E C inst sid ev gen at) = sid"
  by (simp add: new_discovered_def)

lemma dir_inv_discover_tx:
  assumes "dir_inv s" "recordDiscoveryEvent_tx E C inst ev digest at s = (Inr r, s')"
  shows "dir_inv s'"
  using assms(2)
proof (cases rule: recordDiscoveryEvent_tx_cases)
  case (fresh s1 s2 s3 old)
  let ?sid = "event_address E inst ev"
  from dir_inv_age_out [OF assms(1)] fresh(2) have 1: "dir_inv s1" by simp
  have 2: "dir_inv s2" "s2 \<noteq> s1 \<or> evict_ended s1 = (Inr (), s2) \<Longrightarrow> length (j_discovered s2) < DIRECTORY_LIMIT"
  proof -
    have ev: "dir_inv s2 \<and> length (j_discovered s2) < DIRECTORY_LIMIT" if "evict_ended s1 = (Inr (), s2)"
      using that
    proof (rule evict_endedE)
      fix d assume d: "d \<in> set (j_discovered s1)" and s2: "s2 = s1\<lparr>j_ended := put_ended \<lparr>en_id = d_id d, en_event_at = d_event_at d, en_generation = d_generation d, en_last_seen = d_last_seen d\<rparr> (j_ended s1),
        j_discovered := del_where (\<lambda>x. d_id x = d_id d) (j_discovered s1)\<rparr>"
      have "length (del_where (\<lambda>x. d_id x = d_id d) (j_discovered s1)) < length (j_discovered s1)"
        by (rule length_del_where_less [OF d]) simp
      with 1 s2 show ?thesis by (auto simp: dir_inv_def)
    qed
    show "dir_inv s2" using fresh(5) 1 ev by blast
    show "s2 \<noteq> s1 \<or> evict_ended s1 = (Inr (), s2) \<Longrightarrow> length (j_discovered s2) < DIRECTORY_LIMIT" using fresh(5) ev by blast
  qed
  have room: "sel d_id ?sid (j_discovered s2) = None \<longrightarrow> length (j_discovered s2) < DIRECTORY_LIMIT" if "\<not> stale_event ev old"
    using that fresh(6) 2(2) by (cases "s2 = s1") auto
  have "dir_inv s3"
  proof (cases "stale_event ev old")
    case False
    with room 2(1) show ?thesis
      by (auto simp: fresh(7) dir_inv_def apply_event_def unique_put_discovered length_put_discovered)
  qed (simp add: fresh(7) 2(1))
  with fresh(8) show ?thesis by (auto simp: dir_inv_def split: if_splits)
qed (use assms(1) in simp)

lemma wake_inv_discover_tx:
  assumes "wake_inv s" "recordDiscoveryEvent_tx E C inst ev digest at s = (Inr r, s')"
  shows "wake_inv s'"
  using assms(2)
proof (cases rule: recordDiscoveryEvent_tx_cases)
  case (fresh s1 s2 s3 old)
  have "j_bindings s2 = j_bindings s1" if "evict_ended s1 = (Inr (), s2)"
    using that by (rule evict_endedE) simp
  then have "j_bindings s3 = j_bindings s" using fresh(2,5,7) by auto
  with assms(1) fresh(8) show ?thesis by (auto simp: wake_inv_def bindings_ok_prune split: if_splits)
qed (use assms(1) in simp)

lemma discover_keeps:
  assumes "I s" "\<And>r s'. recordDiscoveryEvent_tx E C inst ev digest at s = (Inr r, s') \<Longrightarrow> I s'"
  shows "I (snd (recordDiscoveryEvent E C inst ev digest at s))"
proof -
  have "I (snd (transaction (recordDiscoveryEvent_tx E C inst ev digest at) s))"
    using assms by (cases "recordDiscoveryEvent_tx E C inst ev digest at s"; cases "fst (recordDiscoveryEvent_tx E C inst ev digest at s)")
      (simp_all add: transaction_def)
  with assms(1) show ?thesis by (simp add: recordDiscoveryEvent_def assertNotClosed_def)
qed

section \<open>Both invariants over every call\<close>

definition sessions_inv :: "journal \<Rightarrow> bool" where
  "sessions_inv s = (wake_inv s \<and> dir_inv s)"

lemma sessions_inv_empty [simp]: "sessions_inv empty_journal"
  by (simp add: sessions_inv_def wake_inv_def dir_inv_def empty_journal_def)

lemma sessions_inv_frame: "session_state s' = session_state s \<Longrightarrow> sessions_inv s \<Longrightarrow> sessions_inv s'"
  by (simp add: session_state_def sessions_inv_def wake_inv_def dir_inv_def)

lemma dir_inv_frame: "j_discovered s' = j_discovered s \<Longrightarrow> dir_inv s' = dir_inv s"
  by (simp add: dir_inv_def)

lemma sessions_invI: "sessions_inv s \<Longrightarrow> (wake_inv s \<Longrightarrow> wake_inv s') \<Longrightarrow> j_discovered s' = j_discovered s \<Longrightarrow> sessions_inv s'"
  by (simp add: sessions_inv_def dir_inv_def)

lemma discovered_notClosed: "j_discovered (snd (body s)) = j_discovered s \<Longrightarrow> j_discovered (snd (assertNotClosed body s)) = j_discovered s"
  by (simp add: assertNotClosed_def)

lemma discovered_tx: "j_discovered (snd (body s)) = j_discovered s \<Longrightarrow> j_discovered (snd (transaction body s)) = j_discovered s"
  by (auto simp: transaction_def split: prod.splits sum.splits)

lemma discovered_upd_binding [simp]: "j_discovered (upd_binding target f s) = j_discovered s"
  by (simp add: upd_binding_def)

lemma discovered_binding_ops:
  "j_discovered (snd (initWakeBinding uuid now target bid auth thread gen s)) = j_discovered s"
  "j_discovered (snd (initInteractiveWakeBinding now target sid g bnd s)) = j_discovered s"
  "j_discovered (snd (bindAttachedSessionWake now target sid g bnd s)) = j_discovered s"
  "j_discovered (snd (setWakeSubmitting target wid fp at s)) = j_discovered s"
  "j_discovered (snd (setWakeAccepted now target wid queued thread s)) = j_discovered s"
  "j_discovered (snd (setWakeUncertain now target wid s)) = j_discovered s"
  "j_discovered (snd (reconcileStaleWake now target thread auth2 wid g s)) = j_discovered s"
  "j_discovered (snd (ackWake now target wid g s)) = j_discovered s"
  unfolding initWakeBinding_def initInteractiveWakeBinding_def bindAttachedSessionWake_def
    setWakeSubmitting_def setWakeAccepted_def setWakeUncertain_def reconcileStaleWake_def ackWake_def
  by (rule discovered_notClosed, simp add: Let_def split: option.split)+

lemma discovered_interactive_tx:
  "j_discovered (snd (reserveInteractiveWake_tx E now target rid sid gen b s)) = j_discovered s"
  "j_discovered (snd (reportInteractiveWakeResult_tx now target wid gen sid b res s)) = j_discovered s"
  "j_discovered (snd (ackInteractiveWake_tx now target wid gen sid b s)) = j_discovered s"
  by (simp_all add: reserveInteractiveWake_tx_def reportInteractiveWakeResult_tx_def ackInteractiveWake_tx_def Let_def
      split: sum.split option.split)

lemma discovered_interactive:
  "j_discovered (snd (reserveInteractiveWake E now target rid sid gen bid s)) = j_discovered s"
  "j_discovered (snd (reportInteractiveWakeResult now target wid gen sid bid res s)) = j_discovered s"
  "j_discovered (snd (ackInteractiveWake now target wid gen sid bid s)) = j_discovered s"
  unfolding reserveInteractiveWake_def reportInteractiveWakeResult_def ackInteractiveWake_def
  by (rule discovered_notClosed, simp add: discovered_tx discovered_interactive_tx)+

lemma discovered_misc:
  "j_discovered (snd (compact C now retention s)) = j_discovered s"
  "j_discovered (open_recovery now (close_journal s)) = j_discovered s"
  "j_discovered (snd (attachDiscoveredSession now sid child gen inst cap s)) = j_discovered s"
  "j_discovered (snd (detachDiscoveredSession sid child s)) = j_discovered s"
  unfolding compact_def attachDiscoveredSession_def detachDiscoveredSession_def open_recovery_def close_journal_def
  by (rule discovered_notClosed, simp add: Let_def split: option.split | simp)+

lemmas session_op_simps = discovered_binding_ops discovered_interactive discovered_misc
lemmas wake_inv_ops = wake_inv_init wake_inv_desktop wake_inv_interactive wake_inv_misc

lemma sessions_inv_exec: "sessions_inv s \<Longrightarrow> sessions_inv (exec E C c s)"
proof (cases c)
  case (CDiscover inst ev digest at)
  assume s: "sessions_inv s"
  from s have "wake_inv (snd (recordDiscoveryEvent E C inst ev digest at s))" "dir_inv (snd (recordDiscoveryEvent E C inst ev digest at s))"
    unfolding sessions_inv_def by (blast intro: discover_keeps wake_inv_discover_tx dir_inv_discover_tx)+
  with CDiscover show ?thesis by (simp add: sessions_inv_def)
qed ((simp add: session_simps [THEN sessions_inv_frame]; fail) |
    simp, rule sessions_invI, assumption, simp add: wake_inv_ops, simp add: session_op_simps)+

lemma sessions_inv_exec_all: "sessions_inv s \<Longrightarrow> sessions_inv (exec_all E C cs s)"
  by (induction cs arbitrary: s) (simp_all add: sessions_inv_exec)

section \<open>Known sessions\<close>

lemma sel_del_other: "(\<And>r. r \<in> set rows \<Longrightarrow> key r = k \<Longrightarrow> \<not> P r) \<Longrightarrow> sel key k (del_where P rows) = sel key k rows"
  by (induction rows) (auto simp: del_where_def sel_Cons)

lemma sel_upd_key:
  assumes "\<And>r. key r = k0 \<Longrightarrow> key (f r) = k0"
  shows "sel key k (upd_where (\<lambda>r. key r = k0) f rows) = (if k0 = k then map_option f (sel key k rows) else sel key k rows)"
  using assms by (induction rows) (auto simp: sel_Cons upd_where_def)

lemma sel_put_ended: "sel en_id k (put_ended t rows) = (if en_id t = k then Some t else sel en_id k rows)"
proof -
  have u: "sel en_id k (upd_where (\<lambda>x. en_id x = en_id t) (\<lambda>_. t) rows) =
      (if en_id t = k then map_option (\<lambda>_. t) (sel en_id k rows) else sel en_id k rows)" by (rule sel_upd_key) simp
  show ?thesis
    by (cases "sel en_id (en_id t) rows") (auto simp: put_ended_def u sel_append sel_Cons split: option.split)
qed

lemma known_evict:
  assumes "evict_ended s = (Inr (), s')" "unique_key d_id (j_discovered s)"
  shows "known_session x s' = known_session x s"
  using assms(1)
proof (rule evict_endedE)
  fix d assume d: "d \<in> set (j_discovered s)" "d_lifecycle d = Ended"
    and s': "s' = s\<lparr>j_ended := put_ended \<lparr>en_id = d_id d, en_event_at = d_event_at d, en_generation = d_generation d, en_last_seen = d_last_seen d\<rparr> (j_ended s),
        j_discovered := del_where (\<lambda>x. d_id x = d_id d) (j_discovered s)\<rparr>"
  show ?thesis
  proof (cases "d_id d = x")
    case True
    from assms(2) d(1) True have "sel d_id x (j_discovered s) = Some d" by (auto simp: sel_Some_iff_mem)
    moreover have "sel d_id x (del_where (\<lambda>y. d_id y = x) (j_discovered s)) = None" by (auto simp: sel_None_iff)
    ultimately show ?thesis using d(2) True by (simp add: known_session_def s' sel_put_ended)
  next
    case False
    then have "sel d_id x (del_where (\<lambda>y. d_id y = d_id d) (j_discovered s)) = sel d_id x (j_discovered s)"
      by (intro sel_del_other) auto
    with False show ?thesis by (simp add: known_session_def s' sel_put_ended split: option.split)
  qed
qed

lemma known_session_cong: "j_discovered s' = j_discovered s \<Longrightarrow> j_ended s' = j_ended s \<Longrightarrow> known_session x s' = known_session x s"
  by (simp add: known_session_def split: option.split)

lemma sel_put_discovered:
  "sel d_id k (put_discovered kind ex rows) = (if d_id ex = k
     then Some (case sel d_id k rows of None \<Rightarrow> ex | Some d \<Rightarrow> merge_discovered kind ex d) else sel d_id k rows)"
proof -
  have u: "sel d_id k (upd_where (\<lambda>d. d_id d = d_id ex) (merge_discovered kind ex) rows) =
      (if d_id ex = k then map_option (merge_discovered kind ex) (sel d_id k rows) else sel d_id k rows)"
    by (rule sel_upd_key) (simp add: merge_discovered_def)
  show ?thesis
    by (cases "sel d_id (d_id ex) rows") (auto simp: put_discovered_def u sel_snoc sel_append sel_Cons split: option.split)
qed

lemma known_apply:
  "known_session x (apply_event E C inst sid ev gen at s) =
     (if x = sid then Some (de_observedAt ev, gen, if de_kind ev = KEnd then Ended else Observed) else known_session x s)"
proof (cases "x = sid")
  case False
  then have "sel en_id x (del_where (\<lambda>t. en_id t = sid) (j_ended s)) = sel en_id x (j_ended s)"
    by (intro sel_del_other) auto
  with False show ?thesis by (simp add: known_session_def apply_event_def sel_put_discovered sel_put_ended split: option.split)
qed (simp add: known_session_def apply_event_def sel_put_discovered new_discovered_def merge_discovered_def split: option.split)

lemma known_after_event:
  assumes "unique_key d_id (j_discovered s)" "recordDiscoveryEvent_tx E C inst ev digest at s = (Inr r, s')" "\<not> dr_duplicate r"
  shows "known_session x s' = (if x = dr_id r \<and> \<not> dr_stale r
      then Some (de_observedAt ev, dr_generation r, if de_kind ev = KEnd then Ended else Observed)
      else known_session x (age_out (at - RETENTION_MS) s))" (is ?known)
    "dr_id r = event_address E inst ev"
    "dr_stale r = stale_event ev (known_session (dr_id r) (age_out (at - RETENTION_MS) s))"
    "dr_generation r = next_generation ev (dr_stale r) (known_session (dr_id r) (age_out (at - RETENTION_MS) s))"
proof -
  have "?known \<and> dr_id r = event_address E inst ev \<and> dr_stale r = stale_event ev (known_session (dr_id r) (age_out (at - RETENTION_MS) s)) \<and>
    dr_generation r = next_generation ev (dr_stale r) (known_session (dr_id r) (age_out (at - RETENTION_MS) s))"
    using assms(2)
  proof (cases rule: recordDiscoveryEvent_tx_cases)
    case (fresh s1 s2 s3 old)
    have u: "unique_key d_id (j_discovered s1)" using assms(1) by (auto simp: fresh(2) age_out_def)
    have 2: "known_session y s2 = known_session y s1" for y using fresh(5) known_evict [OF _ u] by blast
    have 3: "known_session x s' = known_session x s3" using fresh(8) by (auto intro!: known_session_cong)
    show ?thesis by (cases "stale_event ev old") (simp_all add: 3 fresh(2,3,4,7) 2 known_apply flip: fresh(2))
  qed (use assms(3) in simp)
  then show ?known "dr_id r = event_address E inst ev"
    "dr_stale r = stale_event ev (known_session (dr_id r) (age_out (at - RETENTION_MS) s))"
    "dr_generation r = next_generation ev (dr_stale r) (known_session (dr_id r) (age_out (at - RETENTION_MS) s))" by blast+
qed

lemma recordDiscoveryEvent_Inr:
  assumes "recordDiscoveryEvent E C inst ev digest at s = (Inr r, s')"
  shows "\<not> j_closed s" "event_harness ev \<in> {''claude'', ''codex''}" "recordDiscoveryEvent_tx E C inst ev digest at s = (Inr r, s')"
  using assms by (auto simp: recordDiscoveryEvent_def assertNotClosed_def transaction_def split: if_splits prod.splits sum.splits)

section \<open>Reserving and acknowledging\<close>

fun is_Reserved :: "reserve_result \<Rightarrow> bool" where
  "is_Reserved (Reserved w g u q h late) = True"
| "is_Reserved r = False"

lemma reserve_Reserved:
  assumes "reserveInteractiveWake E now target rid sid gen bid s = (Inr (Reserved w g u q h late), s')"
  obtains b where "get_binding target s = Some b" "wb_state b = Idle" "wb_thread_id b = session_thread sid" "wb_generation b = gen"
    "wb_binding_id b = to_lower bid" "\<And>t. wb_last_submitted b = Some t \<Longrightarrow> t = 0 \<or> MIN_WAKE_INTERVAL_MS \<le> now - t"
    "find (history_key target sid (to_lower bid) gen rid) (j_history s) = None"
    "Reserved w g u q h late = (let ob = getWakeObligationsSync E target True s in
       Reserved rid gen (length (ob_unreadReplies ob)) (length (ob_queuedMessages ob)) (length (ob_heldMessages ob)) (ob_hasLateResult ob))"
    "0 < u + q + h" "\<not> wakeSnapshotCovered (ob_fingerprint (getWakeObligationsSync E target True s)) (wb_acked_fp b)"
    "s' = (upd_binding target (\<lambda>b. b\<lparr>wb_state := Submitting, wb_active_wake := Some rid,
        wb_active_fp := Some (ob_fingerprint (getWakeObligationsSync E target True s)), wb_last_submitted := Some now, wb_updated_at := now\<rparr>) s)
          \<lparr>j_history := j_history s @ [\<lparr>h_target = target, h_session = sid, h_binding = to_lower bid,
             h_generation = gen, h_wake = rid, h_state = HSubmitting, h_created_at = now, h_updated_at = now\<rparr>]\<rparr>"
    "\<not> j_closed s"
proof -
  from assms have tx: "reserveInteractiveWake_tx E now target rid sid gen (to_lower bid) s = (Inr (Reserved w g u q h late), s')" and "\<not> j_closed s"
    by (auto simp: reserveInteractiveWake_def assertNotClosed_def transaction_def split: if_splits prod.splits sum.splits)
  moreover from tx obtain b where fence: "wake_fence target sid gen (to_lower bid) s = Inr b"
    by (auto simp: reserveInteractiveWake_tx_def split: sum.splits)
  moreover from fence have "get_binding target s = Some b" "wb_thread_id b = session_thread sid" "wb_generation b = gen" "wb_binding_id b = to_lower bid"
    by (auto simp: wake_fence_def split: option.splits if_splits)
  ultimately show thesis
    by (intro that [of b]) (auto simp: reserveInteractiveWake_tx_def Let_def split: option.splits if_splits)
qed

lemma get_upd_binding:
  "(\<And>b. wb_target (f b) = wb_target b) \<Longrightarrow> get_binding target (upd_binding target f s) = map_option f (get_binding target s)"
  by (auto simp: get_binding_def upd_binding_def intro!: sel_upd_key [THEN trans])

lemma reserve_binding:
  assumes "reserveInteractiveWake E now target rid sid gen bid s = (Inr (Reserved w g u q h late), s')"
  obtains b where "get_binding target s = Some b" "get_binding target s' = Some (b\<lparr>wb_state := Submitting, wb_active_wake := Some rid,
        wb_active_fp := Some (ob_fingerprint (getWakeObligationsSync E target True s)), wb_last_submitted := Some now, wb_updated_at := now\<rparr>)"
  using assms
proof (rule reserve_Reserved)
  fix b assume b: "get_binding target s = Some b"
    and s': "s' = (upd_binding target (\<lambda>b. b\<lparr>wb_state := Submitting, wb_active_wake := Some rid,
        wb_active_fp := Some (ob_fingerprint (getWakeObligationsSync E target True s)), wb_last_submitted := Some now, wb_updated_at := now\<rparr>) s)
          \<lparr>j_history := j_history s @ [\<lparr>h_target = target, h_session = sid, h_binding = to_lower bid,
             h_generation = gen, h_wake = rid, h_state = HSubmitting, h_created_at = now, h_updated_at = now\<rparr>]\<rparr>"
  let ?f = "\<lambda>b. b\<lparr>wb_state := Submitting, wb_active_wake := Some rid,
        wb_active_fp := Some (ob_fingerprint (getWakeObligationsSync E target True s)), wb_last_submitted := Some now, wb_updated_at := now\<rparr>"
  have "get_binding target (upd_binding target ?f s) = Some (?f b)" by (subst get_upd_binding) (simp_all add: b)
  then have "get_binding target s' = Some (?f b)" by (simp add: s' get_binding_def)
  with b show thesis by (rule that)
qed

lemma reserve_unchanged:
  assumes "\<And>r. fst (reserveInteractiveWake E now target rid sid gen bid s) = Inr r \<Longrightarrow> \<not> is_Reserved r"
  shows "snd (reserveInteractiveWake E now target rid sid gen bid s) = s"
proof -
  have tx: "snd (reserveInteractiveWake_tx E now target rid sid gen c s) = s"
    if "\<And>r. fst (reserveInteractiveWake_tx E now target rid sid gen c s) = Inr r \<Longrightarrow> \<not> is_Reserved r" for c
    using that by (auto simp: reserveInteractiveWake_tx_def Let_def split: sum.splits option.splits if_splits)
  have fst_tx: "fst (transaction f s) = fst (f s)" "snd (transaction f s) = s \<or> snd (transaction f s) = snd (f s)" for f :: "(journal, reserve_result) op"
    by (auto simp: transaction_def split: prod.splits sum.splits)
  show ?thesis
    using assms fst_tx(2) [of "reserveInteractiveWake_tx E now target rid sid gen (to_lower bid)"] tx [of "to_lower bid"]
    by (auto simp: reserveInteractiveWake_def assertNotClosed_def fst_tx(1) split: if_splits)
qed

lemma covered_subset:
  "wakeSnapshotCovered (V2 xs) (Some (V2 ys)) \<longleftrightarrow> set xs \<subseteq> set ys"
  by (auto simp: wakeSnapshotCovered_def list_all_iff)

lemma fingerprint_eq:
  "ob_fingerprint (getWakeObligationsSync E target True s) = V2 (sort (map (reply_item E) (unread_rows target s) @
     map (held_item E) (held_rows target s) @ map (queued_item E) (queued_rows target s)))"
  by (simp add: getWakeObligationsSync_def Let_def)

lemma ackInteractive_False:
  assumes "ackInteractiveWake now target wid gen sid bid s = (Inr False, s')"
  obtains b where "get_binding target s = Some b" "wb_active_wake b = Some wid"
    "get_binding target s' = Some (ack_binding now b)"
proof -
  from assms have tx: "ackInteractiveWake_tx now target wid gen sid (to_lower bid) s = (Inr False, s')"
    by (auto simp: ackInteractiveWake_def assertNotClosed_def transaction_def split: if_splits prod.splits sum.splits)
  then obtain b where fence: "wake_fence target sid gen (to_lower bid) s = Inr b"
    by (auto simp: ackInteractiveWake_tx_def split: sum.splits)
  then have b: "sel wb_target target (j_bindings s) = Some b"
    by (auto simp: wake_fence_def get_binding_def split: option.splits if_splits)
  from tx fence have act: "wb_active_wake b = Some wid" and
    rows: "j_bindings s' = upd_where (\<lambda>b. wb_target b = target \<and> wb_active_wake b = Some wid) (ack_binding now) (j_bindings s)"
    by (auto simp: ackInteractiveWake_tx_def split: if_splits)
  have "sel wb_target target (upd_where (\<lambda>b. wb_target b = target \<and> wb_active_wake b = Some wid) (ack_binding now) rs) = Some (ack_binding now b)"
    if "sel wb_target target rs = Some b" for rs
    using that act by (induction rs) (auto simp: sel_Cons upd_where_def ack_binding_def split: if_splits)
  with b rows show thesis by (intro that [OF _ act]) (simp_all add: get_binding_def)
qed

section \<open>Properties\<close>

text \<open>A session announced, bound to a wake, with one unread message waiting.\<close>

definition start_event :: discovery_event where
  "start_event = \<lparr>de_eventId = ''e1'', de_sessionId = ''s1'', de_kind = KStart, de_workspace = ''w'', de_observedAt = 10,
     de_harness = None, de_origin = None, de_title = None, de_host = None\<rparr>"

definition end_event :: discovery_event where
  "end_event = start_event\<lparr>de_eventId := ''e2'', de_kind := KEnd, de_observedAt := 20\<rparr>"

definition discovered_once :: journal where
  "discovered_once = snd (recordDiscoveryEvent plain_env default_cfg ''inst'' start_event ''d1'' 100 empty_journal)"

definition waiting_journal :: journal where
  "waiting_journal = exec_all plain_env default_cfg
     [CSend 1 (sample_envelope\<lparr>e_recipientType := Some ''interactive''\<rparr>) no_options, CInitInteractiveWake 2 ''b'' ''s1'' 1 ''bind''] empty_journal"

definition woken_journal :: journal where
  "woken_journal = snd (reserveInteractiveWake plain_env 20000 ''b'' ''w1'' ''s1'' 1 ''bind'' waiting_journal)"

definition acked_journal :: journal where
  "acked_journal = snd (ackInteractiveWake 20001 ''b'' ''w1'' 1 ''s1'' ''bind'' woken_journal)"

lemma pair_of_fst: "fst p = a \<Longrightarrow> p = (a, snd p)"
  by (cases p) simp

lemma discovered_once_Inr:
  "recordDiscoveryEvent plain_env default_cfg ''inst'' start_event ''d1'' 100 empty_journal =
     (Inr \<lparr>dr_id = event_address plain_env ''inst'' start_event, dr_generation = 1, dr_stale = False, dr_duplicate = False\<rparr>, discovered_once)"
  unfolding discovered_once_def by (rule pair_of_fst) code_simp

lemma ended_Inr:
  "recordDiscoveryEvent plain_env default_cfg ''inst'' end_event ''d2'' 101 discovered_once =
     (Inr \<lparr>dr_id = event_address plain_env ''inst'' end_event, dr_generation = 1, dr_stale = False, dr_duplicate = False\<rparr>,
      snd (recordDiscoveryEvent plain_env default_cfg ''inst'' end_event ''d2'' 101 discovered_once))"
  by (rule pair_of_fst) code_simp

lemma woken_Inr:
  "reserveInteractiveWake plain_env 20000 ''b'' ''w1'' ''s1'' 1 ''bind'' waiting_journal = (Inr (Reserved ''w1'' 1 0 1 0 False), woken_journal)"
  unfolding woken_journal_def by (rule pair_of_fst) code_simp

lemma acked_Inr:
  "ackInteractiveWake 20001 ''b'' ''w1'' 1 ''s1'' ''bind'' woken_journal = (Inr False, acked_journal)"
  unfolding acked_journal_def by (rule pair_of_fst) code_simp

text \<open>
  Whatever sequence of journal calls is made on a new journal, a target has at
  most one wake binding, and a binding is \<open>Idle\<close> exactly when no wake is
  outstanding: there is never a second outstanding wake for a target.
\<close>

theorem one_outstanding_wake:
  "unique_key wb_target (j_bindings (exec_all E C cs empty_journal)) \<and>
   list_all (\<lambda>b. (wb_state b = Idle) = (wb_active_wake b = None)) (j_bindings (exec_all E C cs empty_journal))"
  using sessions_inv_exec_all [OF sessions_inv_empty, of E C cs]
  by (simp add: sessions_inv_def wake_inv_def bindings_ok_def coherent_def [abs_def])

text \<open>
  The session directory never holds more than \<open>DIRECTORY_LIMIT\<close> sessions and never
  two rows for one address, whatever sequence of journal calls is made.
\<close>

theorem directory_is_bounded:
  "length (j_discovered (exec_all E C cs empty_journal)) \<le> DIRECTORY_LIMIT \<and>
   unique_key d_id (j_discovered (exec_all E C cs empty_journal))"
  using sessions_inv_exec_all [OF sessions_inv_empty, of E C cs] by (simp add: sessions_inv_def dir_inv_def)

text \<open>
  Lifecycle events apply once. After an event was recorded, the same event delivered
  again at any time answers with the recorded result, marked as a duplicate, and changes
  nothing; another event under the same event id is refused and changes nothing.
\<close>

theorem discovery_applies_once:
  assumes "recordDiscoveryEvent E C inst ev digest at s = (Inr r, s')" "\<not> dr_duplicate r"
  shows "recordDiscoveryEvent E C inst ev digest at2 s' = (Inr (r\<lparr>dr_duplicate := True\<rparr>), s') \<and>
    (digest2 \<noteq> digest \<longrightarrow> recordDiscoveryEvent E C inst ev digest2 at2 s' = (Inl (Coded ''duplicate_id_conflict''), s'))"
proof -
  note fs = recordDiscoveryEvent_Inr [OF assms(1)]
  from fs(3) have "sel ev_event_id (de_eventId ev) (j_events s') = Some \<lparr>ev_event_id = de_eventId ev, ev_digest = digest, ev_result = r, ev_received_at = at\<rparr>
      \<and> j_closed s' = j_closed s"
  proof (cases rule: recordDiscoveryEvent_tx_cases)
    case (fresh s1 s2 s3 old)
    have 2: "j_events s2 = j_events s1 \<and> j_closed s2 = j_closed s1" using fresh(5) by (auto elim: evict_endedE)
    then have 3: "j_events s3 = j_events s1 \<and> j_closed s3 = j_closed s1" by (simp add: fresh(7) apply_event_def)
    from fresh(1) have "sel ev_event_id (de_eventId ev) (j_events s1) = None"
      by (auto simp: fresh(2) age_out_def sel_None_iff)
    with 3 fresh(2,8) show ?thesis by (auto simp: sel_append sel_Cons age_out_def split: if_splits)
  qed (use assms(2) in simp)
  with fs(1,2) show ?thesis
    by (auto simp: recordDiscoveryEvent_def assertNotClosed_def transaction_def recordDiscoveryEvent_tx_def Let_def)
qed

theorem discovery_applies_once_witness:
  "recordDiscoveryEvent plain_env default_cfg ''inst'' start_event ''d1'' 500 discovered_once =
     (Inr \<lparr>dr_id = event_address plain_env ''inst'' start_event, dr_generation = 1, dr_stale = False, dr_duplicate = True\<rparr>, discovered_once) \<and>
   recordDiscoveryEvent plain_env default_cfg ''inst'' start_event ''other'' 500 discovered_once = (Inl (Coded ''duplicate_id_conflict''), discovered_once)"
  using discovery_applies_once [OF discovered_once_Inr, of 500 "''other''"] by simp

text \<open>
  A recorded lifecycle event never turns back what is known of a session. For every
  session still known after retention, the time of its last event and its generation do
  not decrease, and a session leaves \<open>Ended\<close> only with the next generation.
\<close>

theorem generations_never_decrease:
  assumes "unique_key d_id (j_discovered s)" "recordDiscoveryEvent E C inst ev digest at s = (Inr r, s')" "\<not> dr_duplicate r"
    "known_session x (age_out (at - RETENTION_MS) s) = Some (event_at, gen, lc)"
  shows "\<exists>event_at' gen' lc'. known_session x s' = Some (event_at', gen', lc') \<and> event_at \<le> event_at' \<and> gen \<le> gen' \<and>
    (lc = Ended \<and> lc' \<noteq> Ended \<longrightarrow> gen' = gen + 1)"
proof -
  note tx = recordDiscoveryEvent_Inr(3) [OF assms(2)]
  note ka = known_after_event [OF assms(1) tx assms(3)]
  show ?thesis
  proof (cases "x = dr_id r \<and> \<not> dr_stale r")
    case True
    with ka(3) assms(4) have "\<not> stale_event ev (Some (event_at, gen, lc))" by simp
    moreover have "dr_generation r = next_generation ev False (Some (event_at, gen, lc))" using True ka(4) assms(4) by simp
    ultimately show ?thesis using True ka(1) [of x] by (cases "de_kind ev") (auto simp: stale_event_def next_generation_def)
  qed (use ka(1) [of x] assms(4) in auto)
qed

theorem generations_never_decrease_witness:
  "\<exists>event_at' gen' lc'. known_session (event_address plain_env ''inst'' end_event)
     (snd (recordDiscoveryEvent plain_env default_cfg ''inst'' end_event ''d2'' 101 discovered_once)) = Some (event_at', gen', lc') \<and>
     10 \<le> event_at' \<and> 1 \<le> gen' \<and> (Observed = Ended \<and> lc' \<noteq> Ended \<longrightarrow> gen' = 1 + 1)"
proof (rule generations_never_decrease [OF _ ended_Inr])
  show "unique_key d_id (j_discovered discovered_once)" unfolding unique_key_def by code_simp
  show "known_session (event_address plain_env ''inst'' end_event) (age_out (101 - RETENTION_MS) discovered_once) = Some (10, 1, Observed)"
    by code_simp
qed simp

text \<open>
  A wake is reserved only when it is due. Reserving succeeds only for the session,
  generation and binding that own the target, with no wake outstanding, at least
  \<open>MIN_WAKE_INTERVAL_MS\<close> after the last submission and with some unread reply, held or queued
  message that the last acknowledged snapshot does not cover; the binding is then
  \<open>Submitting\<close> under exactly that wake id, with that snapshot as its evidence.
\<close>

theorem wake_reserved_only_when_due:
  assumes "reserveInteractiveWake E now target rid sid gen bid s = (Inr (Reserved w g u q h late), s')"
  shows "\<exists>b b'. get_binding target s = Some b \<and> wb_state b = Idle \<and> wb_thread_id b = session_thread sid \<and> wb_generation b = gen \<and>
    wb_binding_id b = to_lower bid \<and> (\<forall>t. wb_last_submitted b = Some t \<longrightarrow> t = 0 \<or> MIN_WAKE_INTERVAL_MS \<le> now - t) \<and>
    w = rid \<and> g = gen \<and> 0 < u + q + h \<and> u = length (unread_rows target s) \<and> q = length (queued_rows target s) \<and> h = length (held_rows target s) \<and>
    \<not> wakeSnapshotCovered (ob_fingerprint (getWakeObligationsSync E target True s)) (wb_acked_fp b) \<and>
    get_binding target s' = Some b' \<and> wb_state b' = Submitting \<and> wb_active_wake b' = Some rid \<and>
    wb_active_fp b' = Some (ob_fingerprint (getWakeObligationsSync E target True s)) \<and> wb_last_submitted b' = Some now \<and>
    j_messages s' = j_messages s \<and> j_replies s' = j_replies s"
  using assms
proof (rule reserve_Reserved)
  fix b assume b: "get_binding target s = Some b" "wb_state b = Idle" "wb_thread_id b = session_thread sid" "wb_generation b = gen"
    "wb_binding_id b = to_lower bid" "\<And>t. wb_last_submitted b = Some t \<Longrightarrow> t = 0 \<or> MIN_WAKE_INTERVAL_MS \<le> now - t"
    and r: "Reserved w g u q h late = (let ob = getWakeObligationsSync E target True s in
       Reserved rid gen (length (ob_unreadReplies ob)) (length (ob_queuedMessages ob)) (length (ob_heldMessages ob)) (ob_hasLateResult ob))"
    and due: "0 < u + q + h" "\<not> wakeSnapshotCovered (ob_fingerprint (getWakeObligationsSync E target True s)) (wb_acked_fp b)"
    and s': "s' = (upd_binding target (\<lambda>b. b\<lparr>wb_state := Submitting, wb_active_wake := Some rid,
        wb_active_fp := Some (ob_fingerprint (getWakeObligationsSync E target True s)), wb_last_submitted := Some now, wb_updated_at := now\<rparr>) s)
          \<lparr>j_history := j_history s @ [\<lparr>h_target = target, h_session = sid, h_binding = to_lower bid,
             h_generation = gen, h_wake = rid, h_state = HSubmitting, h_created_at = now, h_updated_at = now\<rparr>]\<rparr>"
  obtain b' where "get_binding target s' = Some b'" "b' = b\<lparr>wb_state := Submitting, wb_active_wake := Some rid,
        wb_active_fp := Some (ob_fingerprint (getWakeObligationsSync E target True s)), wb_last_submitted := Some now, wb_updated_at := now\<rparr>"
    using assms by (rule reserve_binding) (simp add: b(1))
  moreover have "j_messages s' = j_messages s \<and> j_replies s' = j_replies s" by (simp add: s' upd_binding_def)
  ultimately show ?thesis using b r due by (intro exI [of _ b] exI [of _ b']) (simp add: getWakeObligationsSync_def Let_def)
qed

theorem wake_reserved_only_when_due_witness:
  "\<exists>b'. get_binding ''b'' woken_journal = Some b' \<and> wb_state b' = Submitting \<and> wb_active_wake b' = Some ''w1'' \<and>
     length (queued_rows ''b'' waiting_journal) = 1"
  using wake_reserved_only_when_due [OF woken_Inr] by auto

text \<open>
  A handled backlog is not announced again. After a wake was reserved and
  acknowledged, as long as the binding is untouched and the unread replies, held and
  queued messages of the target are among those the wake announced, no reservation
  under any wake id and at any time succeeds, and none changes the journal.
\<close>

theorem handled_backlog_stays_quiet:
  assumes "reserveInteractiveWake E now target rid sid gen bid s = (Inr (Reserved w g u q h late), s1)"
    "get_binding target s2 = get_binding target s1"
    "ackInteractiveWake now2 target rid gen sid bid s2 = (Inr False, s3)"
    "get_binding target s4 = get_binding target s3"
    "set (unread_rows target s4) \<subseteq> set (unread_rows target s)"
    "set (held_rows target s4) \<subseteq> set (held_rows target s)"
    "set (queued_rows target s4) \<subseteq> set (queued_rows target s)"
  shows "snd (reserveInteractiveWake E now4 target rid4 sid gen bid s4) = s4 \<and>
    (\<nexists>r. fst (reserveInteractiveWake E now4 target rid4 sid gen bid s4) = Inr r \<and> is_Reserved r)"
proof -
  let ?fp = "\<lambda>s. ob_fingerprint (getWakeObligationsSync E target True s)"
  obtain b' where b': "get_binding target s1 = Some b'" "wb_active_fp b' = Some (?fp s)"
    using assms(1) by (rule reserve_binding) simp
  obtain b where b: "get_binding target s2 = Some b" "get_binding target s3 = Some (ack_binding now2 b)"
    using assms(3) by (rule ackInteractive_False)
  with b' assms(2,4) have acked: "get_binding target s4 = Some (ack_binding now2 b)" "wb_acked_fp (ack_binding now2 b) = Some (?fp s)"
    by (simp_all add: ack_binding_def)
  have cov: "wakeSnapshotCovered (?fp s4) (Some (?fp s))"
    using assms(5-7) by (auto simp: fingerprint_eq covered_subset)
  have no: "\<not> is_Reserved r" if "fst (reserveInteractiveWake E now4 target rid4 sid gen bid s4) = Inr r" for r
  proof
    assume "is_Reserved r"
    with that obtain wx gx ux qx hx lx where "reserveInteractiveWake E now4 target rid4 sid gen bid s4 =
        (Inr (Reserved wx gx ux qx hx lx), snd (reserveInteractiveWake E now4 target rid4 sid gen bid s4))"
      by (cases r) (auto simp: prod_eq_iff)
    then show False by (rule reserve_Reserved) (use acked cov in auto)
  qed
  moreover from no have "snd (reserveInteractiveWake E now4 target rid4 sid gen bid s4) = s4" by (rule reserve_unchanged)
  ultimately show ?thesis by blast
qed

theorem handled_backlog_stays_quiet_witness:
  "snd (reserveInteractiveWake plain_env 90000 ''b'' ''w2'' ''s1'' 1 ''bind'' acked_journal) = acked_journal \<and>
    (\<nexists>r. fst (reserveInteractiveWake plain_env 90000 ''b'' ''w2'' ''s1'' 1 ''bind'' acked_journal) = Inr r \<and> is_Reserved r)"
proof (rule handled_backlog_stays_quiet [OF woken_Inr refl acked_Inr refl])
  show "set (unread_rows ''b'' acked_journal) \<subseteq> set (unread_rows ''b'' waiting_journal)" by code_simp
  show "set (held_rows ''b'' acked_journal) \<subseteq> set (held_rows ''b'' waiting_journal)" by code_simp
  show "set (queued_rows ''b'' acked_journal) \<subseteq> set (queued_rows ''b'' waiting_journal)" by code_simp
qed

end
