(* ===== verification/Rate_Limiter.thy ===== *)
theory Rate_Limiter
  imports Sliding_Window Journal_Messages
begin

text \<open>
  \<open>packages/agent-worker/src/local-messaging-rate-limiter.mjs\<close>: the per sender
  limiter, the pair exchange limiter, the bounded LRU map and the conversation
  loop tracker.  A history entry is an object, so it carries a number that
  stands for its identity (\<open>indexOf(entry)\<close> in \<open>rollback\<close>); a \<open>Map\<close> is the list of
  its entries in insertion order.  Readings of the clock are arguments.
\<close>

section \<open>Histories\<close>

type_synonym hist_entry = "nat \<times> int"
type_synonym histories = "(string \<times> hist_entry list) list"

record limiter =
  rl_history :: histories
  rl_next :: nat
  rl_settled :: "nat list"

definition new_limiter :: limiter where
  "new_limiter = \<lparr>rl_history = [], rl_next = 0, rl_settled = []\<rparr>"

text \<open>\<open>map.get(key)\<close> with an absent history read as empty, and \<open>map.set(key, value)\<close>.\<close>

definition hist_get :: "string \<Rightarrow> histories \<Rightarrow> hist_entry list" where
  "hist_get key h = (case sel fst key h of None \<Rightarrow> [] | Some p \<Rightarrow> snd p)"

definition hist_set :: "string \<Rightarrow> hist_entry list \<Rightarrow> histories \<Rightarrow> histories" where
  "hist_set key es h = (if sel fst key h = None then h @ [(key, es)] else upd_where (\<lambda>p. fst p = key) (\<lambda>p. (key, es)) h)"

lemma sel_upd_pair:
  "sel fst k (upd_where (\<lambda>p. fst p = key) (\<lambda>p. (key, v)) tab) = (if k = key \<and> sel fst key tab \<noteq> None then Some (key, v) else sel fst k tab)"
  by (induction tab) (auto simp: upd_where_def sel_Cons)

lemma hist_get_set [simp]: "hist_get k (hist_set key es h) = (if k = key then es else hist_get k h)"
  by (auto simp: hist_get_def hist_set_def sel_append sel_Cons sel_upd_pair split: option.splits)

section \<open>The per sender limiter\<close>

definition prune :: "int \<Rightarrow> hist_entry list \<Rightarrow> hist_entry list" where
  "prune cutoff history = dropWhile (\<lambda>e. snd e < cutoff) history"

definition rl_check :: "nat \<Rightarrow> int \<Rightarrow> int \<Rightarrow> string \<Rightarrow> (limiter, unit) op" where
  "rl_check maxRequests windowMs now sender L =
    (if sender = [] then (Inl (Coded ''invalid_sender''), L)
     else
       let history = prune (now - windowMs) (hist_get sender (rl_history L));
           L1 = L\<lparr>rl_history := hist_set sender history (rl_history L)\<rparr>
       in if maxRequests \<le> length history then (Inl (Coded ''rate_limit_exceeded''), L1) else (Inr (), L1))"

text \<open>\<open>history.push({ time })\<close>; the result is the new entry.\<close>

definition push_entry :: "int \<Rightarrow> string \<Rightarrow> limiter \<Rightarrow> nat \<times> limiter" where
  "push_entry now key L = (rl_next L, L\<lparr>rl_history := hist_set key (hist_get key (rl_history L) @ [(rl_next L, now)]) (rl_history L),
     rl_next := rl_next L + 1\<rparr>)"

definition rl_consume :: "int \<Rightarrow> string \<Rightarrow> limiter \<Rightarrow> limiter" where
  "rl_consume now sender L = (if sender = [] then L else snd (push_entry now sender L))"

definition rl_reserve :: "nat \<Rightarrow> int \<Rightarrow> int \<Rightarrow> int \<Rightarrow> string \<Rightarrow> (limiter, nat) op" where
  "rl_reserve maxRequests windowMs now1 now2 sender L =
    (case rl_check maxRequests windowMs now1 sender L of (Inl e, L1) \<Rightarrow> (Inl e, L1)
     | (Inr _, L1) \<Rightarrow> (case push_entry now2 sender L1 of (i, L2) \<Rightarrow> (Inr i, L2)))"

definition rl_commit :: "nat \<Rightarrow> limiter \<Rightarrow> limiter" where
  "rl_commit i L = L\<lparr>rl_settled := i # rl_settled L\<rparr>"

text \<open>\<open>rollback()\<close>; \<open>release()\<close> is the same.\<close>

definition rl_rollback :: "string \<Rightarrow> nat \<Rightarrow> limiter \<Rightarrow> limiter" where
  "rl_rollback key i L = (if i \<in> set (rl_settled L) then L
     else L\<lparr>rl_settled := i # rl_settled L,
            rl_history := hist_set key (filter (\<lambda>e. fst e \<noteq> i) (hist_get key (rl_history L))) (rl_history L)\<rparr>)"

definition rl_checkAndConsume :: "nat \<Rightarrow> int \<Rightarrow> int \<Rightarrow> int \<Rightarrow> string \<Rightarrow> (limiter, unit) op" where
  "rl_checkAndConsume maxRequests windowMs now1 now2 sender L =
    (case rl_check maxRequests windowMs now1 sender L of (Inl e, L1) \<Rightarrow> (Inl e, L1)
     | (Inr _, L1) \<Rightarrow> (Inr (), rl_consume now2 sender L1))"

definition rl_sweep :: "int \<Rightarrow> int \<Rightarrow> limiter \<Rightarrow> limiter" where
  "rl_sweep windowMs now L = L\<lparr>rl_history := filter (\<lambda>p. snd p \<noteq> []) (map (\<lambda>p. (fst p, prune (now - windowMs) (snd p))) (rl_history L))\<rparr>"

definition rl_trackedSenders :: "limiter \<Rightarrow> nat" where
  "rl_trackedSenders L = length (rl_history L)"

definition rl_reset :: "limiter \<Rightarrow> limiter" where
  "rl_reset L = L\<lparr>rl_history := []\<rparr>"

section \<open>The pair exchange limiter\<close>

definition valid_pair_options :: "int \<Rightarrow> int \<Rightarrow> bool" where
  "valid_pair_options maxExchanges windowMs = (1 \<le> maxExchanges \<and> 1 \<le> windowMs)"

definition createPairExchangeLimiter :: "int \<Rightarrow> int \<Rightarrow> limiter result" where
  "createPairExchangeLimiter maxExchanges windowMs =
    (if \<not> valid_pair_options maxExchanges windowMs then Inl (Coded ''invalid_limiter_options'') else Inr new_limiter)"

definition keyFor :: "string \<Rightarrow> string \<Rightarrow> string" where
  "keyFor a b = (if a < b then a @ [CHR 0x00] @ b else b @ [CHR 0x00] @ a)"

definition pair_reserve :: "nat \<Rightarrow> int \<Rightarrow> int \<Rightarrow> string \<Rightarrow> string \<Rightarrow> (limiter, nat) op" where
  "pair_reserve maxExchanges windowMs now sender recipient L =
    (if sender = [] \<or> recipient = [] then (Inl (Coded ''invalid_sender''), L)
     else
       let key = keyFor sender recipient;
           entries = dropWhile (\<lambda>e. snd e \<le> now - windowMs) (hist_get key (rl_history L));
           L1 = L\<lparr>rl_history := hist_set key entries (rl_history L)\<rparr>
       in if maxExchanges \<le> length entries then (Inl (Coded ''exchange_limit_exceeded''), L1)
          else (case push_entry now key L1 of (i, L2) \<Rightarrow> (Inr i, L2)))"

section \<open>The bounded LRU map\<close>

type_synonym 'v lru = "(string \<times> 'v) list"

definition lru_get :: "string \<Rightarrow> 'v lru \<Rightarrow> 'v option \<times> 'v lru" where
  "lru_get key entries = (case sel fst key entries of None \<Rightarrow> (None, entries)
     | Some p \<Rightarrow> (Some (snd p), del_where (\<lambda>q. fst q = key) entries @ [(key, snd p)]))"

fun lru_evict :: "nat \<Rightarrow> 'v lru \<Rightarrow> 'v lru" where
  "lru_evict maxEntries [] = []"
| "lru_evict maxEntries (p # entries) = (if maxEntries < length (p # entries) then lru_evict maxEntries entries else p # entries)"

definition lru_set :: "nat \<Rightarrow> string \<Rightarrow> 'v \<Rightarrow> 'v lru \<Rightarrow> 'v lru" where
  "lru_set maxEntries key value entries = lru_evict maxEntries (del_where (\<lambda>q. fst q = key) entries @ [(key, value)])"

section \<open>The conversation loop tracker\<close>

record tracker =
  lt_byMessage :: "int lru"
  lt_byRequest :: "int lru"

record loop_claims =
  lc_maxLoopDepth :: "int option"
  lc_loopDepth :: "int option"
  lc_parentMessageId :: "string option"

definition createConversationLoopTracker :: "int \<Rightarrow> tracker result" where
  "createConversationLoopTracker maxTrackedMessages =
    (if maxTrackedMessages < 1 then Inl (Coded ''invalid_tracker_options'') else Inr \<lparr>lt_byMessage = [], lt_byRequest = []\<rparr>)"

text \<open>
  A loop depth in stored metadata, when it is truthy.  The server writes it as a
  number; another truthy value is outside the model.
\<close>

definition depth_field :: "json option \<Rightarrow> string \<Rightarrow> int option" where
  "depth_field md k = (case md of None \<Rightarrow> None | Some j \<Rightarrow> (case obj_get j k of Some (JNum n) \<Rightarrow> if n = 0 then None else Some n | _ \<Rightarrow> None))"

definition stored_depth :: "json option \<Rightarrow> bool \<Rightarrow> int" where
  "stored_depth md isReply = (case depth_field md ''_loopDepth'' of Some n \<Rightarrow> n
     | None \<Rightarrow> (case depth_field md ''loopDepth'' of Some n \<Rightarrow> n | None \<Rightarrow> if isReply then 2 else 1))"

definition record_depth :: "message_view + reply_view \<Rightarrow> int \<times> string" where
  "record_depth r = (case r of Inl v \<Rightarrow> (stored_depth (v_metadata v) (truthy (v_inReplyTo v)), v_requestId v)
     | Inr w \<Rightarrow> (stored_depth (w_metadata w) (w_inReplyTo w \<noteq> []), w_requestId w))"

definition resolveParentDepth :: "nat \<Rightarrow> journal option \<Rightarrow> string \<Rightarrow> (tracker, int option) op" where
  "resolveParentDepth maxTracked jr parent T =
    (if parent = [] then (Inr None, T)
     else case lru_get parent (lt_byMessage T) of
        (Some d, m) \<Rightarrow> (Inr (Some d), T\<lparr>lt_byMessage := m\<rparr>)
      | (None, m) \<Rightarrow>
          (case jr of None \<Rightarrow> (Inr None, T)
           | Some s \<Rightarrow> (case fst (getRecord parent s) of
                Inl e \<Rightarrow> (Inl e, T)
              | Inr None \<Rightarrow> (Inr None, T)
              | Inr (Some r) \<Rightarrow>
                  (let (d, req) = record_depth r;
                       T1 = T\<lparr>lt_byMessage := lru_set maxTracked parent d (lt_byMessage T)\<rparr>
                   in (Inr (Some d), if req = [] then T1 else T1\<lparr>lt_byRequest := lru_set maxTracked req d (lt_byRequest T1)\<rparr>)))))"

definition effective_limit :: "int \<Rightarrow> loop_claims option \<Rightarrow> int" where
  "effective_limit serverLimit claims = (case claims of None \<Rightarrow> serverLimit
     | Some c \<Rightarrow> (case lc_maxLoopDepth c of None \<Rightarrow> serverLimit | Some m \<Rightarrow> if m = 0 then serverLimit else min serverLimit m))"

definition claimed_depth :: "loop_claims option \<Rightarrow> int" where
  "claimed_depth claims = (case claims of None \<Rightarrow> 1
     | Some c \<Rightarrow> (case lc_loopDepth c of None \<Rightarrow> 1 | Some d \<Rightarrow> if 1 \<le> d then d else 1))"

text \<open>One ancestor: an unknown one is refused, a known one bounds the depth from below.\<close>

definition honor_parent :: "nat \<Rightarrow> journal option \<Rightarrow> string \<Rightarrow> int \<Rightarrow> (tracker, int) op" where
  "honor_parent maxTracked jr parent depth T = (case resolveParentDepth maxTracked jr parent T of
      (Inl e, T1) \<Rightarrow> (Inl e, T1)
    | (Inr None, T1) \<Rightarrow> (Inl (Coded ''parent_not_found''), T1)
    | (Inr (Some d), T1) \<Rightarrow> (Inr (max depth (d + 1)), T1))"

definition claim_parent :: "loop_claims option \<Rightarrow> string option" where
  "claim_parent claims = (case claims of None \<Rightarrow> None | Some c \<Rightarrow> lc_parentMessageId c)"

definition calculateDepth :: "int \<Rightarrow> nat \<Rightarrow> journal option \<Rightarrow> loop_claims option \<Rightarrow> string option \<Rightarrow> (tracker, int) op" where
  "calculateDepth maxLoopDepth maxTracked jr claims inReplyTo T =
    (case (if truthy (claim_parent claims) then honor_parent maxTracked jr (opt_or (claim_parent claims) []) (claimed_depth claims) T
           else (Inr (claimed_depth claims), T)) of
       (Inl e, T1) \<Rightarrow> (Inl e, T1)
     | (Inr d1, T1) \<Rightarrow>
        (case (if truthy inReplyTo \<and> inReplyTo \<noteq> claim_parent claims then honor_parent maxTracked jr (opt_or inReplyTo []) d1 T1
               else (Inr d1, T1)) of
           (Inl e, T2) \<Rightarrow> (Inl e, T2)
         | (Inr d2, T2) \<Rightarrow>
             if effective_limit maxLoopDepth claims < d2 then (Inl (Coded ''loop_limit_exceeded''), T2) else (Inr d2, T2)))"

definition commitAdmission :: "nat \<Rightarrow> string \<Rightarrow> string \<Rightarrow> int \<Rightarrow> bool \<Rightarrow> tracker \<Rightarrow> tracker" where
  "commitAdmission maxTracked messageId requestId depth isDuplicate T =
    (if isDuplicate then T
     else
       let T1 = (if messageId = [] then T else T\<lparr>lt_byMessage := lru_set maxTracked messageId depth (lt_byMessage T)\<rparr>)
       in if requestId = [] then T1 else T1\<lparr>lt_byRequest := lru_set maxTracked requestId depth (lt_byRequest T1)\<rparr>)"

definition getDepth :: "string \<Rightarrow> tracker \<Rightarrow> int \<times> tracker" where
  "getDepth i T = (if i = [] then (1, T)
     else case lru_get i (lt_byMessage T) of
        (Some d, m) \<Rightarrow> if d \<noteq> 0 then (d, T\<lparr>lt_byMessage := m\<rparr>)
            else (case lru_get i (lt_byRequest T) of (x, q) \<Rightarrow> (case x of Some e \<Rightarrow> if e \<noteq> 0 then e else 1 | None \<Rightarrow> 1,
                    T\<lparr>lt_byMessage := m, lt_byRequest := q\<rparr>))
      | (None, m) \<Rightarrow> (case lru_get i (lt_byRequest T) of (x, q) \<Rightarrow> (case x of Some e \<Rightarrow> if e \<noteq> 0 then e else 1 | None \<Rightarrow> 1,
                    T\<lparr>lt_byMessage := m, lt_byRequest := q\<rparr>)))"

definition tracker_reset :: "tracker \<Rightarrow> tracker" where
  "tracker_reset T = \<lparr>lt_byMessage = [], lt_byRequest = []\<rparr>"


section \<open>Windows of the per sender limiter\<close>

datatype sender_call = TryReserve int int string | TryConsume int int string | Sweep int

fun sender_exec :: "nat \<Rightarrow> int \<Rightarrow> sender_call \<Rightarrow> limiter \<Rightarrow> limiter" where
  "sender_exec M W (TryReserve now1 now2 x) L = snd (rl_reserve M W now1 now2 x L)"
| "sender_exec M W (TryConsume now1 now2 x) L = snd (rl_checkAndConsume M W now1 now2 x L)"
| "sender_exec M W (Sweep now) L = rl_sweep W now L"

fun sender_accepts :: "nat \<Rightarrow> int \<Rightarrow> string \<Rightarrow> sender_call \<Rightarrow> limiter \<Rightarrow> bool" where
  "sender_accepts M W x (TryReserve now1 now2 y) L = (y = x \<and> \<not> isl (fst (rl_reserve M W now1 now2 y L)))"
| "sender_accepts M W x (TryConsume now1 now2 y) L = (y = x \<and> \<not> isl (fst (rl_checkAndConsume M W now1 now2 y L)))"
| "sender_accepts M W x (Sweep now) L = False"

fun sender_clock :: "sender_call \<Rightarrow> int" where
  "sender_clock (TryReserve now1 now2 x) = now2"
| "sender_clock (TryConsume now1 now2 x) = now2"
| "sender_clock (Sweep now) = now"

text \<open>A call reads the clock at most twice, the second time not before the first.\<close>

fun sender_valid :: "sender_call \<Rightarrow> bool" where
  "sender_valid (TryReserve now1 now2 x) = (now1 \<le> now2)"
| "sender_valid (TryConsume now1 now2 x) = (now1 \<le> now2)"
| "sender_valid (Sweep now) = True"

primrec accepted_requests :: "nat \<Rightarrow> int \<Rightarrow> string \<Rightarrow> sender_call list \<Rightarrow> limiter \<Rightarrow> int list" where
  "accepted_requests M W x [] L = []"
| "accepted_requests M W x (c # cs) L = (if sender_accepts M W x c L then [sender_clock c] else []) @ accepted_requests M W x cs (sender_exec M W c L)"

definition sender_times :: "string \<Rightarrow> limiter \<Rightarrow> int list" where
  "sender_times x L = map snd (hist_get x (rl_history L))"

lemma filter_dropWhile: "(\<And>x. Q x \<Longrightarrow> \<not> P x) \<Longrightarrow> filter P (dropWhile Q xs) = filter P xs"
  by (induction xs) auto

lemma filter_prune: "now \<le> u \<Longrightarrow> filter (\<lambda>t. u - W \<le> t) (map snd (prune (now - W) es)) = filter (\<lambda>t. u - W \<le> t) (map snd es)"
  unfolding prune_def filter_map by (intro arg_cong [where f = "map snd"] filter_dropWhile) auto

lemma length_prune: "length (filter (\<lambda>t. now - W \<le> t) (map snd es)) \<le> length (prune (now - W) es)"
  using filter_prune [of now now W es] length_filter_le [of "\<lambda>t. now - W \<le> t" "map snd (prune (now - W) es)"] by simp

lemma rl_check_cases:
  obtains (bad) "fst (rl_check M W now y L) = Inl (Coded ''invalid_sender'')" "snd (rl_check M W now y L) = L" "y = []"
  | (full) "fst (rl_check M W now y L) = Inl (Coded ''rate_limit_exceeded'')" "y \<noteq> []"
      "snd (rl_check M W now y L) = L\<lparr>rl_history := hist_set y (prune (now - W) (hist_get y (rl_history L))) (rl_history L)\<rparr>"
  | (ok) "fst (rl_check M W now y L) = Inr ()" "y \<noteq> []" "length (prune (now - W) (hist_get y (rl_history L))) < M"
      "snd (rl_check M W now y L) = L\<lparr>rl_history := hist_set y (prune (now - W) (hist_get y (rl_history L))) (rl_history L)\<rparr>"
  by (cases "y = []"; cases "M \<le> length (prune (now - W) (hist_get y (rl_history L)))")
    (auto simp: rl_check_def Let_def)

lemma check_times: "now \<le> u \<Longrightarrow>
   filter (\<lambda>t. u - W \<le> t) (sender_times x (snd (rl_check M W now y L))) = filter (\<lambda>t. u - W \<le> t) (sender_times x L)"
  by (cases rule: rl_check_cases [of M W now y L]) (simp_all add: sender_times_def filter_prune)

lemma push_times: "sender_times x (snd (push_entry now y L)) = (if y = x then sender_times x L @ [now] else sender_times x L)"
  by (simp add: push_entry_def sender_times_def)

lemma sweep_get:
  assumes "unique_key fst h"
  shows "hist_get x (filter (\<lambda>p. snd p \<noteq> []) (map (\<lambda>p. (fst p, prune c (snd p))) h)) = prune c (hist_get x h)"
  using assms
proof (induction h)
  case Nil
  then show ?case by (simp add: hist_get_def prune_def)
next
  case (Cons p h)
  then have IH: "hist_get x (filter (\<lambda>p. snd p \<noteq> []) (map (\<lambda>p. (fst p, prune c (snd p))) h)) = prune c (hist_get x h)"
    by (simp add: unique_key_def)
  have "fst p = x \<Longrightarrow> sel fst x h = None" using Cons.prems by (auto simp: unique_key_def sel_None_iff)
  then have "fst p = x \<Longrightarrow> hist_get x h = []" by (simp add: hist_get_def)
  moreover have "prune c [] = []" by (simp add: prune_def)
  ultimately show ?case using IH by (auto simp: hist_get_def sel_Cons)
qed

lemma hist_set_keys: "unique_key fst h \<Longrightarrow> unique_key fst (hist_set k es h)"
  unfolding hist_set_def by (auto simp: unique_key_def upd_where_def sel_None_iff comp_def if_distrib cong: if_cong)

lemma check_keys: "unique_key fst (rl_history L) \<Longrightarrow> unique_key fst (rl_history (snd (rl_check M W now y L)))"
  by (cases rule: rl_check_cases [of M W now y L]) (simp_all add: hist_set_keys)

lemma push_keys: "unique_key fst (rl_history L) \<Longrightarrow> unique_key fst (rl_history (snd (push_entry now y L)))"
  by (simp add: push_entry_def hist_set_keys)

lemma sweep_keys: "unique_key fst h \<Longrightarrow> unique_key fst (filter Q (map (\<lambda>p. (fst p, f (snd p))) h))"
  unfolding unique_key_def by (rule distinct_map_filter) (simp add: comp_def)

text \<open>A reservation and a consumption are a check followed by a push.\<close>

lemma rl_try:
  "snd (rl_reserve M W n1 n2 y L) = (if isl (fst (rl_check M W n1 y L)) then snd (rl_check M W n1 y L) else snd (push_entry n2 y (snd (rl_check M W n1 y L))))"
  "snd (rl_checkAndConsume M W n1 n2 y L) = (if isl (fst (rl_check M W n1 y L)) then snd (rl_check M W n1 y L) else snd (push_entry n2 y (snd (rl_check M W n1 y L))))"
  "isl (fst (rl_reserve M W n1 n2 y L)) = isl (fst (rl_check M W n1 y L))"
  "isl (fst (rl_checkAndConsume M W n1 n2 y L)) = isl (fst (rl_check M W n1 y L))"
  by (cases rule: rl_check_cases [of M W n1 y L]; cases "rl_check M W n1 y L";
      simp add: rl_reserve_def rl_checkAndConsume_def rl_consume_def split: prod.splits)+

lemma try_accept_times:
  assumes "n1 \<le> n2" "\<not> isl (fst (rl_check M W n1 x L))"
  shows "n2 \<le> u \<Longrightarrow> filter (\<lambda>t. u - W \<le> t) (sender_times x (snd (push_entry n2 x (snd (rl_check M W n1 x L))))) =
      filter (\<lambda>t. u - W \<le> t) (sender_times x L @ [n2])"
    "length (filter (\<lambda>t. n2 - W \<le> t) (sender_times x L)) < M"
proof -
  show "n2 \<le> u \<Longrightarrow> filter (\<lambda>t. u - W \<le> t) (sender_times x (snd (push_entry n2 x (snd (rl_check M W n1 x L))))) =
      filter (\<lambda>t. u - W \<le> t) (sender_times x L @ [n2])"
    using assms(1) check_times [of n1 u W x M x L] by (simp add: push_times)
  from assms(2) have "length (prune (n1 - W) (hist_get x (rl_history L))) < M"
    by (cases rule: rl_check_cases [of M W n1 x L]) auto
  moreover have "length (filter (\<lambda>t. n2 - W \<le> t) (sender_times x L)) \<le> length (filter (\<lambda>t. n1 - W \<le> t) (sender_times x L))"
    using assms(1) by (intro length_filter_impl) auto
  ultimately show "length (filter (\<lambda>t. n2 - W \<le> t) (sender_times x L)) < M"
    using length_prune [of n1 W "hist_get x (rl_history L)"] by (simp add: sender_times_def)
qed

interpretation sender_window: sliding_window "sender_exec M W" "sender_accepts M W x" sender_clock sender_valid
  "\<lambda>L. unique_key fst (rl_history L)" "sender_times x" "\<lambda>u t. u - W \<le> t" M for M W x
proof
  fix r u and L :: limiter
  assume v: "sender_valid r" and i: "unique_key fst (rl_history L)"
  show "unique_key fst (rl_history (sender_exec M W r L))"
    using i by (cases r) (simp_all add: rl_try check_keys push_keys rl_sweep_def sweep_keys)
  { assume "\<not> sender_accepts M W x r L" and u: "sender_clock r \<le> u"
    then show "filter (\<lambda>t. u - W \<le> t) (sender_times x (sender_exec M W r L)) = filter (\<lambda>t. u - W \<le> t) (sender_times x L)"
    proof (cases r)
      case (Sweep now)
      with u sweep_get [OF i] show ?thesis by (simp add: sender_times_def rl_sweep_def filter_prune)
    qed (use v in \<open>auto simp: rl_try check_times push_times\<close>) }
  assume a: "sender_accepts M W x r L"
  then show "length (filter (\<lambda>t. sender_clock r - W \<le> t) (sender_times x L)) < M"
    using v by (cases r) (auto simp: rl_try try_accept_times)
  assume "sender_clock r \<le> u"
  with a v show "filter (\<lambda>t. u - W \<le> t) (sender_times x (sender_exec M W r L)) = filter (\<lambda>t. u - W \<le> t) (sender_times x L @ [sender_clock r])"
    by (cases r) (auto simp: rl_try try_accept_times(1) simp del: filter_append)
qed simp


lemma accepted_requests_eq: "accepted_requests M W x cs L = sender_window.accepted_times M W x cs L"
  by (induction cs arbitrary: L) simp_all

section \<open>Windows of the pair exchange limiter\<close>

datatype pair_call = Exchange int string string

fun pair_exec :: "nat \<Rightarrow> int \<Rightarrow> pair_call \<Rightarrow> limiter \<Rightarrow> limiter" where
  "pair_exec M W (Exchange now a b) L = snd (pair_reserve M W now a b L)"

fun pair_accepts :: "nat \<Rightarrow> int \<Rightarrow> string \<Rightarrow> pair_call \<Rightarrow> limiter \<Rightarrow> bool" where
  "pair_accepts M W key (Exchange now a b) L = (keyFor a b = key \<and> \<not> isl (fst (pair_reserve M W now a b L)))"

fun pair_clock :: "pair_call \<Rightarrow> int" where
  "pair_clock (Exchange now a b) = now"

primrec accepted_exchanges :: "nat \<Rightarrow> int \<Rightarrow> string \<Rightarrow> pair_call list \<Rightarrow> limiter \<Rightarrow> int list" where
  "accepted_exchanges M W key [] L = []"
| "accepted_exchanges M W key (c # cs) L = (if pair_accepts M W key c L then [pair_clock c] else []) @ accepted_exchanges M W key cs (pair_exec M W c L)"

definition live_entries :: "int \<Rightarrow> int \<Rightarrow> string \<Rightarrow> limiter \<Rightarrow> hist_entry list" where
  "live_entries W now key L = dropWhile (\<lambda>e. snd e \<le> now - W) (hist_get key (rl_history L))"

lemma live_times:
  assumes "now \<le> u"
  shows "filter (\<lambda>t. u - W < t) (map snd (live_entries W now key L)) = filter (\<lambda>t. u - W < t) (sender_times key L)"
proof -
  have "filter ((\<lambda>t. u - W < t) \<circ> snd) (live_entries W now key L) = filter ((\<lambda>t. u - W < t) \<circ> snd) (hist_get key (rl_history L))"
    unfolding live_entries_def using assms by (intro filter_dropWhile) auto
  then show ?thesis by (simp add: filter_map sender_times_def)
qed

lemma live_count: "length (filter (\<lambda>t. now - W < t) (sender_times key L)) \<le> length (live_entries W now key L)"
  using live_times [of now now W key L] length_filter_le [of "\<lambda>t. now - W < t" "map snd (live_entries W now key L)"] by simp

lemma pair_reserve_cases:
  obtains (bad) "isl (fst (pair_reserve M W now a b L))" "snd (pair_reserve M W now a b L) = L"
  | (full) "isl (fst (pair_reserve M W now a b L))"
      "snd (pair_reserve M W now a b L) = L\<lparr>rl_history := hist_set (keyFor a b) (live_entries W now (keyFor a b) L) (rl_history L)\<rparr>"
  | (ok) "\<not> isl (fst (pair_reserve M W now a b L))" "length (live_entries W now (keyFor a b) L) < M"
      "snd (pair_reserve M W now a b L) =
        snd (push_entry now (keyFor a b) (L\<lparr>rl_history := hist_set (keyFor a b) (live_entries W now (keyFor a b) L) (rl_history L)\<rparr>))"
  by (cases "a = [] \<or> b = []"; cases "M \<le> length (live_entries W now (keyFor a b) L)")
    (auto simp: pair_reserve_def Let_def push_entry_def live_entries_def)

lemma trimmed_times:
  "sender_times k (L\<lparr>rl_history := hist_set key es (rl_history L)\<rparr>) = (if k = key then map snd es else sender_times k L)"
  by (simp add: sender_times_def)

interpretation pair_window: sliding_window "pair_exec M W" "pair_accepts M W key" pair_clock "\<lambda>_. True"
  "\<lambda>_. True" "sender_times key" "\<lambda>u t. u - W < t" M for M W key
proof
  fix r u and L :: limiter
  obtain now a b where r: "r = Exchange now a b" by (cases r)
  { assume "\<not> pair_accepts M W key r L" "pair_clock r \<le> u"
    then show "filter (\<lambda>t. u - W < t) (sender_times key (pair_exec M W r L)) = filter (\<lambda>t. u - W < t) (sender_times key L)"
      using live_times [of now u W key L]
      by (cases rule: pair_reserve_cases [of M W now a b L]) (auto simp: r push_times trimmed_times) }
  assume a: "pair_accepts M W key r L"
  then show "length (filter (\<lambda>t. pair_clock r - W < t) (sender_times key L)) < M"
    using live_count [of now W key L] by (cases rule: pair_reserve_cases [of M W now a b L]) (auto simp: r)
  assume "pair_clock r \<le> u"
  with a show "filter (\<lambda>t. u - W < t) (sender_times key (pair_exec M W r L)) = filter (\<lambda>t. u - W < t) (sender_times key L @ [pair_clock r])"
    using live_times [of now u W key L]
    by (cases rule: pair_reserve_cases [of M W now a b L]) (auto simp: r push_times trimmed_times)
qed auto

lemma accepted_exchanges_eq: "accepted_exchanges M W key cs L = pair_window.accepted_times M W key cs L"
  by (induction cs arbitrary: L) simp_all

section \<open>Properties of the limiters\<close>

text \<open>
  C40: the per sender limiter keeps its promise over any run.  With a clock that
  does not go back, whatever reservations, consumptions and sweeps of all senders
  are interleaved, no closed window of \<open>windowMs\<close> contains more than
  \<open>maxRequestsPerWindow\<close> accepted requests of one sender.
\<close>

theorem sender_rate_bounded:
  assumes "sorted (map sender_clock cs)" "list_all sender_valid cs"
  shows "length (filter (\<lambda>t. u - W \<le> t \<and> t \<le> u) (accepted_requests M W x cs new_limiter)) \<le> M"
proof -
  have "sender_times x new_limiter = []" "unique_key fst (rl_history new_limiter)"
    by (simp_all add: sender_times_def new_limiter_def hist_get_def)
  from sender_window.window_bound [OF this(1) assms this(2), of u W M] show ?thesis
    by (simp add: accepted_requests_eq conj_commute)
qed

theorem sender_rate_bounded_witness:
  "accepted_requests 2 60 ''a'' [TryReserve 1 1 ''a'', TryConsume 2 2 ''a'', TryReserve 3 3 ''a'', Sweep 62, TryReserve 63 64 ''a''] new_limiter = [1, 2, 64] \<and>
   length (filter (\<lambda>t. 3 - 60 \<le> t \<and> t \<le> 3) (accepted_requests 2 60 ''a'' [TryReserve 1 1 ''a'', TryConsume 2 2 ''a'', TryReserve 3 3 ''a'', Sweep 62, TryReserve 63 64 ''a''] new_limiter)) \<le> 2"
proof
  show "accepted_requests 2 60 ''a'' [TryReserve 1 1 ''a'', TryConsume 2 2 ''a'', TryReserve 3 3 ''a'', Sweep 62, TryReserve 63 64 ''a''] new_limiter = [1, 2, 64]"
    by code_simp
  show "length (filter (\<lambda>t. 3 - 60 \<le> t \<and> t \<le> 3) (accepted_requests 2 60 ''a'' [TryReserve 1 1 ''a'', TryConsume 2 2 ''a'', TryReserve 3 3 ''a'', Sweep 62, TryReserve 63 64 ''a''] new_limiter)) \<le> 2"
    by (rule sender_rate_bounded) simp_all
qed

text \<open>
  The pair exchange limiter bounds ping-pong.  With a clock that does not go
  back, whatever exchanges are attempted between any agents, no window of
  \<open>windowMs\<close> contains more than \<open>maxExchanges\<close> accepted messages between \<open>a\<close> and \<open>b\<close>,
  both directions together.
\<close>

theorem pair_exchange_bounded:
  assumes "sorted (map pair_clock cs)"
  shows "keyFor a b = keyFor b a \<and>
    length (filter (\<lambda>t. u - W < t \<and> t \<le> u) (accepted_exchanges M W (keyFor a b) cs new_limiter)) \<le> M"
proof -
  have "sender_times (keyFor a b) new_limiter = []" by (simp add: sender_times_def new_limiter_def hist_get_def)
  from pair_window.window_bound [OF this assms, of u W M] show ?thesis
    by (auto simp: accepted_exchanges_eq conj_commute list_all_iff keyFor_def)
qed

theorem pair_exchange_bounded_witness:
  "accepted_exchanges 2 60 (keyFor ''a'' ''b'') [Exchange 1 ''a'' ''b'', Exchange 2 ''b'' ''a'', Exchange 3 ''a'' ''b''] new_limiter = [1, 2] \<and>
   length (filter (\<lambda>t. 3 - 60 < t \<and> t \<le> 3) (accepted_exchanges 2 60 (keyFor ''a'' ''b'')
     [Exchange 1 ''a'' ''b'', Exchange 2 ''b'' ''a'', Exchange 3 ''a'' ''b''] new_limiter)) \<le> 2"
proof
  show "accepted_exchanges 2 60 (keyFor ''a'' ''b'') [Exchange 1 ''a'' ''b'', Exchange 2 ''b'' ''a'', Exchange 3 ''a'' ''b''] new_limiter = [1, 2]"
    by code_simp
  show "length (filter (\<lambda>t. 3 - 60 < t \<and> t \<le> 3) (accepted_exchanges 2 60 (keyFor ''a'' ''b'')
     [Exchange 1 ''a'' ''b'', Exchange 2 ''b'' ''a'', Exchange 3 ''a'' ''b''] new_limiter)) \<le> 2"
    by (rule conjunct2 [OF pair_exchange_bounded]) simp
qed

section \<open>Loop depth\<close>

lemma lru_evict_drop: "lru_evict n xs = drop (length xs - n) xs"
  by (induction xs) (auto simp: Suc_diff_le not_less)

lemma lru_set_bound: "length (lru_set n k v xs) \<le> n"
  by (simp add: lru_set_def lru_evict_drop)

lemma lru_set_get:
  assumes "1 \<le> n"
  shows "fst (lru_get k (lru_set n k v xs)) = Some v"
proof -
  let ?ys = "del_where (\<lambda>q. fst q = k) xs"
  have "lru_set n k v xs = drop (length ?ys + 1 - n) ?ys @ [(k, v)]"
    using assms by (simp add: lru_set_def lru_evict_drop)
  moreover have "sel fst k (drop m ?ys) = None" for m
    using set_drop_subset [of m ?ys] by (fastforce simp: sel_None_iff)
  ultimately show ?thesis by (simp add: lru_get_def sel_append sel_Cons)
qed

lemma resolve_remembered:
  assumes "fst (lru_get p (lt_byMessage T)) = Some d" "p \<noteq> []"
  shows "fst (resolveParentDepth n jr p T) = Inr (Some d)"
  using assms by (cases "lru_get p (lt_byMessage T)") (simp add: resolveParentDepth_def)

lemma honor_parent_depth:
  assumes "honor_parent n jr p d0 T = (Inr d, T')"
  shows "d0 \<le> d" and "fst (lru_get p (lt_byMessage T)) = Some e \<Longrightarrow> p \<noteq> [] \<Longrightarrow> e + 1 \<le> d"
proof -
  obtain r T1 where r: "resolveParentDepth n jr p T = (r, T1)" by force
  show "d0 \<le> d" using assms r by (auto simp: honor_parent_def split: sum.splits option.splits)
  assume "fst (lru_get p (lt_byMessage T)) = Some e" "p \<noteq> []"
  from resolve_remembered [OF this, of n jr] r have "r = Inr (Some e)" by simp
  with assms r show "e + 1 \<le> d" by (auto simp: honor_parent_def)
qed

lemma calculateDepth_bounds:
  assumes "calculateDepth L n jr claims prev T = (Inr d, T')"
  shows "claimed_depth claims \<le> d" "d \<le> effective_limit L claims"
proof -
  obtain d1 T1 where 1: "(if truthy (claim_parent claims) then honor_parent n jr (opt_or (claim_parent claims) []) (claimed_depth claims) T
           else (Inr (claimed_depth claims), T)) = (Inr d1, T1)"
    using assms by (auto simp: calculateDepth_def split: sum.splits prod.splits)
  then have "claimed_depth claims \<le> d1" using honor_parent_depth(1) by (auto split: if_splits)
  moreover obtain d2 T2 where 2: "(if truthy prev \<and> prev \<noteq> claim_parent claims then honor_parent n jr (opt_or prev []) d1 T1 else (Inr d1, T1)) = (Inr d2, T2)"
    and d2: "d = d2" "\<not> effective_limit L claims < d2"
    using assms 1 by (auto simp: calculateDepth_def split: sum.splits prod.splits if_splits)
  moreover have "d1 \<le> d2" using 2 honor_parent_depth(1) by (auto split: if_splits)
  ultimately show "claimed_depth claims \<le> d" "d \<le> effective_limit L claims" by auto
qed

lemma calculateDepth_parent:
  assumes "calculateDepth L n jr claims (Some p) T = (Inr d, T')" "p \<noteq> []"
    "fst (lru_get p (lt_byMessage T)) = Some e" "claim_parent claims = None \<or> claim_parent claims = Some p"
  shows "e + 1 \<le> d"
  using assms(4)
proof
  assume c: "claim_parent claims = None"
  with assms(1,2) have "honor_parent n jr p (claimed_depth claims) T = (Inr d, T')"
    by (auto simp: calculateDepth_def split: sum.splits prod.splits if_splits)
  from honor_parent_depth(2) [OF this assms(3,2)] show ?thesis .
next
  assume c: "claim_parent claims = Some p"
  with assms(1,2) have "honor_parent n jr p (claimed_depth claims) T = (Inr d, T')"
    by (auto simp: calculateDepth_def split: sum.splits prod.splits if_splits)
  from honor_parent_depth(2) [OF this assms(3,2)] show ?thesis .
qed

text \<open>
  A conversation in which every message is admitted in reply to the one before:
  \<open>calculateDepth\<close>, then \<open>commitAdmission\<close>.  The claims may name the same parent or none.
\<close>

fun reply_chain :: "int \<Rightarrow> nat \<Rightarrow> journal option \<Rightarrow> string option \<Rightarrow> (loop_claims option \<times> string \<times> string) list \<Rightarrow> tracker \<Rightarrow> bool" where
  "reply_chain L n jr prev [] T = True"
| "reply_chain L n jr prev ((claims, mid, rid) # ms) T =
    (mid \<noteq> [] \<and> (claim_parent claims = None \<or> claim_parent claims = prev) \<and>
     (case calculateDepth L n jr claims prev T of (Inl e, T1) \<Rightarrow> False
      | (Inr d, T1) \<Rightarrow> reply_chain L n jr (Some mid) ms (commitAdmission n mid rid d False T1)))"

lemma commit_remembers: "1 \<le> n \<Longrightarrow> mid \<noteq> [] \<Longrightarrow> fst (lru_get mid (lt_byMessage (commitAdmission n mid rid d False T))) = Some d"
  by (simp add: commitAdmission_def Let_def lru_set_get)

lemma effective_limit_le: "effective_limit L claims \<le> L"
  by (auto simp: effective_limit_def split: option.splits)

lemma reply_chain_depth:
  assumes "1 \<le> n" "reply_chain L n jr (Some p) ms T" "p \<noteq> []" "fst (lru_get p (lt_byMessage T)) = Some e" "e \<le> L"
  shows "e + int (length ms) \<le> L"
  using assms(2-)
proof (induction ms arbitrary: p T e)
  case (Cons m ms)
  obtain claims mid rid where m: "m = (claims, mid, rid)" by (cases m)
  from Cons.prems(1) m obtain d T1 where d: "calculateDepth L n jr claims (Some p) T = (Inr d, T1)"
    and rest: "mid \<noteq> []" "claim_parent claims = None \<or> claim_parent claims = Some p"
      "reply_chain L n jr (Some mid) ms (commitAdmission n mid rid d False T1)"
    by (auto split: prod.splits sum.splits)
  have "e + 1 \<le> d" using calculateDepth_parent [OF d Cons.prems(2,3) rest(2)] .
  moreover have "d \<le> L" using calculateDepth_bounds(2) [OF d] effective_limit_le [of L claims] by simp
  ultimately show ?case
    using Cons.IH [OF rest(3,1) commit_remembers [OF assms(1) rest(1)]] by simp
qed simp

text \<open>
  A conversation loop ends.  In a chain of messages in which each one is
  admitted as a reply to the one before, whatever depth their claims state, at
  most \<open>maxLoopDepth\<close> messages are admitted; the tracker may remember as little as
  one message.
\<close>

theorem loop_depth_bounds_chains:
  assumes "1 \<le> n" "0 \<le> L" "reply_chain L n jr None ms T"
  shows "int (length ms) \<le> L"
proof (cases ms)
  case (Cons m rest)
  obtain claims mid rid where m: "m = (claims, mid, rid)" by (cases m)
  from assms(3) Cons m obtain d T1 where d: "calculateDepth L n jr claims None T = (Inr d, T1)"
    and r: "mid \<noteq> []" "reply_chain L n jr (Some mid) rest (commitAdmission n mid rid d False T1)"
    by (auto split: prod.splits sum.splits)
  have "1 \<le> claimed_depth claims" by (auto simp: claimed_depth_def split: option.splits)
  then have "1 \<le> d" "d \<le> L" using calculateDepth_bounds [OF d] effective_limit_le [of L claims] by simp_all
  with reply_chain_depth [OF assms(1) r(2,1) commit_remembers [OF assms(1) r(1)]] Cons show ?thesis by simp
qed (use assms in simp)

theorem loop_depth_bounds_chains_witness:
  "reply_chain 2 1 None None [(None, ''m1'', ''r''), (None, ''m2'', ''r'')] \<lparr>lt_byMessage = [], lt_byRequest = []\<rparr> \<and>
   \<not> reply_chain 2 1 None None [(None, ''m1'', ''r''), (None, ''m2'', ''r''), (None, ''m3'', ''r'')] \<lparr>lt_byMessage = [], lt_byRequest = []\<rparr>"
proof
  show "reply_chain 2 1 None None [(None, ''m1'', ''r''), (None, ''m2'', ''r'')] \<lparr>lt_byMessage = [], lt_byRequest = []\<rparr>" by code_simp
  show "\<not> reply_chain 2 1 None None [(None, ''m1'', ''r''), (None, ''m2'', ''r''), (None, ''m3'', ''r'')] \<lparr>lt_byMessage = [], lt_byRequest = []\<rparr>"
    using loop_depth_bounds_chains [of 1 2 None "[(None, ''m1'', ''r''), (None, ''m2'', ''r''), (None, ''m3'', ''r'')]" "\<lparr>lt_byMessage = [], lt_byRequest = []\<rparr>"]
    by auto
qed

end
