(* ===== verification/Dispatcher.thy ===== *)
theory Dispatcher
  imports Journal_Custody "HOL-Library.AList"
begin

text \<open>
  \<open>packages/agent-worker/src/local-messaging-dispatcher.mjs\<close>: the dispatcher that
  claims queued messages in the journal, runs their recipients and persists what
  came of it.  It holds at most \<open>maxConcurrent\<close> executions, one per recipient.

  The code runs on one thread and gives up control only at an \<open>await\<close>, so each
  event below is what happens between two awaits: a call from outside, the queued
  pump, or the continuation of one execution.  The journal is injected, as in the
  code: \<open>journal_ops\<close> are the operations the dispatcher calls, on a store of any type.
\<close>

section \<open>The injected journal and the recipients\<close>

record 's journal_ops =
  jo_recoverQueued :: "int \<Rightarrow> ('s, message_view list \<times> message_view list) op"
  jo_claimExecution :: "int \<Rightarrow> string \<Rightarrow> ('s, message_view option) op"
  jo_recordExecutionFailure :: "int \<Rightarrow> string \<Rightarrow> string \<Rightarrow> string option \<Rightarrow> ('s, message_view option) op"
  jo_holdExecution :: "int \<Rightarrow> string \<Rightarrow> string \<Rightarrow> string option \<Rightarrow> ('s, message_view option) op"
  jo_completeExecutionWithReply :: "int \<Rightarrow> int \<Rightarrow> envelope \<Rightarrow> ('s, reply_view \<times> bool) op"
  jo_compact :: "(int \<Rightarrow> ('s, nat \<times> nat) op) option"

record dispatcher_cfg =
  dc_runnerTimeoutMs :: int
  dc_maxConcurrent :: int
  dc_compactIntervalMs :: int

text \<open>What a recipient returns, and what it throws (\<open>re_text\<close> is \<open>String(err)\<close>).\<close>

record run_result =
  rr_status :: string
  rr_text :: "string option"
  rr_reason :: "string option"
  rr_metadata :: "json option"

record run_error =
  re_code :: "string option"
  re_message :: "string option"
  re_text :: string

section \<open>State\<close>

text \<open>
  Where an execution stands: its claim was asked for and answered, the recipient
  runs (is the timer armed, did it fire), the outcome was handed to the journal and
  answered, or everything is done and only the \<open>finally\<close> block is left.  \<open>Finishing\<close>
  says how it ended: the claim was not granted, the journal accepted the outcome, or
  the journal refused even the failure record.
\<close>

datatype ending = NotClaimed | Settled | Unsettled

datatype stage =
    Claiming "message_view option result"
  | Running message_view bool bool
  | Persisting message_view "unit result"
  | Finishing ending

record execution =
  x_job :: message_view
  x_stage :: stage

datatype start_state = NotStarting | Recovering "(message_view list \<times> message_view list) result" | Compacting

record 's dispatcher =
  dp_journal :: 's
  dp_active :: bool
  dp_stopping :: bool
  dp_drainResolvers :: nat
  dp_resolved :: nat
  dp_pendingQueue :: "message_view list"
  dp_inFlight :: "string list"
  dp_activeRecipients :: "string list"
  dp_executions :: "(string \<times> execution) list"
  dp_pumpScheduled :: bool
  dp_lastCompactionAt :: "int option"
  dp_starting :: start_state
  dp_runs :: "string list"

text \<open>\<open>dp_runs\<close> is the log of the calls of \<open>runRecipient\<close>; \<open>dp_starting\<close> the continuation of \<open>start\<close>.\<close>

definition createLocalMessagingDispatcher :: "'s \<Rightarrow> 's dispatcher" where
  "createLocalMessagingDispatcher journal = \<lparr>dp_journal = journal, dp_active = False, dp_stopping = False, dp_drainResolvers = 0,
     dp_resolved = 0, dp_pendingQueue = [], dp_inFlight = [], dp_activeRecipients = [], dp_executions = [], dp_pumpScheduled = False,
     dp_lastCompactionAt = None, dp_starting = NotStarting, dp_runs = []\<rparr>"

definition set_add :: "'a \<Rightarrow> 'a list \<Rightarrow> 'a list" where
  "set_add x xs = (if x \<in> set xs then xs else xs @ [x])"

definition set_delete :: "'a \<Rightarrow> 'a list \<Rightarrow> 'a list" where
  "set_delete x xs = removeAll x xs"

definition forget :: "('s, 'a) op \<Rightarrow> ('s, unit) op" where
  "forget f s = (case f s of (Inl e, s') \<Rightarrow> (Inl e, s') | (Inr _, s') \<Rightarrow> (Inr (), s'))"

section \<open>Operations\<close>

definition compactIfDue :: "'s journal_ops \<Rightarrow> dispatcher_cfg \<Rightarrow> int \<Rightarrow> 's dispatcher \<Rightarrow> 's dispatcher" where
  "compactIfDue ops cfg at d = (case jo_compact ops of None \<Rightarrow> d
     | Some compactJournal \<Rightarrow>
        if (case dp_lastCompactionAt d of None \<Rightarrow> False | Some t \<Rightarrow> at - t < dc_compactIntervalMs cfg) then d
        else d\<lparr>dp_lastCompactionAt := Some at, dp_journal := snd (compactJournal at (dp_journal d))\<rparr>)"

definition schedulePump :: "'s dispatcher \<Rightarrow> 's dispatcher" where
  "schedulePump d = (if dp_pumpScheduled d then d else d\<lparr>dp_pumpScheduled := True\<rparr>)"

definition checkDrain :: "'s dispatcher \<Rightarrow> 's dispatcher" where
  "checkDrain d = (if dp_stopping d \<and> dp_executions d = []
     then d\<lparr>dp_drainResolvers := 0, dp_resolved := dp_resolved d + dp_drainResolvers d\<rparr> else d)"

text \<open>One turn of the loop of \<open>pump\<close>: take a job off the queue and ask for its claim.\<close>

definition startJob :: "'s journal_ops \<Rightarrow> int \<Rightarrow> message_view \<Rightarrow> message_view list \<Rightarrow> 's dispatcher \<Rightarrow> 's dispatcher" where
  "startJob ops at job rest d = (case jo_claimExecution ops at (v_messageId job) (dp_journal d) of (claim, s) \<Rightarrow>
     d\<lparr>dp_pendingQueue := rest, dp_activeRecipients := set_add (v_recipient job) (dp_activeRecipients d), dp_journal := s,
       dp_executions := AList.update (v_messageId job) \<lparr>x_job = job, x_stage = Claiming claim\<rparr> (dp_executions d)\<rparr>)"

lemma startJob_pending [simp]: "dp_pendingQueue (startJob ops at job rest d) = rest"
  by (simp add: startJob_def split: prod.split)

function pump_loop :: "'s journal_ops \<Rightarrow> dispatcher_cfg \<Rightarrow> int \<Rightarrow> 's dispatcher \<Rightarrow> 's dispatcher" where
  "pump_loop ops cfg at d =
    (if int (length (dp_executions d)) < dc_maxConcurrent cfg then
       case List.extract (\<lambda>job. v_recipient job \<notin> set (dp_activeRecipients d)) (dp_pendingQueue d) of
         None \<Rightarrow> d
       | Some (before, job, after) \<Rightarrow> pump_loop ops cfg at (startJob ops at job (before @ after) d)
     else d)"
  by pat_completeness auto
termination
  by (relation "measure (\<lambda>(ops, cfg, at, d). length (dp_pendingQueue d))") (auto simp: extract_Some_iff)

declare pump_loop.simps [simp del]

definition pump :: "'s journal_ops \<Rightarrow> dispatcher_cfg \<Rightarrow> int \<Rightarrow> 's dispatcher \<Rightarrow> 's dispatcher" where
  "pump ops cfg at d = (if dp_stopping d then checkDrain d else checkDrain (pump_loop ops cfg at d))"

definition pumpTask :: "'s journal_ops \<Rightarrow> dispatcher_cfg \<Rightarrow> int \<Rightarrow> 's dispatcher \<Rightarrow> 's dispatcher" where
  "pumpTask ops cfg at d = (if dp_pumpScheduled d then pump ops cfg at (d\<lparr>dp_pumpScheduled := False\<rparr>) else d)"

definition set_stage :: "string \<Rightarrow> stage \<Rightarrow> 's dispatcher \<Rightarrow> 's dispatcher" where
  "set_stage mid st d = d\<lparr>dp_executions := map (\<lambda>(k, x). (k, if k = mid then x\<lparr>x_stage := st\<rparr> else x)) (dp_executions d)\<rparr>"

text \<open>The continuation of \<open>executeJob\<close> after the claim.\<close>

definition afterClaim :: "string \<Rightarrow> 's dispatcher \<Rightarrow> 's dispatcher" where
  "afterClaim mid d = (case map_option x_stage (map_of (dp_executions d) mid) of
      Some (Claiming (Inr (Some fullJob))) \<Rightarrow> set_stage mid (Running fullJob False False) (d\<lparr>dp_runs := dp_runs d @ [mid]\<rparr>)
    | Some (Claiming (Inr None)) \<Rightarrow> set_stage mid (Finishing NotClaimed) d
    | Some (Claiming (Inl e)) \<Rightarrow> set_stage mid (Finishing NotClaimed) d
    | _ \<Rightarrow> d)"

definition onStarted :: "dispatcher_cfg \<Rightarrow> string \<Rightarrow> 's dispatcher \<Rightarrow> 's dispatcher" where
  "onStarted cfg mid d = (case map_option x_stage (map_of (dp_executions d) mid) of
      Some (Running fullJob armed timedOut) \<Rightarrow>
        if 0 < dc_runnerTimeoutMs cfg \<and> \<not> timedOut then set_stage mid (Running fullJob True timedOut) d else d
    | _ \<Rightarrow> d)"

definition onTimeout :: "string \<Rightarrow> 's dispatcher \<Rightarrow> 's dispatcher" where
  "onTimeout mid d = (case map_option x_stage (map_of (dp_executions d) mid) of
      Some (Running fullJob True timedOut) \<Rightarrow> set_stage mid (Running fullJob True True) d
    | _ \<Rightarrow> d)"

fun text_includes :: "string \<Rightarrow> string \<Rightarrow> bool" where
  "text_includes pat [] = (pat = [])"
| "text_includes pat (c # cs) = (prefix pat (c # cs) \<or> text_includes pat cs)"

definition is_timeout :: "bool \<Rightarrow> run_error \<Rightarrow> bool" where
  "is_timeout timedOut err = (timedOut \<or> re_code err = Some ''runner_timeout'' \<or>
     (case re_message err of None \<Rightarrow> False | Some m \<Rightarrow> text_includes ''runner_timeout'' m))"

definition runtime_error :: "run_error \<Rightarrow> string" where
  "runtime_error err = (if truthy (re_message err) then opt_or (re_message err) [] else re_text err)"

text \<open>\<open>fullJob.metadata?._loopDepth ?? fullJob.loopDepth ?? 1\<close>, plus one\<close>

definition reply_depth :: "message_view \<Rightarrow> json" where
  "reply_depth job = depth_plus_one (coalesce (loop_depth_of (v_metadata job)) (v_loopDepth job))"

definition runner_reply :: "string \<Rightarrow> message_view \<Rightarrow> run_result \<Rightarrow> envelope" where
  "runner_reply uuid fullJob result = \<lparr>e_sender = v_recipient fullJob, e_recipient = v_sender fullJob, e_messageId = ''rep-'' @ uuid,
     e_requestId = v_requestId fullJob, e_inReplyTo = Some (v_messageId fullJob), e_text = Some (opt_or (rr_text result) []),
     e_metadata = Some (with_depth (rr_metadata result) (reply_depth fullJob)), e_recipientType = None,
     e_to_principal = None, e_resolved_via = None\<rparr>"

definition late_text :: "run_result option \<Rightarrow> string option" where
  "late_text result = (case result of None \<Rightarrow> None | Some r \<Rightarrow> if rr_status r = ''completed'' then rr_text r else None)"

text \<open>What \<open>executeJob\<close> asks of the journal once the recipient returned.\<close>

definition persist :: "'s journal_ops \<Rightarrow> string \<Rightarrow> int \<Rightarrow> message_view \<Rightarrow> bool \<Rightarrow> run_result option \<Rightarrow> ('s, unit) op" where
  "persist ops uuid at fullJob timedOut result =
    (if timedOut then forget (jo_holdExecution ops at (v_messageId fullJob) ''runner_timeout'' (late_text result))
     else case result of
        Some r \<Rightarrow> if rr_status r = ''completed'' then forget (jo_completeExecutionWithReply ops at at (runner_reply uuid fullJob r))
                  else forget (jo_holdExecution ops at (v_messageId fullJob)
                         (if truthy (rr_reason r) then opt_or (rr_reason r) [] else ''uncompleted'') None)
      | None \<Rightarrow> forget (jo_holdExecution ops at (v_messageId fullJob) ''uncompleted'' None))"

definition runReturned :: "'s journal_ops \<Rightarrow> string \<Rightarrow> int \<Rightarrow> string \<Rightarrow> run_result option \<Rightarrow> 's dispatcher \<Rightarrow> 's dispatcher" where
  "runReturned ops uuid at mid result d = (case map_option x_stage (map_of (dp_executions d) mid) of
      Some (Running fullJob armed timedOut) \<Rightarrow>
        (case persist ops uuid at fullJob timedOut result (dp_journal d) of (r, s) \<Rightarrow>
           set_stage mid (Persisting fullJob r) (d\<lparr>dp_journal := s\<rparr>))
    | _ \<Rightarrow> d)"

definition runThrew :: "'s journal_ops \<Rightarrow> int \<Rightarrow> string \<Rightarrow> run_error \<Rightarrow> 's dispatcher \<Rightarrow> 's dispatcher" where
  "runThrew ops at mid err d = (case map_option x_stage (map_of (dp_executions d) mid) of
      Some (Running fullJob armed timedOut) \<Rightarrow>
        (case jo_recordExecutionFailure ops at (v_messageId fullJob) (if is_timeout timedOut err then ''runner_timeout'' else ''runtime_error'')
            (Some (runtime_error err)) (dp_journal d) of (r, s) \<Rightarrow>
           set_stage mid (Finishing (if isl r then Unsettled else Settled)) (d\<lparr>dp_journal := s\<rparr>))
    | _ \<Rightarrow> d)"

text \<open>\<open>error_text\<close> is the message of a rejected journal call, of which the model keeps the code.\<close>

fun error_text :: "js_error \<Rightarrow> string" where
  "error_text (Coded c) = c"
| "error_text TypeErr = ''TypeError''"
| "error_text AbortErr = ''AbortError''"
| "error_text (OtherErr t) = t"

definition afterPersist :: "'s journal_ops \<Rightarrow> int \<Rightarrow> string \<Rightarrow> 's dispatcher \<Rightarrow> 's dispatcher" where
  "afterPersist ops at mid d = (case map_option x_stage (map_of (dp_executions d) mid) of
      Some (Persisting fullJob (Inr _)) \<Rightarrow> set_stage mid (Finishing Settled) d
    | Some (Persisting fullJob (Inl e)) \<Rightarrow>
        (case jo_recordExecutionFailure ops at (v_messageId fullJob) ''persistence_failure'' (Some (error_text e)) (dp_journal d) of
           (r, s) \<Rightarrow> set_stage mid (Finishing (if isl r then Unsettled else Settled)) (d\<lparr>dp_journal := s\<rparr>))
    | _ \<Rightarrow> d)"

text \<open>The \<open>finally\<close> of \<open>pump\<close>.\<close>

definition executionEnded :: "string \<Rightarrow> 's dispatcher \<Rightarrow> 's dispatcher" where
  "executionEnded mid d = (case map_of (dp_executions d) mid of
      Some x \<Rightarrow> (case x_stage x of
         Finishing how \<Rightarrow> checkDrain (schedulePump (d\<lparr>dp_executions := AList.delete mid (dp_executions d),
           dp_activeRecipients := set_delete (v_recipient (x_job x)) (dp_activeRecipients d),
           dp_inFlight := set_delete mid (dp_inFlight d)\<rparr>))
       | _ \<Rightarrow> d)
    | None \<Rightarrow> d)"

definition notifyAdmission :: "'s journal_ops \<Rightarrow> dispatcher_cfg \<Rightarrow> int \<Rightarrow> message_view \<Rightarrow> 's dispatcher \<Rightarrow> 's dispatcher" where
  "notifyAdmission ops cfg at job d =
    (if v_messageId job = [] \<or> v_recipient job = [] then d
     else if dp_stopping d then d
     else if v_messageId job \<in> set (dp_inFlight d) then d
     else compactIfDue ops cfg at (schedulePump (d\<lparr>dp_inFlight := set_add (v_messageId job) (dp_inFlight d),
            dp_pendingQueue := dp_pendingQueue d @ [job]\<rparr>)))"

text \<open>\<open>start\<close> up to its first await, after the recovery, and after the compaction.\<close>

definition start :: "'s journal_ops \<Rightarrow> int \<Rightarrow> 's option \<Rightarrow> 's dispatcher \<Rightarrow> 's dispatcher" where
  "start ops at injected d =
    (let d1 = (case injected of None \<Rightarrow> d | Some s \<Rightarrow> d\<lparr>dp_journal := s\<rparr>) in
     if dp_active d1 then d1
     else case jo_recoverQueued ops at (dp_journal d1) of (r, s) \<Rightarrow>
       d1\<lparr>dp_active := True, dp_stopping := False, dp_journal := s, dp_starting := Recovering r\<rparr>)"

definition enqueue_new :: "message_view \<Rightarrow> 's dispatcher \<Rightarrow> 's dispatcher" where
  "enqueue_new job d = (if v_messageId job \<in> set (dp_inFlight d) then d
     else d\<lparr>dp_inFlight := set_add (v_messageId job) (dp_inFlight d), dp_pendingQueue := dp_pendingQueue d @ [job]\<rparr>)"

definition startRecovered :: "'s journal_ops \<Rightarrow> dispatcher_cfg \<Rightarrow> int \<Rightarrow> 's dispatcher \<Rightarrow> 's dispatcher" where
  "startRecovered ops cfg at d = (case dp_starting d of
      Recovering (Inl e) \<Rightarrow> d\<lparr>dp_starting := NotStarting\<rparr>
    | Recovering (Inr (toRun, uncertain)) \<Rightarrow> compactIfDue ops cfg at (fold enqueue_new toRun (d\<lparr>dp_starting := Compacting\<rparr>))
    | _ \<Rightarrow> d)"

definition startCompacted :: "'s dispatcher \<Rightarrow> 's dispatcher" where
  "startCompacted d = (if dp_starting d = Compacting then schedulePump (d\<lparr>dp_starting := NotStarting\<rparr>) else d)"

definition stop :: "'s dispatcher \<Rightarrow> 's dispatcher" where
  "stop d = (let d1 = d\<lparr>dp_stopping := True, dp_pendingQueue := [],
       dp_inFlight := fold (\<lambda>job. set_delete (v_messageId job)) (dp_pendingQueue d) (dp_inFlight d)\<rparr> in
     if dp_executions d1 = [] then d1\<lparr>dp_resolved := dp_resolved d1 + 1\<rparr>
     else d1\<lparr>dp_drainResolvers := dp_drainResolvers d1 + 1\<rparr>)"

definition dispatcher_status :: "dispatcher_cfg \<Rightarrow> 's dispatcher \<Rightarrow> nat \<times> nat \<times> int \<times> string list" where
  "dispatcher_status cfg d = (length (dp_executions d), length (dp_pendingQueue d), dc_maxConcurrent cfg, dp_activeRecipients d)"

section \<open>Runs\<close>

datatype 's dispatch_event =
    DStart int "'s option"
  | DStartRecovered int
  | DStartCompacted
  | DNotify int message_view
  | DPump int
  | DAfterClaim string
  | DOnStarted string
  | DOnTimeout string
  | DRunReturned string int string "run_result option"
  | DRunThrew int string run_error
  | DAfterPersist int string
  | DEnded string
  | DStop

fun dispatch :: "'s journal_ops \<Rightarrow> dispatcher_cfg \<Rightarrow> 's dispatch_event \<Rightarrow> 's dispatcher \<Rightarrow> 's dispatcher" where
  "dispatch ops cfg (DStart at injected) d = start ops at injected d"
| "dispatch ops cfg (DStartRecovered at) d = startRecovered ops cfg at d"
| "dispatch ops cfg DStartCompacted d = startCompacted d"
| "dispatch ops cfg (DNotify at job) d = notifyAdmission ops cfg at job d"
| "dispatch ops cfg (DPump at) d = pumpTask ops cfg at d"
| "dispatch ops cfg (DAfterClaim mid) d = afterClaim mid d"
| "dispatch ops cfg (DOnStarted mid) d = onStarted cfg mid d"
| "dispatch ops cfg (DOnTimeout mid) d = onTimeout mid d"
| "dispatch ops cfg (DRunReturned uuid at mid result) d = runReturned ops uuid at mid result d"
| "dispatch ops cfg (DRunThrew at mid err) d = runThrew ops at mid err d"
| "dispatch ops cfg (DAfterPersist at mid) d = afterPersist ops at mid d"
| "dispatch ops cfg (DEnded mid) d = executionEnded mid d"
| "dispatch ops cfg DStop d = stop d"

text \<open>
  A run interleaves events of the dispatcher with steps \<open>env\<close> of other clients of
  the journal; \<open>allow\<close> restricts the events, and what they do to the journal, that
  are considered.
\<close>

inductive dispatcher_run :: "'s journal_ops \<Rightarrow> dispatcher_cfg \<Rightarrow> ('s dispatch_event \<Rightarrow> 's \<Rightarrow> 's \<Rightarrow> bool) \<Rightarrow> ('s \<Rightarrow> 's \<Rightarrow> bool) \<Rightarrow>
    's dispatcher \<Rightarrow> 's dispatcher \<Rightarrow> bool" for ops cfg allow env d0 where
  initial: "dispatcher_run ops cfg allow env d0 d0"
| own: "dispatcher_run ops cfg allow env d0 d \<Longrightarrow> allow e (dp_journal d) (dp_journal (dispatch ops cfg e d)) \<Longrightarrow>
     dispatcher_run ops cfg allow env d0 (dispatch ops cfg e d)"
| others: "dispatcher_run ops cfg allow env d0 d \<Longrightarrow> env (dp_journal d) s \<Longrightarrow>
     dispatcher_run ops cfg allow env d0 (d\<lparr>dp_journal := s\<rparr>)"

section \<open>The control invariant\<close>

text \<open>What the control of the dispatcher depends on: everything but the stages, the journal and the logs.\<close>

definition jobs :: "'s dispatcher \<Rightarrow> (string \<times> message_view) list" where
  "jobs d = map (\<lambda>(k, x). (k, x_job x)) (dp_executions d)"

definition control where
  "control d = (dp_active d, dp_stopping d, dp_drainResolvers d, dp_pendingQueue d, dp_inFlight d, dp_activeRecipients d, jobs d,
     dp_pumpScheduled d, dp_starting d)"

definition runnable :: "'s dispatcher \<Rightarrow> bool" where
  "runnable d = (\<exists>job \<in> set (dp_pendingQueue d). v_recipient job \<notin> set (dp_activeRecipients d))"

definition placed :: "dispatcher_cfg \<Rightarrow> 's dispatcher \<Rightarrow> bool" where
  "placed cfg d \<longleftrightarrow> distinct (map fst (jobs d)) \<and> list_all (\<lambda>(k, job). v_messageId job = k) (jobs d) \<and>
     distinct (map (v_recipient \<circ> snd) (jobs d)) \<and> set (dp_activeRecipients d) = (v_recipient \<circ> snd) ` set (jobs d) \<and>
     distinct (map v_messageId (dp_pendingQueue d)) \<and> v_messageId ` set (dp_pendingQueue d) \<inter> fst ` set (jobs d) = {} \<and>
     set (dp_inFlight d) = v_messageId ` set (dp_pendingQueue d) \<union> fst ` set (jobs d) \<and>
     int (length (jobs d)) \<le> max 0 (dc_maxConcurrent cfg)"

definition attentive :: "dispatcher_cfg \<Rightarrow> 's dispatcher \<Rightarrow> bool" where
  "attentive cfg d \<longleftrightarrow> (\<not> dp_stopping d \<and> int (length (jobs d)) < dc_maxConcurrent cfg \<and> runnable d \<longrightarrow>
       dp_pumpScheduled d \<or> dp_starting d = Compacting) \<and>
     (\<not> dp_active d \<longrightarrow> dp_starting d = NotStarting \<and> (dp_stopping d \<longrightarrow> dp_pendingQueue d = []))"

definition control_inv :: "dispatcher_cfg \<Rightarrow> 's dispatcher \<Rightarrow> bool" where
  "control_inv cfg d \<longleftrightarrow> placed cfg d \<and> attentive cfg d"

lemma control_inv_cong: "control d' = control d \<Longrightarrow> control_inv cfg d' = control_inv cfg d"
  by (simp add: control_def control_inv_def placed_def attentive_def runnable_def)

lemma jobs_simps [simp]:
  "jobs (d\<lparr>dp_journal := s\<rparr>) = jobs d" "jobs (d\<lparr>dp_runs := r\<rparr>) = jobs d" "jobs (d\<lparr>dp_lastCompactionAt := t\<rparr>) = jobs d"
  "jobs (d\<lparr>dp_pumpScheduled := b\<rparr>) = jobs d" "jobs (d\<lparr>dp_starting := st\<rparr>) = jobs d" "jobs (d\<lparr>dp_active := b\<rparr>) = jobs d"
  "jobs (d\<lparr>dp_stopping := b\<rparr>) = jobs d" "jobs (d\<lparr>dp_drainResolvers := n\<rparr>) = jobs d" "jobs (d\<lparr>dp_resolved := n\<rparr>) = jobs d"
  "jobs (d\<lparr>dp_pendingQueue := q\<rparr>) = jobs d" "jobs (d\<lparr>dp_inFlight := f\<rparr>) = jobs d" "jobs (d\<lparr>dp_activeRecipients := a\<rparr>) = jobs d"
  by (simp_all add: jobs_def)

lemma jobs_Nil [simp]: "jobs d = [] \<longleftrightarrow> dp_executions d = []"
  by (simp add: jobs_def)

lemma length_jobs: "length (jobs d) = length (dp_executions d)"
  by (simp add: jobs_def)

lemma fst_jobs: "map fst (jobs d) = map fst (dp_executions d)"
  by (simp add: jobs_def case_prod_beta)

lemma set_add_simps [simp]: "set (set_add x xs) = insert x (set xs)"
  by (auto simp: set_add_def)

lemma set_delete_simps [simp]: "set (set_delete x xs) = set xs - {x}"
  by (simp add: set_delete_def)

lemma control_simps [simp]:
  "control (d\<lparr>dp_journal := s\<rparr>) = control d" "control (d\<lparr>dp_runs := r\<rparr>) = control d"
  "control (d\<lparr>dp_lastCompactionAt := t\<rparr>) = control d" "control (d\<lparr>dp_resolved := n\<rparr>) = control d"
  by (simp_all add: control_def)

lemma control_set_stage [simp]: "control (set_stage mid st d) = control d"
proof -
  have "jobs (set_stage mid st d) = jobs d" by (auto simp: jobs_def set_stage_def)
  then show ?thesis by (simp add: control_def) (simp add: set_stage_def)
qed

lemma control_compactIfDue [simp]: "control (compactIfDue ops cfg at d) = control d"
  by (simp add: compactIfDue_def control_def split: option.split)

text \<open>The continuations of an execution do not touch the control.\<close>

lemma control_continuations:
  "control (afterClaim mid d) = control d" "control (onStarted cfg mid d) = control d" "control (onTimeout mid d) = control d"
  "control (runReturned ops uuid at mid result d) = control d" "control (runThrew ops at mid err d) = control d"
  "control (afterPersist ops at mid d) = control d"
proof -
  show "control (afterClaim mid d) = control d"
    by (simp add: afterClaim_def split: option.split stage.split sum.split)
  show "control (onStarted cfg mid d) = control d" by (simp add: onStarted_def split: option.split stage.split)
  show "control (onTimeout mid d) = control d" by (simp add: onTimeout_def split: option.split stage.split bool.split)
  show "control (runReturned ops uuid at mid result d) = control d" by (simp add: runReturned_def split: option.split stage.split prod.split)
  show "control (runThrew ops at mid err d) = control d" by (simp add: runThrew_def split: option.split stage.split prod.split)
  show "control (afterPersist ops at mid d) = control d" by (simp add: afterPersist_def split: option.split stage.split prod.split sum.split)
qed

lemma update_fresh: "k \<notin> fst ` set xs \<Longrightarrow> AList.update k v xs = xs @ [(k, v)]"
  by (induction xs) auto

text \<open>Taking a job off the queue.\<close>

lemma startJob_placed:
  assumes "placed cfg d" "dp_pendingQueue d = before @ job # after" "v_recipient job \<notin> set (dp_activeRecipients d)"
    "int (length (dp_executions d)) < dc_maxConcurrent cfg"
  shows "placed cfg (startJob ops at job (before @ after) d)" "jobs (startJob ops at job (before @ after) d) = jobs d @ [(v_messageId job, job)]"
proof -
  have fresh: "v_messageId job \<notin> fst ` set (jobs d)" using assms(1,2) by (auto simp: placed_def)
  then have "v_messageId job \<notin> fst ` set (dp_executions d)" by (metis fst_jobs set_map)
  then show j: "jobs (startJob ops at job (before @ after) d) = jobs d @ [(v_messageId job, job)]"
    by (simp add: startJob_def jobs_def update_fresh split: prod.split)
  have a: "dp_activeRecipients (startJob ops at job (before @ after) d) = set_add (v_recipient job) (dp_activeRecipients d)"
    "dp_inFlight (startJob ops at job (before @ after) d) = dp_inFlight d"
    by (simp_all add: startJob_def split: prod.split)
  show "placed cfg (startJob ops at job (before @ after) d)"
    using assms fresh unfolding placed_def j a startJob_pending
    by (auto simp: length_jobs)
qed

lemma startJob_frame [simp]:
  "dp_stopping (startJob ops at job rest d) = dp_stopping d" "dp_active (startJob ops at job rest d) = dp_active d"
  "dp_starting (startJob ops at job rest d) = dp_starting d" "dp_drainResolvers (startJob ops at job rest d) = dp_drainResolvers d"
  "dp_pumpScheduled (startJob ops at job rest d) = dp_pumpScheduled d" "dp_runs (startJob ops at job rest d) = dp_runs d"
  by (simp_all add: startJob_def split: prod.split)

text \<open>The rule of the loop: an invariant of every turn holds at the end, where nothing runnable is left or no place is free.\<close>

lemma pump_loop_rule:
  assumes "I d" "\<And>d before job after. I d \<Longrightarrow> int (length (dp_executions d)) < dc_maxConcurrent cfg \<Longrightarrow>
      dp_pendingQueue d = before @ job # after \<Longrightarrow> v_recipient job \<notin> set (dp_activeRecipients d) \<Longrightarrow>
      I (startJob ops at job (before @ after) d)"
  shows "I (pump_loop ops cfg at d) \<and> \<not> (int (length (dp_executions (pump_loop ops cfg at d))) < dc_maxConcurrent cfg \<and> runnable (pump_loop ops cfg at d))"
  using assms
proof (induction ops cfg at d rule: pump_loop.induct)
  case (1 ops cfg at d)
  note step = 1(3) and I = 1(2)
  show ?case
  proof (cases "int (length (dp_executions d)) < dc_maxConcurrent cfg")
    case True
    show ?thesis
    proof (cases "List.extract (\<lambda>job. v_recipient job \<notin> set (dp_activeRecipients d)) (dp_pendingQueue d)")
      case None
      then have "\<not> runnable d" by (simp add: extract_None_iff runnable_def)
      with None True I show ?thesis by (simp add: pump_loop.simps [of ops cfg at d])
    next
      case (Some t)
      then obtain before job after where t: "t = (before, job, after)" by (cases t) auto
      with Some have q: "dp_pendingQueue d = before @ job # after" "v_recipient job \<notin> set (dp_activeRecipients d)"
        by (auto simp: extract_Some_iff)
      have "pump_loop ops cfg at d = pump_loop ops cfg at (startJob ops at job (before @ after) d)"
        using True Some unfolding t by (subst pump_loop.simps) (simp only: if_True option.case prod.case)
      moreover have "I (pump_loop ops cfg at (startJob ops at job (before @ after) d)) \<and>
          \<not> (int (length (dp_executions (pump_loop ops cfg at (startJob ops at job (before @ after) d)))) < dc_maxConcurrent cfg \<and>
             runnable (pump_loop ops cfg at (startJob ops at job (before @ after) d)))"
        by (rule 1(1) [OF True Some t [symmetric] refl step [OF I True q]]) (rule step)
      ultimately show ?thesis by simp
    qed
  next
    case False
    with I show ?thesis by (simp add: pump_loop.simps [of ops cfg at d])
  qed
qed

lemma startJob_nonempty: "dp_executions (startJob ops at job rest d) \<noteq> []"
proof -
  have "AList.update k v xs \<noteq> []" for k :: string and v :: execution and xs by (cases xs) auto
  then show ?thesis by (simp add: startJob_def split: prod.split)
qed

lemma pump_loop_frame:
  "dp_stopping (pump_loop ops cfg at d) = dp_stopping d \<and> dp_active (pump_loop ops cfg at d) = dp_active d \<and>
   dp_starting (pump_loop ops cfg at d) = dp_starting d \<and> dp_drainResolvers (pump_loop ops cfg at d) = dp_drainResolvers d \<and>
   dp_pumpScheduled (pump_loop ops cfg at d) = dp_pumpScheduled d \<and> dp_runs (pump_loop ops cfg at d) = dp_runs d \<and>
   set (dp_pendingQueue (pump_loop ops cfg at d)) \<subseteq> set (dp_pendingQueue d)"
proof -
  let ?I = "\<lambda>u. dp_stopping u = dp_stopping d \<and> dp_active u = dp_active d \<and> dp_starting u = dp_starting d \<and>
    dp_drainResolvers u = dp_drainResolvers d \<and> dp_pumpScheduled u = dp_pumpScheduled d \<and> dp_runs u = dp_runs d \<and>
    set (dp_pendingQueue u) \<subseteq> set (dp_pendingQueue d)"
  have "?I (pump_loop ops cfg at d) \<and> \<not> (int (length (dp_executions (pump_loop ops cfg at d))) < dc_maxConcurrent cfg \<and> runnable (pump_loop ops cfg at d))"
    by (rule pump_loop_rule) auto
  then show ?thesis by blast
qed

lemma pump_loop_placed:
  assumes "placed cfg d"
  shows "placed cfg (pump_loop ops cfg at d) \<and>
    \<not> (int (length (dp_executions (pump_loop ops cfg at d))) < dc_maxConcurrent cfg \<and> runnable (pump_loop ops cfg at d))"
  by (rule pump_loop_rule [where I = "placed cfg"]) (use assms startJob_placed(1) in auto)

lemma checkDrain_control:
  "control (checkDrain d) = (if dp_stopping d \<and> jobs d = [] then control (d\<lparr>dp_drainResolvers := 0\<rparr>) else control d)"
  by (simp add: checkDrain_def control_def jobs_def)

lemma drain_pump_frame [simp]:
  "dp_executions (checkDrain d) = dp_executions d" "dp_active (checkDrain d) = dp_active d" "dp_stopping (checkDrain d) = dp_stopping d"
  "dp_journal (checkDrain d) = dp_journal d" "dp_runs (checkDrain d) = dp_runs d"
  "dp_executions (schedulePump d) = dp_executions d" "dp_active (schedulePump d) = dp_active d" "dp_stopping (schedulePump d) = dp_stopping d"
  "dp_journal (schedulePump d) = dp_journal d" "dp_runs (schedulePump d) = dp_runs d"
  by (simp_all add: checkDrain_def schedulePump_def)

lemma control_inv_checkDrain:
  assumes "placed cfg d" "attentive cfg d"
  shows "control_inv cfg (checkDrain d)"
  using assms by (auto simp: checkDrain_def control_inv_def placed_def attentive_def runnable_def)

lemma control_inv_pump:
  assumes "control_inv cfg d"
  shows "control_inv cfg (pumpTask ops cfg at d)"
proof -
  let ?d = "d\<lparr>dp_pumpScheduled := False\<rparr>"
  have p: "placed cfg ?d" using assms by (simp add: control_inv_def placed_def)
  have ac: "\<not> dp_active d \<longrightarrow> dp_starting d = NotStarting \<and> (dp_stopping d \<longrightarrow> dp_pendingQueue d = [])"
    using assms by (simp add: control_inv_def attentive_def)
  have stop: "control_inv cfg (checkDrain ?d)" if "dp_stopping d"
    using p ac that by (intro control_inv_checkDrain) (auto simp: attentive_def)
  have go: "control_inv cfg (checkDrain (pump_loop ops cfg at ?d))"
    using pump_loop_placed [OF p, of ops at] pump_loop_frame [of ops cfg at ?d] ac
    by (intro control_inv_checkDrain) (auto simp: attentive_def length_jobs)
  show ?thesis using stop go assms by (simp add: pumpTask_def pump_def)
qed

lemma control_inv_ended:
  assumes "control_inv cfg d"
  shows "control_inv cfg (executionEnded mid d)"
proof (cases "map_of (dp_executions d) mid")
  case (Some x)
  let ?d = "d\<lparr>dp_executions := AList.delete mid (dp_executions d),
           dp_activeRecipients := set_delete (v_recipient (x_job x)) (dp_activeRecipients d), dp_inFlight := set_delete mid (dp_inFlight d)\<rparr>"
  have pl: "placed cfg d" and at: "attentive cfg d" using assms by (simp_all add: control_inv_def)
  have js: "jobs ?d = filter (\<lambda>p. fst p \<noteq> mid) (jobs d)"
    by (auto simp: jobs_def AList.delete_eq filter_map comp_def case_prod_beta intro!: arg_cong [of _ _ "map _"] filter_cong)
  from Some have mem: "(mid, x_job x) \<in> set (jobs d)" by (force simp: jobs_def dest: map_of_SomeD)
  have other: "v_recipient (snd p) \<noteq> v_recipient (x_job x)" if "p \<in> set (jobs d)" "fst p \<noteq> mid" for p
  proof
    assume "v_recipient (snd p) = v_recipient (x_job x)"
    moreover have "inj_on (v_recipient \<circ> snd) (set (jobs d))" using pl by (simp add: placed_def distinct_map)
    ultimately have "p = (mid, x_job x)" using mem that(1) by (auto simp: inj_on_def)
    with that(2) show False by simp
  qed
  have same: "p = (mid, x_job x)" if "p \<in> set (jobs d)" "fst p = mid" for p
  proof -
    have "inj_on fst (set (jobs d))" using pl by (simp add: placed_def distinct_map)
    from inj_onD [OF this, of p "(mid, x_job x)"] that mem show ?thesis by simp
  qed
  have rec: "set (dp_activeRecipients d) - {v_recipient (x_job x)} = (v_recipient \<circ> snd) ` set (filter (\<lambda>p. fst p \<noteq> mid) (jobs d))"
  proof (intro set_eqI iffI)
    fix y assume "y \<in> set (dp_activeRecipients d) - {v_recipient (x_job x)}"
    then obtain p where p: "p \<in> set (jobs d)" "y = v_recipient (snd p)" "y \<noteq> v_recipient (x_job x)" using pl by (auto simp: placed_def)
    have "fst p \<noteq> mid"
    proof
      assume "fst p = mid"
      with same [OF p(1)] have "snd p = x_job x" by (metis snd_conv)
      with p(2,3) show False by simp
    qed
    with p show "y \<in> (v_recipient \<circ> snd) ` set (filter (\<lambda>p. fst p \<noteq> mid) (jobs d))" by auto
  next
    fix y assume "y \<in> (v_recipient \<circ> snd) ` set (filter (\<lambda>p. fst p \<noteq> mid) (jobs d))"
    then obtain p where p: "p \<in> set (jobs d)" "fst p \<noteq> mid" "y = v_recipient (snd p)" by auto
    with other [OF p(1,2)] pl show "y \<in> set (dp_activeRecipients d) - {v_recipient (x_job x)}" by (auto simp: placed_def)
  qed
  have "mid \<notin> v_messageId ` set (dp_pendingQueue d)" 
  proof -
    have "mid \<in> fst ` set (jobs d)" using imageI [OF mem, of fst] by simp
    moreover have "v_messageId ` set (dp_pendingQueue d) \<inter> fst ` set (jobs d) = {}" using pl by (simp add: placed_def)
    ultimately show ?thesis by blast
  qed
  then have fl: "set (dp_inFlight d) - {mid} = v_messageId ` set (dp_pendingQueue d) \<union> fst ` set (filter (\<lambda>p. fst p \<noteq> mid) (jobs d))"
    using pl by (auto simp: placed_def)
  have len: "int (length (filter (\<lambda>p. fst p \<noteq> mid) (jobs d))) \<le> max 0 (dc_maxConcurrent cfg)"
  proof -
    have "int (length (filter (\<lambda>p. fst p \<noteq> mid) (jobs d))) \<le> int (length (jobs d))" by (simp only: of_nat_le_iff length_filter_le)
    also have "\<dots> \<le> max 0 (dc_maxConcurrent cfg)" using pl by (simp only: placed_def)
    finally show ?thesis .
  qed
  have "placed cfg ?d"
    using pl rec fl len unfolding placed_def js
    by (auto simp: distinct_map_filter list_all_iff)
  then have "placed cfg (schedulePump ?d)" by (simp add: schedulePump_def placed_def)
  moreover have "attentive cfg (schedulePump ?d)" using at by (auto simp: schedulePump_def attentive_def)
  ultimately have "control_inv cfg (checkDrain (schedulePump ?d))" by (rule control_inv_checkDrain)
  with Some assms show ?thesis by (simp add: executionEnded_def split: stage.split)
qed (simp add: executionEnded_def assms)

lemma control_inv_notify: "control_inv cfg d \<Longrightarrow> control_inv cfg (notifyAdmission ops cfg at job d)"
proof -
  assume inv: "control_inv cfg d"
  let ?d = "d\<lparr>dp_inFlight := set_add (v_messageId job) (dp_inFlight d), dp_pendingQueue := dp_pendingQueue d @ [job]\<rparr>"
  have "control_inv cfg (schedulePump ?d)" if "\<not> dp_stopping d" "v_messageId job \<notin> set (dp_inFlight d)"
    using inv that by (auto simp: control_inv_def placed_def attentive_def schedulePump_def)
  with inv show ?thesis
    by (simp add: notifyAdmission_def control_inv_cong [OF control_compactIfDue])
qed

lemma control_inv_enqueue:
  "control_inv cfg d \<Longrightarrow> dp_starting d = Compacting \<Longrightarrow> control_inv cfg (enqueue_new job d) \<and> dp_starting (enqueue_new job d) = Compacting"
  by (auto simp: enqueue_new_def control_inv_def placed_def attentive_def)

lemma control_inv_enqueue_all:
  "control_inv cfg d \<Longrightarrow> dp_starting d = Compacting \<Longrightarrow> control_inv cfg (fold enqueue_new toRun d)"
proof (induction toRun arbitrary: d)
  case (Cons job toRun)
  from control_inv_enqueue [OF Cons.prems, of job] Cons.IH show ?case by simp
qed simp

lemma control_inv_start:
  assumes "control_inv cfg d"
  shows "control_inv cfg (start ops at injected d)" "control_inv cfg (startRecovered ops cfg at d)" "control_inv cfg (startCompacted d)"
proof -
  have "control_inv cfg (d\<lparr>dp_active := True, dp_stopping := False, dp_starting := st\<rparr>)" if "\<not> dp_active d" for st
  proof -
    have "runnable d \<and> \<not> dp_stopping d \<and> int (length (jobs d)) < dc_maxConcurrent cfg \<Longrightarrow> dp_pumpScheduled d"
      "dp_stopping d \<Longrightarrow> \<not> runnable d"
      using assms that by (auto simp: control_inv_def attentive_def runnable_def)
    then show ?thesis using assms that by (auto simp: control_inv_def placed_def attentive_def runnable_def)
  qed
  moreover have "control (start ops at injected d) = (if dp_active d then control d
      else control (d\<lparr>dp_active := True, dp_stopping := False, dp_starting := dp_starting (start ops at injected d)\<rparr>))"
    by (simp add: start_def control_def jobs_def Let_def split: option.split prod.split)
  ultimately show "control_inv cfg (start ops at injected d)"
    using assms control_inv_cong [of "start ops at injected d"] by (metis (full_types))
  have comp: "control_inv cfg (d\<lparr>dp_starting := Compacting\<rparr>)" if "dp_active d"
    using assms that by (auto simp: control_inv_def placed_def attentive_def runnable_def)
  have act: "dp_active d" if "dp_starting d \<noteq> NotStarting" using assms that by (auto simp: control_inv_def attentive_def)
  have none: "control_inv cfg (d\<lparr>dp_starting := NotStarting\<rparr>)" if "dp_starting d = Recovering r" for r
    using assms that by (auto simp: control_inv_def placed_def attentive_def runnable_def)
  show "control_inv cfg (startRecovered ops cfg at d)"
    using assms comp act none
    by (auto simp: startRecovered_def control_inv_cong [OF control_compactIfDue] split: start_state.splits sum.splits prod.splits
        intro!: control_inv_enqueue_all)
  show "control_inv cfg (startCompacted d)"
    using assms act by (auto simp: startCompacted_def schedulePump_def control_inv_def placed_def attentive_def)
qed

lemma set_fold_delete: "set (fold (\<lambda>job. set_delete (v_messageId job)) q xs) = set xs - v_messageId ` set q"
  by (induction q arbitrary: xs) auto

lemma control_inv_stop:
  assumes "control_inv cfg d"
  shows "control_inv cfg (stop d)"
proof -
  have "set (dp_inFlight d) - v_messageId ` set (dp_pendingQueue d) = fst ` set (jobs d)"
    using assms by (auto simp: control_inv_def placed_def)
  with assms show ?thesis
    by (auto simp: stop_def Let_def control_inv_def placed_def attentive_def runnable_def set_fold_delete)
qed

lemma control_inv_dispatch: "control_inv cfg d \<Longrightarrow> control_inv cfg (dispatch ops cfg e d)"
  by (cases e) (simp_all add: control_inv_start control_inv_notify control_inv_pump control_inv_ended control_inv_stop
      control_inv_cong [OF control_continuations(1)] control_inv_cong [OF control_continuations(2)] control_inv_cong [OF control_continuations(3)]
      control_inv_cong [OF control_continuations(4)] control_inv_cong [OF control_continuations(5)] control_inv_cong [OF control_continuations(6)])

lemma control_inv_initial: "control_inv cfg (createLocalMessagingDispatcher s)"
  by (simp add: createLocalMessagingDispatcher_def control_inv_def placed_def attentive_def runnable_def jobs_def)

lemma control_inv_run: "dispatcher_run ops cfg allow env d0 d \<Longrightarrow> control_inv cfg d0 \<Longrightarrow> control_inv cfg d"
  by (induction rule: dispatcher_run.induct) (simp_all add: control_inv_dispatch control_inv_cong [OF control_simps(1)])

section \<open>Stopping\<close>

text \<open>A started dispatcher that owes the end of a \<open>stop\<close> is stopping and still has an execution.\<close>

definition drain_inv :: "'s dispatcher \<Rightarrow> bool" where
  "drain_inv d \<longleftrightarrow> dp_active d \<and> (0 < dp_drainResolvers d \<longrightarrow> dp_stopping d \<and> jobs d \<noteq> [])"

lemma drain_inv_cong: "control d' = control d \<Longrightarrow> drain_inv d' = drain_inv d"
  by (simp add: control_def drain_inv_def)

lemma control_enqueue_all [simp]:
  "dp_active (fold enqueue_new q d) = dp_active d" "dp_stopping (fold enqueue_new q d) = dp_stopping d"
  "dp_drainResolvers (fold enqueue_new q d) = dp_drainResolvers d" "dp_executions (fold enqueue_new q d) = dp_executions d"
  by (induction q arbitrary: d) (simp_all add: enqueue_new_def)

lemma compactIfDue_frame [simp]:
  "dp_active (compactIfDue ops cfg at d) = dp_active d" "dp_stopping (compactIfDue ops cfg at d) = dp_stopping d"
  "dp_drainResolvers (compactIfDue ops cfg at d) = dp_drainResolvers d" "dp_executions (compactIfDue ops cfg at d) = dp_executions d"
  "dp_runs (compactIfDue ops cfg at d) = dp_runs d"
  by (simp_all add: compactIfDue_def split: option.split)

lemma pump_loop_grows: "dp_executions d \<noteq> [] \<Longrightarrow> dp_executions (pump_loop ops cfg at d) \<noteq> []"
proof -
  assume ne: "dp_executions d \<noteq> []"
  have "dp_executions (pump_loop ops cfg at d) \<noteq> [] \<and> \<not> (int (length (dp_executions (pump_loop ops cfg at d))) < dc_maxConcurrent cfg \<and> runnable (pump_loop ops cfg at d))"
    by (rule pump_loop_rule) (simp_all add: ne startJob_nonempty)
  then show ?thesis by blast
qed

lemma drain_inv_dispatch: "drain_inv d \<Longrightarrow> drain_inv (dispatch ops cfg e d)"
proof (cases e)
  case (DPump at)
  assume d: "drain_inv d"
  with pump_loop_frame [of ops cfg at "d\<lparr>dp_pumpScheduled := False\<rparr>"] pump_loop_grows [of "d\<lparr>dp_pumpScheduled := False\<rparr>" ops cfg at]
  show ?thesis by (auto simp: DPump pumpTask_def pump_def checkDrain_def drain_inv_def)
next
  case (DEnded mid)
  assume "drain_inv d"
  then show ?thesis
    by (auto simp: DEnded executionEnded_def checkDrain_def schedulePump_def drain_inv_def split: option.split stage.split)
qed (auto simp: drain_inv_cong [OF control_continuations(1)] drain_inv_cong [OF control_continuations(2)] drain_inv_cong [OF control_continuations(3)]
      drain_inv_cong [OF control_continuations(4)] drain_inv_cong [OF control_continuations(5)] drain_inv_cong [OF control_continuations(6)],
    auto simp: drain_inv_def start_def startRecovered_def startCompacted_def notifyAdmission_def stop_def schedulePump_def Let_def
      split: option.splits start_state.splits sum.splits)

lemma drain_inv_run: "dispatcher_run ops cfg allow env d0 d \<Longrightarrow> drain_inv d0 \<Longrightarrow> drain_inv d"
  by (induction rule: dispatcher_run.induct) (simp_all add: drain_inv_dispatch drain_inv_cong [OF control_simps(1)])

definition winds_down :: "'s dispatcher \<Rightarrow> 's dispatcher \<Rightarrow> bool" where
  "winds_down d d' \<longleftrightarrow> dp_active d' \<and> dp_stopping d' \<and> set (jobs d') \<subseteq> set (jobs d)"

lemma winds_down_control: "control d' = control d \<Longrightarrow> dp_active d \<Longrightarrow> dp_stopping d \<Longrightarrow> winds_down d d'"
  by (simp add: control_def winds_down_def)

lemma jobs_mono: "set (dp_executions d') \<subseteq> set (dp_executions d) \<Longrightarrow> set (jobs d') \<subseteq> set (jobs d)"
  by (auto simp: jobs_def)

lemma stopping_dispatch:
  assumes "dp_active d" "dp_stopping d"
  shows "winds_down d (dispatch ops cfg e d)"
proof (cases e)
  case (DEnded mid)
  show ?thesis
  proof (cases "\<exists>x acc. map_of (dp_executions d) mid = Some x \<and> x_stage x = Finishing acc")
    case True
    then have "set (dp_executions (executionEnded mid d)) \<subseteq> set (dp_executions d)"
      "dp_active (executionEnded mid d) = dp_active d" "dp_stopping (executionEnded mid d) = dp_stopping d"
      by (auto simp: executionEnded_def AList.delete_eq)
    with assms show ?thesis by (simp add: DEnded jobs_mono winds_down_def)
  next
    case False
    then have "executionEnded mid d = d" by (auto simp: executionEnded_def split: option.splits stage.splits)
    with assms show ?thesis by (simp add: DEnded winds_down_def)
  qed
qed ((use assms in \<open>simp add: control_continuations [THEN winds_down_control]\<close>; fail) |
    (use assms in \<open>auto simp: winds_down_def start_def startRecovered_def startCompacted_def notifyAdmission_def stop_def pumpTask_def pump_def
      Let_def jobs_def split: option.splits start_state.splits sum.splits\<close>; fail))+

lemma winds_down_run:
  "dispatcher_run ops cfg allow env d0 d \<Longrightarrow> dp_active d0 \<Longrightarrow> dp_stopping d0 \<Longrightarrow> winds_down d0 d"
proof (induction rule: dispatcher_run.induct)
  case (own d e)
  then have "winds_down d0 d" by simp
  with stopping_dispatch [of d ops cfg e] show ?case by (auto simp: winds_down_def)
qed (simp_all add: winds_down_def)

section \<open>What the dispatcher needs of the journal\<close>

text \<open>
  The contract between the dispatcher and the journal it is given.  \<open>env\<close> are the
  steps any client can make; the operations of the dispatcher are such steps.  A
  message that has left the queue never returns to it and never starts again while
  its record is present; a claim is granted only for a message in the queue and takes
  it out; an accepted outcome leaves the message not busy.
\<close>

locale runner_journal =
  fixes ops :: "'s journal_ops"
    and ok :: "'s \<Rightarrow> bool"
    and env :: "'s \<Rightarrow> 's \<Rightarrow> bool"
    and present :: "string \<Rightarrow> 's \<Rightarrow> bool"
    and left_queue :: "string \<Rightarrow> 's \<Rightarrow> bool"
    and busy :: "string \<Rightarrow> 's \<Rightarrow> bool"
  assumes recover_env: "env s (snd (jo_recoverQueued ops now s))"
    and claim_env: "env s (snd (jo_claimExecution ops now mid s))"
    and failure_env: "env s (snd (jo_recordExecutionFailure ops now mid reason err s))"
    and hold_env: "env s (snd (jo_holdExecution ops now mid reason late s))"
    and complete_env: "env s (snd (jo_completeExecutionWithReply ops now1 now2 e s))"
    and compact_env: "jo_compact ops = Some f \<Longrightarrow> env s (snd (f now s))"
    and env_ok: "env s s' \<Longrightarrow> ok s \<Longrightarrow> ok s'"
    and left_present: "left_queue mid s \<Longrightarrow> present mid s"
    and left_env: "env s s' \<Longrightarrow> ok s \<Longrightarrow> left_queue mid s \<Longrightarrow> present mid s' \<Longrightarrow> left_queue mid s'"
    and idle_env: "env s s' \<Longrightarrow> ok s \<Longrightarrow> left_queue mid s \<Longrightarrow> \<not> busy mid s \<Longrightarrow> present mid s' \<Longrightarrow> \<not> busy mid s'"
    and claim_keeps: "ok s \<Longrightarrow> present mid s \<Longrightarrow> present mid (snd (jo_claimExecution ops now k s))"
    and claim_grants: "ok s \<Longrightarrow> fst (jo_claimExecution ops now mid s) = Inr (Some v) \<Longrightarrow>
      v_messageId v = mid \<and> \<not> left_queue mid s \<and> left_queue mid (snd (jo_claimExecution ops now mid s))"
    and failure_settles: "ok s \<Longrightarrow> jo_recordExecutionFailure ops now mid reason err s = (Inr x, s') \<Longrightarrow> \<not> busy mid s'"
    and hold_settles: "ok s \<Longrightarrow> jo_holdExecution ops now mid reason late s = (Inr x, s') \<Longrightarrow> \<not> busy mid s'"
    and complete_settles: "ok s \<Longrightarrow> e_inReplyTo e = Some mid \<Longrightarrow> jo_completeExecutionWithReply ops now1 now2 e s = (Inr y, s') \<Longrightarrow> \<not> busy mid s'"
begin

definition stage_of where
  "stage_of mid d = map_option x_stage (map_of (dp_executions d) mid)"

text \<open>What is known of message \<open>mid\<close> when its execution is in a stage.\<close>

definition stage_inv where
  "stage_inv mid st s \<longleftrightarrow> (case st of
      Claiming (Inr (Some v)) \<Rightarrow> v_messageId v = mid \<and> left_queue mid s
    | Running v armed timedOut \<Rightarrow> v_messageId v = mid \<and> left_queue mid s
    | Persisting v (Inr _) \<Rightarrow> left_queue mid s \<and> \<not> busy mid s
    | Persisting v (Inl _) \<Rightarrow> v_messageId v = mid \<and> left_queue mid s
    | Finishing Settled \<Rightarrow> left_queue mid s \<and> \<not> busy mid s
    | _ \<Rightarrow> True)"

definition granted_pending where
  "granted_pending mid d \<longleftrightarrow> (\<exists>v. stage_of mid d = Some (Claiming (Inr (Some v))))"

definition once_inv where
  "once_inv mid d \<longleftrightarrow> ok (dp_journal d) \<and> (\<forall>st. stage_of mid d = Some st \<longrightarrow> stage_inv mid st (dp_journal d)) \<and>
     (mid \<in> set (dp_runs d) \<longrightarrow> left_queue mid (dp_journal d)) \<and> \<not> (mid \<in> set (dp_runs d) \<and> granted_pending mid d) \<and>
     count_list (dp_runs d) mid \<le> 1"

lemma stage_inv_env:
  assumes "env s s'" "ok s" "present mid s \<Longrightarrow> present mid s'" "stage_inv mid st s"
  shows "stage_inv mid st s'"
proof -
  have l: "left_queue mid s'" if "left_queue mid s"
    using left_env [OF assms(1,2) that assms(3) [OF left_present [OF that]]] .
  have i: "\<not> busy mid s'" if "left_queue mid s" "\<not> busy mid s"
    using idle_env [OF assms(1,2) that assms(3) [OF left_present [OF that(1)]]] .
  show ?thesis using assms(4) l i by (auto simp: stage_inv_def split: stage.splits sum.splits option.splits ending.splits)
qed

text \<open>A step of the journal that leaves the dispatcher alone.\<close>

lemma once_inv_journal:
  assumes "once_inv mid d" "env (dp_journal d) s'" "present mid (dp_journal d) \<Longrightarrow> present mid s'"
    "dp_executions d' = dp_executions d" "dp_runs d' = dp_runs d" "dp_journal d' = s'"
  shows "once_inv mid d'"
proof -
  from assms(1) have ok: "ok (dp_journal d)" by (simp add: once_inv_def)
  have st: "stage_of mid d' = stage_of mid d" by (simp add: stage_of_def assms)
  have l: "left_queue mid s'" if "left_queue mid (dp_journal d)"
    using left_env [OF assms(2) ok that assms(3) [OF left_present [OF that]]] .
  show ?thesis
    using assms(1) l stage_inv_env [OF assms(2) ok assms(3)] env_ok [OF assms(2) ok]
    by (auto simp: once_inv_def st granted_pending_def assms)
qed

lemma once_inv_same:
  "once_inv mid d \<Longrightarrow> dp_executions d' = dp_executions d \<Longrightarrow> dp_runs d' = dp_runs d \<Longrightarrow> dp_journal d' = dp_journal d \<Longrightarrow> once_inv mid d'"
  by (simp add: once_inv_def granted_pending_def stage_of_def)

lemma once_inv_claim:
  assumes inv: "once_inv mid d"
  shows "once_inv mid (startJob ops now job rest d)"
proof -
  let ?s = "dp_journal d" and ?k = "v_messageId job"
  obtain c s' where c: "jo_claimExecution ops now ?k ?s = (c, s')" by force
  from inv have ok: "ok ?s" by (simp add: once_inv_def)
  have env: "env ?s s'" using claim_env [of ?s now ?k] c by simp
  have keep: "present mid ?s \<Longrightarrow> present mid s'" using claim_keeps [OF ok, of mid now ?k] c by simp
  let ?d = "startJob ops now job rest d"
  have f: "dp_journal ?d = s'" "dp_runs ?d = dp_runs d" "map_of (dp_executions ?d) = (map_of (dp_executions d))(?k \<mapsto> \<lparr>x_job = job, x_stage = Claiming c\<rparr>)"
    by (simp_all add: startJob_def c update_conv')
  have l: "left_queue mid s'" if "left_queue mid ?s"
    using left_env [OF env ok that keep [OF left_present [OF that]]] .
  show ?thesis
  proof (cases "?k = mid")
    case False
    then have "stage_of mid ?d = stage_of mid d" by (simp add: stage_of_def f)
    then show ?thesis using inv l stage_inv_env [OF env ok keep] env_ok [OF env ok] by (auto simp: once_inv_def f granted_pending_def)
  next
    case True
    then have st: "stage_of mid ?d = Some (Claiming c)" by (simp add: stage_of_def f)
    show ?thesis
    proof (cases "\<exists>v. c = Inr (Some v)")
      case True
      then obtain v where v: "c = Inr (Some v)" by blast
      with claim_grants [OF ok, of now mid v] c \<open>?k = mid\<close> have g: "v_messageId v = mid" "\<not> left_queue mid ?s" "left_queue mid s'" by simp_all
      with inv have "mid \<notin> set (dp_runs d)" by (auto simp: once_inv_def)
      with g show ?thesis using inv env_ok [OF env ok] by (auto simp: once_inv_def st f stage_inv_def v)
    next
      case False
      then have "stage_inv mid (Claiming c) s'" by (auto simp: stage_inv_def split: sum.splits option.splits)
      with False show ?thesis using inv l env_ok [OF env ok] by (auto simp: once_inv_def st f granted_pending_def)
    qed
  qed
qed

lemma map_of_stage: "map_of (map (\<lambda>(k, x). (k, if k = m then x\<lparr>x_stage := st\<rparr> else x)) xs) k =
    (if k = m then map_option (\<lambda>x. x\<lparr>x_stage := st\<rparr>) (map_of xs k) else map_of xs k)"
  by (induction xs) auto

lemma stage_of_set_stage:
  "stage_of k (set_stage m st d) = (if k = m then map_option (\<lambda>_. st) (stage_of k d) else stage_of k d)"
  by (simp add: stage_of_def set_stage_def map_of_stage option.map_comp comp_def)

lemma set_stage_frame [simp]: "dp_journal (set_stage m st d) = dp_journal d" "dp_runs (set_stage m st d) = dp_runs d"
  by (simp_all add: set_stage_def)

lemma stage_of_frame [simp]: "stage_of k (d\<lparr>dp_journal := s\<rparr>) = stage_of k d" "stage_of k (d\<lparr>dp_runs := r\<rparr>) = stage_of k d"
  by (simp_all add: stage_of_def)

text \<open>An execution moves to a stage that is not a granted claim, for which the invariant is known.\<close>

lemma once_inv_set_stage:
  assumes "once_inv mid d" "m = mid \<Longrightarrow> stage_inv mid st (dp_journal d)" "\<And>r. st \<noteq> Claiming r"
  shows "once_inv mid (set_stage m st d)"
  using assms by (auto simp: once_inv_def granted_pending_def stage_of_set_stage split: if_splits)

lemma once_inv_afterClaim:
  assumes inv: "once_inv mid d"
  shows "once_inv mid (afterClaim m d)"
proof (cases "\<exists>v. stage_of m d = Some (Claiming (Inr (Some v)))")
  case True
  then obtain v where v: "stage_of m d = Some (Claiming (Inr (Some v)))" by blast
  then have eq: "afterClaim m d = set_stage m (Running v False False) (d\<lparr>dp_runs := dp_runs d @ [m]\<rparr>)"
    by (simp add: afterClaim_def flip: stage_of_def)
  show ?thesis
  proof (cases "m = mid")
    case True
    with v inv have "stage_inv mid (Claiming (Inr (Some v))) (dp_journal d)" "mid \<notin> set (dp_runs d)"
      by (auto simp: once_inv_def granted_pending_def)
    with inv True v show ?thesis unfolding eq
      by (auto simp: once_inv_def granted_pending_def stage_of_set_stage stage_inv_def count_list_append)
  next
    case False
    with inv show ?thesis unfolding eq
      by (auto simp: once_inv_def granted_pending_def stage_of_set_stage count_list_append)
  qed
next
  case False
  then have "afterClaim m d = d \<or> afterClaim m d = set_stage m (Finishing NotClaimed) d"
    by (auto simp: afterClaim_def stage_of_def split: option.splits stage.splits sum.splits)
  moreover have "once_inv mid (set_stage m (Finishing NotClaimed) d)"
    by (rule once_inv_set_stage [OF inv]) (simp_all add: stage_inv_def)
  ultimately show ?thesis using inv by auto
qed

lemma once_inv_timer:
  assumes inv: "once_inv mid d"
  shows "once_inv mid (onStarted cfg m d)" "once_inv mid (onTimeout m d)"
proof -
  have run: "once_inv mid (set_stage m (Running v a b) d)" if "stage_of m d = Some (Running v a' b')" for v a b a' b'
    using that inv by (intro once_inv_set_stage [OF inv]) (auto simp: once_inv_def stage_inv_def)
  show "once_inv mid (onStarted cfg m d)"
    using inv run by (auto simp: onStarted_def stage_of_def split: option.splits stage.splits)
  show "once_inv mid (onTimeout m d)"
    using inv run by (auto simp: onTimeout_def stage_of_def split: option.splits stage.splits bool.splits)
qed

text \<open>A journal call on behalf of execution \<open>m\<close>, followed by its next stage.\<close>

lemma once_inv_call:
  assumes inv: "once_inv mid d" and env: "env (dp_journal d) s'" and keep: "present mid (dp_journal d) \<Longrightarrow> present mid s'"
    and st: "m = mid \<Longrightarrow> stage_inv mid st s'" "\<And>r. st \<noteq> Claiming r"
  shows "once_inv mid (set_stage m st (d\<lparr>dp_journal := s'\<rparr>))"
proof (rule once_inv_set_stage)
  show "once_inv mid (d\<lparr>dp_journal := s'\<rparr>)" by (rule once_inv_journal [OF inv env keep]) simp_all
qed (use st in simp_all)

lemma forget_simps: "fst (forget f s) = Inr x \<longleftrightarrow> \<not> isl (fst (f s))" "snd (forget f s) = snd (f s)"
  by (cases "f s"; cases "fst (f s)"; simp add: forget_def)+

lemma persist_env: "env s (snd (persist ops uuid at job timedOut result s))"
  by (auto simp: persist_def forget_simps hold_env complete_env split: option.split)

lemma persist_settles:
  assumes "ok s" "persist ops uuid at job timedOut result s = (Inr x, s')"
  shows "\<not> busy (v_messageId job) s'"
proof -
  have h: "\<not> busy (v_messageId job) s'" if "forget (jo_holdExecution ops at (v_messageId job) reason late) s = (Inr x, s')" for reason late
    using that hold_settles [OF assms(1)] by (auto simp: forget_def split: prod.splits sum.splits)
  have c: "\<not> busy (v_messageId job) s'" if "forget (jo_completeExecutionWithReply ops at at (runner_reply uuid job r)) s = (Inr x, s')" for r
    using that complete_settles [OF assms(1), of "runner_reply uuid job r" "v_messageId job"]
    by (auto simp: forget_def runner_reply_def split: prod.splits sum.splits)
  show ?thesis using assms(2) h c by (auto simp: persist_def split: if_splits option.splits)
qed

lemma once_inv_left:
  assumes "once_inv mid d" "stage_of mid d = Some (Running v a b) \<or> stage_of mid d = Some (Persisting v (Inl e))"
    "env (dp_journal d) s'" "present mid (dp_journal d) \<Longrightarrow> present mid s'"
  shows "v_messageId v = mid" "left_queue mid s'" "ok (dp_journal d)"
proof -
  from assms(1,2) show *: "v_messageId v = mid" "ok (dp_journal d)" by (auto simp: once_inv_def stage_inv_def)
  from assms(1,2) have l: "left_queue mid (dp_journal d)" by (auto simp: once_inv_def stage_inv_def)
  show "left_queue mid s'" using left_env [OF assms(3) *(2) l assms(4) [OF left_present [OF l]]] .
qed

lemma once_inv_runReturned:
  assumes inv: "once_inv mid d" and keep: "present mid (dp_journal d) \<Longrightarrow> present mid (dp_journal (runReturned ops uuid at m result d))"
  shows "once_inv mid (runReturned ops uuid at m result d)"
proof (cases "\<exists>v a b. stage_of m d = Some (Running v a b)")
  case True
  then obtain v a b where v: "stage_of m d = Some (Running v a b)" by blast
  obtain r s' where p: "persist ops uuid at v b result (dp_journal d) = (r, s')" by force
  have eq: "runReturned ops uuid at m result d = set_stage m (Persisting v r) (d\<lparr>dp_journal := s'\<rparr>)"
    using v p by (simp add: runReturned_def flip: stage_of_def)
  have env: "env (dp_journal d) s'" using persist_env [of "dp_journal d" uuid at v b result] p by simp
  have keep': "present mid (dp_journal d) \<Longrightarrow> present mid s'" using keep by (simp add: eq)
  show ?thesis unfolding eq
  proof (rule once_inv_call [OF inv env keep'])
    assume m: "m = mid"
    have f: "v_messageId v = mid" "left_queue mid s'" "ok (dp_journal d)"
      using once_inv_left [OF inv _ env keep', of v a b] v m by auto
    with persist_settles [OF f(3)] p show "stage_inv mid (Persisting v r) s'" by (auto simp: stage_inv_def split: sum.split)
  qed simp_all
next
  case False
  then have "runReturned ops uuid at m result d = d" by (auto simp: runReturned_def stage_of_def split: option.splits stage.splits)
  with inv show ?thesis by simp
qed

lemma once_inv_failure:
  assumes inv: "once_inv mid d" and st: "stage_of m d = Some (Running v a b) \<or> stage_of m d = Some (Persisting v (Inl e))"
    and f: "jo_recordExecutionFailure ops at (v_messageId v) reason err (dp_journal d) = (r, s')"
    and keep: "present mid (dp_journal d) \<Longrightarrow> present mid s'"
  shows "once_inv mid (set_stage m (Finishing (if isl r then Unsettled else Settled)) (d\<lparr>dp_journal := s'\<rparr>))"
proof -
  have env: "env (dp_journal d) s'" using failure_env [of "dp_journal d" at "v_messageId v" reason err] f by simp
  show ?thesis
  proof (rule once_inv_call [OF inv env keep])
    assume m: "m = mid"
    have g: "v_messageId v = mid" "left_queue mid s'" "ok (dp_journal d)"
      using once_inv_left [OF inv _ env keep, of v a b e] st m by auto
    then have "\<not> busy mid s'" if "\<not> isl r" using that f failure_settles [OF g(3)] by (cases r) auto
    with g show "stage_inv mid (Finishing (if isl r then Unsettled else Settled)) s'" by (simp add: stage_inv_def)
  qed simp_all
qed

lemma once_inv_runThrew:
  assumes inv: "once_inv mid d" and keep: "present mid (dp_journal d) \<Longrightarrow> present mid (dp_journal (runThrew ops at m err d))"
  shows "once_inv mid (runThrew ops at m err d)"
proof (cases "\<exists>v a b. stage_of m d = Some (Running v a b)")
  case True
  then obtain v a b where v: "stage_of m d = Some (Running v a b)" by blast
  obtain r s' where p: "jo_recordExecutionFailure ops at (v_messageId v) (if is_timeout b err then ''runner_timeout'' else ''runtime_error'')
      (Some (runtime_error err)) (dp_journal d) = (r, s')" by force
  have eq: "runThrew ops at m err d = set_stage m (Finishing (if isl r then Unsettled else Settled)) (d\<lparr>dp_journal := s'\<rparr>)"
    using v p by (simp add: runThrew_def flip: stage_of_def)
  show ?thesis unfolding eq by (rule once_inv_failure [OF inv _ p]) (use v keep eq in auto)
next
  case False
  then have "runThrew ops at m err d = d" by (auto simp: runThrew_def stage_of_def split: option.splits stage.splits)
  with inv show ?thesis by simp
qed

lemma once_inv_afterPersist:
  assumes inv: "once_inv mid d" and keep: "present mid (dp_journal d) \<Longrightarrow> present mid (dp_journal (afterPersist ops at m d))"
  shows "once_inv mid (afterPersist ops at m d)"
proof (cases "\<exists>v e. stage_of m d = Some (Persisting v (Inl e))")
  case True
  then obtain v e where v: "stage_of m d = Some (Persisting v (Inl e))" by blast
  obtain r s' where p: "jo_recordExecutionFailure ops at (v_messageId v) ''persistence_failure'' (Some (error_text e)) (dp_journal d) = (r, s')" by force
  have eq: "afterPersist ops at m d = set_stage m (Finishing (if isl r then Unsettled else Settled)) (d\<lparr>dp_journal := s'\<rparr>)"
    using v p by (simp add: afterPersist_def flip: stage_of_def)
  show ?thesis unfolding eq by (rule once_inv_failure [OF inv _ p]) (use v keep eq in auto)
next
  case False
  then have "afterPersist ops at m d = d \<or> (\<exists>v. stage_of m d = Some (Persisting v (Inr ())) \<and> afterPersist ops at m d = set_stage m (Finishing Settled) d)"
    by (auto simp: afterPersist_def stage_of_def split: option.splits stage.splits sum.splits)
  moreover have "once_inv mid (set_stage m (Finishing Settled) d)" if "stage_of m d = Some (Persisting v (Inr ()))" for v
    using that inv by (intro once_inv_set_stage [OF inv]) (auto simp: once_inv_def stage_inv_def)
  ultimately show ?thesis using inv by auto
qed

lemma once_inv_pump: "once_inv mid d \<Longrightarrow> once_inv mid (pumpTask ops cfg at d)"
proof -
  assume inv: "once_inv mid d"
  have "once_inv mid (pump_loop ops cfg at u) \<and> \<not> (int (length (dp_executions (pump_loop ops cfg at u))) < dc_maxConcurrent cfg \<and> runnable (pump_loop ops cfg at u))"
    if "once_inv mid u" for u
    by (rule pump_loop_rule) (simp_all add: that once_inv_claim)
  moreover have "once_inv mid (d\<lparr>dp_pumpScheduled := False\<rparr>)" by (rule once_inv_same [OF inv]) simp_all
  ultimately have "once_inv mid (pump_loop ops cfg at (d\<lparr>dp_pumpScheduled := False\<rparr>))" by blast
  then have "once_inv mid (checkDrain (pump_loop ops cfg at (d\<lparr>dp_pumpScheduled := False\<rparr>)))" by (rule once_inv_same) simp_all
  moreover have "once_inv mid (checkDrain (d\<lparr>dp_pumpScheduled := False\<rparr>))" by (rule once_inv_same [OF inv]) simp_all
  ultimately show ?thesis using inv by (simp add: pumpTask_def pump_def)
qed

lemma once_inv_compactIfDue:
  assumes "once_inv mid d" "present mid (dp_journal d) \<Longrightarrow> present mid (dp_journal (compactIfDue ops cfg at d))"
  shows "once_inv mid (compactIfDue ops cfg at d)"
proof (cases "dp_journal (compactIfDue ops cfg at d) = dp_journal d")
  case True
  then show ?thesis by (intro once_inv_same [OF assms(1)]) simp_all
next
  case False
  then obtain f where "jo_compact ops = Some f" "dp_journal (compactIfDue ops cfg at d) = snd (f at (dp_journal d))"
    by (auto simp: compactIfDue_def split: option.splits if_splits)
  with compact_env [of f "dp_journal d" at] show ?thesis by (intro once_inv_journal [OF assms(1) _ assms(2)]) simp_all
qed

lemma enqueue_frame [simp]: "dp_journal (fold enqueue_new q d) = dp_journal d" "dp_runs (fold enqueue_new q d) = dp_runs d"
  by (induction q arbitrary: d) (simp_all add: enqueue_new_def)

lemma once_inv_admit:
  assumes inv: "once_inv mid d"
    and keep: "present mid (dp_journal d) \<Longrightarrow> present mid (dp_journal (notifyAdmission ops cfg at job d))"
  shows "once_inv mid (notifyAdmission ops cfg at job d)"
proof -
  let ?d = "schedulePump (d\<lparr>dp_inFlight := set_add (v_messageId job) (dp_inFlight d), dp_pendingQueue := dp_pendingQueue d @ [job]\<rparr>)"
  have d: "once_inv mid ?d" by (rule once_inv_same [OF inv]) simp_all
  show ?thesis
  proof (cases "v_messageId job = [] \<or> v_recipient job = [] \<or> dp_stopping d \<or> v_messageId job \<in> set (dp_inFlight d)")
    case False
    then have eq: "notifyAdmission ops cfg at job d = compactIfDue ops cfg at ?d" by (simp add: notifyAdmission_def)
    show ?thesis unfolding eq by (rule once_inv_compactIfDue [OF d]) (use keep eq in simp)
  qed (use inv in \<open>auto simp: notifyAdmission_def\<close>)
qed

lemma once_inv_start:
  assumes inv: "once_inv mid d"
  shows "(present mid (dp_journal d) \<Longrightarrow> present mid (dp_journal (start ops at None d))) \<Longrightarrow> once_inv mid (start ops at None d)"
    and "(present mid (dp_journal d) \<Longrightarrow> present mid (dp_journal (startRecovered ops cfg at d))) \<Longrightarrow> once_inv mid (startRecovered ops cfg at d)"
    and "once_inv mid (startCompacted d)" "once_inv mid (stop d)"
proof -
  show "once_inv mid (start ops at None d)" if keep: "present mid (dp_journal d) \<Longrightarrow> present mid (dp_journal (start ops at None d))"
  proof (cases "dp_active d")
    case False
    obtain r s' where r: "jo_recoverQueued ops at (dp_journal d) = (r, s')" by force
    have j: "dp_journal (start ops at None d) = s'" using False r by (simp add: start_def)
    have env: "env (dp_journal d) s'" using recover_env [of "dp_journal d" at] r by simp
    show ?thesis by (rule once_inv_journal [OF inv env]) (use keep j False r in \<open>simp_all add: start_def\<close>)
  qed (simp add: start_def inv)
  show "once_inv mid (startRecovered ops cfg at d)"
    if keep: "present mid (dp_journal d) \<Longrightarrow> present mid (dp_journal (startRecovered ops cfg at d))"
  proof (cases "\<exists>toRun uncertain. dp_starting d = Recovering (Inr (toRun, uncertain))")
    case True
    then obtain toRun uncertain where eq: "startRecovered ops cfg at d = compactIfDue ops cfg at (fold enqueue_new toRun (d\<lparr>dp_starting := Compacting\<rparr>))"
      by (auto simp: startRecovered_def)
    have "once_inv mid (fold enqueue_new toRun (d\<lparr>dp_starting := Compacting\<rparr>))" by (rule once_inv_same [OF inv]) simp_all
    then show ?thesis unfolding eq by (rule once_inv_compactIfDue) (use keep eq in simp)
  next
    case False
    then have "startRecovered ops cfg at d = d \<or> startRecovered ops cfg at d = d\<lparr>dp_starting := NotStarting\<rparr>"
      by (auto simp: startRecovered_def split: start_state.splits sum.splits)
    then show ?thesis using inv once_inv_same [OF inv, of "d\<lparr>dp_starting := NotStarting\<rparr>"] by auto
  qed
  show "once_inv mid (startCompacted d)" by (rule once_inv_same [OF inv]) (simp_all add: startCompacted_def)
  show "once_inv mid (stop d)" by (rule once_inv_same [OF inv]) (simp_all add: stop_def Let_def)
qed

lemma once_inv_ended: "once_inv mid d \<Longrightarrow> once_inv mid (executionEnded m d)"
proof -
  assume inv: "once_inv mid d"
  have f: "dp_journal (executionEnded m d) = dp_journal d" "dp_runs (executionEnded m d) = dp_runs d"
    and st: "stage_of mid (executionEnded m d) = stage_of mid d \<or> stage_of mid (executionEnded m d) = None"
    by (auto simp: executionEnded_def stage_of_def delete_conv' split: option.split stage.split)
  from st show ?thesis
  proof
    assume "stage_of mid (executionEnded m d) = stage_of mid d"
    with inv f show ?thesis by (simp add: once_inv_def granted_pending_def)
  qed (use inv f in \<open>simp add: once_inv_def granted_pending_def\<close>)
qed

lemma once_inv_dispatch:
  assumes "once_inv mid d" "\<And>at s. e \<noteq> DStart at (Some s)"
    "present mid (dp_journal d) \<Longrightarrow> present mid (dp_journal (dispatch ops cfg e d))"
  shows "once_inv mid (dispatch ops cfg e d)"
proof (cases e)
  case (DStart at injected)
  with assms(2) have "injected = None" by (cases injected) auto
  with DStart assms(1,3) show ?thesis by (simp add: once_inv_start(1))
qed (use assms in \<open>simp_all add: once_inv_start once_inv_admit once_inv_pump once_inv_afterClaim once_inv_timer
    once_inv_runReturned once_inv_runThrew once_inv_afterPersist once_inv_ended\<close>)

text \<open>Over every run in which no event and no other client retires the record of \<open>mid\<close>.\<close>

lemma once_inv_run:
  assumes "dispatcher_run ops cfg (\<lambda>e s s'. (\<forall>at j. e \<noteq> DStart at (Some j)) \<and> (present mid s \<longrightarrow> present mid s'))
      (\<lambda>s s'. env s s' \<and> (present mid s \<longrightarrow> present mid s')) d0 d" "once_inv mid d0"
  shows "once_inv mid d"
  using assms
proof (induction rule: dispatcher_run.induct)
  case (own d e)
  show ?case by (rule once_inv_dispatch [OF own(3) [OF own(4)]]) (use own(2) in blast)+
next
  case (others d s)
  show ?case by (rule once_inv_journal [OF others(3) [OF others(4)], of s]) (use others(2) in simp_all)
qed

lemma once_inv_initial: "ok s \<Longrightarrow> once_inv mid (createLocalMessagingDispatcher s)"
  by (simp add: once_inv_def createLocalMessagingDispatcher_def stage_of_def granted_pending_def)

lemma runs_at_most_once: "once_inv mid d \<Longrightarrow> count_list (dp_runs d) mid \<le> 1"
  by (simp add: once_inv_def)

lemma settled_not_busy:
  "once_inv mid d \<Longrightarrow> map_of (dp_executions d) mid = Some x \<Longrightarrow> x_stage x = Finishing Settled \<Longrightarrow> \<not> busy mid (dp_journal d)"
  by (auto simp: once_inv_def stage_of_def stage_inv_def)

end

end
