(* ===== verification/Journal_Dispatch.thy ===== *)
theory Journal_Dispatch
  imports Dispatcher
begin

text \<open>
  The dispatcher on the journal of this development: the journal keeps the
  contract \<open>runner_journal\<close>, against every other client that calls any operation of
  the journal at any time, and the properties of the dispatcher that rest on it.
\<close>

section \<open>The journal keeps the contract\<close>

definition journal_ops_of :: "node_env \<Rightarrow> journal_cfg \<Rightarrow> journal journal_ops" where
  "journal_ops_of E C = \<lparr>jo_recoverQueued = recoverQueued, jo_claimExecution = claimExecution,
     jo_recordExecutionFailure = recordExecutionFailure, jo_holdExecution = holdExecution,
     jo_completeExecutionWithReply = completeExecutionWithReply E, jo_compact = Some (\<lambda>now. compact C now RETENTION_MS)\<rparr>"

definition has_record :: "string \<Rightarrow> journal \<Rightarrow> bool" where
  "has_record mid s = (\<exists>r \<in> set (j_messages s). m_message_id r = mid)"

definition executing :: "string \<Rightarrow> journal \<Rightarrow> bool" where
  "executing mid s = (\<exists>r \<in> set (j_messages s). m_message_id r = mid \<and> m_phase r = Executing)"

text \<open>Where a row of the next state comes from.\<close>

lemma custody_step_origin:
  assumes "custody_step c c'" "r' \<in> set (fst c')"
  shows "(\<exists>r \<in> set (fst c). evolves r r') \<or> (\<forall>r \<in> set (fst c). m_message_id r \<noteq> m_message_id r')"
  using assms
proof (induction rule: custody_step.induct)
  case (Keep c c')
  then show ?case
  proof (induction rule: custody_keep.induct)
    case (Admit r ms ys)
    then have "\<forall>x \<in> set ms. m_message_id x \<noteq> m_message_id r" by (metis imageI sel_None_iff)
    with Admit show ?case by auto
  qed (auto dest: list_all2_memD2)
qed auto

lemma started_origin:
  assumes "custody_inv c" "custody_step c c'" "r \<in> set (fst c)" "r' \<in> set (fst c')" "m_message_id r' = m_message_id r"
  shows "evolves r r'"
proof -
  have inj: "inj_on m_message_id (set (fst c))" using assms(1) by (simp add: custody_inv_def unique_key_def distinct_map)
  from custody_step_origin [OF assms(2,4)] assms(3,5) obtain r0 where r0: "r0 \<in> set (fst c)" "evolves r0 r'" by metis
  then have "m_message_id r0 = m_message_id r" using assms(5) by (simp add: evolves_key)
  with r0 assms(3) inj have "r0 = r" by (auto dest: inj_onD)
  with r0 show ?thesis by simp
qed

lemma journal_step_custody: "journal_step E C s s' \<Longrightarrow> custody_step (custody s) (custody s')"
  by (auto elim: journal_stepE intro: exec_refines)

lemma started_stays:
  assumes "journal_step E C s s'" "custody_inv (custody s)" "started mid s" "has_record mid s'"
  shows "started mid s'" "\<not> executing mid s \<Longrightarrow> \<not> executing mid s'"
proof -
  from assms(3) obtain r where r: "r \<in> set (j_messages s)" "m_message_id r = mid" "m_phase r \<noteq> Queued_local" by (auto simp: started_def)
  have ev: "evolves r r'" if "r' \<in> set (j_messages s')" "m_message_id r' = mid" for r'
    using started_origin [OF assms(2) journal_step_custody [OF assms(1)], of r r'] r that by (simp add: custody_def)
  from assms(4) obtain r' where r': "r' \<in> set (j_messages s')" "m_message_id r' = mid" by (auto simp: has_record_def)
  from ev [OF this] r(3) have "m_phase r' \<noteq> Queued_local" by (auto simp: evolves_def phase_step_def)
  with r' show "started mid s'" by (auto simp: started_def)
  assume "\<not> executing mid s"
  with r have "m_phase r \<noteq> Executing" by (auto simp: executing_def)
  then have "m_phase r' \<noteq> Executing" if "r' \<in> set (j_messages s')" "m_message_id r' = mid" for r'
    using ev [OF that] r(3) by (auto simp: evolves_def phase_step_def)
  then show "\<not> executing mid s'" by (auto simp: executing_def)
qed

lemma claimExecution_view:
  "fst (claimExecution now mid s) = Inr (Some v) \<Longrightarrow> v_messageId v = mid"
  by (auto simp: claimExecution_def assertNotClosed_def Let_def mapMessageRow_def dest!: sel_SomeD split: if_splits)

lemma upd_not_executing:
  assumes "\<And>r. m_phase (f r) \<noteq> Executing" "\<And>r. m_message_id r = mid \<Longrightarrow> m_phase r = Executing \<Longrightarrow> P r"
    "j_messages s' = upd_where P f (j_messages s)"
  shows "\<not> executing mid s'"
  using assms by (auto simp: executing_def set_upd_where split: if_splits)

lemma failure_not_executing: "recordExecutionFailure now mid reason err s = (Inr x, s') \<Longrightarrow> \<not> executing mid s'"
  by (rule upd_not_executing [where s = s and P = "\<lambda>r. m_message_id r = mid \<and> m_phase r \<in> {Queued_local, Executing}" and
        f = "\<lambda>r. (set_phase Held now r)\<lparr>m_reason := Some reason, m_runtime_error := (if truthy err then err else None)\<rparr>"])
    (auto simp: recordExecutionFailure_def assertNotClosed_def Let_def set_phase_def split: if_splits)

lemma hold_not_executing: "holdExecution now mid reason late s = (Inr x, s') \<Longrightarrow> \<not> executing mid s'"
  by (rule upd_not_executing [where s = s and P = "\<lambda>r. m_message_id r = mid" and
        f = "\<lambda>r. (set_phase Held now r)\<lparr>m_reason := Some reason, m_late_result_text := coalesce late (m_late_result_text r)\<rparr>"])
    (auto simp: holdExecution_def assertNotClosed_def Let_def set_phase_def split: if_splits)

lemma complete_not_executing:
  assumes "custody_inv (custody s)" "e_inReplyTo e = Some mid" "completeExecutionWithReply E now1 now2 e s = (Inr y, s')"
  shows "\<not> executing mid s'"
proof -
  from assms(2,3) have tx: "completeExecutionWithReply_tx E now1 now2 e s = (Inr y, s')"
    by (auto simp: completeExecutionWithReply_def assertNotClosed_def transaction_def split: if_splits prod.splits sum.splits)
  then show ?thesis
  proof (rule completeExecutionWithReply_tx_Inr)
    fix orig s1
    assume o: "sel m_message_id (opt_or (e_inReplyTo e) []) (j_messages s) = Some orig" "m_phase orig = Executing \<or> m_phase orig = Completed"
      and r: "recordReplySync E now1 e s = (Inr y, s1)"
      and s': "s' = (if m_phase orig = Executing then s1\<lparr>j_messages := upd_where (\<lambda>r. m_message_id r = m_message_id orig \<and> m_phase r = Executing)
          (set_phase Completed now2) (j_messages s1)\<rparr> else s1)"
    from o(1) assms(2) have orig: "orig \<in> set (j_messages s)" "m_message_id orig = mid" by (auto dest: sel_SomeD)
    have m1: "j_messages s1 = j_messages s" using r by (rule recordReplySync_cases) simp_all
    show ?thesis
    proof (cases "m_phase orig = Executing")
      case True
      then show ?thesis
        by (intro upd_not_executing [where s = s1 and P = "\<lambda>r. m_message_id r = m_message_id orig \<and> m_phase r = Executing" and f = "set_phase Completed now2"])
          (auto simp: s' set_phase_def orig)
    next
      case False
      have "inj_on m_message_id (set (j_messages s))" using assms(1) by (simp add: custody_inv_def custody_def unique_key_def distinct_map)
      with orig False show ?thesis by (auto simp: s' executing_def m1 dest: inj_onD)
    qed
  qed
qed

lemma claim_keeps_record: "has_record mid s \<Longrightarrow> has_record mid (snd (claimExecution now k s))"
proof -
  assume "has_record mid s"
  then have "mid \<in> set (map m_message_id (j_messages s))" by (auto simp: has_record_def)
  moreover have "map m_message_id (j_messages (snd (claimExecution now k s))) = map m_message_id (j_messages s)"
    by (simp add: claimExecution_def assertNotClosed_def Let_def map_key_upd_where set_phase_def)
  ultimately have "mid \<in> set (map m_message_id (j_messages (snd (claimExecution now k s))))" by simp
  then show ?thesis by (auto simp: has_record_def)
qed

interpretation dispatched: runner_journal "journal_ops_of E C" "\<lambda>s. custody_inv (custody s)" "journal_step E C" has_record started executing for E C
proof unfold_locales
  fix s s' mid k now reason err late e now1 now2 f x y v
  show "journal_step E C s (snd (jo_recoverQueued (journal_ops_of E C) now s))"
    using journal_step.call [of E C s "CRecover now"] by (simp add: journal_ops_of_def)
  show "journal_step E C s (snd (jo_claimExecution (journal_ops_of E C) now mid s))"
    using journal_step.call [of E C s "CClaim now mid"] by (simp add: journal_ops_of_def)
  show "journal_step E C s (snd (jo_recordExecutionFailure (journal_ops_of E C) now mid reason err s))"
    using journal_step.call [of E C s "CFailure now mid reason err"] by (simp add: journal_ops_of_def)
  show "journal_step E C s (snd (jo_holdExecution (journal_ops_of E C) now mid reason late s))"
    using journal_step.call [of E C s "CHold now mid reason late"] by (simp add: journal_ops_of_def)
  show "journal_step E C s (snd (jo_completeExecutionWithReply (journal_ops_of E C) now1 now2 e s))"
    using journal_step.call [of E C s "CCompleteWithReply now1 now2 e"] by (simp add: journal_ops_of_def)
  show "journal_step E C s (snd (f now s))" if "jo_compact (journal_ops_of E C) = Some f"
    using journal_step.call [of E C s "CCompact now RETENTION_MS"] that by (auto simp: journal_ops_of_def)
  show "custody_inv (custody s')" if "journal_step E C s s'" "custody_inv (custody s)"
    using custody_step_inv [OF journal_step_custody [OF that(1)] that(2)] .
  show "has_record mid s" if "started mid s" using that by (auto simp: started_def has_record_def)
  show "started mid s'" if "journal_step E C s s'" "custody_inv (custody s)" "started mid s" "has_record mid s'"
    using started_stays(1) [OF that] .
  show "\<not> executing mid s'" if "journal_step E C s s'" "custody_inv (custody s)" "started mid s" "\<not> executing mid s" "has_record mid s'"
    using started_stays(2) [OF that(1,2,3,5,4)] .
  show "has_record mid (snd (jo_claimExecution (journal_ops_of E C) now k s))" if "has_record mid s"
    using claim_keeps_record [OF that] by (simp add: journal_ops_of_def)
  show "v_messageId v = mid \<and> \<not> started mid s \<and> started mid (snd (jo_claimExecution (journal_ops_of E C) now mid s))"
    if "custody_inv (custody s)" "fst (jo_claimExecution (journal_ops_of E C) now mid s) = Inr (Some v)"
    using that claimExecution_starts [of now mid s v] claimExecution_view [of now mid s v]
    by (simp add: journal_ops_of_def custody_inv_def custody_def)
  show "\<not> executing mid s'" if "jo_recordExecutionFailure (journal_ops_of E C) now mid reason err s = (Inr x, s')"
    using that by (simp add: journal_ops_of_def failure_not_executing)
  show "\<not> executing mid s'" if "jo_holdExecution (journal_ops_of E C) now mid reason late s = (Inr x, s')"
    using that by (simp add: journal_ops_of_def hold_not_executing)
  show "\<not> executing mid s'" if "custody_inv (custody s)" "e_inReplyTo e = Some mid"
      "jo_completeExecutionWithReply (journal_ops_of E C) now1 now2 e s = (Inr y, s')"
    using that complete_not_executing by (simp add: journal_ops_of_def)
qed

section \<open>Properties\<close>

text \<open>A list of events, one after the other.\<close>

primrec drive :: "'s journal_ops \<Rightarrow> dispatcher_cfg \<Rightarrow> 's dispatch_event list \<Rightarrow> 's dispatcher \<Rightarrow> 's dispatcher" where
  "drive ops cfg [] d = d"
| "drive ops cfg (e # es) d = drive ops cfg es (dispatch ops cfg e d)"

primrec drivable :: "('s dispatch_event \<Rightarrow> 's \<Rightarrow> 's \<Rightarrow> bool) \<Rightarrow> 's journal_ops \<Rightarrow> dispatcher_cfg \<Rightarrow> 's dispatch_event list \<Rightarrow> 's dispatcher \<Rightarrow> bool" where
  "drivable allow ops cfg [] d = True"
| "drivable allow ops cfg (e # es) d = (allow e (dp_journal d) (dp_journal (dispatch ops cfg e d)) \<and> drivable allow ops cfg es (dispatch ops cfg e d))"

lemma drive_run:
  "dispatcher_run ops cfg allow env d0 d \<Longrightarrow> drivable allow ops cfg es d \<Longrightarrow> dispatcher_run ops cfg allow env d0 (drive ops cfg es d)"
  by (induction es arbitrary: d) (auto intro: dispatcher_run.own)

definition small_cfg :: dispatcher_cfg where
  "small_cfg = \<lparr>dc_runnerTimeoutMs = 1000, dc_maxConcurrent = 1, dc_compactIntervalMs = 3600000\<rparr>"

definition sent_journal :: journal where
  "sent_journal = exec_all plain_env default_cfg [CSend 1 sample_envelope no_options] empty_journal"

definition sent_job :: message_view where
  "sent_job = mapMessageRow (hd (j_messages sent_journal))"

definition done_result :: run_result where
  "done_result = \<lparr>rr_status = ''completed'', rr_text = Some ''ok'', rr_reason = None, rr_metadata = None\<rparr>"

abbreviation sample_ops :: "journal journal_ops" where
  "sample_ops \<equiv> journal_ops_of plain_env default_cfg"

definition sample_events :: "journal dispatch_event list" where
  "sample_events = [DStart 2 None, DNotify 3 sent_job, DStartRecovered 4, DStartCompacted, DPump 5, DAfterClaim ''m1'',
     DRunReturned ''u1'' 6 ''m1'' (Some done_result), DAfterPersist 7 ''m1'']"

definition sample_state :: "journal dispatcher" where
  "sample_state = drive sample_ops small_cfg sample_events (createLocalMessagingDispatcher sent_journal)"

lemma any_run: "dispatcher_run ops cfg (\<lambda>_ _ _. True) env d0 (drive ops cfg es d0)"
proof -
  have "drivable (\<lambda>_ _ _. True) ops cfg es d" for d by (induction es arbitrary: d) simp_all
  then show ?thesis by (intro drive_run [OF dispatcher_run.initial])
qed

text \<open>
  C33: the dispatcher keeps within its bounds. Whatever calls, continuations, timeouts and
  journal changes happen in whatever order, at most \<open>maxConcurrent\<close> executions are
  active, no two of them for the same recipient or the same message, and the ids in
  flight are exactly those of the queued and the active jobs, each in one place.
\<close>

theorem dispatcher_keeps_bounds:
  assumes "dispatcher_run ops cfg allow env (createLocalMessagingDispatcher s) d"
  shows "int (length (dp_executions d)) \<le> max 0 (dc_maxConcurrent cfg) \<and>
    distinct (map (\<lambda>p. v_recipient (x_job (snd p))) (dp_executions d)) \<and>
    distinct (map v_messageId (dp_pendingQueue d) @ map fst (dp_executions d)) \<and>
    set (dp_inFlight d) = set (map v_messageId (dp_pendingQueue d) @ map fst (dp_executions d))"
proof -
  have pl: "placed cfg d" using control_inv_run [OF assms control_inv_initial] by (simp add: control_inv_def)
  have "map (v_recipient \<circ> snd) (jobs d) = map (\<lambda>p. v_recipient (x_job (snd p))) (dp_executions d)"
    by (simp add: jobs_def case_prod_beta)
  with pl show ?thesis
    by (auto simp: placed_def length_jobs fst_jobs simp flip: set_map)
qed

theorem dispatcher_keeps_bounds_witness:
  "length (dp_executions sample_state) = 1 \<and> int (length (dp_executions sample_state)) \<le> max 0 (dc_maxConcurrent small_cfg)"
proof
  show "length (dp_executions sample_state) = 1" by code_simp
  show "int (length (dp_executions sample_state)) \<le> max 0 (dc_maxConcurrent small_cfg)"
    using dispatcher_keeps_bounds [OF any_run [of sample_ops small_cfg "\<lambda>_ _. False" "createLocalMessagingDispatcher sent_journal" sample_events]]
    unfolding sample_state_def by blast
qed

text \<open>
  C34: no runnable job is forgotten. In every reachable state of a dispatcher that is not
  stopping, if a place is free and a queued job's recipient is idle, then a pump is
  scheduled, or \<open>start\<close> is just about to schedule it.
\<close>

theorem runnable_job_not_forgotten:
  assumes "dispatcher_run ops cfg allow env (createLocalMessagingDispatcher s) d" "\<not> dp_stopping d"
    "int (length (dp_executions d)) < dc_maxConcurrent cfg" "job \<in> set (dp_pendingQueue d)"
    "v_recipient job \<notin> set (dp_activeRecipients d)"
  shows "dp_pumpScheduled d \<or> dp_starting d = Compacting"
  using control_inv_run [OF assms(1) control_inv_initial] assms(2-)
  by (auto simp: control_inv_def attentive_def length_jobs runnable_def)

theorem runnable_job_not_forgotten_witness:
  "let d = drive sample_ops small_cfg [DNotify 3 sent_job] (createLocalMessagingDispatcher sent_journal) in
   dp_pendingQueue d = [sent_job] \<and> (dp_pumpScheduled d \<or> dp_starting d = Compacting)"
proof -
  let ?d = "drive sample_ops small_cfg [DNotify 3 sent_job] (createLocalMessagingDispatcher sent_journal)"
  have c: "\<not> dp_stopping ?d" "int (length (dp_executions ?d)) < dc_maxConcurrent small_cfg" "dp_pendingQueue ?d = [sent_job]"
    "v_recipient sent_job \<notin> set (dp_activeRecipients ?d)" by code_simp+
  from runnable_job_not_forgotten [OF any_run [of _ _ "\<lambda>_ _. False"] c(1,2) _ c(4)] c(3) show ?thesis by simp
qed

text \<open>
  C4: a message is run at most once. The dispatcher works on a journal that any calls
  have led to and that other clients keep calling; as long as nobody retires the record
  of message \<open>mid\<close> and no other journal is injected, \<open>runRecipient\<close> is called at most once for it, and when
  its execution ends with the journal having accepted the outcome, the message is no
  longer executing.
\<close>

theorem message_runs_at_most_once:
  assumes "dispatcher_run (journal_ops_of E C) cfg (\<lambda>e s s'. (\<forall>at j. e \<noteq> DStart at (Some j)) \<and> (has_record mid s \<longrightarrow> has_record mid s'))
      (\<lambda>s s'. journal_step E C s s' \<and> (has_record mid s \<longrightarrow> has_record mid s'))
      (createLocalMessagingDispatcher (exec_all E C cs empty_journal)) d"
  shows "count_list (dp_runs d) mid \<le> 1 \<and>
    (\<forall>x. map_of (dp_executions d) mid = Some x \<and> x_stage x = Finishing Settled \<longrightarrow> \<not> executing mid (dp_journal d))"
proof -
  have "dispatched.once_inv mid d"
    by (rule dispatched.once_inv_run [OF assms dispatched.once_inv_initial [OF exec_all_inv]])
  then show ?thesis using dispatched.runs_at_most_once dispatched.settled_not_busy by blast
qed

theorem message_runs_at_most_once_witness:
  "dp_runs sample_state = [''m1''] \<and> count_list (dp_runs sample_state) ''m1'' \<le> 1 \<and> \<not> executing ''m1'' (dp_journal sample_state)"
proof -
  let ?allow = "\<lambda>e s s'. (\<forall>at j. e \<noteq> DStart at (Some j)) \<and> (has_record ''m1'' s \<longrightarrow> has_record ''m1'' s')"
  let ?b = "\<lambda>e s s'. (case e of DStart at (Some j) \<Rightarrow> False | _ \<Rightarrow> True) \<and> (has_record ''m1'' s \<longrightarrow> has_record ''m1'' s')"
  let ?d0 = "createLocalMessagingDispatcher sent_journal"
  have b: "drivable ?b sample_ops small_cfg sample_events ?d0" by code_simp
  have "drivable ?allow ops cfg es d" if "drivable ?b ops cfg es d" for ops cfg es and d :: "journal dispatcher"
    using that by (induction es arbitrary: d) (auto split: dispatch_event.splits option.splits)
  from drive_run [OF dispatcher_run.initial this [OF b]]
  have run: "dispatcher_run sample_ops small_cfg ?allow (\<lambda>s s'. journal_step plain_env default_cfg s s' \<and> (has_record ''m1'' s \<longrightarrow> has_record ''m1'' s'))
      (createLocalMessagingDispatcher (exec_all plain_env default_cfg [CSend 1 sample_envelope no_options] empty_journal)) sample_state"
    unfolding sample_state_def sent_journal_def by blast
  have "map_option x_stage (map_of (dp_executions sample_state) ''m1'') = Some (Finishing Settled)" by code_simp
  with message_runs_at_most_once [OF run] have "count_list (dp_runs sample_state) ''m1'' \<le> 1" "\<not> executing ''m1'' (dp_journal sample_state)"
    by auto
  moreover have "dp_runs sample_state = [''m1'']" by code_simp
  ultimately show ?thesis by blast
qed

text \<open>
  Stopping a started dispatcher starts nothing new and always ends. From any such state, under any
  further calls (a second \<open>start\<close> included), executions only go away, and as soon as
  none is left every caller of \<open>stop\<close> has its answer.
\<close>

theorem stop_winds_down:
  assumes "dispatcher_run ops cfg allow env (stop d0) d" "dp_active d0" "dp_drainResolvers d0 = 0"
  shows "dp_stopping d \<and> set (map fst (dp_executions d)) \<subseteq> set (map fst (dp_executions d0)) \<and>
    (dp_executions d = [] \<longrightarrow> dp_drainResolvers d = 0)"
proof -
  have s: "dp_active (stop d0)" "dp_stopping (stop d0)" "dp_executions (stop d0) = dp_executions d0" "drain_inv (stop d0)"
    using assms(2,3) by (simp_all add: stop_def Let_def drain_inv_def jobs_def)
  have w: "winds_down (stop d0) d" by (rule winds_down_run [OF assms(1) s(1,2)])
  then have "fst ` set (jobs d) \<subseteq> fst ` set (jobs (stop d0))" by (auto simp: winds_down_def)
  then have "set (map fst (dp_executions d)) \<subseteq> set (map fst (dp_executions d0))"
    using fst_jobs [of d] fst_jobs [of "stop d0"] s(3) by (metis set_map)
  moreover have "drain_inv d" by (rule drain_inv_run [OF assms(1) s(4)])
  ultimately show ?thesis using w by (auto simp: winds_down_def drain_inv_def)
qed

theorem stop_winds_down_witness:
  "dp_drainResolvers (stop sample_state) = 1 \<and> dp_executions (dispatch sample_ops small_cfg (DEnded ''m1'') (stop sample_state)) = [] \<and>
   dp_drainResolvers (dispatch sample_ops small_cfg (DEnded ''m1'') (stop sample_state)) = 0"
proof -
  let ?d = "dispatch sample_ops small_cfg (DEnded ''m1'') (stop sample_state)"
  have run: "dispatcher_run sample_ops small_cfg (\<lambda>_ _ _. True) (\<lambda>_ _. False) (stop sample_state) ?d"
    using any_run [of sample_ops small_cfg _ "stop sample_state" "[DEnded ''m1'']"] by simp
  have "dp_active sample_state" "dp_drainResolvers sample_state = 0" by code_simp+
  from stop_winds_down [OF run this] have "dp_executions ?d = [] \<longrightarrow> dp_drainResolvers ?d = 0" by blast
  moreover have "dp_executions ?d = []" "dp_drainResolvers (stop sample_state) = 1" by code_simp+
  ultimately show ?thesis by blast
qed

end
