(* ===== verification/Protocol.thy ===== *)
theory Protocol
  imports Json Journal_State "HOL-Library.Word"
begin

unbundle bit_operations_syntax

text \<open>
  \<open>packages/agent-worker/src/local-messaging-protocol.mjs\<close>: the length prefixed
  frames of the local socket, the incremental parser that cuts a byte stream back
  into messages however the stream is chunked, and the listing of replies that
  always fits one frame.

  Buffers are byte lists (\<^typ>\<open>string\<close>).  \<open>JSON.parse\<close> is the argument \<open>parse\<close>,
  \<^const>\<open>None\<close> when it throws; \<open>throws\<close> says on which messages the \<open>onMessage\<close>
  callback throws, which the parser reports like unreadable JSON.
\<close>

section \<open>Frames\<close>

definition MAX_FRAME_BYTES :: nat where
  "MAX_FRAME_BYTES = 320 * 1024"

definition writeUInt32BE :: "nat \<Rightarrow> string" where
  "writeUInt32BE n = [char_of (n div 2 ^ 24), char_of (n div 2 ^ 16), char_of (n div 2 ^ 8), char_of n]"

fun readUInt32BE :: "string \<Rightarrow> nat" where
  "readUInt32BE (a # b # c # d # rest) = of_char a * 2 ^ 24 + of_char b * 2 ^ 16 + of_char c * 2 ^ 8 + of_char d"
| "readUInt32BE short = 0"

fun is_object :: "json \<Rightarrow> bool" where
  "is_object (JArr xs) = True"
| "is_object (JObj kvs) = True"
| "is_object j = False"

definition encodeFrame :: "json \<Rightarrow> string result" where
  "encodeFrame message =
    (if \<not> is_object message then Inl (Coded ''invalid_message'')
     else let body = stringify message; frame = writeUInt32BE (length body) @ body in
       if MAX_PAYLOAD_BYTES < length body then Inl (Coded ''payload_too_large'')
       else if MAX_FRAME_BYTES < length frame then Inl (Coded ''frame_too_large'')
       else Inr frame)"

datatype parser_event = OnMessage json | OnError string

definition deliver :: "(string \<Rightarrow> json option) \<Rightarrow> (json \<Rightarrow> bool) \<Rightarrow> string \<Rightarrow> parser_event list" where
  "deliver parse throws body = (case parse body of
      Some j \<Rightarrow> OnMessage j # (if throws j then [OnError ''invalid_json''] else [])
    | None \<Rightarrow> [OnError ''invalid_json''])"

text \<open>The \<open>while\<close> loop of \<open>feed\<close>: every turn takes one whole frame off the buffer.\<close>

function feed_loop :: "nat \<Rightarrow> (string \<Rightarrow> json option) \<Rightarrow> (json \<Rightarrow> bool) \<Rightarrow> string \<Rightarrow> parser_event list \<times> string" where
  "feed_loop maxFrameBytes parse throws buffer =
    (if length buffer < 4 then ([], buffer)
     else let bodyLength = readUInt32BE buffer in
       if maxFrameBytes < bodyLength then ([OnError ''frame_too_large''], [])
       else if length buffer < 4 + bodyLength then ([], buffer)
       else (case feed_loop maxFrameBytes parse throws (drop (4 + bodyLength) buffer) of
          (evs, rest) \<Rightarrow> (deliver parse throws (take bodyLength (drop 4 buffer)) @ evs, rest)))"
  by pat_completeness auto
termination
  by (relation "measure (\<lambda>(m, p, t, buffer). length buffer)") auto

declare feed_loop.simps [simp del]

definition feed :: "nat \<Rightarrow> (string \<Rightarrow> json option) \<Rightarrow> (json \<Rightarrow> bool) \<Rightarrow> string \<Rightarrow> string \<Rightarrow> parser_event list \<times> string" where
  "feed maxFrameBytes parse throws chunk buffer =
    (if chunk = [] then ([], buffer)
     else case feed_loop maxFrameBytes parse throws (buffer @ chunk) of
       (evs, rest) \<Rightarrow> if maxFrameBytes + 4 < length rest then (evs @ [OnError ''frame_too_large''], []) else (evs, rest))"

primrec feed_all :: "nat \<Rightarrow> (string \<Rightarrow> json option) \<Rightarrow> (json \<Rightarrow> bool) \<Rightarrow> string list \<Rightarrow> string \<Rightarrow> parser_event list \<times> string" where
  "feed_all m parse throws [] buffer = ([], buffer)"
| "feed_all m parse throws (chunk # chunks) buffer = (case feed m parse throws chunk buffer of
     (evs, rest) \<Rightarrow> (case feed_all m parse throws chunks rest of (evs', rest') \<Rightarrow> (evs @ evs', rest')))"

section \<open>The parser does not depend on the chunks\<close>

lemma of_char_char_of_nat: "(of_char (char_of (n :: nat)) :: nat) = n mod 256"
  by simp

lemma read_write: "n < 2 ^ 32 \<Longrightarrow> readUInt32BE (writeUInt32BE n @ xs) = n"
proof -
  assume "n < 2 ^ 32"
  then have "n div 2 ^ 24 mod 256 = n div 2 ^ 24" by (simp add: less_mult_imp_div_less)
  moreover have "n div 16777216 * 16777216 + n div 65536 mod 256 * 65536 + n div 256 mod 256 * 256 + n mod 256 = n"
  proof -
    have "n div 65536 = n div 16777216 * 256 + n div 65536 mod 256"
      using div_mult_mod_eq [of "n div 65536" 256] by (simp add: div_mult2_eq [symmetric])
    moreover have "n div 256 = n div 65536 * 256 + n div 256 mod 256"
      using div_mult_mod_eq [of "n div 256" 256] by (simp add: div_mult2_eq [symmetric])
    moreover have "n div 256 * 256 + n mod 256 = n" by (rule div_mult_mod_eq)
    ultimately show ?thesis by linarith
  qed
  ultimately show ?thesis by (simp add: writeUInt32BE_def)
qed

lemma length_writeUInt32BE [simp]: "length (writeUInt32BE n) = 4"
  by (simp add: writeUInt32BE_def)

lemma readUInt32BE_append: "4 \<le> length xs \<Longrightarrow> readUInt32BE (xs @ ys) = readUInt32BE xs"
  by (cases xs rule: readUInt32BE.cases) auto

lemma deliver_codes: "OnError ''frame_too_large'' \<notin> set (deliver parse throws body)"
  by (simp add: deliver_def split: option.split)

text \<open>What is left over is a partial frame: the guard against unbounded accumulation never fires.\<close>

lemma feed_loop_rest: "length (snd (feed_loop m parse throws buffer)) < m + 4"
proof (induction m parse throws buffer rule: feed_loop.induct)
  case (1 m parse throws buffer)
  then show ?case by (subst feed_loop.simps) (auto simp: Let_def split: prod.split)
qed

lemma feed_eq: "feed m parse throws chunk buffer = (if chunk = [] then ([], buffer) else feed_loop m parse throws (buffer @ chunk))"
  using feed_loop_rest [of m parse throws "buffer @ chunk"] by (auto simp: feed_def split: prod.split)

lemma feed_loop_append:
  "(if OnError ''frame_too_large'' \<in> set (fst (feed_loop m parse throws x)) then OnError ''frame_too_large'' \<in> set (fst (feed_loop m parse throws (x @ y)))
    else feed_loop m parse throws (x @ y) = (fst (feed_loop m parse throws x) @ fst (feed_loop m parse throws (snd (feed_loop m parse throws x) @ y)),
      snd (feed_loop m parse throws (snd (feed_loop m parse throws x) @ y))))"
proof (induction m parse throws x rule: feed_loop.induct)
  case (1 m parse throws x)
  show ?case
  proof (cases "length x < 4")
    case True
    then show ?thesis by (simp add: feed_loop.simps [of m parse throws x])
  next
    case 4: False
    let ?n = "readUInt32BE x"
    have n: "readUInt32BE (x @ y) = ?n" using 4 by (simp add: readUInt32BE_append)
    show ?thesis
    proof (cases "m < ?n")
      case True
      with 4 show ?thesis by (simp add: feed_loop.simps [of m parse throws x] feed_loop.simps [of m parse throws "x @ y"] n)
    next
      case m: False
      show ?thesis
      proof (cases "length x < 4 + ?n")
        case True
        with 4 m show ?thesis by (simp add: feed_loop.simps [of m parse throws x])
      next
        case False
        let ?r = "drop (4 + ?n) x"
        have x: "feed_loop m parse throws x = (deliver parse throws (take ?n (drop 4 x)) @ fst (feed_loop m parse throws ?r), snd (feed_loop m parse throws ?r))"
          using 4 m False by (subst feed_loop.simps) (simp add: Let_def split: prod.split)
        have xy: "feed_loop m parse throws (x @ y) = (deliver parse throws (take ?n (drop 4 x)) @ fst (feed_loop m parse throws (?r @ y)),
            snd (feed_loop m parse throws (?r @ y)))"
          using 4 m False by (subst feed_loop.simps) (simp add: Let_def n split: prod.split)
        from 1 [OF 4 refl m False] show ?thesis
          by (simp add: x xy deliver_codes)
      qed
    qed
  qed
qed

lemma feed_all_eq:
  assumes "OnError ''frame_too_large'' \<notin> set (fst (feed_loop m parse throws (buffer @ concat chunks)))"
    "feed_loop m parse throws buffer = ([], buffer)"
  shows "feed_all m parse throws chunks buffer = feed_loop m parse throws (buffer @ concat chunks)"
  using assms
proof (induction chunks arbitrary: buffer)
  case (Cons chunk chunks)
  show ?case
  proof (cases "chunk = []")
    case True
    with Cons show ?thesis by (simp add: feed_eq)
  next
    case False
    let ?x = "buffer @ chunk"
    obtain evs rest where fx: "feed_loop m parse throws ?x = (evs, rest)" by force
    note ap = feed_loop_append [of m parse throws ?x "concat chunks"]
    have ok: "OnError ''frame_too_large'' \<notin> set evs" using ap Cons.prems(1) fx by (auto split: if_splits)
    have whole: "feed_loop m parse throws (?x @ concat chunks) = (evs @ fst (feed_loop m parse throws (rest @ concat chunks)), snd (feed_loop m parse throws (rest @ concat chunks)))"
      using ap fx ok by simp
    have "feed_loop m parse throws (rest @ []) = ([], rest)"
      using feed_loop_append [of m parse throws ?x "[]"] fx ok by (simp add: prod_eq_iff)
    moreover have "OnError ''frame_too_large'' \<notin> set (fst (feed_loop m parse throws (rest @ concat chunks)))"
      using Cons.prems(1) whole by simp
    ultimately have "feed_all m parse throws chunks rest = feed_loop m parse throws (rest @ concat chunks)"
      by (intro Cons.IH) simp_all
    with whole False fx show ?thesis by (simp add: feed_eq split: prod.split)
  qed
qed simp

lemma encodeFrame_Inr:
  assumes "encodeFrame message = Inr frame"
  shows "frame = writeUInt32BE (length (stringify message)) @ stringify message" "length (stringify message) \<le> MAX_PAYLOAD_BYTES"
  using assms by (auto simp: encodeFrame_def Let_def split: if_splits)

lemma feed_loop_frame:
  assumes "encodeFrame message = Inr frame" "MAX_PAYLOAD_BYTES \<le> m"
  shows "feed_loop m parse throws (frame @ rest) =
    (deliver parse throws (stringify message) @ fst (feed_loop m parse throws rest), snd (feed_loop m parse throws rest))"
proof -
  note f = encodeFrame_Inr [OF assms(1)]
  have "readUInt32BE (frame @ rest) = length (stringify message)"
    using read_write [of "length (stringify message)" "stringify message @ rest"] f by (simp add: MAX_PAYLOAD_BYTES_def)
  then show ?thesis using f assms(2) by (subst feed_loop.simps) (simp add: Let_def split: prod.split)
qed

lemma feed_loop_frames:
  assumes "list_all2 (\<lambda>message frame. encodeFrame message = Inr frame) messages frames" "MAX_PAYLOAD_BYTES \<le> m"
  shows "feed_loop m parse throws (concat frames) = (concat (map (\<lambda>j. deliver parse throws (stringify j)) messages), [])"
  using assms(1)
proof (induction rule: list_all2_induct)
  case (Cons j js f fs)
  then show ?case by (simp add: feed_loop_frame [OF _ assms(2)])
qed (simp add: feed_loop.simps)

section \<open>Replies that fit one response\<close>

text \<open>
  Cutting a text works on UTF-16 code units, so the text of a reply is a list of
  them here; \<open>json_units\<close> is the number of bytes of its JSON form, in which a
  surrogate pair takes four bytes and a lone surrogate an escape of six.
\<close>

type_synonym units = "16 word list"

definition is_high :: "16 word \<Rightarrow> bool" where
  "is_high u = (u AND 0xFC00 = 0xD800)"

definition is_low :: "16 word \<Rightarrow> bool" where
  "is_low u = (u AND 0xFC00 = 0xDC00)"

definition unit_bytes :: "16 word \<Rightarrow> nat" where
  "unit_bytes u = (if u = 0x22 \<or> u = 0x5C \<or> u \<in> {8, 9, 10, 12, 13} then 2 else if u < 32 then 6 else if u < 0x80 then 1
     else if u < 0x800 then 2 else 3)"

fun json_units :: "units \<Rightarrow> nat" where
  "json_units [] = 0"
| "json_units [u] = (if is_high u \<or> is_low u then 6 else unit_bytes u)"
| "json_units (u # v # us) = (if is_high u \<and> is_low v then 4 + json_units us
     else (if is_high u \<or> is_low u then 6 else unit_bytes u) + json_units (v # us))"

fun utf8_units :: "units \<Rightarrow> nat" where
  "utf8_units [] = 0"
| "utf8_units [u] = (if u < 0x80 then 1 else if u < 0x800 then 2 else 3)"
| "utf8_units (u # v # us) = (if is_high u \<and> is_low v then 4 + utf8_units us
     else (if u < 0x80 then 1 else if u < 0x800 then 2 else 3) + utf8_units (v # us))"

text \<open>A reply: its text, if it has one, and its other members.\<close>

record listed_reply =
  lr_text :: "units option"
  lr_others :: "(string \<times> json) list"

definition jsonBytes :: "listed_reply \<Rightarrow> nat" where
  "jsonBytes r = length (stringify (JObj (lr_others r))) +
     (case lr_text r of None \<Rightarrow> 0 | Some t \<Rightarrow> (if lr_others r = [] then 0 else 1) + length (quote ''text'') + 1 + 2 + json_units t)"

definition framed :: "nat \<Rightarrow> units \<Rightarrow> listed_reply \<Rightarrow> listed_reply" where
  "framed originalTextBytes piece base = \<lparr>lr_text = Some piece,
     lr_others = obj_put (obj_put (lr_others base) ''truncated'' (JBool True)) ''originalTextBytes'' (JNum (int originalTextBytes))\<rparr>"

definition cut_prefix :: "units \<Rightarrow> nat \<Rightarrow> units" where
  "cut_prefix text n = take (if 0 < n \<and> is_high (text ! (n - 1)) then n - 1 else n) text"

function search :: "(nat \<Rightarrow> bool) \<Rightarrow> nat \<Rightarrow> nat \<Rightarrow> nat" where
  "search fits low high = (if low < high then
     (let mid = (low + high + 1) div 2 in if fits mid then search fits mid high else search fits low (mid - 1))
   else low)"
  by pat_completeness auto
termination
  by (relation "measure (\<lambda>(fits, low, high). high - low)") auto

declare search.simps [simp del]

definition truncateReplyToFit :: "listed_reply \<Rightarrow> int \<Rightarrow> listed_reply" where
  "truncateReplyToFit reply roomBytes =
    (let text = opt_or (lr_text reply) []; originalTextBytes = utf8_units text;
         base = (if int (jsonBytes (framed originalTextBytes [] reply)) \<le> roomBytes then reply
                 else reply\<lparr>lr_others := obj_put (lr_others reply) ''metadata'' JNull\<rparr>);
         low = search (\<lambda>mid. int (jsonBytes (framed originalTextBytes (cut_prefix text mid) base)) \<le> roomBytes) 0 (length text)
     in framed originalTextBytes (cut_prefix text low) base)"

fun bound_loop :: "int \<Rightarrow> int \<Rightarrow> listed_reply list \<Rightarrow> listed_reply list \<Rightarrow> listed_reply list" where
  "bound_loop maxBytes current bounded [] = bounded"
| "bound_loop maxBytes current bounded (reply # replies) =
    (if current + int (jsonBytes reply) \<le> maxBytes then bound_loop maxBytes (current + int (jsonBytes reply)) (bounded @ [reply]) replies
     else if bounded = [] then bounded @ [truncateReplyToFit reply (maxBytes - current)]
     else bounded)"

definition boundRepliesToEnvelope :: "int \<Rightarrow> listed_reply list \<Rightarrow> listed_reply list" where
  "boundRepliesToEnvelope maxBytes replies = bound_loop maxBytes 64 [] replies"

lemma json_units_append:
  "xs = [] \<or> ys = [] \<or> \<not> is_high (last xs) \<or> \<not> is_low (hd ys) \<Longrightarrow> json_units (xs @ ys) = json_units xs + json_units ys"
proof (induction xs rule: json_units.induct)
  case (2 u)
  then show ?case by (cases ys) auto
next
  case (3 u v us)
  then show ?case by (cases us) auto
qed simp

lemma high_not_low: "is_high u \<Longrightarrow> \<not> is_low u"
  by (simp add: is_high_def is_low_def)

lemma cut_prefix_Suc:
  assumes "n < length text"
  shows "json_units (cut_prefix text n) \<le> json_units (cut_prefix text (Suc n))"
proof -
  let ?u = "text ! n"
  have tk: "take (Suc n) text = take n text @ [?u]" using assms by (simp add: take_Suc_conv_app_nth)
  show ?thesis
  proof (cases "0 < n \<and> is_high (text ! (n - 1))")
    case False
    then have "take n text = [] \<or> \<not> is_high (last (take n text))" using assms by (cases n) (auto simp: last_conv_nth)
    with False tk show ?thesis by (auto simp: cut_prefix_def json_units_append)
  next
    case True
    let ?h = "text ! (n - 1)"
    have tn: "take n text = take (n - 1) text @ [?h]" using assms True take_Suc_conv_app_nth [of "n - 1" "text"] by simp
    have h: "json_units (take (n - 1) text @ ?h # us) = json_units (take (n - 1) text) + json_units (?h # us)" for us
      using True high_not_low by (intro json_units_append) auto
    show ?thesis using True tk tn h [of "[]"] h [of "[?u]"] by (auto simp: cut_prefix_def)
  qed
qed

lemma cut_prefix_mono: "m \<le> n \<Longrightarrow> n \<le> length text \<Longrightarrow> json_units (cut_prefix text m) \<le> json_units (cut_prefix text n)"
proof (induction rule: dec_induct)
  case (step n)
  then show ?case using cut_prefix_Suc [of n "text"] by simp
qed simp

text \<open>The binary search finds the largest length that fits.\<close>

lemma search_spec:
  assumes "\<And>a b. a \<le> b \<Longrightarrow> b \<le> N \<Longrightarrow> fits b \<Longrightarrow> fits a" "low \<le> high" "high \<le> N" "0 < low \<Longrightarrow> fits low" "\<And>k. high < k \<Longrightarrow> k \<le> N \<Longrightarrow> \<not> fits k"
  shows "search fits low high \<le> N \<and> (0 < search fits low high \<longrightarrow> fits (search fits low high)) \<and>
    (\<forall>k. search fits low high < k \<and> k \<le> N \<longrightarrow> \<not> fits k)"
  using assms
proof (induction fits low high rule: search.induct)
  case (1 fits' low high)
  show ?case
  proof (cases "low < high")
    case True
    define mid where "mid = (low + high + 1) div 2"
    have mid: "low < mid" "mid \<le> high" using True by (auto simp: mid_def)
    show ?thesis
    proof (cases "fits' mid")
      case fm: True
      have "search fits' low high = search fits' mid high" using True fm by (subst search.simps) (simp add: mid_def)
      with 1(1) [OF True mid_def fm 1(3)] 1(5,7) mid fm show ?thesis by simp
    next
      case fm: False
      have eq: "search fits' low high = search fits' low (mid - 1)" using True fm by (subst search.simps) (simp add: mid_def)
      have "\<not> fits' k" if "mid - 1 < k" "k \<le> N" for k
      proof
        assume "fits' k"
        moreover have "mid \<le> k" using that(1) mid(1) by simp
        ultimately show False using fm 1(3) [of mid k] that(2) by blast
      qed
      with 1(2) [OF True mid_def fm 1(3)] 1(5,6) mid show ?thesis unfolding eq by simp
    qed
  next
    case False
    then have "search fits' low high = low" by (subst search.simps) simp
    with False 1(4-) show ?thesis by auto
  qed
qed

definition fits_room :: "listed_reply \<Rightarrow> int \<Rightarrow> bool" where
  "fits_room reply room = (int (jsonBytes (framed (utf8_units (opt_or (lr_text reply) [])) [] (reply\<lparr>lr_others := obj_put (lr_others reply) ''metadata'' JNull\<rparr>))) \<le> room)"

lemma jsonBytes_framed: "jsonBytes (framed n piece base) = jsonBytes (framed n [] base) + json_units piece"
  by (simp add: jsonBytes_def framed_def)

lemma truncate_spec:
  assumes "fits_room reply room"
  shows "\<exists>base k. base \<in> {reply, reply\<lparr>lr_others := obj_put (lr_others reply) ''metadata'' JNull\<rparr>} \<and> k \<le> length (opt_or (lr_text reply) []) \<and>
    truncateReplyToFit reply room = framed (utf8_units (opt_or (lr_text reply) [])) (cut_prefix (opt_or (lr_text reply) []) k) base \<and>
    int (jsonBytes (truncateReplyToFit reply room)) \<le> room \<and>
    (\<forall>k'. k < k' \<and> k' \<le> length (opt_or (lr_text reply) []) \<longrightarrow>
       room < int (jsonBytes (framed (utf8_units (opt_or (lr_text reply) [])) (cut_prefix (opt_or (lr_text reply) []) k') base)))"
proof -
  define t where "t = opt_or (lr_text reply) []"
  define n where "n = utf8_units t"
  define base where "base = (if int (jsonBytes (framed n [] reply)) \<le> room then reply
                 else reply\<lparr>lr_others := obj_put (lr_others reply) ''metadata'' JNull\<rparr>)"
  define fits where "fits k = (int (jsonBytes (framed n (cut_prefix t k) base)) \<le> room)" for k
  define k where "k = search fits 0 (length t)"
  have eq: "truncateReplyToFit reply room = framed n (cut_prefix t k) base"
    by (simp add: truncateReplyToFit_def Let_def t_def n_def base_def k_def fits_def [abs_def])
  have "int (jsonBytes (framed n [] base)) \<le> room" using assms by (auto simp: base_def fits_room_def t_def n_def)
  then have "fits 0" by (simp add: fits_def cut_prefix_def)
  have mono: "fits a" if "a \<le> b" "b \<le> length t" "fits b" for a b
    using that cut_prefix_mono [of a b t] jsonBytes_framed [of n "cut_prefix t a" base] jsonBytes_framed [of n "cut_prefix t b" base]
    by (simp add: fits_def)
  have "k \<le> length t \<and> (0 < k \<longrightarrow> fits k) \<and> (\<forall>k'. k < k' \<and> k' \<le> length t \<longrightarrow> \<not> fits k')"
    unfolding k_def by (rule search_spec) (use mono in auto)
  with \<open>fits 0\<close> have k: "k \<le> length t" "fits k" "\<And>k'. k < k' \<Longrightarrow> k' \<le> length t \<Longrightarrow> \<not> fits k'" by (cases k; auto)+
  have out: "room < int (jsonBytes (framed n (cut_prefix t k') base))" if "k < k'" "k' \<le> length t" for k'
    using k(3) [OF that] by (simp add: fits_def)
  have "base \<in> {reply, reply\<lparr>lr_others := obj_put (lr_others reply) ''metadata'' JNull\<rparr>}" by (simp add: base_def)
  with k(1,2) out show ?thesis
    unfolding eq t_def [symmetric] n_def [symmetric] fits_def by blast
qed

definition total_bytes :: "listed_reply list \<Rightarrow> int" where
  "total_bytes rs = 64 + (\<Sum>r \<leftarrow> rs. int (jsonBytes r))"

lemma total_bytes_snoc: "total_bytes (rs @ [r]) = total_bytes rs + int (jsonBytes r)"
  by (simp add: total_bytes_def)

lemma bound_loop_whole:
  "total_bytes bounded \<le> maxBytes \<Longrightarrow> bounded \<noteq> [] \<Longrightarrow>
   prefix (bound_loop maxBytes (total_bytes bounded) bounded replies) (bounded @ replies) \<and>
   bound_loop maxBytes (total_bytes bounded) bounded replies \<noteq> [] \<and>
   total_bytes (bound_loop maxBytes (total_bytes bounded) bounded replies) \<le> maxBytes"
proof (induction replies arbitrary: bounded)
  case (Cons r rs)
  then show ?case
    using Cons.IH [of "bounded @ [r]"] by (auto simp: total_bytes_snoc)
qed simp

section \<open>Properties\<close>

text \<open>
  C13: framing loses nothing. Messages that were encoded one after the other and arrive
  in chunks of any sizes, split anywhere, come out of the parser as exactly their JSON
  texts handed to \<open>JSON.parse\<close>, one by one and in order, with an empty buffer left.
\<close>

theorem frames_roundtrip:
  assumes "list_all2 (\<lambda>message frame. encodeFrame message = Inr frame) messages frames" "concat chunks = concat frames"
    "MAX_PAYLOAD_BYTES \<le> maxFrameBytes"
  shows "feed_all maxFrameBytes parse throws chunks [] = (concat (map (\<lambda>j. deliver parse throws (stringify j)) messages), [])"
proof -
  note fr = feed_loop_frames [OF assms(1,3), of parse throws]
  have "OnError ''frame_too_large'' \<notin> set (fst (feed_loop maxFrameBytes parse throws (concat chunks)))"
    by (simp add: assms(2) fr deliver_codes)
  then have "feed_all maxFrameBytes parse throws chunks [] = feed_loop maxFrameBytes parse throws ([] @ concat chunks)"
    by (intro feed_all_eq) (simp_all add: feed_loop.simps)
  then show ?thesis by (simp add: assms(2) fr)
qed

definition sample_parse :: "string \<Rightarrow> json option" where
  "sample_parse body = (if body = ''[]'' then Some (JArr []) else None)"

theorem frames_roundtrip_witness:
  "feed_all MAX_FRAME_BYTES sample_parse (\<lambda>_. False) [[CHR 0x00], [CHR 0x00, CHR 0x00, CHR 0x02, CHR ''[''], '']''] [] =
    ([OnMessage (JArr [])], [])"
proof -
  have f: "list_all2 (\<lambda>message frame. encodeFrame message = Inr frame) [JArr []] [[CHR 0x00, CHR 0x00, CHR 0x00, CHR 0x02, CHR ''['', CHR '']'']]"
  proof -
    have "writeUInt32BE 2 = [CHR 0x00, CHR 0x00, CHR 0x00, CHR 0x02]" by (simp add: writeUInt32BE_def char_of_def bit_Suc_0_iff)
    then show ?thesis by (simp add: encodeFrame_def MAX_PAYLOAD_BYTES_def MAX_FRAME_BYTES_def numeral_2_eq_2)
  qed
  have "MAX_PAYLOAD_BYTES \<le> MAX_FRAME_BYTES" by (simp add: MAX_PAYLOAD_BYTES_def MAX_FRAME_BYTES_def)
  from frames_roundtrip [OF f _ this, of "[[CHR 0x00], [CHR 0x00, CHR 0x00, CHR 0x02, CHR ''[''], '']'']" sample_parse "\<lambda>_. False"]
  show ?thesis by (simp add: deliver_def sample_parse_def)
qed

text \<open>
  C39: the parser holds less than one frame. After any chunks, whatever bytes they are, the
  buffer is shorter than the largest frame with its length prefix, so the guard
  against accumulated partial frames never fires; and a frame announced as too long
  is refused as soon as its length is read.
\<close>

theorem parser_buffer_bounded:
  "length (snd (feed_all maxFrameBytes parse throws chunks [])) < maxFrameBytes + 4 \<and>
   (4 \<le> length chunk \<and> maxFrameBytes < readUInt32BE chunk \<longrightarrow> feed maxFrameBytes parse throws chunk [] = ([OnError ''frame_too_large''], []))"
proof
  have "length buffer < maxFrameBytes + 4 \<Longrightarrow> length (snd (feed_all maxFrameBytes parse throws chunks buffer)) < maxFrameBytes + 4" for buffer
  proof (induction chunks arbitrary: buffer)
    case (Cons c cs)
    have "length (snd (feed maxFrameBytes parse throws c buffer)) < maxFrameBytes + 4"
      using Cons.prems feed_loop_rest by (simp add: feed_eq)
    from Cons.IH [OF this] show ?case by (simp add: case_prod_beta)
  qed simp
  from this [of "[]"] show "length (snd (feed_all maxFrameBytes parse throws chunks [])) < maxFrameBytes + 4" by simp
  show "4 \<le> length chunk \<and> maxFrameBytes < readUInt32BE chunk \<longrightarrow> feed maxFrameBytes parse throws chunk [] = ([OnError ''frame_too_large''], [])"
    by (auto simp: feed_eq feed_loop.simps [of maxFrameBytes parse throws chunk])
qed

theorem parser_buffer_bounded_witness:
  "feed 1 sample_parse (\<lambda>_. False) [CHR 0x00, CHR 0x00, CHR 0x00, CHR 0x02] [] = ([OnError ''frame_too_large''], []) \<and>
   length (snd (feed_all 1 sample_parse (\<lambda>_. False) [[CHR 0x00]] [])) < 1 + 4"
  using parser_buffer_bounded [of 1 sample_parse "\<lambda>_. False" "[[CHR 0x00]]" "[CHR 0x00, CHR 0x00, CHR 0x00, CHR 0x02]"] by simp


definition long_reply :: listed_reply where
  "long_reply = \<lparr>lr_text = Some (replicate 100 0x61), lr_others = []\<rparr>"


end
