(* ===== verification/Registry_Snapshot.thy ===== *)
theory Registry_Snapshot
  imports Identity_Primitives "HOL-Library.AList"
begin

text \<open>
  \<open>packages/agent-worker/src/router-registry-snapshot.mjs\<close>: the frozen, indexed
  copy of the identity registry the router reads, and the provider that caches
  it.  The registry reader \<open>readRegistry\<close>, the file's stat text \<open>statRegistry\<close>
  and the clock are injected: every call of \<open>get\<close> takes what they return.  A
  registry is a JSON value, as the reader returns it; the members of an object
  are listed in the order \<open>Object.values\<close> gives them.  The indexes answer what
  a scan of the live bindings answers, and a cached snapshot is never older than
  the time to live, nor kept over an invalidation or a change of the file.
\<close>

section \<open>Fields of JSON objects\<close>

text \<open>The text of a field that holds one; \<open>Object.values\<close> of an object or an array.\<close>

definition field_text :: "json \<Rightarrow> string \<Rightarrow> string option" where
  "field_text j k = (case obj_get j k of Some (JStr s) \<Rightarrow> Some s | _ \<Rightarrow> None)"

definition object_values :: "json option \<Rightarrow> json list" where
  "object_values j = (case j of Some (JObj kvs) \<Rightarrow> map snd kvs | Some (JArr xs) \<Rightarrow> xs | _ \<Rightarrow> [])"

section \<open>Snapshots\<close>

record snapshot =
  sn_state :: string
  sn_sequence :: int
  sn_errorCode :: "string option"
  sn_readAt :: int
  sn_byPrincipal :: "(string \<times> json list) list"
  sn_byInstance :: "(string \<times> json) list"

definition bindingsFor :: "snapshot \<Rightarrow> string \<Rightarrow> json list" where
  "bindingsFor sn principalId = (case map_of (sn_byPrincipal sn) principalId of None \<Rightarrow> [] | Some list \<Rightarrow> list)"

definition bindingForInstance :: "snapshot \<Rightarrow> string \<Rightarrow> json option" where
  "bindingForInstance sn instanceId = map_of (sn_byInstance sn) instanceId"

definition createAbsentSnapshot :: "int \<Rightarrow> snapshot" where
  "createAbsentSnapshot readAt = \<lparr>sn_state = ''absent'', sn_sequence = 0, sn_errorCode = None, sn_readAt = readAt,
     sn_byPrincipal = [], sn_byInstance = []\<rparr>"

definition createUnreadableSnapshot :: "string \<Rightarrow> int \<Rightarrow> snapshot" where
  "createUnreadableSnapshot errorCode readAt = \<lparr>sn_state = ''unreadable'', sn_sequence = 0, sn_errorCode = Some errorCode,
     sn_readAt = readAt, sn_byPrincipal = [], sn_byInstance = []\<rparr>"

text \<open>
  The guard of the loop in \<open>createOkSnapshot\<close>: a binding that is an object,
  not revoked and managed by the mesh.
\<close>

definition live_binding :: "json \<Rightarrow> bool" where
  "live_binding b = (obj_get b ''revoked_at'' = Some JNull \<and> obj_get b ''trust_mode'' = Some (JStr ''mesh-managed''))"

definition index_principal :: "json \<Rightarrow> (string \<times> json list) list \<Rightarrow> (string \<times> json list) list" where
  "index_principal b byPrincipal = (case field_text b ''principal_id'' of
     None \<Rightarrow> byPrincipal
   | Some pid \<Rightarrow> (case map_of byPrincipal pid of
        None \<Rightarrow> AList.update pid [b] byPrincipal
      | Some list \<Rightarrow> AList.update pid (list @ [b]) byPrincipal))"

definition index_instance :: "json \<Rightarrow> (string \<times> json) list \<Rightarrow> (string \<times> json) list" where
  "index_instance b byInstance = (case field_text b ''profile_instance_id'' of
     None \<Rightarrow> byInstance
   | Some iid \<Rightarrow> AList.update iid b byInstance)"

fun index_bindings :: "json list \<Rightarrow> (string \<times> json list) list \<Rightarrow> (string \<times> json) list \<Rightarrow>
    (string \<times> json list) list \<times> (string \<times> json) list" where
  "index_bindings [] byPrincipal byInstance = (byPrincipal, byInstance)"
| "index_bindings (b # bs) byPrincipal byInstance =
    (if live_binding b then index_bindings bs (index_principal b byPrincipal) (index_instance b byInstance)
     else index_bindings bs byPrincipal byInstance)"

text \<open>
  The order of \<open>compareCodeUnits\<close> on the instance ids; the reader admits only
  bindings whose instance id is a text.
\<close>

definition instance_order :: "json \<Rightarrow> string" where
  "instance_order b = opt_or (field_text b ''profile_instance_id'') []"

definition MAX_SAFE_INTEGER :: int where
  "MAX_SAFE_INTEGER = 9007199254740991"

definition createOkSnapshot :: "json \<Rightarrow> int \<Rightarrow> snapshot" where
  "createOkSnapshot registry readAt =
    (let sequence = (case obj_get registry ''sequence'' of
           Some (JNum n) \<Rightarrow> if 0 \<le> n \<and> n \<le> MAX_SAFE_INTEGER then n else 0
         | _ \<Rightarrow> 0);
       (byPrincipal, byInstance) = index_bindings (object_values (obj_get registry ''bindings'')) [] []
     in \<lparr>sn_state = ''ok'', sn_sequence = sequence, sn_errorCode = None, sn_readAt = readAt,
         sn_byPrincipal = map (\<lambda>(pid, list). (pid, sort_key instance_order list)) byPrincipal,
         sn_byInstance = byInstance\<rparr>)"

section \<open>The caching provider\<close>

text \<open>What one call of the injected reader does; \<open>Read_threw\<close> carries \<open>err.code\<close> when that is a text.\<close>

datatype registry_read = Read_absent | Read_ok json | Read_other | Read_threw "string option"

type_synonym provider = "(snapshot \<times> string) option"

definition createRegistrySnapshotProvider :: "string \<Rightarrow> int \<Rightarrow> provider result" where
  "createRegistrySnapshotProvider root ttlMs =
    (if \<not> starts_with ''/'' root then Inl TypeErr
     else if ttlMs \<le> 0 then Inl TypeErr
     else Inr None)"

definition read_snapshot :: "registry_read \<Rightarrow> int \<Rightarrow> snapshot" where
  "read_snapshot rd currentTime = (case rd of
      Read_absent \<Rightarrow> createAbsentSnapshot currentTime
    | Read_ok registry \<Rightarrow> createOkSnapshot registry currentTime
    | Read_other \<Rightarrow> createUnreadableSnapshot ''invalid_registry_result'' currentTime
    | Read_threw code \<Rightarrow> createUnreadableSnapshot (if truthy code then the code else ''unknown'') currentTime)"

definition provider_get :: "int \<Rightarrow> int \<Rightarrow> string \<Rightarrow> registry_read \<Rightarrow> provider \<Rightarrow> snapshot \<times> provider" where
  "provider_get ttlMs currentTime currentKey rd cache =
    (case cache of
       Some (sn, key) \<Rightarrow>
         if key = currentKey \<and> currentTime - sn_readAt sn \<ge> 0 \<and> currentTime - sn_readAt sn < ttlMs then (sn, cache)
         else (let snap = read_snapshot rd currentTime in (snap, Some (snap, currentKey)))
     | None \<Rightarrow> (let snap = read_snapshot rd currentTime in (snap, Some (snap, currentKey))))"

definition invalidate :: "provider \<Rightarrow> provider" where
  "invalidate cache = None"

text \<open>A history of calls: \<open>Get\<close> with the clock, the stat text and what the reader would return, or \<open>Invalidate\<close>.\<close>

datatype provider_call = Get int string registry_read | Invalidate

fun provider_run :: "int \<Rightarrow> provider_call list \<Rightarrow> provider \<Rightarrow> provider" where
  "provider_run ttlMs [] p = p"
| "provider_run ttlMs (Get t k rd # cs) p = provider_run ttlMs cs (snd (provider_get ttlMs t k rd p))"
| "provider_run ttlMs (Invalidate # cs) p = provider_run ttlMs cs (invalidate p)"

section \<open>The indexes answer what a scan answers\<close>

definition live_bindings :: "json \<Rightarrow> json list" where
  "live_bindings registry = filter live_binding (object_values (obj_get registry ''bindings''))"

lemma map_of_index_principal:
  "opt_or (map_of (index_principal b m) p) [] =
     opt_or (map_of m p) [] @ (if field_text b ''principal_id'' = Some p then [b] else [])"
  by (auto simp: index_principal_def update_conv opt_or_def split: option.splits)

lemma map_of_index_instance:
  "map_of (index_instance b m) i = (if field_text b ''profile_instance_id'' = Some i then Some b else map_of m i)"
  by (auto simp: index_instance_def update_conv split: option.splits)

lemma index_bindings_principal:
  "opt_or (map_of (fst (index_bindings bs m n)) p) [] =
     opt_or (map_of m p) [] @ filter (\<lambda>b. live_binding b \<and> field_text b ''principal_id'' = Some p) bs"
  by (induction bs m n rule: index_bindings.induct) (auto simp: map_of_index_principal)

lemma index_bindings_instance:
  "map_of (snd (index_bindings bs m n)) i =
     (case filter (\<lambda>b. live_binding b \<and> field_text b ''profile_instance_id'' = Some i) bs of
        [] \<Rightarrow> map_of n i | b # r \<Rightarrow> Some (last (b # r)))"
  by (induction bs m n rule: index_bindings.induct) (auto simp: map_of_index_instance split: list.splits)

lemma map_of_map_values: "map_of (map (\<lambda>(k, v). (k, f v)) m) k = map_option f (map_of m k)"
  by (induction m) auto

lemma bindingsFor_createOk:
  "bindingsFor (createOkSnapshot registry t) p =
     sort_key instance_order (filter (\<lambda>b. field_text b ''principal_id'' = Some p) (live_bindings registry))"
proof -
  let ?m = "fst (index_bindings (object_values (obj_get registry ''bindings'')) [] [])"
  have "bindingsFor (createOkSnapshot registry t) p = sort_key instance_order (opt_or (map_of ?m p) [])"
    by (simp add: bindingsFor_def createOkSnapshot_def split_beta Let_def map_of_map_values
        map_of_map_values [unfolded split_beta] opt_or_def split: option.split)
  then show ?thesis
    by (simp add: index_bindings_principal live_bindings_def conj_commute)
qed

lemma bindingForInstance_createOk:
  "bindingForInstance (createOkSnapshot registry t) i =
     (case filter (\<lambda>b. field_text b ''profile_instance_id'' = Some i) (live_bindings registry) of
        [] \<Rightarrow> None | b # r \<Rightarrow> Some (last (b # r)))"
  by (simp add: bindingForInstance_def createOkSnapshot_def split_beta Let_def index_bindings_instance
      live_bindings_def conj_commute split: list.split)

lemma createOk_simps [simp]:
  "sn_state (createOkSnapshot registry t) = ''ok''" "sn_readAt (createOkSnapshot registry t) = t"
  by (simp_all add: createOkSnapshot_def split_beta Let_def)

lemma read_snapshot_readAt [simp]: "sn_readAt (read_snapshot rd t) = t"
  by (simp add: read_snapshot_def createAbsentSnapshot_def createUnreadableSnapshot_def split: registry_read.split)

text \<open>
  Whatever registry was read, the bindings the snapshot lists for a principal
  are the live, mesh-managed bindings of that principal in the order of their
  instance ids, each exactly as often as the registry has it, and the binding of
  an instance is the last live one the registry has for it, if any.
\<close>

theorem snapshot_answers_registry:
  "bindingsFor (createOkSnapshot registry t) p =
     sort_key instance_order (filter (\<lambda>b. live_binding b \<and> field_text b ''principal_id'' = Some p)
       (object_values (obj_get registry ''bindings''))) \<and>
   bindingForInstance (createOkSnapshot registry t) i =
     find (\<lambda>b. live_binding b \<and> field_text b ''profile_instance_id'' = Some i)
       (rev (object_values (obj_get registry ''bindings'')))"
proof
  show "bindingsFor (createOkSnapshot registry t) p = sort_key instance_order (filter (\<lambda>b. live_binding b \<and>
      field_text b ''principal_id'' = Some p) (object_values (obj_get registry ''bindings'')))"
    by (simp add: bindingsFor_createOk live_bindings_def conj_commute)
  have find_rev: "find P (rev xs) = (case filter P xs of [] \<Rightarrow> None | b # r \<Rightarrow> Some (last (b # r)))" for P and xs :: "json list"
    by (induction xs rule: rev_induct) (auto split: list.splits)
  show "bindingForInstance (createOkSnapshot registry t) i = find (\<lambda>b. live_binding b \<and>
      field_text b ''profile_instance_id'' = Some i) (rev (object_values (obj_get registry ''bindings'')))"
    by (simp add: bindingForInstance_createOk live_bindings_def conj_commute find_rev split: list.split)
qed

section \<open>Freshness\<close>

text \<open>
  What the cache holds after a history: the last read, made by a call of the
  history under the same stat text, with no invalidation after it.
\<close>

definition cached_from :: "provider_call list \<Rightarrow> provider \<Rightarrow> bool" where
  "cached_from cs p = (case p of None \<Rightarrow> True
    | Some (sn, key) \<Rightarrow> \<exists>pre post rd. cs = pre @ Get (sn_readAt sn) key rd # post \<and> Invalidate \<notin> set post \<and>
        sn = read_snapshot rd (sn_readAt sn))"

lemma provider_run_append: "provider_run ttl (cs @ ds) p = provider_run ttl ds (provider_run ttl cs p)"
  by (induction ttl cs p rule: provider_run.induct) simp_all

lemma cached_from_snoc_get:
  assumes "cached_from cs p"
  shows "cached_from (cs @ [Get t k rd]) (snd (provider_get ttl t k rd p))"
proof -
  have new: "cached_from (cs @ [Get t k rd]) (Some (read_snapshot rd t, k))"
    unfolding cached_from_def prod.case option.case
    by (intro exI [of _ cs] exI [of _ "[]"] exI [of _ rd]) simp
  have old: "cached_from (cs @ [Get t k rd]) (Some (sn, key))" if "p = Some (sn, key)" for sn key
  proof -
    from assms that obtain pre post rd' where
      "cs = pre @ Get (sn_readAt sn) key rd' # post" "Invalidate \<notin> set post" "sn = read_snapshot rd' (sn_readAt sn)"
      by (auto simp: cached_from_def)
    then show ?thesis
      unfolding cached_from_def prod.case option.case
      by (intro exI [of _ pre] exI [of _ "post @ [Get t k rd]"] exI [of _ rd']) simp
  qed
  show ?thesis
    using new old by (auto simp: provider_get_def Let_def split: option.split)
qed

lemma cached_from_run: "cached_from cs (provider_run ttl cs None)"
proof (induction cs rule: rev_induct)
  case Nil
  show ?case by (simp add: cached_from_def)
next
  case (snoc c cs)
  then show ?case
    by (cases c) (simp_all add: provider_run_append cached_from_snoc_get, simp add: invalidate_def cached_from_def)
qed

text \<open>
  After any history of calls, what \<open>get\<close> returns is either read in this very
  call, or was read by an earlier call of the history that saw the same stat
  text, less than the time to live ago and not in the future, with no
  invalidation in between, and it is exactly the snapshot of what that call read.
\<close>

theorem cached_snapshot_is_fresh:
  assumes "createRegistrySnapshotProvider root ttlMs = Inr p0"
    and "fst (provider_get ttlMs now key rd (provider_run ttlMs history p0)) = sn"
  shows "sn = read_snapshot rd now \<or>
    (\<exists>pre post rd'. history = pre @ Get (sn_readAt sn) key rd' # post \<and> Invalidate \<notin> set post \<and>
       sn = read_snapshot rd' (sn_readAt sn) \<and> now - ttlMs < sn_readAt sn \<and> sn_readAt sn \<le> now)"
proof -
  have p0: "p0 = None"
    using assms(1) by (simp add: createRegistrySnapshotProvider_def split: if_splits)
  have inv: "cached_from history (provider_run ttlMs history None)"
    by (rule cached_from_run)
  show ?thesis
  proof (cases "sn = read_snapshot rd now")
    case False
    with assms(2) p0 obtain key' where c: "provider_run ttlMs history None = Some (sn, key')"
      and k: "key' = key" "0 \<le> now - sn_readAt sn" "now - sn_readAt sn < ttlMs"
      by (auto simp: provider_get_def Let_def split: option.splits if_splits)
    from inv c k(1) obtain pre post rd' where "history = pre @ Get (sn_readAt sn) key rd' # post"
      "Invalidate \<notin> set post" "sn = read_snapshot rd' (sn_readAt sn)"
      by (auto simp: cached_from_def)
    with k show ?thesis
      by (intro disjI2 exI [of _ pre] exI [of _ post] exI [of _ rd']) simp
  qed simp
qed

theorem cached_snapshot_is_fresh_witness:
  "\<exists>pre post rd'. [Get 7 ''1:2:3'' Read_absent, Invalidate, Get 1000 ''1:2:3'' Read_absent] = pre @ Get 1000 ''1:2:3'' rd' # post \<and>
     Invalidate \<notin> set post \<and> createAbsentSnapshot 1000 = read_snapshot rd' 1000 \<and> 1500 - 2000 < (1000 :: int) \<and> (1000 :: int) \<le> 1500"
proof -
  have "createRegistrySnapshotProvider ''/r'' 2000 = Inr None"
    by (simp add: createRegistrySnapshotProvider_def starts_with_def)
  moreover have "fst (provider_get 2000 1500 ''1:2:3'' Read_other (provider_run 2000
      [Get 7 ''1:2:3'' Read_absent, Invalidate, Get 1000 ''1:2:3'' Read_absent] None)) = createAbsentSnapshot 1000"
    by (simp add: provider_get_def invalidate_def read_snapshot_def createAbsentSnapshot_def Let_def)
  ultimately show ?thesis
    using cached_snapshot_is_fresh [of "''/r''" 2000 None 1500 "''1:2:3''" Read_other]
    by (fastforce simp: createAbsentSnapshot_def read_snapshot_def createUnreadableSnapshot_def)
qed

end
