(* ===== verification/Recipient_Resolver.thy ===== *)
theory Recipient_Resolver
  imports Registry_Snapshot
begin

text \<open>
  \<open>packages/agent-worker/src/recipient-resolver.mjs\<close>: the resolution of a
  principal address \<open>agent_...\<close> to the local recipient bound to it.  The model
  follows the function's two first-wins maps and its sort; the theorem is that,
  on a snapshot of a registry, the result is the one a direct reading of the
  registry gives: resolved exactly when one live binding of the principal is a
  local recipient, ambiguous when more are, an error otherwise.
\<close>

record recipient =
  rc_id :: string
  rc_label :: string

datatype resolution =
    Pass_through
  | Resolved string string string "json option"
  | Res_error string string "recipient list"

text \<open>A \<open>Map\<close> filled from a list, the first entry of a key kept: \<open>recipientById\<close> and \<open>candidatesById\<close>.\<close>

fun first_by_id :: "recipient list \<Rightarrow> (string \<times> recipient) list \<Rightarrow> (string \<times> recipient) list" where
  "first_by_id [] m = m"
| "first_by_id (r # rs) m = (if map_of m (rc_id r) = None then first_by_id rs (m @ [(rc_id r, r)]) else first_by_id rs m)"

definition valid_binding :: "string \<Rightarrow> json \<Rightarrow> bool" where
  "valid_binding to b = (obj_get b ''principal_id'' = Some (JStr to) \<and> obj_get b ''revoked_at'' = Some JNull \<and>
     obj_get b ''trust_mode'' = Some (JStr ''mesh-managed''))"

fun keep_local :: "(string \<times> recipient) list \<Rightarrow> json list \<Rightarrow> (json \<times> recipient) list" where
  "keep_local recipientById [] = []"
| "keep_local recipientById (b # bs) =
    (case Option.bind (field_text b ''profile_instance_id'') (map_of recipientById) of
       None \<Rightarrow> keep_local recipientById bs
     | Some r \<Rightarrow> (b, r) # keep_local recipientById bs)"

definition resolveRecipient :: "string \<Rightarrow> recipient list \<Rightarrow> snapshot option \<Rightarrow> resolution result" where
  "resolveRecipient to recipients snap =
    (if \<not> list_all (\<lambda>r. INSTANCE_ID_PATTERN (rc_id r)) recipients then Inl TypeErr
     else let isAgent = AGENT_ID_PATTERN to; isPeer = PEER_ID_PATTERN to in
     if \<not> isAgent \<and> \<not> isPeer then Inr Pass_through
     else if isPeer then Inr (Res_error ''recipient_not_found'' ''peer_not_supported'' [])
     else case snap of
         None \<Rightarrow> Inr (Res_error ''route_unavailable'' ''registry_unreadable'' [])
       | Some sn \<Rightarrow>
           if sn_state sn = ''absent'' then Inr (Res_error ''recipient_not_found'' ''registry_absent'' [])
           else if sn_state sn \<noteq> ''ok'' then Inr (Res_error ''route_unavailable'' ''registry_unreadable'' [])
           else let validBindings = filter (valid_binding to) (bindingsFor sn to) in
             if validBindings = [] then Inr (Res_error ''recipient_not_found'' ''no_binding'' [])
             else case keep_local (first_by_id recipients []) validBindings of
                 [] \<Rightarrow> Inr (Res_error ''route_unavailable'' ''not_a_local_recipient'' [])
               | [(b, r)] \<Rightarrow> Inr (Resolved (rc_id r) (opt_or (field_text b ''principal_id'') []) (rc_label r) (obj_get b ''binding_id''))
               | kept \<Rightarrow> Inr (Res_error ''recipient_ambiguous'' ''ambiguous_binding''
                   (sort_key rc_id (map snd (first_by_id (map snd kept) [])))))"

section \<open>The reference: a direct reading of the registry\<close>

text \<open>
  The live bindings of a principal whose instance is a recipient of this host,
  and the recipients they name, one per instance id, in the order of the ids.
\<close>

definition recipient_of :: "recipient list \<Rightarrow> json \<Rightarrow> recipient option" where
  "recipient_of recipients b = Option.bind (field_text b ''profile_instance_id'') (\<lambda>i. find (\<lambda>r. rc_id r = i) recipients)"

definition principal_bindings :: "json \<Rightarrow> string \<Rightarrow> json list" where
  "principal_bindings registry p = filter (\<lambda>b. field_text b ''principal_id'' = Some p) (live_bindings registry)"

definition local_bindings :: "json \<Rightarrow> string \<Rightarrow> recipient list \<Rightarrow> json list" where
  "local_bindings registry p recipients = filter (\<lambda>b. recipient_of recipients b \<noteq> None) (principal_bindings registry p)"

definition named_recipients :: "recipient list \<Rightarrow> json list \<Rightarrow> recipient list" where
  "named_recipients recipients bs =
    map (\<lambda>i. the (find (\<lambda>r. rc_id r = i) recipients))
      (sorted_list_of_set (set (map (\<lambda>b. rc_id (the (recipient_of recipients b))) bs)))"

definition resolution_of :: "json \<Rightarrow> string \<Rightarrow> recipient list \<Rightarrow> resolution" where
  "resolution_of registry to recipients =
    (case local_bindings registry to recipients of
       [b] \<Rightarrow> let r = the (recipient_of recipients b) in Resolved (rc_id r) to (rc_label r) (obj_get b ''binding_id'')
     | [] \<Rightarrow> if principal_bindings registry to = []
              then Res_error ''recipient_not_found'' ''no_binding'' []
              else Res_error ''route_unavailable'' ''not_a_local_recipient'' []
     | bs \<Rightarrow> Res_error ''recipient_ambiguous'' ''ambiguous_binding'' (named_recipients recipients bs))"

section \<open>The resolver computes the reference\<close>

lemma map_of_first_by_id:
  "map_of (first_by_id rs m) i = (case map_of m i of Some r \<Rightarrow> Some r | None \<Rightarrow> find (\<lambda>r. rc_id r = i) rs)"
  by (induction rs m rule: first_by_id.induct) (auto simp: map_of_append map_add_def split: option.splits)

lemma first_by_id_keys:
  "\<lbrakk>distinct (map fst m); \<forall>p \<in> set m. rc_id (snd p) = fst p\<rbrakk> \<Longrightarrow>
     distinct (map fst (first_by_id rs m)) \<and> (\<forall>p \<in> set (first_by_id rs m). rc_id (snd p) = fst p) \<and>
     fst ` set (first_by_id rs m) = fst ` set m \<union> rc_id ` set rs"
proof (induction rs m rule: first_by_id.induct)
  case (2 r rs m)
  show ?case
  proof (cases "map_of m (rc_id r) = None")
    case True
    then have "rc_id r \<notin> fst ` set m" by (simp add: map_of_eq_None_iff)
    with 2(3,4) have "distinct (map fst (m @ [(rc_id r, r)]))" "\<forall>p \<in> set (m @ [(rc_id r, r)]). rc_id (snd p) = fst p"
      by simp_all
    from 2(1) [OF True this] True show ?thesis by simp
  next
    case False
    then have "rc_id r \<in> fst ` set m" by (simp add: map_of_eq_None_iff)
    with 2(2) [OF False 2(3,4)] show ?thesis unfolding first_by_id.simps if_not_P [OF False] by (simp add: insert_absorb)
  qed
qed simp

lemma keep_local_eq:
  "keep_local (first_by_id recipients []) bs =
     map (\<lambda>b. (b, the (recipient_of recipients b))) (filter (\<lambda>b. recipient_of recipients b \<noteq> None) bs)"
proof -
  have "map_of (first_by_id recipients []) = (\<lambda>i. find (\<lambda>r. rc_id r = i) recipients)"
    by (rule ext) (simp add: map_of_first_by_id)
  then show ?thesis
    by (induction bs) (auto simp: recipient_of_def split: option.split)
qed

lemma recipient_of_id: "recipient_of recipients b = Some r \<Longrightarrow> find (\<lambda>r'. rc_id r' = rc_id r) recipients = Some r"
  by (auto simp: recipient_of_def bind_eq_Some_conv find_Some_iff)

lemma candidates_eq:
  assumes "\<forall>b \<in> set bs. recipient_of recipients b \<noteq> None"
  shows "sort_key rc_id (map snd (first_by_id (map (\<lambda>b. the (recipient_of recipients b)) bs) [])) = named_recipients recipients bs"
proof -
  let ?rs = "map (\<lambda>b. the (recipient_of recipients b)) bs"
  let ?c = "map snd (first_by_id ?rs [])"
  have keys: "distinct (map fst (first_by_id ?rs []))" "\<forall>p \<in> set (first_by_id ?rs []). rc_id (snd p) = fst p"
    "fst ` set (first_by_id ?rs []) = rc_id ` set ?rs"
    using first_by_id_keys [of "[]" ?rs] by simp_all
  have ids: "map rc_id ?c = map fst (first_by_id ?rs [])"
    using keys(2) by simp
  have dist: "distinct (map rc_id ?c)" unfolding ids by (rule keys(1))
  have idset: "set (map rc_id ?c) = rc_id ` set ?rs" using keys(3) unfolding ids by simp
  have same: "the (find (\<lambda>r'. rc_id r' = rc_id r) recipients) = r" if "r \<in> set ?c" for r
  proof -
    from that obtain i where "(i, r) \<in> set (first_by_id ?rs [])" by auto
    with keys(1) have "map_of (first_by_id ?rs []) i = Some r" by simp
    then have "find (\<lambda>r. rc_id r = i) ?rs = Some r" by (simp add: map_of_first_by_id)
    then have "r \<in> set ?rs" by (auto simp: find_Some_iff)
    with assms obtain b where "recipient_of recipients b = Some r" by fastforce
    then show ?thesis by (simp add: recipient_of_id)
  qed
  have sorted: "map rc_id (sort_key rc_id ?c) = sorted_list_of_set (rc_id ` set ?rs)"
  proof (rule sorted_distinct_set_unique)
    show "distinct (map rc_id (sort_key rc_id ?c))" using dist by (simp only: distinct_map distinct_sort set_sort)
  qed (use idset in \<open>simp_all add: image_image\<close>)
  have "sort_key rc_id ?c = map (\<lambda>i. the (find (\<lambda>r. rc_id r = i) recipients)) (map rc_id (sort_key rc_id ?c))"
    unfolding map_map by (rule map_idI [symmetric]) (simp add: same)
  then show ?thesis
    unfolding named_recipients_def sorted by (simp add: image_image)
qed

lemma filter_valid_bindings:
  "filter (valid_binding to) (bindingsFor (createOkSnapshot registry t) to) =
     sort_key instance_order (principal_bindings registry to)"
proof -
  have "valid_binding to b" if "b \<in> set (principal_bindings registry to)" for b
    using that by (auto simp: principal_bindings_def live_bindings_def live_binding_def valid_binding_def field_text_def
        split: option.splits json.splits)
  then have "filter (valid_binding to) (principal_bindings registry to) = principal_bindings registry to"
    by (simp add: filter_id_conv)
  then show ?thesis
    by (simp add: bindingsFor_createOk principal_bindings_def filter_sort)
qed

lemma kept_eq:
  "keep_local (first_by_id recipients []) (sort_key instance_order (principal_bindings registry to)) =
     map (\<lambda>b. (b, the (recipient_of recipients b))) (sort_key instance_order (local_bindings registry to recipients))"
  by (simp add: keep_local_eq filter_sort local_bindings_def)

lemma named_recipients_sort: "named_recipients recipients (sort_key f bs) = named_recipients recipients bs"
  by (simp add: named_recipients_def)

lemma local_binding_facts:
  assumes "b \<in> set (local_bindings registry to recipients)"
  shows "field_text b ''principal_id'' = Some to" "recipient_of recipients b \<noteq> None" "principal_bindings registry to \<noteq> []"
proof -
  have mem: "b \<in> set (principal_bindings registry to)"
    using assms by (simp add: local_bindings_def)
  from mem show "field_text b ''principal_id'' = Some to" by (simp add: principal_bindings_def)
  from mem show "principal_bindings registry to \<noteq> []" by auto
qed (use assms in \<open>simp add: local_bindings_def\<close>)

lemma sort_key_length_cases:
  "sort_key f xs = [] \<longleftrightarrow> xs = []" "sort_key f [x] = [x]"
  "length xs \<ge> 2 \<Longrightarrow> \<exists>a b r. sort_key f xs = a # b # r"
proof -
  show "sort_key f xs = [] \<longleftrightarrow> xs = []" by (metis length_0_conv length_sort)
  show "sort_key f [x] = [x]" by simp
  assume "length xs \<ge> 2"
  then have "length (sort_key f xs) \<ge> 2" by simp
  then show "\<exists>a b r. sort_key f xs = a # b # r" by (metis Suc_le_length_iff numeral_2_eq_2)
qed

lemma resolve_many:
  assumes "length (local_bindings registry to recipients) \<ge> 2"
  shows "(case map (\<lambda>b. (b, the (recipient_of recipients b))) (sort_key instance_order (local_bindings registry to recipients)) of
      [] \<Rightarrow> e | [(b, r)] \<Rightarrow> f b r
    | kept \<Rightarrow> Inr (Res_error c w (sort_key rc_id (map snd (first_by_id (map snd kept) []))))) =
    Inr (Res_error c w (named_recipients recipients (local_bindings registry to recipients)))"
proof -
  let ?bs = "sort_key instance_order (local_bindings registry to recipients)"
  obtain a b r where bs: "?bs = a # b # r" using sort_key_length_cases(3) [OF assms] by blast
  have "\<forall>b \<in> set ?bs. recipient_of recipients b \<noteq> None"
    using local_binding_facts(2) by simp
  from candidates_eq [OF this] show ?thesis
    by (simp add: bs named_recipients_sort [of recipients instance_order "local_bindings registry to recipients", symmetric] comp_def
        del: first_by_id.simps)
qed

lemma resolve_on_snapshot:
  "resolveRecipient to recipients (Some (createOkSnapshot registry t)) =
    (if \<not> list_all (\<lambda>r. INSTANCE_ID_PATTERN (rc_id r)) recipients then Inl TypeErr
     else if AGENT_ID_PATTERN to then Inr (resolution_of registry to recipients)
     else if PEER_ID_PATTERN to then Inr (Res_error ''recipient_not_found'' ''peer_not_supported'' [])
     else Inr Pass_through)"
proof (cases "list_all (\<lambda>r. INSTANCE_ID_PATTERN (rc_id r)) recipients \<and> AGENT_ID_PATTERN to")
  case False
  then show ?thesis by (auto simp: resolveRecipient_def)
next
  case True
  have peer: "\<not> PEER_ID_PATTERN to" using True peer_not_agent by blast
  let ?L = "local_bindings registry to recipients"
  consider (none) "?L = []" | (one) b where "?L = [b]" | (many) "length ?L \<ge> 2"
    by (cases ?L rule: remdups_adj.cases) auto
  then have "resolveRecipient to recipients (Some (createOkSnapshot registry t)) = Inr (resolution_of registry to recipients)"
  proof cases
    case none
    then show ?thesis
      using True peer by (simp add: resolveRecipient_def filter_valid_bindings kept_eq resolution_of_def sort_key_length_cases)
  next
    case one
    then have "b \<in> set ?L" by simp
    from local_binding_facts [OF this] one True peer show ?thesis
      by (simp add: resolveRecipient_def filter_valid_bindings kept_eq resolution_of_def sort_key_length_cases Let_def)
  next
    case many
    then have ne: "principal_bindings registry to \<noteq> []" by (auto simp: local_bindings_def)
    obtain x y r where "?L = x # y # r" using many by (metis Suc_le_length_iff numeral_2_eq_2)
    then show ?thesis
      using True peer ne resolve_many [OF many]
      by (simp add: resolveRecipient_def filter_valid_bindings kept_eq resolution_of_def sort_key_length_cases del: sort_key_simps)
  qed
  with True show ?thesis by simp
qed

text \<open>
  C10: on the snapshot of any registry, a principal resolves as a direct reading of
  the registry says: to a recipient exactly when one live mesh-managed binding of
  the principal names a local recipient; ambiguous when several do (two
  of one recipient included), with one
  candidate per local recipient in the order of the ids; otherwise to the error
  that tells an unbound principal from one bound elsewhere.  Addresses that are
  no principals pass through and peers are refused whatever the registry says.
\<close>

theorem resolver_meets_registry:
  "resolveRecipient to recipients (Some (createOkSnapshot registry t)) =
    (if \<not> list_all (\<lambda>r. INSTANCE_ID_PATTERN (rc_id r)) recipients then Inl TypeErr
     else if AGENT_ID_PATTERN to then Inr (resolution_of registry to recipients)
     else if PEER_ID_PATTERN to then Inr (Res_error ''recipient_not_found'' ''peer_not_supported'' [])
     else Inr Pass_through)"
  by (rule resolve_on_snapshot)

end
