(* ===== verification/Unified_Router.thy ===== *)
theory Unified_Router
  imports Recipient_Resolver
begin

text \<open>
  \<open>packages/agent-worker/src/unified-router.mjs\<close> (and \<open>localState\<close> of
  \<open>transport-adapter-contract.mjs\<close>): the routing of a send, the decorations of
  the protocol's responses and the operational counters.  A call takes the
  injected configuration as it is at that call: whether the router is enabled,
  the recipients of this host and the predicate \<open>canMessage\<close>.  The snapshot
  provider is a state of its own, read by the parameter \<open>pget\<close>, so that an
  operation that must not touch the registry leaves it unchanged.  Response
  objects are JSON values; \<^const>\<open>None\<close> stands for \<open>undefined\<close>.
\<close>

section \<open>JavaScript values\<close>

definition js_truthy :: "json option \<Rightarrow> bool" where
  "js_truthy v = (case v of None \<Rightarrow> False | Some JNull \<Rightarrow> False | Some (JBool b) \<Rightarrow> b | Some (JNum n) \<Rightarrow> n \<noteq> 0
     | Some (JStr s) \<Rightarrow> s \<noteq> [] | Some _ \<Rightarrow> True)"

definition js_or :: "json option \<Rightarrow> json option \<Rightarrow> json option" where
  "js_or a b = (if js_truthy a then a else b)"

definition nullish :: "json option \<Rightarrow> bool" where
  "nullish v = (v = None \<or> v = Some JNull)"

definition js_object :: "json \<Rightarrow> bool" where
  "js_object j = (case j of JObj _ \<Rightarrow> True | JArr _ \<Rightarrow> True | _ \<Rightarrow> False)"

text \<open>\<open>Object.entries\<close>: an array has its indexes as keys.\<close>

definition object_entries :: "json \<Rightarrow> (string \<times> json) list" where
  "object_entries j = (case j of JObj kvs \<Rightarrow> kvs | JArr xs \<Rightarrow> map (\<lambda>(i, v). (digits i, v)) (enumerate 0 xs) | _ \<Rightarrow> [])"

section \<open>Targets and response objects\<close>

definition localState :: "json option \<Rightarrow> string" where
  "localState phase =
    (if phase = Some (JStr ''queued_local'') then ''received''
     else if phase = Some (JStr ''executing'') then ''executing''
     else if phase = Some (JStr ''held'') then ''held''
     else if phase = Some (JStr ''completed'') then ''completed''
     else if phase = Some (JStr ''failed'') then ''closed_by_owner''
     else ''unknown'')"

definition RAW_JOURNAL_FIELDS :: "string list" where
  "RAW_JOURNAL_FIELDS = [''to_principal'', ''resolved_via'']"

text \<open>One optional text field of \<open>projectTarget\<close>: left out when nullish or empty, a type error when no text.\<close>

definition project_field :: "json \<Rightarrow> string \<Rightarrow> (string \<times> json) list result" where
  "project_field input k =
    (if nullish (obj_get input k) then Inr []
     else case obj_get input k of
         Some (JStr s) \<Rightarrow> if s \<noteq> [] then Inr [(k, JStr s)] else Inr []
       | _ \<Rightarrow> Inl TypeErr)"

definition projectTarget :: "json \<Rightarrow> json result" where
  "projectTarget targetInput =
    (case targetInput of
       JObj _ \<Rightarrow>
         (let via = (if nullish (obj_get targetInput ''via'')
              then Some (JStr (if js_truthy (obj_get targetInput ''principal'') then ''principal'' else ''id''))
              else obj_get targetInput ''via'') in
          if via \<noteq> Some (JStr ''principal'') \<and> via \<noteq> Some (JStr ''id'') then Inl TypeErr
          else case project_field targetInput ''principal'' of Inl e \<Rightarrow> Inl e
            | Inr pr \<Rightarrow> (case project_field targetInput ''profile'' of Inl e \<Rightarrow> Inl e
               | Inr profile \<Rightarrow> Inr (JObj ((''via'', the via) # pr @ profile))))
     | _ \<Rightarrow> Inl TypeErr)"

definition sanitizeDto :: "json \<Rightarrow> json" where
  "sanitizeDto dto = (if js_object dto
     then JObj (filter (\<lambda>(k, v). k \<notin> set RAW_JOURNAL_FIELDS) (object_entries dto)) else dto)"

text \<open>\<open>{ ...clean, k: v }\<close>.\<close>

definition with_field :: "json \<Rightarrow> string \<Rightarrow> json \<Rightarrow> json" where
  "with_field clean k v = JObj (obj_put (object_entries clean) k v)"

section \<open>Registry lookups\<close>

definition instance_binding :: "snapshot \<Rightarrow> json option \<Rightarrow> json option" where
  "instance_binding sn i = (case i of Some (JStr s) \<Rightarrow> bindingForInstance sn s | _ \<Rightarrow> None)"

text \<open>The lookup the operations share: in state \<open>ok\<close>, a truthy \<open>principal_id\<close> of the instance's binding.\<close>

definition bound_principal :: "snapshot option \<Rightarrow> json option \<Rightarrow> json option" where
  "bound_principal snap i = (case snap of
      None \<Rightarrow> None
    | Some sn \<Rightarrow> if sn_state sn \<noteq> ''ok'' then None
        else let p = Option.bind (instance_binding sn i) (\<lambda>b. obj_get b ''principal_id'')
          in if js_truthy p then p else None)"

definition lookupPrincipal :: "snapshot option \<Rightarrow> string \<Rightarrow> string option \<times> string" where
  "lookupPrincipal snap instanceId = (case snap of
      None \<Rightarrow> (None, ''unknown'')
    | Some sn \<Rightarrow>
        if sn_state sn = ''absent'' then (None, ''unbound'')
        else if sn_state sn \<noteq> ''ok'' then (None, ''unknown'')
        else (let bound = Option.bind (bindingForInstance sn instanceId) (\<lambda>b. obj_get b ''principal_id'') in
          if \<not> js_truthy bound then (None, ''unbound'')
          else case bound of
              Some (JStr p) \<Rightarrow> if AGENT_ID_PATTERN p then (Some p, ''bound'') else (None, ''unknown'')
            | _ \<Rightarrow> (None, ''unknown'')))"

text \<open>What awaiting the injected predicate \<open>canMessage\<close> gives.\<close>

datatype can_outcome = Says_false | Says_null | Says_other | Can_threw

definition evaluateCanMessage :: "(string option \<Rightarrow> string \<Rightarrow> can_outcome) option \<Rightarrow> string option \<Rightarrow> string \<Rightarrow> bool" where
  "evaluateCanMessage canMessage senderId recipientId = (case canMessage of
      None \<Rightarrow> False
    | Some f \<Rightarrow> (case f senderId recipientId of Says_false \<Rightarrow> False | Says_null \<Rightarrow> False | Says_other \<Rightarrow> True | Can_threw \<Rightarrow> False))"

section \<open>The router's state\<close>

record counters =
  n_principal :: nat
  n_id :: nat
  n_errors :: "(string \<times> nat) list"

record 'p router =
  ro_counters :: counters
  ro_source :: "'p option"

record router_config =
  rf_enabled :: bool
  rf_recipients :: "recipient list"
  rf_canMessage :: "(string option \<Rightarrow> string \<Rightarrow> can_outcome) option"

text \<open>One call of \<open>snapshotProvider.get()\<close>: a snapshot, or an exception with its code when that is a text.\<close>

datatype snapshot_call = Gave snapshot | Threw "string option"

definition zero_counters :: counters where
  "zero_counters = \<lparr>n_principal = 0, n_id = 0,
     n_errors = [(''recipient_not_found'', 0), (''route_unavailable'', 0), (''recipient_ambiguous'', 0)]\<rparr>"

definition createUnifiedRouter :: "'p option \<Rightarrow> 'p router" where
  "createUnifiedRouter snapshotProvider = \<lparr>ro_counters = zero_counters, ro_source = snapshotProvider\<rparr>"

definition recordError :: "string \<Rightarrow> 'p router \<Rightarrow> 'p router" where
  "recordError code st = st\<lparr>ro_counters := (ro_counters st)\<lparr>n_errors :=
     AList.update code (opt_or (map_of (n_errors (ro_counters st)) code) 0 + 1) (n_errors (ro_counters st))\<rparr>\<rparr>"

definition count_principal :: "'p router \<Rightarrow> 'p router" where
  "count_principal st = st\<lparr>ro_counters := (ro_counters st)\<lparr>n_principal := n_principal (ro_counters st) + 1\<rparr>\<rparr>"

definition count_id :: "'p router \<Rightarrow> 'p router" where
  "count_id st = st\<lparr>ro_counters := (ro_counters st)\<lparr>n_id := n_id (ro_counters st) + 1\<rparr>\<rparr>"

text \<open>
  \<open>if (snapshotProvider ...) try { snap = options.snapshot ?? snapshotProvider.get() } catch {}\<close>:
  no snapshot when there is no provider or it throws.
\<close>

definition guarded_snapshot :: "('p \<Rightarrow> snapshot_call \<times> 'p) \<Rightarrow> snapshot option \<Rightarrow> 'p router \<Rightarrow> snapshot option \<times> 'p router" where
  "guarded_snapshot pget override st = (case ro_source st of
      None \<Rightarrow> (None, st)
    | Some p \<Rightarrow> (case override of
         Some sn \<Rightarrow> (Some sn, st)
       | None \<Rightarrow> (case pget p of
            (Gave sn, p') \<Rightarrow> (Some sn, st\<lparr>ro_source := Some p'\<rparr>)
          | (Threw _, p') \<Rightarrow> (None, st\<lparr>ro_source := Some p'\<rparr>))))"

section \<open>Routing a send\<close>

record send_route =
  sr_resolvedTo :: string
  sr_to :: string
  sr_resolved :: bool
  sr_via :: "string option"
  sr_principal :: json
  sr_profile :: "string option"
  sr_bindingId :: "json option"
  sr_route :: "string option"

datatype send_outcome =
    Routed send_route
  | Unroutable string string "recipient list"
  | Route_throws string string "recipient list"
  | Route_type_error

record call_options =
  co_throwOnError :: bool
  co_snapshot :: "snapshot option"
  co_recipients :: "recipient list option"
  co_canMessage :: "(string option \<Rightarrow> string \<Rightarrow> can_outcome) option"

definition route_failure :: "bool \<Rightarrow> string \<Rightarrow> string \<Rightarrow> recipient list \<Rightarrow> send_outcome" where
  "route_failure throwOnError code reason candidates =
    (if throwOnError then Route_throws code reason candidates else Unroutable code reason candidates)"

text \<open>Branch 2 of \<open>resolveSend\<close>: an address that is no principal passes, whatever the registry does.\<close>

definition send_by_id :: "('p \<Rightarrow> snapshot_call \<times> 'p) \<Rightarrow> recipient list \<Rightarrow> snapshot option \<Rightarrow> string \<Rightarrow> 'p router \<Rightarrow> send_outcome \<times> 'p router" where
  "send_by_id pget recipients override to st =
    (let (snap, st') = guarded_snapshot pget override (count_id st) in
     (Routed \<lparr>sr_resolvedTo = to, sr_to = to, sr_resolved = False, sr_via = Some ''id'',
        sr_principal = opt_or (bound_principal snap (Some (JStr to))) JNull,
        sr_profile = map_option rc_label (find (\<lambda>r. rc_id r = to) recipients),
        sr_bindingId = None, sr_route = Some ''local''\<rparr>, st'))"

definition filter_candidates :: "(string option \<Rightarrow> string \<Rightarrow> can_outcome) option \<Rightarrow> string option \<Rightarrow> string \<Rightarrow> recipient list \<Rightarrow> recipient list" where
  "filter_candidates canMessage senderId code candidates =
    (if code = ''recipient_ambiguous''
     then (case canMessage of None \<Rightarrow> [] | Some f \<Rightarrow> filter (\<lambda>c. evaluateCanMessage canMessage senderId (rc_id c)) candidates)
     else candidates)"

text \<open>The end of branch 4: what the resolver's result becomes.\<close>

definition send_resolved :: "bool \<Rightarrow> (string option \<Rightarrow> string \<Rightarrow> can_outcome) option \<Rightarrow> string option \<Rightarrow> string \<Rightarrow>
    resolution result \<Rightarrow> 'p router \<Rightarrow> send_outcome \<times> 'p router" where
  "send_resolved throwOnError canMessage senderId to res st = (case res of
      Inl _ \<Rightarrow> (Route_type_error, st)
    | Inr (Resolved recipientId principalId profile bindingId) \<Rightarrow>
        (Routed \<lparr>sr_resolvedTo = recipientId, sr_to = to, sr_resolved = True, sr_via = Some ''principal'',
           sr_principal = JStr principalId, sr_profile = Some profile, sr_bindingId = bindingId,
           sr_route = Some ''local''\<rparr>, count_principal st)
    | Inr (Res_error code reason candidates) \<Rightarrow>
        (route_failure throwOnError code reason (filter_candidates canMessage senderId code candidates), recordError code st)
    | Inr Pass_through \<Rightarrow>
        (Routed \<lparr>sr_resolvedTo = to, sr_to = to, sr_resolved = False, sr_via = Some ''id'', sr_principal = JNull,
           sr_profile = None, sr_bindingId = None, sr_route = Some ''local''\<rparr>, st))"

definition send_by_principal :: "('p \<Rightarrow> snapshot_call \<times> 'p) \<Rightarrow> call_options \<Rightarrow> (string option \<Rightarrow> string \<Rightarrow> can_outcome) option \<Rightarrow>
    recipient list \<Rightarrow> string option \<Rightarrow> string \<Rightarrow> 'p router \<Rightarrow> send_outcome \<times> 'p router" where
  "send_by_principal pget co canMessage recipients senderId to st =
    (let resolve = (\<lambda>snap. send_resolved (co_throwOnError co) canMessage senderId to (resolveRecipient to recipients snap)) in
     case co_snapshot co of
       Some sn \<Rightarrow> resolve (Some sn) st
     | None \<Rightarrow> (case ro_source st of
          None \<Rightarrow> resolve None st
        | Some p \<Rightarrow> (case pget p of
             (Gave sn, p') \<Rightarrow> resolve (Some sn) (st\<lparr>ro_source := Some p'\<rparr>)
           | (Threw code, p') \<Rightarrow>
               (route_failure (co_throwOnError co) ''route_unavailable'' (opt_or code ''registry_unreadable'') [],
                recordError ''route_unavailable'' (st\<lparr>ro_source := Some p'\<rparr>)))))"

definition resolveSend :: "('p \<Rightarrow> snapshot_call \<times> 'p) \<Rightarrow> router_config \<Rightarrow> call_options \<Rightarrow> string option \<Rightarrow> string option \<Rightarrow>
    'p router \<Rightarrow> send_outcome \<times> 'p router" where
  "resolveSend pget cfg co senderId to_arg st = (case to_arg of
      None \<Rightarrow> (Route_type_error, st)
    | Some to \<Rightarrow>
        if \<not> rf_enabled cfg
        then (Routed \<lparr>sr_resolvedTo = to, sr_to = to, sr_resolved = False, sr_via = None, sr_principal = JNull,
                sr_profile = None, sr_bindingId = None, sr_route = None\<rparr>, st)
        else let canMessage = coalesce (co_canMessage co) (rf_canMessage cfg);
            recipients = opt_or (co_recipients co) (rf_recipients cfg) in
          if \<not> AGENT_ID_PATTERN to \<and> \<not> PEER_ID_PATTERN to then send_by_id pget recipients (co_snapshot co) to st
          else if PEER_ID_PATTERN to
          then (route_failure (co_throwOnError co) ''recipient_not_found'' ''peer_not_supported'' [],
                recordError ''recipient_not_found'' st)
          else send_by_principal pget co canMessage recipients senderId to st)"

section \<open>Decorations\<close>

definition lookupProfile :: "router_config \<Rightarrow> json option \<Rightarrow> string option" where
  "lookupProfile cfg instanceId =
    (if \<not> js_truthy instanceId then None
     else map_option rc_label (find (\<lambda>r. Some (JStr (rc_id r)) = instanceId) (rf_recipients cfg)))"

record decorate_options =
  do_resolution :: "send_route option"
  do_record :: "json option"
  do_target :: "json option"
  do_phase :: "json option"
  do_snapshot :: "snapshot option"

text \<open>Optional chaining on the record (the journal's record object, when there is one) and on the resolution.\<close>

definition rec_field :: "decorate_options \<Rightarrow> string \<Rightarrow> json option" where
  "rec_field opts k = Option.bind (do_record opts) (\<lambda>r. obj_get r k)"

definition resolved_to :: "decorate_options \<Rightarrow> json option" where
  "resolved_to opts = map_option (JStr \<circ> sr_resolvedTo) (do_resolution opts)"

definition resolution_principal :: "decorate_options \<Rightarrow> json option" where
  "resolution_principal opts = map_option sr_principal (do_resolution opts)"

text \<open>\<open>options.resolution?.profile || lookupProfile(id)\<close>.\<close>

definition target_profile :: "router_config \<Rightarrow> decorate_options \<Rightarrow> json option \<Rightarrow> json option" where
  "target_profile cfg opts i =
    js_or (map_option JStr (Option.bind (do_resolution opts) sr_profile)) (map_option JStr (lookupProfile cfg i))"

text \<open>\<open>{ via, ...(principal ? { principal } : {}), ...(profile ? { profile } : {}) }\<close>.\<close>

definition target_input :: "string \<Rightarrow> json option \<Rightarrow> json option \<Rightarrow> json" where
  "target_input via p profile = JObj ([(''via'', JStr via)] @
     (if js_truthy p then [(''principal'', the p)] else []) @ (if js_truthy profile then [(''profile'', the profile)] else []))"

definition routed_response :: "json \<Rightarrow> string \<Rightarrow> json result \<Rightarrow> json result" where
  "routed_response clean state target = (case target of Inl e \<Rightarrow> Inl e
     | Inr tgt \<Rightarrow> Inr (with_field (with_field (with_field clean ''route'' (JStr ''local'')) ''state'' (JStr state)) ''target'' tgt))"

text \<open>The registry's answer for an instance when no principal is known and a lookup is allowed.\<close>

definition registry_principal :: "('p \<Rightarrow> snapshot_call \<times> 'p) \<Rightarrow> bool \<Rightarrow> snapshot option \<Rightarrow> json option \<Rightarrow> json option \<Rightarrow> 'p router \<Rightarrow> json option \<times> 'p router" where
  "registry_principal pget allowed override known i st =
    (if \<not> js_truthy known \<and> allowed \<and> js_truthy i
     then let (snap, st') = guarded_snapshot pget override st in
       (case bound_principal snap i of None \<Rightarrow> (known, st') | Some p \<Rightarrow> (Some p, st'))
     else (known, st))"

definition decorateSend :: "('p \<Rightarrow> snapshot_call \<times> 'p) \<Rightarrow> router_config \<Rightarrow> json \<Rightarrow> decorate_options \<Rightarrow> 'p router \<Rightarrow> json result \<times> 'p router" where
  "decorateSend pget cfg sendResponse opts st =
    (if \<not> js_object sendResponse then (Inl TypeErr, st)
     else let clean = sanitizeDto sendResponse in
     if \<not> rf_enabled cfg then (Inr clean, st)
     else let
       phase = js_or (obj_get clean ''status'') (js_or (do_phase opts) (js_or (rec_field opts ''phase'') (Some (JStr ''queued_local''))));
       state = localState phase;
       isPrincipal = (if do_record opts \<noteq> None
         then rec_field opts ''resolved_via'' = Some (JStr ''principal'') \<or> js_truthy (rec_field opts ''to_principal'')
         else Option.bind (do_resolution opts) sr_via = Some ''principal'') in
     case do_target opts of
       Some target \<Rightarrow> (routed_response clean state (projectTarget target), st)
     | None \<Rightarrow>
        if isPrincipal
        then let recipientId = js_or (rec_field opts ''recipient'') (resolved_to opts);
            profile = target_profile cfg opts recipientId;
            p = (if rec_field opts ''to_principal'' \<noteq> None then rec_field opts ''to_principal'' else resolution_principal opts) in
          (routed_response clean state (projectTarget (target_input ''principal'' p profile)), st)
        else let instanceId = js_or (rec_field opts ''recipient'') (js_or (resolved_to opts) (obj_get clean ''to''));
            profile = target_profile cfg opts instanceId;
            known = (if rec_field opts ''to_principal'' \<noteq> None then rec_field opts ''to_principal'' else resolution_principal opts);
            (p, st') = registry_principal pget (do_record opts = None) (do_snapshot opts) known instanceId st in
          (routed_response clean state (projectTarget (target_input ''id'' p profile)), st'))"

definition decorateStatus :: "('p \<Rightarrow> snapshot_call \<times> 'p) \<Rightarrow> router_config \<Rightarrow> json \<Rightarrow> decorate_options \<Rightarrow> 'p router \<Rightarrow> json result \<times> 'p router" where
  "decorateStatus pget cfg statusResponse opts st =
    (if \<not> js_object statusResponse then (Inl TypeErr, st)
     else let clean = sanitizeDto statusResponse in
     if \<not> rf_enabled cfg then (Inr clean, st)
     else let
       phase = js_or (obj_get clean ''phase'') (js_or (rec_field opts ''phase'') (Some (JStr ''unknown'')));
       state = localState phase;
       recipientId = js_or (resolved_to opts) (rec_field opts ''recipient'');
       profile = target_profile cfg opts recipientId in
     case do_target opts of
       Some target \<Rightarrow> (routed_response clean state (projectTarget target), st)
     | None \<Rightarrow>
        if Option.bind (do_resolution opts) sr_via = Some ''principal'' \<or>
           rec_field opts ''resolved_via'' = Some (JStr ''principal'') \<or> js_truthy (rec_field opts ''to_principal'')
        then let p = (if nullish (resolution_principal opts) then rec_field opts ''to_principal'' else resolution_principal opts) in
          (routed_response clean state (projectTarget (target_input ''principal'' p profile)), st)
        else let (p, st') = registry_principal pget True (do_snapshot opts) (resolution_principal opts) recipientId st in
          (routed_response clean state (projectTarget (target_input ''id'' p profile)), st'))"

text \<open>
  The lists: the argument is the array itself or an object that holds it under
  the given key; the elements that are objects are processed, and the result has
  the shape of the argument.
\<close>

definition listed :: "string \<Rightarrow> json \<Rightarrow> json list option" where
  "listed k arg = (case obj_get arg k of Some (JArr xs) \<Rightarrow> Some xs | _ \<Rightarrow> (case arg of JArr xs \<Rightarrow> Some xs | _ \<Rightarrow> None))"

definition is_container :: "string \<Rightarrow> json \<Rightarrow> bool" where
  "is_container k arg = (case obj_get arg k of Some (JArr _) \<Rightarrow> True | _ \<Rightarrow> False)"

definition map_objects :: "(json \<Rightarrow> json) \<Rightarrow> json list \<Rightarrow> json list" where
  "map_objects f = map (\<lambda>item. if js_object item then f item else item)"

definition relisted :: "string \<Rightarrow> json \<Rightarrow> json list \<Rightarrow> json" where
  "relisted k arg processed = (if is_container k arg then with_field (sanitizeDto arg) k (JArr processed) else JArr processed)"

definition decorateReplies :: "router_config \<Rightarrow> json \<Rightarrow> json result" where
  "decorateReplies cfg arg = (case listed ''replies'' arg of
      None \<Rightarrow> Inl TypeErr
    | Some xs \<Rightarrow> Inr (relisted ''replies'' arg (map_objects (\<lambda>item.
        if \<not> rf_enabled cfg then sanitizeDto item else with_field (sanitizeDto item) ''route'' (JStr ''local'')) xs)))"

definition session_principal :: "snapshot option \<Rightarrow> json \<Rightarrow> json" where
  "session_principal snap item = opt_or (bound_principal snap (obj_get item ''id'')) JNull"

definition decorateSessions :: "('p \<Rightarrow> snapshot_call \<times> 'p) \<Rightarrow> router_config \<Rightarrow> json \<Rightarrow> snapshot option \<Rightarrow> 'p router \<Rightarrow> json result \<times> 'p router" where
  "decorateSessions pget cfg arg override st = (case listed ''sessions'' arg of
      None \<Rightarrow> (Inl TypeErr, st)
    | Some xs \<Rightarrow>
        if \<not> rf_enabled cfg then (Inr (relisted ''sessions'' arg (map_objects sanitizeDto xs)), st)
        else let (snap, st') = guarded_snapshot pget override st in
          (Inr (relisted ''sessions'' arg (map_objects (\<lambda>item.
             with_field (sanitizeDto item) ''principal'' (session_principal snap item)) xs)), st'))"

definition decorateInbox :: "json \<Rightarrow> json result" where
  "decorateInbox arg = (case listed ''items'' arg of
      None \<Rightarrow> Inl TypeErr
    | Some xs \<Rightarrow> Inr (if is_container ''items'' arg
        then with_field (relisted ''items'' arg (map_objects sanitizeDto xs)) ''nextCursor''
          (if nullish (obj_get arg ''nextCursor'') then JNull else the (obj_get arg ''nextCursor''))
        else relisted ''items'' arg (map_objects sanitizeDto xs)))"

section \<open>Explaining addresses, status and counters\<close>

record explanation =
  ex_id :: string
  ex_route :: string
  ex_principal :: "string option"
  ex_principalState :: string
  ex_send :: "(bool \<times> string list) option"

definition principalNamesOnly :: "recipient list \<Rightarrow> snapshot option \<Rightarrow> string \<Rightarrow> string \<Rightarrow> bool" where
  "principalNamesOnly directory snap p i = (case resolveRecipient p directory snap of
      Inr (Resolved recipientId _ _ _) \<Rightarrow> recipientId = i
    | _ \<Rightarrow> False)"

text \<open>One explanation; \<open>permitted\<close> returns \<^const>\<open>None\<close> when it throws.\<close>

definition explain :: "recipient list \<Rightarrow> snapshot option \<Rightarrow> (string \<Rightarrow> bool option) option \<Rightarrow> string \<Rightarrow> explanation" where
  "explain directory snap permitted i =
    (let (p, state) = lookupPrincipal snap i in
     \<lparr>ex_id = i, ex_route = ''local'', ex_principal = p, ex_principalState = state,
      ex_send = (case permitted of None \<Rightarrow> None
        | Some f \<Rightarrow> let allowed = (f i = Some True) in
            Some (allowed, if allowed
              then ''id'' # (case p of None \<Rightarrow> [] | Some q \<Rightarrow> if principalNamesOnly directory snap q i then [''principal''] else [])
              else []))\<rparr>)"

definition describeAddresses :: "('p \<Rightarrow> snapshot_call \<times> 'p) \<Rightarrow> router_config \<Rightarrow> string list \<Rightarrow> (string \<Rightarrow> bool option) option \<Rightarrow>
    snapshot option \<Rightarrow> 'p router \<Rightarrow> explanation list option \<times> 'p router" where
  "describeAddresses pget cfg ids permitted override st =
    (if \<not> rf_enabled cfg then (None, st)
     else let (snap, st') = (case override of
           Some sn \<Rightarrow> (Some sn, st)
         | None \<Rightarrow> guarded_snapshot pget None st) in
       (Some (map (explain (rf_recipients cfg) snap permitted) ids), st'))"

record status_block =
  sb_enabled :: bool
  sb_state :: string
  sb_sequence :: int
  sb_counters :: counters

definition getCounters :: "'p router \<Rightarrow> counters" where
  "getCounters st = ro_counters st"

definition statusBlock :: "('p \<Rightarrow> snapshot_call \<times> 'p) \<Rightarrow> router_config \<Rightarrow> snapshot option \<Rightarrow> 'p router \<Rightarrow> status_block \<times> 'p router" where
  "statusBlock pget cfg override st =
    (if \<not> rf_enabled cfg
     then (\<lparr>sb_enabled = False, sb_state = ''disabled'', sb_sequence = 0, sb_counters = getCounters st\<rparr>, st)
     else let block = (\<lambda>state sequence. \<lparr>sb_enabled = True, sb_state = state, sb_sequence = sequence, sb_counters = getCounters st\<rparr>) in
       case override of
         Some sn \<Rightarrow> (block (sn_state sn) (sn_sequence sn), st)
       | None \<Rightarrow> (case ro_source st of
            None \<Rightarrow> (block ''unknown'' 0, st)
          | Some p \<Rightarrow> (case pget p of
               (Gave sn, p') \<Rightarrow> (block (sn_state sn) (sn_sequence sn), st\<lparr>ro_source := Some p'\<rparr>)
             | (Threw _, p') \<Rightarrow> (block ''unreadable'' 0, st\<lparr>ro_source := Some p'\<rparr>))))"

definition resetCounters :: "'p router \<Rightarrow> 'p router" where
  "resetCounters st = st\<lparr>ro_counters := \<lparr>n_principal = 0, n_id = 0, n_errors = map (\<lambda>(k, v). (k, 0)) (n_errors (ro_counters st))\<rparr>\<rparr>"

end
