(* ===== verification/Router_Guarantees.thy ===== *)
theory Router_Guarantees
  imports Unified_Router
begin

text \<open>
  What the router guarantees.  The locale \<open>registry_source\<close> is the contract between the
  router and its snapshot provider: every snapshot it gives is that of a registry
  that was read.  Under it, a send by principal reaches the sole live local
  binding of the principal.  The provider of \<open>Registry_Snapshot\<close>, driven by the
  clock, the file's stat text and the reader, is an interpretation.
\<close>

section \<open>Sequences of sends\<close>

type_synonym send_call = "router_config \<times> call_options \<times> string option \<times> string option"

fun run_sends :: "('p \<Rightarrow> snapshot_call \<times> 'p) \<Rightarrow> send_call list \<Rightarrow> 'p router \<Rightarrow> send_outcome list \<times> 'p router" where
  "run_sends pget [] st = ([], st)"
| "run_sends pget ((cfg, co, sender, to) # cs) st =
    (let (out, st1) = resolveSend pget cfg co sender to st; (outs, st2) = run_sends pget cs st1 in (out # outs, st2))"

text \<open>The provider as a source: what the clock, \<open>statRegistry\<close> and \<open>readRegistry\<close> give at the successive calls; when nothing is left, the call throws.\<close>

type_synonym reads = "(int \<times> string \<times> registry_read) list"

fun provider_source :: "int \<Rightarrow> provider \<times> reads \<Rightarrow> snapshot_call \<times> (provider \<times> reads)" where
  "provider_source ttl (cache, []) = (Threw None, (cache, []))"
| "provider_source ttl (cache, (t, k, rd) # rs) = (let (sn, cache') = provider_get ttl t k rd cache in (Gave sn, (cache', rs)))"

section \<open>The effect of a send on the state\<close>

lemma source_of_counting [simp]:
  "ro_source (recordError c st) = ro_source st" "ro_source (count_principal st) = ro_source st" "ro_source (count_id st) = ro_source st"
  by (simp_all add: recordError_def count_principal_def count_id_def)

lemma send_resolved_source [simp]: "ro_source (snd (send_resolved th cm s to res st)) = ro_source st"
  by (simp add: send_resolved_def split: sum.split resolution.split)

locale registry_source =
  fixes pget :: "'p \<Rightarrow> snapshot_call \<times> 'p"
    and inv :: "'p \<Rightarrow> bool"
    and registries :: "registry_read set"
  assumes pget_inv: "inv p \<Longrightarrow> inv (snd (pget p))"
    and pget_reads: "inv p \<Longrightarrow> fst (pget p) = Gave sn \<Longrightarrow> \<exists>rd \<in> registries. \<exists>t. sn = read_snapshot rd t"
begin

definition source_ok :: "'p router \<Rightarrow> bool" where
  "source_ok st = (case ro_source st of None \<Rightarrow> True | Some p \<Rightarrow> inv p)"

lemma guarded_source_ok: "source_ok st \<Longrightarrow> source_ok (snd (guarded_snapshot pget ov st))"
  by (auto simp: source_ok_def guarded_snapshot_def split: option.splits prod.splits snapshot_call.splits dest: pget_inv)

lemma resolveSend_source_ok:
  assumes "source_ok st"
  shows "source_ok (snd (resolveSend pget cfg co s to st))"
proof -
  have id: "source_ok (snd (send_by_id pget rs ov t st))" for rs ov t
    using guarded_source_ok [of "count_id st" ov] assms
    by (simp add: send_by_id_def source_ok_def split_beta)
  have principal_ok: "source_ok (snd (send_by_principal pget co cm rs s t st))" for cm rs t
    using assms pget_inv
    by (auto simp: send_by_principal_def source_ok_def Let_def split: option.split prod.split snapshot_call.split)
      (metis snd_conv)+
  have "source_ok (recordError c st)" for c
    using assms by (simp add: source_ok_def)
  then show ?thesis
    using assms id principal_ok by (cases to) (auto simp: resolveSend_def Let_def)
qed

lemma run_sends_source_ok: "source_ok st \<Longrightarrow> source_ok (snd (run_sends pget cs st))"
  by (induction cs arbitrary: st) (auto simp: split_beta Let_def resolveSend_source_ok)

text \<open>A read that resolves a principal is that of a readable registry with one local binding of it.\<close>

lemma resolve_read:
  assumes "AGENT_ID_PATTERN to" "resolveRecipient to rs (Some (read_snapshot rd t)) = Inr (Resolved i p l b)"
  shows "\<exists>registry bd r. rd = Read_ok registry \<and> local_bindings registry to rs = [bd] \<and>
    recipient_of rs bd = Some r \<and> i = rc_id r \<and> l = rc_label r"
proof (cases rd)
  case (Read_ok registry)
  have eq: "resolution_of registry to rs = Resolved i p l b"
    using assms by (simp add: Read_ok read_snapshot_def resolve_on_snapshot split: if_splits)
  then obtain bd where one: "local_bindings registry to rs = [bd]"
    by (auto simp: resolution_of_def split: list.splits if_splits)
  then have "recipient_of rs bd \<noteq> None"
    using local_binding_facts(2) [of bd registry to rs] by simp
  with eq one Read_ok show ?thesis by (auto simp: resolution_of_def Let_def)
qed (use assms peer_not_agent in \<open>auto simp: resolveRecipient_def read_snapshot_def createAbsentSnapshot_def
    createUnreadableSnapshot_def Let_def split: if_splits\<close>)

lemma principal_route:
  assumes ok: "source_ok st" and en: "rf_enabled cfg" and ag: "AGENT_ID_PATTERN to"
    and co: "co_snapshot co = None" and out: "fst (resolveSend pget cfg co s (Some to) st) = Routed route"
  shows "\<exists>registry b r. Read_ok registry \<in> registries \<and>
    local_bindings registry to (opt_or (co_recipients co) (rf_recipients cfg)) = [b] \<and>
    recipient_of (opt_or (co_recipients co) (rf_recipients cfg)) b = Some r \<and>
    sr_resolvedTo route = rc_id r \<and> sr_via route = Some ''principal''"
proof -
  let ?rs = "opt_or (co_recipients co) (rf_recipients cfg)"
  have np: "\<not> PEER_ID_PATTERN to" using ag peer_not_agent by blast
  have "fst (send_by_principal pget co (coalesce (co_canMessage co) (rf_canMessage cfg)) ?rs s to st) = Routed route"
    using out en ag np by (simp add: resolveSend_def)
  moreover have "resolveRecipient to ?rs None = Inl TypeErr \<or>
      resolveRecipient to ?rs None = Inr (Res_error ''route_unavailable'' ''registry_unreadable'' [])"
    using ag np by (simp add: resolveRecipient_def)
  ultimately obtain p sn where p: "ro_source st = Some p" and sn: "fst (pget p) = Gave sn"
    and res: "fst (send_resolved (co_throwOnError co) (coalesce (co_canMessage co) (rf_canMessage cfg)) s to
      (resolveRecipient to ?rs (Some sn)) (st\<lparr>ro_source := Some (snd (pget p))\<rparr>)) = Routed route"
    by (auto simp: send_by_principal_def co Let_def route_failure_def send_resolved_def [of _ _ _ _ "Inl _"]
        send_resolved_def [of _ _ _ _ "Inr (Res_error _ _ _)"] split: option.splits prod.splits snapshot_call.splits if_splits)
  from pget_reads [OF _ sn] ok p obtain rd t where rd: "rd \<in> registries" "sn = read_snapshot rd t"
    by (auto simp: source_ok_def)
  have "resolveRecipient to ?rs (Some sn) \<noteq> Inr Pass_through"
    using ag np by (simp add: resolveRecipient_def Let_def split: list.split prod.split)
  with res obtain i q l b where r: "resolveRecipient to ?rs (Some sn) = Inr (Resolved i q l b)"
    and "sr_resolvedTo route = i" "sr_via route = Some ''principal''"
    by (auto simp: send_resolved_def route_failure_def split: sum.splits resolution.splits if_splits)
  with resolve_read [OF ag, of ?rs rd t i q l b] rd show ?thesis by blast
qed

end

text \<open>The caching provider is such a source, for the registries its reader returned.\<close>

definition provider_reads :: "registry_read set \<Rightarrow> provider \<times> reads \<Rightarrow> bool" where
  "provider_reads R p = ((\<forall>x \<in> set (snd p). snd (snd x) \<in> R) \<and>
     (case fst p of None \<Rightarrow> True | Some (sn, k) \<Rightarrow> \<exists>rd \<in> R. \<exists>t. sn = read_snapshot rd t))"

lemma provider_source_reads:
  assumes "provider_reads R p"
  shows "provider_reads R (snd (provider_source ttl p))"
    and "fst (provider_source ttl p) = Gave sn \<Longrightarrow> \<exists>rd \<in> R. \<exists>t. sn = read_snapshot rd t"
  using assms
  by (cases "(ttl, p)" rule: provider_source.cases;
      auto simp: provider_reads_def provider_get_def Let_def split: option.splits if_splits)+

interpretation provided: registry_source "provider_source ttl" "provider_reads R" R for ttl R
  by unfold_locales (use provider_source_reads in blast)+

text \<open>
  C15: after any sequence of sends of a router over the caching provider, a send to
  a principal that is routed goes to the local recipient named by the one live
  mesh-managed binding that the principal has on this host, in a registry the
  reader returned; it is never routed by an ambiguous, revoked or foreign one.
\<close>

theorem principal_route_names_sole_binding:
  assumes "rf_enabled cfg" "AGENT_ID_PATTERN to" "co_snapshot co = None"
    and "fst (resolveSend (provider_source ttl) cfg co sender (Some to)
      (snd (run_sends (provider_source ttl) calls (createUnifiedRouter (Some (None, reads)))))) = Routed route"
  shows "\<exists>registry b r. Read_ok registry \<in> (snd \<circ> snd) ` set reads \<and>
    local_bindings registry to (opt_or (co_recipients co) (rf_recipients cfg)) = [b] \<and>
    recipient_of (opt_or (co_recipients co) (rf_recipients cfg)) b = Some r \<and>
    sr_resolvedTo route = rc_id r \<and> sr_via route = Some ''principal''"
proof -
  let ?R = "(snd \<circ> snd) ` set reads"
  have "provided.source_ok ?R (createUnifiedRouter (Some (None, reads)))"
    by (auto simp: provided.source_ok_def createUnifiedRouter_def provider_reads_def)
  from provided.principal_route [OF provided.run_sends_source_ok [OF this] assms(1,2,3,4)] show ?thesis .
qed

text \<open>A registry with one live binding, and a router that sends by it.\<close>

definition sample_agent :: string where "sample_agent = ''agent_'' @ replicate 32 (CHR ''0'')"
definition sample_instance :: string where "sample_instance = replicate 64 (CHR ''a'')"

definition sample_registry :: json where
  "sample_registry = JObj [(''sequence'', JNum 3), (''bindings'', JObj [(''b1'', JObj [(''binding_id'', JStr ''b1''),
     (''principal_id'', JStr sample_agent), (''profile_instance_id'', JStr sample_instance), (''revoked_at'', JNull),
     (''trust_mode'', JStr ''mesh-managed'')])])]"

definition sample_config :: router_config where
  "sample_config = \<lparr>rf_enabled = True, rf_recipients = [\<lparr>rc_id = sample_instance, rc_label = ''main''\<rparr>], rf_canMessage = None\<rparr>"

definition sample_options :: call_options where
  "sample_options = \<lparr>co_throwOnError = True, co_snapshot = None, co_recipients = None, co_canMessage = None\<rparr>"

definition sample_route :: send_route where
  "sample_route = \<lparr>sr_resolvedTo = sample_instance, sr_to = sample_agent, sr_resolved = True, sr_via = Some ''principal'',
     sr_principal = JStr sample_agent, sr_profile = Some ''main'', sr_bindingId = Some (JStr ''b1''), sr_route = Some ''local''\<rparr>"

lemma sample_routed:
  "rf_enabled sample_config" "AGENT_ID_PATTERN sample_agent" "co_snapshot sample_options = None"
  "fst (resolveSend (provider_source 2000) sample_config sample_options None (Some sample_agent)
     (snd (run_sends (provider_source 2000) [(sample_config, sample_options, None, Some ''x'')]
       (createUnifiedRouter (Some (None, [(1, ''k'', Read_ok sample_registry), (2, ''k'', Read_absent)])))))) = Routed sample_route"
  by code_simp+

theorem principal_route_names_sole_binding_witness:
  "\<exists>registry b r. Read_ok registry \<in> {Read_ok sample_registry, Read_absent} \<and>
    local_bindings registry sample_agent (rf_recipients sample_config) = [b] \<and>
    recipient_of (rf_recipients sample_config) b = Some r \<and> sample_instance = rc_id r"
proof -
  have "co_recipients sample_options = None" "sr_resolvedTo sample_route = sample_instance"
    by (simp_all add: sample_options_def sample_route_def)
  then show ?thesis
    using principal_route_names_sole_binding [OF sample_routed] by auto
qed

section \<open>Counters\<close>

definition failure_code :: "send_outcome \<Rightarrow> string option" where
  "failure_code out = (case out of Unroutable c _ _ \<Rightarrow> Some c | Route_throws c _ _ \<Rightarrow> Some c | _ \<Rightarrow> None)"

definition routed_via :: "string \<Rightarrow> send_outcome \<Rightarrow> bool" where
  "routed_via v out = (case out of Routed r \<Rightarrow> sr_via r = Some v | _ \<Rightarrow> False)"

definition error_count :: "counters \<Rightarrow> string \<Rightarrow> nat" where
  "error_count c code = opt_or (map_of (n_errors c) code) 0"

text \<open>How a call moves the counters, read off its outcome.\<close>

definition counted :: "send_outcome \<Rightarrow> counters \<Rightarrow> counters \<Rightarrow> bool" where
  "counted out c c' =
    (n_principal c' = n_principal c + (if routed_via ''principal'' out then 1 else 0) \<and>
     n_id c' = n_id c + (if routed_via ''id'' out then 1 else 0) \<and>
     (\<forall>code. error_count c' code = error_count c code + (if failure_code out = Some code then 1 else 0)))"

lemma counted_simps:
  "failure_code out = Some code \<Longrightarrow> \<not> routed_via v out"
  "failure_code (route_failure th code reason cs) = Some code"
  by (auto simp: failure_code_def routed_via_def route_failure_def split: send_outcome.splits)

lemma counted_error: "failure_code out = Some code \<Longrightarrow> counted out (ro_counters st) (ro_counters (recordError code st))"
  by (simp add: counted_def counted_simps recordError_def error_count_def update_conv)

lemma counters_source [simp]: "ro_counters (st\<lparr>ro_source := p\<rparr>) = ro_counters st"
  by simp

lemma counters_guarded [simp]: "ro_counters (snd (guarded_snapshot pget ov st)) = ro_counters st"
  by (simp add: guarded_snapshot_def split: option.split prod.split snapshot_call.split)

lemma resolve_not_pass_through:
  "AGENT_ID_PATTERN to \<Longrightarrow> resolveRecipient to rs snap \<noteq> Inr Pass_through"
  by (simp add: resolveRecipient_def Let_def split: list.split prod.split option.split)

lemma send_resolved_counted:
  assumes "res \<noteq> Inr Pass_through"
  shows "counted (fst (send_resolved th cm s to res st)) (ro_counters st) (ro_counters (snd (send_resolved th cm s to res st)))"
proof (cases res)
  case (Inl e)
  then show ?thesis by (simp add: send_resolved_def counted_def routed_via_def failure_code_def)
next
  case (Inr r)
  with assms show ?thesis
    by (cases r) (simp_all add: send_resolved_def counted_error counted_simps,
        simp add: counted_def count_principal_def routed_via_def failure_code_def error_count_def)
qed

lemma resolveSend_counted:
  "counted (fst (resolveSend pget cfg co s to st)) (ro_counters st) (ro_counters (snd (resolveSend pget cfg co s to st)))"
proof (cases to)
  case None
  then show ?thesis by (simp add: resolveSend_def counted_def routed_via_def failure_code_def)
next
  case (Some t)
  let ?rs = "opt_or (co_recipients co) (rf_recipients cfg)" and ?cm = "coalesce (co_canMessage co) (rf_canMessage cfg)"
  consider (off) "\<not> rf_enabled cfg" | (id) "rf_enabled cfg" "\<not> AGENT_ID_PATTERN t" "\<not> PEER_ID_PATTERN t"
    | (peer) "rf_enabled cfg" "PEER_ID_PATTERN t" | (agent) "rf_enabled cfg" "AGENT_ID_PATTERN t" "\<not> PEER_ID_PATTERN t"
    by blast
  then show ?thesis
  proof cases
    case off
    then show ?thesis by (simp add: Some resolveSend_def counted_def routed_via_def failure_code_def)
  next
    case id
    have "ro_counters (snd (send_by_id pget ?rs (co_snapshot co) t st)) = ro_counters (count_id st)"
      by (simp add: send_by_id_def split_beta Let_def)
    with id show ?thesis
      by (simp add: Some resolveSend_def send_by_id_def split_beta Let_def counted_def routed_via_def failure_code_def
          count_id_def error_count_def)
  next
    case peer
    then show ?thesis by (simp add: Some resolveSend_def counted_error counted_simps)
  next
    case agent
    have np: "resolveRecipient t ?rs snap \<noteq> Inr Pass_through" for snap
      using agent resolve_not_pass_through by blast
    have "counted (fst (send_by_principal pget co ?cm ?rs s t st)) (ro_counters st)
        (ro_counters (snd (send_by_principal pget co ?cm ?rs s t st)))"
    proof -
      have res: "ro_counters st' = c \<Longrightarrow> counted (fst (send_resolved th ?cm s t (resolveRecipient t ?rs snap) st')) c
          (ro_counters (snd (send_resolved th ?cm s t (resolveRecipient t ?rs snap) st')))" for st' c th snap
        using send_resolved_counted [OF np] by blast
      have err: "ro_counters st' = c \<Longrightarrow> counted (route_failure th code w cs) c (ro_counters (recordError code st'))" for st' c th code w cs
        using counted_error [OF counted_simps(2)] by blast
      show ?thesis
        by (auto simp: send_by_principal_def Let_def intro!: res err split: option.split prod.split snapshot_call.split)
    qed
    with agent show ?thesis by (simp add: Some resolveSend_def)
  qed
qed

text \<open>
  After any sequence of calls, with any provider and any configuration at each
  call, the counters are the numbers of sends routed by principal, of sends passed
  by id and of failures per code: no send is missed or counted twice, and calls of
  a disabled router are not counted.
\<close>

theorem counters_count_sends:
  "let (outs, st) = run_sends pget calls (createUnifiedRouter source) in
     n_principal (getCounters st) = length (filter (routed_via ''principal'') outs) \<and>
     n_id (getCounters st) = length (filter (routed_via ''id'') outs) \<and>
     (\<forall>code. error_count (getCounters st) code = length (filter (\<lambda>out. failure_code out = Some code) outs))"
proof -
  have step: "n_principal (ro_counters (snd (run_sends pget calls st))) =
        n_principal (ro_counters st) + length (filter (routed_via ''principal'') (fst (run_sends pget calls st))) \<and>
      n_id (ro_counters (snd (run_sends pget calls st))) =
        n_id (ro_counters st) + length (filter (routed_via ''id'') (fst (run_sends pget calls st))) \<and>
      (\<forall>code. error_count (ro_counters (snd (run_sends pget calls st))) code = error_count (ro_counters st) code +
        length (filter (\<lambda>out. failure_code out = Some code) (fst (run_sends pget calls st))))" for st
  proof (induction calls arbitrary: st)
    case (Cons c calls)
    obtain cfg co s to where c: "c = (cfg, co, s, to)" by (cases c)
    show ?case
      using Cons [of "snd (resolveSend pget cfg co s to st)"] resolveSend_counted [of pget cfg co s to st]
      by (simp add: c split_beta Let_def counted_def)
  qed simp
  show ?thesis
    using step [of "createUnifiedRouter source"]
    by (simp add: split_beta Let_def getCounters_def createUnifiedRouter_def zero_counters_def error_count_def opt_or_def)
qed

section \<open>Privacy of the decorations\<close>

text \<open>An object shows none of the journal's routing columns.\<close>

definition concealed :: "json \<Rightarrow> bool" where
  "concealed j = (case j of JObj kvs \<Rightarrow> list_all (\<lambda>(k, v). k \<notin> set RAW_JOURNAL_FIELDS) kvs | _ \<Rightarrow> True)"

text \<open>A decorated list: clean, with as many elements as the argument's list, each of them clean.\<close>

definition private_list :: "string \<Rightarrow> json \<Rightarrow> json \<Rightarrow> bool" where
  "private_list k arg j = (concealed j \<and> (case (listed k arg, listed k j) of
      (Some xs, Some ys) \<Rightarrow> length ys = length xs \<and> list_all concealed ys
    | _ \<Rightarrow> False))"

lemma set_obj_put: "fst ` set (obj_put kvs k v) = insert k (fst ` set kvs)"
proof -
  have "map fst (map (\<lambda>p. if fst p = k then (k, v) else p) kvs) = map fst kvs" by (induction kvs) auto
  then have "fst ` set (map (\<lambda>p. if fst p = k then (k, v) else p) kvs) = fst ` set kvs" by (metis list.set_map)
  then show ?thesis by (simp add: obj_put_def insert_absorb)
qed

lemma private_JObj: "concealed (JObj kvs) \<longleftrightarrow> fst ` set kvs \<inter> set RAW_JOURNAL_FIELDS = {}"
  by (auto simp: concealed_def list_all_iff)

lemma private_sanitize [simp]: "concealed (sanitizeDto j)"
  by (auto simp: sanitizeDto_def private_JObj, simp add: concealed_def js_object_def split: json.splits)

lemma private_with_field: "concealed j \<Longrightarrow> k \<notin> set RAW_JOURNAL_FIELDS \<Longrightarrow> \<exists>kvs. j = JObj kvs \<Longrightarrow> concealed (with_field j k v)"
  by (elim exE) (simp add: with_field_def private_JObj set_obj_put object_entries_def Int_insert_left)

lemma sanitize_object: "js_object j \<Longrightarrow> \<exists>kvs. sanitizeDto j = JObj kvs"
  by (simp add: sanitizeDto_def)

lemma with_field_object [simp]: "\<exists>kvs. with_field j k v = JObj kvs"
  by (simp add: with_field_def)

lemma map_of_obj_put: "map_of (obj_put kvs k v) k' = (if k' = k then Some v else map_of kvs k')"
proof (cases "k \<in> fst ` set kvs")
  case True
  have "map_of (map (\<lambda>p. if fst p = k then (k, v) else p) kvs) k' =
      (if k' = k \<and> k \<in> fst ` set kvs then Some v else map_of kvs k')"
    by (induction kvs) force+
  with True show ?thesis by (simp add: obj_put_def)
next
  case False
  then have "map_of kvs k = None" by (simp add: map_of_eq_None_iff)
  with False show ?thesis by (simp add: obj_put_def map_add_def split: option.split)
qed

lemma obj_get_with_field: "\<exists>kvs. j = JObj kvs \<Longrightarrow> obj_get (with_field j k v) k' = (if k' = k then Some v else obj_get j k')"
  by (auto simp: with_field_def obj_get_def object_entries_def map_of_obj_put)

lemma obj_get_sanitize: "k \<notin> set RAW_JOURNAL_FIELDS \<Longrightarrow> obj_get (sanitizeDto (JObj kvs)) k = map_of kvs k"
  by (induction kvs) (auto simp: sanitizeDto_def js_object_def obj_get_def object_entries_def)

lemma raw_fields [simp]: "set RAW_JOURNAL_FIELDS = {''to_principal'', ''resolved_via''}"
  by (auto simp: RAW_JOURNAL_FIELDS_def)

lemma routed_response_private:
  assumes "routed_response (sanitizeDto resp) state target = Inr j" "js_object resp"
  shows "concealed j"
proof -
  have [simp]: "\<exists>kvs. sanitizeDto resp = JObj kvs" using assms(2) by (rule sanitize_object)
  from assms(1) show ?thesis
    by (auto simp: routed_response_def split: sum.splits intro!: private_with_field)
qed

lemma routed_response_get:
  assumes "routed_response (sanitizeDto (JObj kvs)) state target = Inr j"
    and "k \<notin> {''to_principal'', ''resolved_via'', ''route'', ''state'', ''target''}"
  shows "obj_get j k = map_of kvs k"
proof -
  have [simp]: "\<exists>kvs'. sanitizeDto (JObj kvs) = JObj kvs'" by (rule sanitize_object) (simp add: js_object_def)
  have "obj_get (sanitizeDto (JObj kvs)) k = map_of kvs k"
    by (rule obj_get_sanitize) (use assms(2) in simp)
  with assms show ?thesis
    by (auto simp: routed_response_def obj_get_with_field split: sum.splits)
qed

lemma decorated_cases:
  "\<exists>state target. fst (decorateSend pget cfg resp opts st) = (if \<not> js_object resp then Inl TypeErr
     else if \<not> rf_enabled cfg then Inr (sanitizeDto resp) else routed_response (sanitizeDto resp) state target)"
  "\<exists>state target. fst (decorateStatus pget cfg resp opts st) = (if \<not> js_object resp then Inl TypeErr
     else if \<not> rf_enabled cfg then Inr (sanitizeDto resp) else routed_response (sanitizeDto resp) state target)"
  unfolding decorateSend_def decorateStatus_def Let_def split_beta
  by (cases "js_object resp"; cases "rf_enabled cfg"; cases "do_target opts"; simp split: if_split; blast)+

lemma decorated_private:
  "fst (decorateSend pget cfg resp opts st) = Inr j \<Longrightarrow> concealed j"
  "fst (decorateStatus pget cfg resp opts st) = Inr j \<Longrightarrow> concealed j"
proof -
  have one: "concealed j" if "(if \<not> js_object resp then Inl TypeErr else if \<not> rf_enabled cfg then Inr (sanitizeDto resp)
      else routed_response (sanitizeDto resp) state target) = Inr j" for state target
    using that routed_response_private by (auto split: if_splits)
  show "fst (decorateSend pget cfg resp opts st) = Inr j \<Longrightarrow> concealed j"
    using decorated_cases(1) [of pget cfg resp opts st] one by metis
  show "fst (decorateStatus pget cfg resp opts st) = Inr j \<Longrightarrow> concealed j"
    using decorated_cases(2) [of pget cfg resp opts st] one by metis
qed

lemma decorated_get:
  assumes "k \<notin> {''to_principal'', ''resolved_via'', ''route'', ''state'', ''target''}"
  shows "fst (decorateSend pget cfg (JObj kvs) opts st) = Inr j \<Longrightarrow> obj_get j k = map_of kvs k"
    and "fst (decorateStatus pget cfg (JObj kvs) opts st) = Inr j \<Longrightarrow> obj_get j k = map_of kvs k"
proof -
  have one: "obj_get j k = map_of kvs k" if "(if \<not> js_object (JObj kvs) then Inl TypeErr else if \<not> rf_enabled cfg
      then Inr (sanitizeDto (JObj kvs)) else routed_response (sanitizeDto (JObj kvs)) state target) = Inr j" for state target
    using that routed_response_get [OF _ assms] obj_get_sanitize [of k kvs] assms
    by (auto simp: js_object_def split: if_splits)
  show "fst (decorateSend pget cfg (JObj kvs) opts st) = Inr j \<Longrightarrow> obj_get j k = map_of kvs k"
    using decorated_cases(1) [of pget cfg "JObj kvs" opts st] one by metis
  show "fst (decorateStatus pget cfg (JObj kvs) opts st) = Inr j \<Longrightarrow> obj_get j k = map_of kvs k"
    using decorated_cases(2) [of pget cfg "JObj kvs" opts st] one by metis
qed

lemma container_object: "is_container k arg \<Longrightarrow> js_object arg"
  by (auto simp: is_container_def obj_get_def js_object_def split: json.splits option.splits)

lemma listed_relisted: "listed k (relisted k arg ys) = Some ys"
proof (cases "is_container k arg")
  case True
  then have "obj_get (relisted k arg ys) k = Some (JArr ys)"
    by (simp add: relisted_def obj_get_with_field sanitize_object container_object)
  then show ?thesis by (simp add: listed_def)
qed (simp add: relisted_def listed_def obj_get_def)

lemma private_relisted: "k \<notin> set RAW_JOURNAL_FIELDS \<Longrightarrow> concealed (relisted k arg ys)"
  by (simp add: relisted_def private_with_field sanitize_object container_object, simp add: concealed_def)

lemma private_map_objects: "(\<And>item. js_object item \<Longrightarrow> concealed (f item)) \<Longrightarrow> list_all concealed (map_objects f xs)"
  by (auto simp: map_objects_def list_all_iff, auto simp: concealed_def js_object_def split: json.splits)

lemma private_list_relisted:
  assumes "listed k arg = Some xs" "k \<notin> set RAW_JOURNAL_FIELDS" "\<And>item. js_object item \<Longrightarrow> concealed (f item)"
  shows "private_list k arg (relisted k arg (map_objects f xs))"
  using assms private_relisted [OF assms(2)] private_map_objects [OF assms(3)]
  by (simp add: private_list_def listed_relisted map_objects_def)

lemma private_item: "js_object item \<Longrightarrow> k \<notin> set RAW_JOURNAL_FIELDS \<Longrightarrow> concealed (with_field (sanitizeDto item) k v)"
  by (simp add: private_with_field sanitize_object)

lemma decorateReplies_private: "decorateReplies cfg arg = Inr j \<Longrightarrow> private_list ''replies'' arg j"
  by (auto simp: decorateReplies_def split: option.splits intro!: private_list_relisted private_item)

lemma decorateSessions_private: "fst (decorateSessions pget cfg arg ov st) = Inr j \<Longrightarrow> private_list ''sessions'' arg j"
  by (auto simp: decorateSessions_def split_beta Let_def split: option.splits if_splits intro!: private_list_relisted private_item)

lemma decorateInbox_private:
  assumes "decorateInbox arg = Inr j"
  shows "private_list ''items'' arg j"
proof -
  from assms obtain xs where xs: "listed ''items'' arg = Some xs" by (auto simp: decorateInbox_def split: option.splits)
  let ?l = "relisted ''items'' arg (map_objects sanitizeDto xs)"
  have l: "private_list ''items'' arg ?l" by (rule private_list_relisted [OF xs]) simp_all
  show ?thesis
  proof (cases "is_container ''items'' arg")
    case True
    then obtain v where j: "j = with_field ?l ''nextCursor'' v" using assms xs by (auto simp: decorateInbox_def)
    have ob: "\<exists>kvs. ?l = JObj kvs" using True by (simp add: relisted_def)
    have "obj_get ?l ''items'' = Some (JArr (map_objects sanitizeDto xs))"
      using True by (simp add: relisted_def obj_get_with_field sanitize_object container_object)
    then have "listed ''items'' j = listed ''items'' ?l"
      by (simp add: j listed_def obj_get_with_field [OF ob])
    moreover have "concealed j" using l ob by (simp add: j private_with_field private_list_def)
    ultimately show ?thesis using l by (simp add: private_list_def)
  next
    case False
    with l assms xs show ?thesis by (simp add: decorateInbox_def)
  qed
qed

text \<open>
  No decorated response shows the journal's columns \<open>to_principal\<close> and
  \<open>resolved_via\<close>, whether the router is enabled or not: not a receipt, not a
  status, not an element of a list of replies, sessions or inbox items; and
  apart from those columns and the added fields a receipt and a status keep
  every field of the response.
\<close>

theorem decorations_hide_routing_columns:
  "(\<forall>j. fst (decorateSend pget cfg (JObj kvs) opts st) = Inr j \<longrightarrow> concealed j \<and>
      (\<forall>k. k \<notin> {''to_principal'', ''resolved_via'', ''route'', ''state'', ''target''} \<longrightarrow> obj_get j k = map_of kvs k)) \<and>
   (\<forall>j. fst (decorateStatus pget cfg (JObj kvs) opts st) = Inr j \<longrightarrow> concealed j \<and>
      (\<forall>k. k \<notin> {''to_principal'', ''resolved_via'', ''route'', ''state'', ''target''} \<longrightarrow> obj_get j k = map_of kvs k)) \<and>
   (\<forall>j. decorateReplies cfg arg = Inr j \<longrightarrow> private_list ''replies'' arg j) \<and>
   (\<forall>j. fst (decorateSessions pget cfg arg ov st) = Inr j \<longrightarrow> private_list ''sessions'' arg j) \<and>
   (\<forall>j. decorateInbox arg = Inr j \<longrightarrow> private_list ''items'' arg j)"
  by (intro conjI allI impI;
      ((erule decorated_private decorateReplies_private decorateSessions_private decorateInbox_private; fail)
       | (erule (1) decorated_get)))

text \<open>A receipt of a send to a principal, as the journal and as the router return it.\<close>

definition sample_receipt :: "(string \<times> json) list" where
  "sample_receipt = [(''status'', JStr ''held''), (''to_principal'', JStr sample_agent), (''id'', JStr ''m1'')]"

definition sample_decorated :: json where
  "sample_decorated = JObj [(''status'', JStr ''held''), (''id'', JStr ''m1''), (''route'', JStr ''local''), (''state'', JStr ''held''),
     (''target'', JObj [(''via'', JStr ''principal''), (''principal'', JStr sample_agent), (''profile'', JStr ''main'')])]"

lemma sample_receipt_decorated:
  "fst (decorateSend (provider_source 2000) sample_config (JObj sample_receipt)
     \<lparr>do_resolution = Some sample_route, do_record = None, do_target = None, do_phase = None, do_snapshot = None\<rparr>
     (createUnifiedRouter None)) = Inr sample_decorated"
  by code_simp

theorem decorations_hide_routing_columns_witness:
  "concealed sample_decorated \<and> obj_get sample_decorated ''id'' = map_of sample_receipt ''id''"
  using decorations_hide_routing_columns [THEN conjunct1, THEN spec, THEN mp, OF sample_receipt_decorated] by simp

section \<open>Ambiguity and explanations\<close>

lemma resolve_candidates:
  assumes "resolveRecipient to rs snap = Inr (Res_error code reason cands)"
  shows "set cands \<subseteq> set rs"
proof -
  have first: "snd ` set (first_by_id xs m) \<subseteq> set xs \<union> snd ` set m" for xs m
    by (induction xs m rule: first_by_id.induct) (auto split: if_splits)
  have kept: "snd ` set (keep_local m bs) \<subseteq> snd ` set m" for m bs
  proof -
    have "map_of m i = Some r \<Longrightarrow> r \<in> snd ` set m" for i r by (force dest: map_of_SomeD)
    then show ?thesis by (induction bs) (auto simp: bind_eq_Some_conv split: option.split)
  qed
  have "set (sort_key rc_id (map snd (first_by_id (map snd (keep_local (first_by_id rs []) bs)) []))) \<subseteq> set rs" for bs
    using first [of "map snd (keep_local (first_by_id rs []) bs)" "[]"] kept [of "first_by_id rs []" bs] first [of rs "[]"]
    by auto
  moreover have "cands = [] \<or> cands = sort_key rc_id (map snd (first_by_id (map snd (keep_local (first_by_id rs [])
      (filter (valid_binding to) (bindingsFor (the snap) to)))) []))"
    using assms by (auto simp: resolveRecipient_def Let_def simp del: first_by_id.simps
        split: if_splits option.splits list.splits prod.splits)
  ultimately show ?thesis by (metis empty_set empty_subsetI)
qed

lemma send_by_principal_outcome:
  fixes st :: "'p router"
  assumes "\<And>snap (st' :: 'p router). P (fst (send_resolved (co_throwOnError co) cm s t (resolveRecipient t rs snap) st'))"
    and "\<And>w. P (route_failure (co_throwOnError co) ''route_unavailable'' w [])"
  shows "P (fst (send_by_principal pget co cm rs s t st))"
  using assms by (simp add: send_by_principal_def Let_def split: option.split prod.split snapshot_call.split)

text \<open>
  When a principal is ambiguous the send is not routed, and the failure names
  only recipients of this host that the sender may message: candidates the
  predicate denies, or on which it throws, are left out, and all of them are when
  there is no predicate.
\<close>

theorem ambiguity_names_only_permitted:
  assumes "fst (resolveSend pget cfg co sender to st) \<in> {Unroutable ''recipient_ambiguous'' reason cands,
      Route_throws ''recipient_ambiguous'' reason cands}"
    and "c \<in> set cands"
  shows "c \<in> set (opt_or (co_recipients co) (rf_recipients cfg)) \<and>
    (\<exists>can. coalesce (co_canMessage co) (rf_canMessage cfg) = Some can \<and> can sender (rc_id c) = Says_other)"
proof -
  let ?rs = "opt_or (co_recipients co) (rf_recipients cfg)" and ?cm = "coalesce (co_canMessage co) (rf_canMessage cfg)"
  have res: "c \<in> set ?rs \<and> (\<exists>can. ?cm = Some can \<and> can sender (rc_id c) = Says_other)"
    if r: "fst (send_resolved th ?cm sender t (resolveRecipient t ?rs snap) st') \<in> {Unroutable ''recipient_ambiguous'' reason cands,
      Route_throws ''recipient_ambiguous'' reason cands}" for th t snap st'
  proof -
    obtain all where all: "resolveRecipient t ?rs snap = Inr (Res_error ''recipient_ambiguous'' reason all)"
      and c: "cands = filter_candidates ?cm sender ''recipient_ambiguous'' all"
      using r by (auto simp: send_resolved_def route_failure_def split: sum.splits resolution.splits if_splits)
    have "c \<in> set all" "evaluateCanMessage ?cm sender (rc_id c)"
      using assms(2) c by (auto simp: filter_candidates_def split: option.splits)
    with resolve_candidates [OF all] show ?thesis
      by (auto simp: evaluateCanMessage_def split: option.splits can_outcome.splits)
  qed
  obtain t where t: "to = Some t" using assms(1) by (cases to) (auto simp: resolveSend_def)
  have "fst (send_by_principal pget co ?cm ?rs sender t st) \<in> {Unroutable ''recipient_ambiguous'' reason cands,
      Route_throws ''recipient_ambiguous'' reason cands}"
    using assms(1) by (auto simp: t resolveSend_def send_by_id_def Let_def split_beta route_failure_def split: if_splits)
  moreover have "fst (send_by_principal pget co ?cm ?rs sender t st) \<in> {Unroutable ''recipient_ambiguous'' reason cands,
      Route_throws ''recipient_ambiguous'' reason cands} \<longrightarrow>
      c \<in> set ?rs \<and> (\<exists>can. ?cm = Some can \<and> can sender (rc_id c) = Says_other)"
  proof (rule send_by_principal_outcome)
    show "route_failure (co_throwOnError co) ''route_unavailable'' w [] \<in> {Unroutable ''recipient_ambiguous'' reason cands,
        Route_throws ''recipient_ambiguous'' reason cands} \<longrightarrow>
        c \<in> set ?rs \<and> (\<exists>can. ?cm = Some can \<and> can sender (rc_id c) = Says_other)" for w
      by (simp add: route_failure_def)
  qed (use res in blast)
  ultimately show ?thesis by blast
qed

text \<open>A principal with two live local bindings, of which the sender may message one.\<close>

definition sample_other :: string where
  "sample_other = replicate 64 (CHR ''b'')"

definition sample_binding :: "string \<Rightarrow> json" where
  "sample_binding i = JObj [(''principal_id'', JStr sample_agent), (''profile_instance_id'', JStr i), (''revoked_at'', JNull),
     (''trust_mode'', JStr ''mesh-managed'')]"

definition shared_options :: call_options where
  "shared_options = \<lparr>co_throwOnError = False,
     co_snapshot = Some (createOkSnapshot (JObj [(''bindings'', JArr [sample_binding sample_other, sample_binding sample_instance])]) 0),
     co_recipients = Some [\<lparr>rc_id = sample_instance, rc_label = ''main''\<rparr>, \<lparr>rc_id = sample_other, rc_label = ''spare''\<rparr>],
     co_canMessage = Some (\<lambda>s i. if i = sample_other then Says_other else Says_false)\<rparr>"

lemma sample_ambiguous:
  "fst (resolveSend (provider_source 2000) sample_config shared_options (Some ''s'') (Some sample_agent) (createUnifiedRouter None)) =
     Unroutable ''recipient_ambiguous'' ''ambiguous_binding'' [\<lparr>rc_id = sample_other, rc_label = ''spare''\<rparr>]"
  by code_simp

theorem ambiguity_names_only_permitted_witness:
  "\<exists>can. co_canMessage shared_options = Some can \<and> can (Some ''s'') sample_other = Says_other"
proof -
  have "fst (resolveSend (provider_source 2000) sample_config shared_options (Some ''s'') (Some sample_agent) (createUnifiedRouter None)) \<in>
      {Unroutable ''recipient_ambiguous'' ''ambiguous_binding'' [\<lparr>rc_id = sample_other, rc_label = ''spare''\<rparr>],
       Route_throws ''recipient_ambiguous'' ''ambiguous_binding'' [\<lparr>rc_id = sample_other, rc_label = ''spare''\<rparr>]}"
    by (simp add: sample_ambiguous)
  from ambiguity_names_only_permitted [OF this, of "\<lparr>rc_id = sample_other, rc_label = ''spare''\<rparr>"] show ?thesis
    by (simp add: shared_options_def)
qed

lemma names_only_iff:
  assumes "AGENT_ID_PATTERN p" "rf_enabled cfg" "co_snapshot co = Some sn" "co_recipients co = None"
  shows "principalNamesOnly (rf_recipients cfg) (Some sn) p i \<longleftrightarrow>
    (\<exists>route. fst (resolveSend pget cfg co s (Some p) st) = Routed route \<and> sr_resolvedTo route = i)"
proof -
  have np: "\<not> PEER_ID_PATTERN p" using assms(1) peer_not_agent by blast
  have "resolveRecipient p (rf_recipients cfg) (Some sn) \<noteq> Inr Pass_through"
    by (rule resolve_not_pass_through [OF assms(1)])
  then show ?thesis
    using assms np
    by (cases "resolveRecipient p (rf_recipients cfg) (Some sn)")
      (auto simp: principalNamesOnly_def resolveSend_def send_by_principal_def send_resolved_def route_failure_def split: resolution.split)
qed

lemma lookup_bound: "lookupPrincipal snap i = (Some p, state) \<Longrightarrow> AGENT_ID_PATTERN p \<and> state = ''bound''"
  by (auto simp: lookupPrincipal_def Let_def split: option.splits if_splits json.splits)


definition snapshot_options :: call_options where
  "snapshot_options = sample_options\<lparr>co_snapshot := Some (createOkSnapshot sample_registry 0)\<rparr>"


end
