(* ===== verification/Profile_Scheduler.thy ===== *)
theory Profile_Scheduler
  imports Prelude "HOL-Library.AList" Complex_Main
begin

text \<open>
  \<open>packages/agent-worker/src/profile-scheduler.mjs\<close>: the scheduler of the event
  driven wakes, one run per profile at a time behind a shared gate.  The code
  between two awaits is one event; the runs of \<open>runState\<close> are listed with the
  await at which each stands, so that several runs of one profile could be
  expressed, and the invariant excludes them.  The gate and the harness are
  injected: their events admit, return or throw in any order.  \<open>pumping\<close> is true
  only inside the synchronous loop of \<open>pump\<close>, which nothing can re-enter, and
  the jitter is computed exactly where the source rounds a double.
\<close>

section \<open>State\<close>

record profile_state =
  ps_active :: bool
  ps_dirty :: bool
  ps_highWatermark :: int
  ps_lastReconciled :: int
  ps_backoffMs :: int
  ps_nextEligibleAt :: int
  ps_failureCount :: nat

text \<open>
  Where a run stands: waiting for its backoff, at the gate, in \<open>preflight\<close>, in
  \<open>run\<close>, or back from the gate's callback, normally or by an exception (true for
  an \<open>AbortError\<close>), with the continuation still to come.
\<close>

datatype run_stage =
    In_backoff
  | At_gate int
  | In_preflight int
  | In_drain int
  | Callback_done
  | Callback_threw bool

record scheduler =
  sd_states :: "(string \<times> profile_state) list"
  sd_queue :: "string list"
  sd_inFlight :: int
  sd_stopped :: bool
  sd_runs :: "(string \<times> run_stage) list"
  sd_pumps :: nat

record scheduler_cfg =
  sg_initialBackoffMs :: int
  sg_maxBackoffMs :: int
  sg_idleJitterRatio :: rat

definition createProfileScheduler :: "scheduler_cfg \<Rightarrow> bool \<Rightarrow> scheduler result" where
  "createProfileScheduler cfg aborted =
    (if sg_initialBackoffMs cfg < 1 \<or> sg_maxBackoffMs cfg < 1 then Inl TypeErr
     else Inr \<lparr>sd_states = [], sd_queue = [], sd_inFlight = 0, sd_stopped = aborted, sd_runs = [], sd_pumps = 0\<rparr>)"

definition new_state :: "scheduler_cfg \<Rightarrow> profile_state" where
  "new_state cfg = \<lparr>ps_active = False, ps_dirty = False, ps_highWatermark = 0, ps_lastReconciled = 0,
     ps_backoffMs = sg_initialBackoffMs cfg, ps_nextEligibleAt = 0, ps_failureCount = 0\<rparr>"

text \<open>\<open>stateFor\<close>: the state of a profile, made on first use.\<close>

definition state_of :: "scheduler_cfg \<Rightarrow> scheduler \<Rightarrow> string \<Rightarrow> profile_state" where
  "state_of cfg s i = opt_or (map_of (sd_states s) i) (new_state cfg)"

definition put_state :: "string \<Rightarrow> profile_state \<Rightarrow> scheduler \<Rightarrow> scheduler" where
  "put_state i p s = s\<lparr>sd_states := AList.update i p (sd_states s)\<rparr>"

definition stateFor :: "scheduler_cfg \<Rightarrow> string \<Rightarrow> scheduler \<Rightarrow> scheduler" where
  "stateFor cfg i s = (if map_of (sd_states s) i = None then put_state i (new_state cfg) s else s)"

definition sched_enqueue :: "string \<Rightarrow> scheduler \<Rightarrow> scheduler" where
  "sched_enqueue i s = (if i \<in> set (sd_queue s) then s else s\<lparr>sd_queue := sd_queue s @ [i]\<rparr>)"

section \<open>The pump\<close>

text \<open>
  The synchronous part of \<open>runState\<close>, up to its first await: the backoff, or the
  gate with the watermark of this moment.  The pump runs it only while the
  scheduler is not stopped.
\<close>

definition begin_run :: "scheduler_cfg \<Rightarrow> int \<Rightarrow> string \<Rightarrow> scheduler \<Rightarrow> scheduler" where
  "begin_run cfg nowMs i s =
    (let p = state_of cfg s i;
       stage = (if max 0 (ps_nextEligibleAt p - nowMs) > 0 then In_backoff else At_gate (ps_highWatermark p))
     in (put_state i (p\<lparr>ps_active := True\<rparr>) s)\<lparr>sd_inFlight := sd_inFlight s + 1, sd_runs := sd_runs s @ [(i, stage)]\<rparr>)"

fun sched_pump_loop :: "scheduler_cfg \<Rightarrow> int \<Rightarrow> string list \<Rightarrow> scheduler \<Rightarrow> scheduler" where
  "sched_pump_loop cfg nowMs [] s = s\<lparr>sd_queue := []\<rparr>"
| "sched_pump_loop cfg nowMs (i # q) s =
    (if sd_stopped s then s\<lparr>sd_queue := i # q\<rparr>
     else let s1 = stateFor cfg i s in
       if ps_active (state_of cfg s1 i) then sched_pump_loop cfg nowMs q s1
       else sched_pump_loop cfg nowMs q (begin_run cfg nowMs i s1))"

definition sched_pump :: "scheduler_cfg \<Rightarrow> int \<Rightarrow> scheduler \<Rightarrow> scheduler" where
  "sched_pump cfg nowMs s = (if sd_stopped s then s else sched_pump_loop cfg nowMs (sd_queue s) s)"

section \<open>The operations\<close>

datatype submit_result = Queued | Marked_dirty | Sched_stopped

definition submitWake :: "scheduler_cfg \<Rightarrow> int \<Rightarrow> string \<Rightarrow> int option \<Rightarrow> string \<Rightarrow> scheduler \<Rightarrow> submit_result result \<times> scheduler" where
  "submitWake cfg nowMs i highWatermark reason s =
    (if i = [] then (Inl TypeErr, s)
     else let watermark = opt_or highWatermark 0; s1 = stateFor cfg i s in
     if sd_stopped s1 then (Inr Sched_stopped, s1)
     else let p = state_of cfg s1 i;
         p1 = (if ps_highWatermark p < watermark then p\<lparr>ps_highWatermark := watermark\<rparr> else p);
         p2 = (if reason = ''startup_reconcile'' \<and> watermark = 0
               then p1\<lparr>ps_highWatermark := max (ps_highWatermark p1) (ps_lastReconciled p1 + 1)\<rparr> else p1) in
     if ps_active p2 then (Inr Marked_dirty, put_state i (p2\<lparr>ps_dirty := True\<rparr>) s1)
     else (Inr Queued, sched_pump cfg nowMs (sched_enqueue i (put_state i p2 s1))))"

definition without :: "nat \<Rightarrow> 'a list \<Rightarrow> 'a list" where
  "without n xs = take n xs @ drop (Suc n) xs"

definition set_run :: "nat \<Rightarrow> run_stage \<Rightarrow> scheduler \<Rightarrow> scheduler" where
  "set_run n stage s = s\<lparr>sd_runs := (sd_runs s)[n := (fst (sd_runs s ! n), stage)]\<rparr>"

text \<open>The \<open>finally\<close> block of \<open>runState\<close>.\<close>

definition end_run :: "scheduler_cfg \<Rightarrow> nat \<Rightarrow> scheduler \<Rightarrow> scheduler" where
  "end_run cfg n s =
    (let i = fst (sd_runs s ! n); p = (state_of cfg s i)\<lparr>ps_active := False\<rparr>;
       s1 = s\<lparr>sd_inFlight := sd_inFlight s - 1, sd_runs := without n (sd_runs s), sd_pumps := sd_pumps s + 1\<rparr>
     in if ps_dirty p \<and> \<not> sd_stopped s then sched_enqueue i (put_state i (p\<lparr>ps_dirty := False\<rparr>) s1)
        else put_state i p s1)"

definition backoff_over :: "scheduler_cfg \<Rightarrow> nat \<Rightarrow> scheduler \<Rightarrow> scheduler" where
  "backoff_over cfg n s = (if sd_stopped s then end_run cfg n s
     else set_run n (At_gate (ps_highWatermark (state_of cfg s (fst (sd_runs s ! n))))) s)"

definition gate_enters :: "scheduler_cfg \<Rightarrow> nat \<Rightarrow> int \<Rightarrow> scheduler \<Rightarrow> scheduler" where
  "gate_enters cfg n highWatermark s =
    (if highWatermark \<le> ps_lastReconciled (state_of cfg s (fst (sd_runs s ! n))) then set_run n Callback_done s
     else set_run n (In_preflight highWatermark) s)"

definition preflight_returned :: "scheduler_cfg \<Rightarrow> nat \<Rightarrow> int \<Rightarrow> bool \<Rightarrow> scheduler \<Rightarrow> scheduler" where
  "preflight_returned cfg n highWatermark actionable s =
    (let i = fst (sd_runs s ! n); p = state_of cfg s i in
     if \<not> actionable then set_run n Callback_done (put_state i (p\<lparr>ps_lastReconciled := highWatermark\<rparr>) s)
     else set_run n (In_drain highWatermark) s)"

definition drain_returned :: "scheduler_cfg \<Rightarrow> nat \<Rightarrow> int \<Rightarrow> bool \<Rightarrow> scheduler \<Rightarrow> scheduler" where
  "drain_returned cfg n highWatermark hasMore s =
    (let i = fst (sd_runs s ! n); p = state_of cfg s i;
       p1 = (if hasMore then p\<lparr>ps_dirty := True\<rparr> else p\<lparr>ps_lastReconciled := highWatermark\<rparr>)
     in set_run n Callback_done (put_state i (p1\<lparr>ps_backoffMs := sg_initialBackoffMs cfg, ps_failureCount := 0, ps_nextEligibleAt := 0\<rparr>) s))"

definition jittered :: "scheduler_cfg \<Rightarrow> rat \<Rightarrow> int \<Rightarrow> int" where
  "jittered cfg random backoffMs = \<lfloor>of_int backoffMs * 2 * (1 + (random * 2 - 1) * sg_idleJitterRatio cfg)\<rfloor>"

text \<open>The \<open>catch\<close> block: a failure that is no abort backs off and asks for another run.\<close>

definition run_failed :: "scheduler_cfg \<Rightarrow> int \<Rightarrow> rat \<Rightarrow> bool \<Rightarrow> string \<Rightarrow> scheduler \<Rightarrow> scheduler" where
  "run_failed cfg nowMs random isAbort i s =
    (if \<not> isAbort \<and> \<not> sd_stopped s
     then let p = state_of cfg s i;
         backoff = min (sg_maxBackoffMs cfg) (max (sg_initialBackoffMs cfg) (jittered cfg random (ps_backoffMs p)))
       in put_state i (p\<lparr>ps_failureCount := ps_failureCount p + 1, ps_backoffMs := backoff, ps_nextEligibleAt := nowMs + backoff,
            ps_dirty := True\<rparr>) s
     else s)"

text \<open>The continuation after \<open>await gate.run(...)\<close>: \<open>catch\<close>, when it threw, and \<open>finally\<close>.\<close>

definition run_settled :: "scheduler_cfg \<Rightarrow> int \<Rightarrow> rat \<Rightarrow> nat \<Rightarrow> scheduler \<Rightarrow> scheduler" where
  "run_settled cfg nowMs random n s = (case sd_runs s ! n of
      (i, Callback_threw isAbort) \<Rightarrow> end_run cfg n (run_failed cfg nowMs random isAbort i s)
    | _ \<Rightarrow> end_run cfg n s)"

definition sched_abort :: "scheduler \<Rightarrow> scheduler" where
  "sched_abort s = s\<lparr>sd_stopped := True, sd_queue := []\<rparr>"

text \<open>The condition on which \<open>idle\<close> returns.\<close>

definition is_idle :: "scheduler \<Rightarrow> bool" where
  "is_idle s = (sd_queue s = [] \<and> sd_inFlight s \<le> 0 \<and> \<not> list_ex (\<lambda>(i, p). ps_active p) (sd_states s))"

section \<open>Runs of the scheduler\<close>

datatype sched_event =
    Submit int string "int option" string
  | Pump_task int
  | Backoff_over nat
  | Gate_enters nat
  | Gate_threw nat bool
  | Preflight_returned nat bool
  | Drain_returned nat bool
  | Harness_threw nat bool
  | Settled int rat nat
  | Abort_scheduler

inductive sched_step :: "scheduler_cfg \<Rightarrow> scheduler \<Rightarrow> sched_event \<Rightarrow> scheduler \<Rightarrow> bool" for cfg s where
  submit: "sched_step cfg s (Submit nowMs i w reason) (snd (submitWake cfg nowMs i w reason s))"
| pump: "0 < sd_pumps s \<Longrightarrow> sched_step cfg s (Pump_task nowMs) (sched_pump cfg nowMs (s\<lparr>sd_pumps := sd_pumps s - 1\<rparr>))"
| backoff: "n < length (sd_runs s) \<Longrightarrow> snd (sd_runs s ! n) = In_backoff \<Longrightarrow> sched_step cfg s (Backoff_over n) (backoff_over cfg n s)"
| gate: "n < length (sd_runs s) \<Longrightarrow> snd (sd_runs s ! n) = At_gate hw \<Longrightarrow> sched_step cfg s (Gate_enters n) (gate_enters cfg n hw s)"
| gate_threw: "n < length (sd_runs s) \<Longrightarrow> snd (sd_runs s ! n) = At_gate hw \<Longrightarrow>
    sched_step cfg s (Gate_threw n isAbort) (set_run n (Callback_threw isAbort) s)"
| preflight: "n < length (sd_runs s) \<Longrightarrow> snd (sd_runs s ! n) = In_preflight hw \<Longrightarrow>
    sched_step cfg s (Preflight_returned n actionable) (preflight_returned cfg n hw actionable s)"
| drain: "n < length (sd_runs s) \<Longrightarrow> snd (sd_runs s ! n) = In_drain hw \<Longrightarrow>
    sched_step cfg s (Drain_returned n hasMore) (drain_returned cfg n hw hasMore s)"
| threw: "n < length (sd_runs s) \<Longrightarrow> snd (sd_runs s ! n) \<in> {In_preflight hw, In_drain hw} \<Longrightarrow>
    sched_step cfg s (Harness_threw n isAbort) (set_run n (Callback_threw isAbort) s)"
| settled: "n < length (sd_runs s) \<Longrightarrow> snd (sd_runs s ! n) = Callback_done \<or> snd (sd_runs s ! n) = Callback_threw isAbort \<Longrightarrow>
    sched_step cfg s (Settled nowMs random n) (run_settled cfg nowMs random n s)"
| abort: "sched_step cfg s Abort_scheduler (sched_abort s)"

inductive_cases sched_stepE: "sched_step cfg s e s'"

text \<open>
  A run of a scheduler; a calm one has no \<open>AbortError\<close> before the scheduler is
  stopped.
\<close>

definition calm_event :: "scheduler \<Rightarrow> sched_event \<Rightarrow> bool" where
  "calm_event s e = (sd_stopped s \<or> (case e of Gate_threw _ a \<Rightarrow> \<not> a | Harness_threw _ a \<Rightarrow> \<not> a | _ \<Rightarrow> True))"

inductive sched_run :: "scheduler_cfg \<Rightarrow> bool \<Rightarrow> scheduler \<Rightarrow> scheduler \<Rightarrow> bool" for cfg calm s0 where
  initial: "sched_run cfg calm s0 s0"
| step: "sched_run cfg calm s0 s \<Longrightarrow> sched_step cfg s e s' \<Longrightarrow> (calm \<Longrightarrow> calm_event s e) \<Longrightarrow> sched_run cfg calm s0 s'"

section \<open>The invariant\<close>

text \<open>
  What holds of one profile, given whether it is queued and where its run stands.
  A watermark above the reconciled one is covered, until the scheduler stops: the
  profile is queued, or its run will ask for another one or reconcile it.
\<close>

definition run_covers :: "run_stage \<Rightarrow> profile_state \<Rightarrow> bool" where
  "run_covers stage p = (ps_dirty p \<or> (case stage of
      In_backoff \<Rightarrow> True
    | At_gate hw \<Rightarrow> hw = ps_highWatermark p
    | In_preflight hw \<Rightarrow> hw = ps_highWatermark p
    | In_drain hw \<Rightarrow> hw = ps_highWatermark p
    | Callback_done \<Rightarrow> False
    | Callback_threw isAbort \<Rightarrow> \<not> isAbort))"

definition stage_bounds :: "run_stage \<Rightarrow> profile_state \<Rightarrow> bool" where
  "stage_bounds stage p = (case stage of
      At_gate hw \<Rightarrow> hw \<le> ps_highWatermark p
    | In_preflight hw \<Rightarrow> ps_lastReconciled p < hw \<and> hw \<le> ps_highWatermark p
    | In_drain hw \<Rightarrow> ps_lastReconciled p < hw \<and> hw \<le> ps_highWatermark p
    | _ \<Rightarrow> True)"

definition profile_ok :: "scheduler_cfg \<Rightarrow> bool \<Rightarrow> bool \<Rightarrow> bool \<Rightarrow> run_stage option \<Rightarrow> profile_state \<Rightarrow> bool" where
  "profile_ok cfg calm stopped queued stage p \<longleftrightarrow>
     (ps_active p \<longleftrightarrow> stage \<noteq> None) \<and> (queued \<longrightarrow> stage = None) \<and> ps_lastReconciled p \<le> ps_highWatermark p \<and>
     min (sg_initialBackoffMs cfg) (sg_maxBackoffMs cfg) \<le> ps_backoffMs p \<and>
     ps_backoffMs p \<le> max (sg_initialBackoffMs cfg) (sg_maxBackoffMs cfg) \<and>
     (case stage of None \<Rightarrow> True | Some st \<Rightarrow> stage_bounds st p) \<and>
     (calm \<and> \<not> stopped \<and> ps_lastReconciled p < ps_highWatermark p \<longrightarrow>
        queued \<or> (case stage of None \<Rightarrow> False | Some st \<Rightarrow> run_covers st p))"

definition sched_inv :: "scheduler_cfg \<Rightarrow> bool \<Rightarrow> scheduler \<Rightarrow> bool" where
  "sched_inv cfg calm s \<longleftrightarrow> distinct (map fst (sd_runs s)) \<and> distinct (sd_queue s) \<and>
     sd_inFlight s = int (length (sd_runs s)) \<and> (sd_stopped s \<longrightarrow> sd_queue s = []) \<and> (sd_queue s \<noteq> [] \<longrightarrow> 0 < sd_pumps s) \<and>
     distinct (map fst (sd_states s)) \<and>
     (\<forall>i. profile_ok cfg calm (sd_stopped s) (i \<in> set (sd_queue s)) (map_of (sd_runs s) i) (state_of cfg s i))"

text \<open>The part of the invariant that the loop of the pump keeps while the queue is being emptied.\<close>

definition core_inv :: "scheduler_cfg \<Rightarrow> bool \<Rightarrow> string list \<Rightarrow> scheduler \<Rightarrow> bool" where
  "core_inv cfg calm q s \<longleftrightarrow> distinct (map fst (sd_runs s)) \<and> distinct q \<and>
     sd_inFlight s = int (length (sd_runs s)) \<and> distinct (map fst (sd_states s)) \<and>
     (\<forall>i. profile_ok cfg calm (sd_stopped s) (i \<in> set q) (map_of (sd_runs s) i) (state_of cfg s i))"

lemma sched_inv_core: "sched_inv cfg calm s \<longleftrightarrow> core_inv cfg calm (sd_queue s) s \<and> (sd_stopped s \<longrightarrow> sd_queue s = []) \<and>
    (sd_queue s \<noteq> [] \<longrightarrow> 0 < sd_pumps s)"
  by (auto simp: sched_inv_def core_inv_def)

section \<open>Lookups\<close>

lemma state_of_put [simp]: "state_of cfg (put_state i p s) j = (if j = i then p else state_of cfg s j)"
  by (simp add: state_of_def put_state_def update_conv)

lemma put_state_simps [simp]:
  "sd_queue (put_state i p s) = sd_queue s" "sd_runs (put_state i p s) = sd_runs s" "sd_inFlight (put_state i p s) = sd_inFlight s"
  "sd_stopped (put_state i p s) = sd_stopped s" "sd_pumps (put_state i p s) = sd_pumps s"
  "distinct (map fst (sd_states s)) \<Longrightarrow> distinct (map fst (sd_states (put_state i p s)))"
  by (simp_all add: put_state_def distinct_update)

lemma state_of_cong [simp]:
  "state_of cfg (s\<lparr>sd_queue := q\<rparr>) = state_of cfg s" "state_of cfg (s\<lparr>sd_runs := r\<rparr>) = state_of cfg s"
  "state_of cfg (s\<lparr>sd_inFlight := k\<rparr>) = state_of cfg s" "state_of cfg (s\<lparr>sd_pumps := m\<rparr>) = state_of cfg s"
  "state_of cfg (s\<lparr>sd_stopped := b\<rparr>) = state_of cfg s"
  by (simp_all add: state_of_def fun_eq_iff)

lemma stateFor_simps [simp]:
  "state_of cfg (stateFor cfg i s) = state_of cfg s" "sd_queue (stateFor cfg i s) = sd_queue s" "sd_runs (stateFor cfg i s) = sd_runs s"
  "sd_inFlight (stateFor cfg i s) = sd_inFlight s" "sd_stopped (stateFor cfg i s) = sd_stopped s" "sd_pumps (stateFor cfg i s) = sd_pumps s"
  "distinct (map fst (sd_states s)) \<Longrightarrow> distinct (map fst (sd_states (stateFor cfg i s)))"
  by (auto simp: stateFor_def fun_eq_iff) (simp add: state_of_def)

lemma sched_enqueue_simps [simp]:
  "sd_runs (sched_enqueue i s) = sd_runs s" "sd_inFlight (sched_enqueue i s) = sd_inFlight s" "sd_stopped (sched_enqueue i s) = sd_stopped s"
  "sd_pumps (sched_enqueue i s) = sd_pumps s" "sd_states (sched_enqueue i s) = sd_states s" "state_of cfg (sched_enqueue i s) = state_of cfg s"
  "set (sd_queue (sched_enqueue i s)) = insert i (set (sd_queue s))" "distinct (sd_queue s) \<Longrightarrow> distinct (sd_queue (sched_enqueue i s))"
  by (auto simp: sched_enqueue_def)

lemma core_inv_stateFor: "core_inv cfg calm q s \<Longrightarrow> core_inv cfg calm q (stateFor cfg i s)"
  by (simp add: core_inv_def)

lemma map_of_nth_run: "distinct (map fst rs) \<Longrightarrow> n < length rs \<Longrightarrow> rs ! n = (i, st) \<Longrightarrow> map_of rs i = Some st"
  by (metis map_of_eq_Some_iff nth_mem)

lemma map_of_update_run:
  assumes "distinct (map fst rs)" "n < length rs" "fst (rs ! n) = i"
  shows "distinct (map fst (rs[n := (i, st)]))" "map_of (rs[n := (i, st)]) j = (if j = i then Some st else map_of rs j)"
proof -
  have fsts: "map fst (rs[n := (i, st)]) = map fst rs" using assms(2,3) by (metis fst_conv list_update_id map_update nth_map)
  then show d: "distinct (map fst (rs[n := (i, st)]))" using assms(1) by simp
  show "map_of (rs[n := (i, st)]) j = (if j = i then Some st else map_of rs j)"
  proof (cases "j = i")
    case True
    then show ?thesis using map_of_nth_run [OF d, of n i st] assms(2) by simp
  next
    case False
    with assms(2,3) show ?thesis
      by (induction rs arbitrary: n) (auto split: nat.split simp: nth_Cons)
  qed
qed

lemma map_of_without:
  assumes "distinct (map fst rs)" "n < length rs" "fst (rs ! n) = i"
  shows "distinct (map fst (without n rs))" "map_of (without n rs) j = (if j = i then None else map_of rs j)"
    "length (without n rs) = length rs - 1"
proof -
  have rs: "rs = take n rs @ (i, snd (rs ! n)) # drop (Suc n) rs"
    using id_take_nth_drop [OF assms(2)] assms(3) by (metis prod.collapse)
  show "length (without n rs) = length rs - 1" using assms(2) by (simp add: without_def)
  have d: "distinct (map fst (take n rs @ (i, snd (rs ! n)) # drop (Suc n) rs))" using assms(1) rs by simp
  then show "distinct (map fst (without n rs))" by (auto simp: without_def)
  show "map_of (without n rs) j = (if j = i then None else map_of rs j)"
  proof (cases "j = i")
    case True
    from d have "i \<notin> set (map fst (take n rs @ drop (Suc n) rs))" by simp
    with True show ?thesis by (simp add: without_def map_of_eq_None_iff map_add_None)
  next
    case False
    have "map_of rs j = map_of (take n rs @ (i, snd (rs ! n)) # drop (Suc n) rs) j" using rs by simp
    with False show ?thesis by (simp add: without_def map_add_def split: option.split)
  qed
qed

section \<open>Every event keeps the invariant\<close>

text \<open>An operation that touches one profile keeps the invariant when that profile is right afterwards.\<close>

lemma core_inv_focus:
  assumes "core_inv cfg calm q s" and "distinct (map fst (sd_runs s'))" "distinct q'" "sd_inFlight s' = int (length (sd_runs s'))"
    "distinct (map fst (sd_states s'))" "sd_stopped s' = sd_stopped s"
    and "\<And>j. j \<noteq> i \<Longrightarrow> map_of (sd_runs s') j = map_of (sd_runs s) j \<and> state_of cfg s' j = state_of cfg s j \<and> (j \<in> set q' \<longleftrightarrow> j \<in> set q)"
    and "profile_ok cfg calm (sd_stopped s) (i \<in> set q') (map_of (sd_runs s') i) (state_of cfg s' i)"
  shows "core_inv cfg calm q' s'"
proof -
  have "profile_ok cfg calm (sd_stopped s') (j \<in> set q') (map_of (sd_runs s') j) (state_of cfg s' j)" for j
    using assms(1,6,7,8) by (cases "j = i") (simp_all add: core_inv_def)
  then show ?thesis using assms(2-5) by (simp add: core_inv_def)
qed

lemma core_inv_profile: "core_inv cfg calm q s \<Longrightarrow>
    profile_ok cfg calm (sd_stopped s) (i \<in> set q) (map_of (sd_runs s) i) (state_of cfg s i)"
  by (simp add: core_inv_def)

lemma core_inv_put:
  assumes "core_inv cfg calm q s" "profile_ok cfg calm (sd_stopped s) (i \<in> set q) (map_of (sd_runs s) i) p"
  shows "core_inv cfg calm q (put_state i p s)"
  by (rule core_inv_focus [OF assms(1), where i = i]) (use assms in \<open>simp_all add: core_inv_def\<close>)

lemma core_inv_begin_run:
  assumes inv: "core_inv cfg calm (i # q) s" and idle: "\<not> ps_active (state_of cfg s i)"
  shows "core_inv cfg calm q (begin_run cfg nowMs i s)"
proof -
  let ?p = "state_of cfg s i"
  have pok: "profile_ok cfg calm (sd_stopped s) True (map_of (sd_runs s) i) ?p" using core_inv_profile [OF inv, of i] by simp
  then have none: "map_of (sd_runs s) i = None" using idle by (simp add: profile_ok_def)
  have fresh: "i \<notin> fst ` set (sd_runs s)" using none by (simp add: map_of_eq_None_iff)
  show ?thesis
  proof (rule core_inv_focus [OF inv, where i = i])
    show "distinct (map fst (sd_runs (begin_run cfg nowMs i s)))" using inv fresh by (simp add: begin_run_def Let_def core_inv_def)
    show "sd_inFlight (begin_run cfg nowMs i s) = int (length (sd_runs (begin_run cfg nowMs i s)))"
      using inv by (simp add: begin_run_def Let_def core_inv_def)
    show "distinct (map fst (sd_states (begin_run cfg nowMs i s)))" using inv by (simp add: begin_run_def Let_def core_inv_def)
    show "j \<noteq> i \<Longrightarrow> map_of (sd_runs (begin_run cfg nowMs i s)) j = map_of (sd_runs s) j \<and>
        state_of cfg (begin_run cfg nowMs i s) j = state_of cfg s j \<and> (j \<in> set q \<longleftrightarrow> j \<in> set (i # q))" for j
      by (simp add: begin_run_def Let_def map_add_def split: option.split)
    show "profile_ok cfg calm (sd_stopped s) (i \<in> set q) (map_of (sd_runs (begin_run cfg nowMs i s)) i) (state_of cfg (begin_run cfg nowMs i s) i)"
      using pok none inv by (simp add: core_inv_def begin_run_def Let_def map_add_def profile_ok_def stage_bounds_def run_covers_def)
  qed (use inv in \<open>simp_all add: begin_run_def Let_def core_inv_def\<close>)
qed

lemma pump_loop_inv:
  "core_inv cfg calm q s \<Longrightarrow> \<not> sd_stopped s \<Longrightarrow>
     core_inv cfg calm [] (sched_pump_loop cfg nowMs q s) \<and> sd_queue (sched_pump_loop cfg nowMs q s) = [] \<and>
     \<not> sd_stopped (sched_pump_loop cfg nowMs q s)"
proof (induction q arbitrary: s)
  case Nil
  then show ?case by (simp add: core_inv_def)
next
  case (Cons i q)
  have idle: "\<not> ps_active (state_of cfg s i)"
    using core_inv_profile [OF Cons.prems(1), of i] by (simp add: profile_ok_def)
  have "core_inv cfg calm q (begin_run cfg nowMs i (stateFor cfg i s))"
    by (rule core_inv_begin_run) (use Cons.prems idle core_inv_stateFor in simp_all)
  moreover have "sd_stopped (begin_run cfg nowMs i (stateFor cfg i s)) = sd_stopped s"
    by (simp add: begin_run_def Let_def)
  ultimately show ?case
    using Cons.IH Cons.prems(2) idle by (simp add: Let_def)
qed

lemma sched_pump_inv:
  assumes "core_inv cfg calm (sd_queue s) s" "sd_stopped s \<longrightarrow> sd_queue s = []"
  shows "sched_inv cfg calm (sched_pump cfg nowMs s)"
  using assms pump_loop_inv [of cfg calm "sd_queue s" s nowMs]
  by (auto simp: sched_pump_def sched_inv_core)

lemma submitWake_inv:
  assumes inv: "sched_inv cfg calm s"
  shows "sched_inv cfg calm (snd (submitWake cfg nowMs i w reason s))"
proof (cases "i = [] \<or> sd_stopped s")
  case True
  then show ?thesis using inv core_inv_stateFor by (auto simp: submitWake_def sched_inv_core)
next
  case False
  let ?s = "stateFor cfg i s" and ?p = "state_of cfg s i"
  define p2 where "p2 = (let watermark = opt_or w 0; p1 = (if ps_highWatermark ?p < watermark then ?p\<lparr>ps_highWatermark := watermark\<rparr> else ?p)
    in if reason = ''startup_reconcile'' \<and> watermark = 0
       then p1\<lparr>ps_highWatermark := max (ps_highWatermark p1) (ps_lastReconciled p1 + 1)\<rparr> else p1)"
  have grow: "\<exists>h \<ge> ps_highWatermark ?p. p2 = ?p\<lparr>ps_highWatermark := h\<rparr>"
    by (rule exI [of _ "ps_highWatermark p2"]) (auto simp: p2_def Let_def intro!: profile_state.equality)
  have core: "core_inv cfg calm (sd_queue s) ?s" using inv core_inv_stateFor by (simp add: sched_inv_core)
  have pok: "profile_ok cfg calm False (i \<in> set (sd_queue s)) (map_of (sd_runs s) i) ?p"
    using core_inv_profile [OF core, of i] False by simp
  have eq: "snd (submitWake cfg nowMs i w reason s) = (if ps_active p2 then put_state i (p2\<lparr>ps_dirty := True\<rparr>) ?s
      else sched_pump cfg nowMs (sched_enqueue i (put_state i p2 ?s)))"
    using False by (simp add: submitWake_def p2_def Let_def)
  show ?thesis
  proof (cases "ps_active p2")
    case True
    have "core_inv cfg calm (sd_queue s) (put_state i (p2\<lparr>ps_dirty := True\<rparr>) ?s)"
      by (rule core_inv_put [OF core])
        (use grow pok True False in \<open>auto simp: profile_ok_def stage_bounds_def run_covers_def split: option.splits run_stage.splits\<close>)
    then show ?thesis using True inv by (simp add: eq sched_inv_core)
  next
    case idle: False
    let ?e = "sched_enqueue i (put_state i p2 ?s)"
    have "core_inv cfg calm (sd_queue ?e) ?e"
    proof (rule core_inv_focus [OF core, where i = i])
      show "profile_ok cfg calm (sd_stopped ?s) (i \<in> set (sd_queue ?e)) (map_of (sd_runs ?e) i) (state_of cfg ?e i)"
        using grow pok idle by (auto simp: profile_ok_def split: option.splits)
    qed (use core in \<open>auto simp: core_inv_def\<close>)
    then show ?thesis using idle False by (simp add: eq sched_pump_inv)
  qed
qed

lemma set_run_simps [simp]:
  "sd_queue (set_run n st s) = sd_queue s" "sd_inFlight (set_run n st s) = sd_inFlight s" "sd_stopped (set_run n st s) = sd_stopped s"
  "sd_pumps (set_run n st s) = sd_pumps s" "sd_states (set_run n st s) = sd_states s" "state_of cfg (set_run n st s) = state_of cfg s"
  "length (sd_runs (set_run n st s)) = length (sd_runs s)"
  by (simp_all add: set_run_def)

text \<open>A run that moves on, with a change of its profile.\<close>

lemma sched_inv_move:
  assumes inv: "sched_inv cfg calm s" and n: "n < length (sd_runs s)" "sd_runs s ! n = (i, st)"
    and ok: "profile_ok cfg calm (sd_stopped s) False (Some st) (state_of cfg s i) \<Longrightarrow>
      profile_ok cfg calm (sd_stopped s) False (Some st') p"
  shows "sched_inv cfg calm (set_run n st' (put_state i p s))"
proof -
  have core: "core_inv cfg calm (sd_queue s) s" using inv by (simp add: sched_inv_core)
  have d: "distinct (map fst (sd_runs s))" using core by (simp add: core_inv_def)
  have look: "map_of (sd_runs s) i = Some st" by (rule map_of_nth_run [OF d n])
  have runs: "sd_runs (set_run n st' (put_state i p s)) = (sd_runs s)[n := (i, st')]" using n by (simp add: set_run_def)
  note upd = map_of_update_run [OF d n(1), of i st', unfolded n(2) fst_conv, OF refl]
  have q: "i \<notin> set (sd_queue s)" using core_inv_profile [OF core, of i] look by (auto simp: profile_ok_def)
  have "core_inv cfg calm (sd_queue s) (set_run n st' (put_state i p s))"
    by (rule core_inv_focus [OF core, where i = i])
      (use core core_inv_profile [OF core, of i] look q ok upd runs in \<open>simp_all add: core_inv_def\<close>)
  then show ?thesis using inv by (simp add: sched_inv_core)
qed

lemma state_of_put_same: "state_of cfg (put_state i (state_of cfg s i) s) = state_of cfg s"
  by (simp add: fun_eq_iff)

lemma put_same: "sched_inv cfg calm (set_run n st (put_state i (state_of cfg s i) s)) \<Longrightarrow> sched_inv cfg calm s \<Longrightarrow>
    sched_inv cfg calm (set_run n st s)"
  by (simp add: sched_inv_def set_run_def state_of_put_same del: state_of_put)

lemma sched_inv_stage:
  assumes "sched_inv cfg calm s" "n < length (sd_runs s)" "sd_runs s ! n = (i, st)"
    and "profile_ok cfg calm (sd_stopped s) False (Some st) (state_of cfg s i) \<Longrightarrow>
      profile_ok cfg calm (sd_stopped s) False (Some st') (state_of cfg s i)"
  shows "sched_inv cfg calm (set_run n st' s)"
  using put_same [OF sched_inv_move [OF assms] assms(1)] .

text \<open>A run that ends; \<open>p\<close> is its profile before the \<open>finally\<close> block.\<close>

lemma sched_inv_end:
  assumes inv: "sched_inv cfg calm s" and n: "n < length (sd_runs s)" "sd_runs s ! n = (i, st)"
    and ok: "profile_ok cfg calm (sd_stopped s) False (Some st) (state_of cfg s i) \<Longrightarrow>
      profile_ok cfg calm (sd_stopped s) False (Some Callback_done) p"
  shows "sched_inv cfg calm (end_run cfg n (put_state i p s))"
proof -
  have core: "core_inv cfg calm (sd_queue s) s" using inv by (simp add: sched_inv_core)
  have d: "distinct (map fst (sd_runs s))" using core by (simp add: core_inv_def)
  have look: "map_of (sd_runs s) i = Some st" by (rule map_of_nth_run [OF d n])
  note wo = map_of_without [OF d n(1), of i, unfolded n(2) fst_conv, OF refl]
  have q: "i \<notin> set (sd_queue s)" using core_inv_profile [OF core, of i] look by (auto simp: profile_ok_def)
  have pok: "profile_ok cfg calm (sd_stopped s) False (Some Callback_done) p"
    using core_inv_profile [OF core, of i] look q ok by simp
  have stopped: "sd_stopped s \<longrightarrow> sd_queue s = []" using inv by (simp add: sched_inv_core)
  let ?s = "put_state i p s"
  have len: "0 < length (sd_runs s)" using n(1) by linarith
  have "core_inv cfg calm (sd_queue (end_run cfg n ?s)) (end_run cfg n ?s)"
  proof (rule core_inv_focus [OF core, where i = i])
    show "profile_ok cfg calm (sd_stopped s) (i \<in> set (sd_queue (end_run cfg n ?s))) (map_of (sd_runs (end_run cfg n ?s)) i)
        (state_of cfg (end_run cfg n ?s) i)"
    proof -
      have "map_of (sd_runs (end_run cfg n ?s)) i = None" using wo(2) [of i] by (simp add: end_run_def Let_def)
      moreover have "i \<in> set (sd_queue (end_run cfg n ?s)) \<longleftrightarrow> ps_dirty p \<and> \<not> sd_stopped s"
        using q by (simp add: end_run_def n Let_def)
      moreover have "state_of cfg (end_run cfg n ?s) i = p\<lparr>ps_active := False, ps_dirty := ps_dirty p \<and> sd_stopped s\<rparr>"
        by (cases p) (auto simp: end_run_def n Let_def)
      ultimately show ?thesis using pok by (auto simp: profile_ok_def run_covers_def)
    qed
  qed (use core wo n len q in \<open>auto simp: end_run_def Let_def core_inv_def\<close>)
  then show ?thesis using stopped inv by (auto simp: sched_inv_core end_run_def Let_def)
qed

lemma update_update: "AList.update k v (AList.update k w al) = AList.update k v al"
  by (induction al) auto

lemma end_run_put_same: "sd_runs s ! n = (i, st) \<Longrightarrow> end_run cfg n (put_state i (state_of cfg s i) s) = end_run cfg n s"
  by (simp add: end_run_def Let_def sched_enqueue_def) (simp add: put_state_def update_update)

lemmas stage_simps = profile_ok_def stage_bounds_def run_covers_def

lemma backoff_over_inv:
  assumes "sched_inv cfg calm s" "n < length (sd_runs s)" "sd_runs s ! n = (i, In_backoff)"
  shows "sched_inv cfg calm (backoff_over cfg n s)"
proof (cases "sd_stopped s")
  case True
  have "sched_inv cfg calm (end_run cfg n (put_state i (state_of cfg s i) s))"
    by (rule sched_inv_end [OF assms]) (use True in \<open>simp add: stage_simps\<close>)
  with True show ?thesis by (simp add: backoff_over_def end_run_put_same [OF assms(3)])
next
  case False
  have "sched_inv cfg calm (set_run n (At_gate (ps_highWatermark (state_of cfg s i))) s)"
    by (rule sched_inv_stage [OF assms]) (simp add: stage_simps)
  with False assms(3) show ?thesis by (simp add: backoff_over_def)
qed

lemma gate_enters_inv:
  assumes "sched_inv cfg calm s" "n < length (sd_runs s)" "sd_runs s ! n = (i, At_gate hw)"
  shows "sched_inv cfg calm (gate_enters cfg n hw s)"
  unfolding gate_enters_def
  by (cases "hw \<le> ps_lastReconciled (state_of cfg s i)")
    (use assms(3) in \<open>auto simp: stage_simps intro!: sched_inv_stage [OF assms]\<close>)

lemma threw_inv:
  assumes "sched_inv cfg calm s" "n < length (sd_runs s)" "sd_runs s ! n = (i, st)" "st \<in> {At_gate hw, In_preflight hw, In_drain hw}"
    and "calm \<Longrightarrow> sd_stopped s \<or> \<not> isAbort"
  shows "sched_inv cfg calm (set_run n (Callback_threw isAbort) s)"
  by (rule sched_inv_stage [OF assms(1-3)]) (use assms(4,5) in \<open>auto simp: stage_simps\<close>)

lemma preflight_returned_inv:
  assumes "sched_inv cfg calm s" "n < length (sd_runs s)" "sd_runs s ! n = (i, In_preflight hw)"
  shows "sched_inv cfg calm (preflight_returned cfg n hw actionable s)"
proof -
  have "sched_inv cfg calm (set_run n Callback_done (put_state i ((state_of cfg s i)\<lparr>ps_lastReconciled := hw\<rparr>) s))"
    by (rule sched_inv_move [OF assms]) (auto simp: stage_simps)
  moreover have "sched_inv cfg calm (set_run n (In_drain hw) s)"
    by (rule sched_inv_stage [OF assms]) (simp add: stage_simps)
  ultimately show ?thesis using assms(3) by (simp add: preflight_returned_def Let_def)
qed

lemma drain_returned_inv:
  assumes "sched_inv cfg calm s" "n < length (sd_runs s)" "sd_runs s ! n = (i, In_drain hw)"
  shows "sched_inv cfg calm (drain_returned cfg n hw hasMore s)"
  unfolding drain_returned_def Let_def assms(3) fst_conv
  by (rule sched_inv_move [OF assms]) (auto simp: stage_simps)

lemma run_settled_inv:
  assumes inv: "sched_inv cfg calm s" and n: "n < length (sd_runs s)" "sd_runs s ! n = (i, st)"
    and st: "st = Callback_done \<or> st = Callback_threw isAbort"
  shows "sched_inv cfg calm (run_settled cfg nowMs random n s)"
proof -
  have same: "sched_inv cfg calm (end_run cfg n s)" if "\<not> (calm \<and> \<not> sd_stopped s) \<or> st = Callback_done \<or> st = Callback_threw True"
    using sched_inv_end [OF inv n, of "state_of cfg s i"] that st
    by (auto simp: stage_simps end_run_put_same [OF n(2)])
  have failed: "sched_inv cfg calm (end_run cfg n (put_state i p s))"
    if "p = (state_of cfg s i)\<lparr>ps_failureCount := f, ps_backoffMs := min (sg_maxBackoffMs cfg) (max (sg_initialBackoffMs cfg) b),
      ps_nextEligibleAt := t, ps_dirty := True\<rparr>" for p f b t
    by (rule sched_inv_end [OF inv n]) (auto simp: that stage_simps)
  show ?thesis
    using st
  proof
    assume d: "st = Callback_done"
    then show ?thesis using same by (simp add: run_settled_def n)
  next
    assume t: "st = Callback_threw isAbort"
    show ?thesis
    proof (cases "\<not> isAbort \<and> \<not> sd_stopped s")
      case True
      then show ?thesis using failed by (simp add: run_settled_def n t run_failed_def Let_def)
    next
      case False
      then show ?thesis using same t by (auto simp: run_settled_def n run_failed_def)
    qed
  qed
qed

lemma sched_abort_inv: "sched_inv cfg calm s \<Longrightarrow> sched_inv cfg calm (sched_abort s)"
  by (auto simp: sched_inv_def sched_abort_def profile_ok_def)

lemma sched_step_inv:
  assumes inv: "sched_inv cfg calm s" and step: "sched_step cfg s e s'" and calm: "calm \<Longrightarrow> calm_event s e"
  shows "sched_inv cfg calm s'"
  using step
proof cases
  case (submit nowMs i w reason)
  then show ?thesis using submitWake_inv [OF inv] by simp
next
  case (pump nowMs)
  have "core_inv cfg calm (sd_queue s) (s\<lparr>sd_pumps := sd_pumps s - 1\<rparr>)" using inv by (simp add: sched_inv_core core_inv_def)
  then show ?thesis using inv by (simp add: pump sched_inv_core sched_pump_inv [unfolded sched_inv_core])
next
  case (backoff n)
  then show ?thesis using backoff_over_inv [OF inv] by (metis prod.collapse)
next
  case (gate n hw)
  then show ?thesis using gate_enters_inv [OF inv] by (metis prod.collapse)
next
  case (gate_threw n hw isAbort)
  have "calm \<Longrightarrow> sd_stopped s \<or> \<not> isAbort" using calm gate_threw(1) by (simp add: calm_event_def)
  with gate_threw threw_inv [OF inv, of n "fst (sd_runs s ! n)" "At_gate hw" hw isAbort] show ?thesis by (metis insertI1 prod.collapse)
next
  case (preflight n hw actionable)
  then show ?thesis using preflight_returned_inv [OF inv] by (metis prod.collapse)
next
  case (drain n hw hasMore)
  then show ?thesis using drain_returned_inv [OF inv] by (metis prod.collapse)
next
  case (threw n hw isAbort)
  have "calm \<Longrightarrow> sd_stopped s \<or> \<not> isAbort" using calm threw(1) by (simp add: calm_event_def)
  with threw threw_inv [OF inv, of n "fst (sd_runs s ! n)" "snd (sd_runs s ! n)" hw isAbort] show ?thesis by auto
next
  case (settled n isAbort nowMs random)
  then show ?thesis using run_settled_inv [OF inv, of n "fst (sd_runs s ! n)" "snd (sd_runs s ! n)" isAbort] by simp
next
  case abort
  then show ?thesis using sched_abort_inv [OF inv] by simp
qed

lemma sched_run_inv:
  assumes "sched_run cfg calm s0 s" "createProfileScheduler cfg aborted = Inr s0"
  shows "sched_inv cfg calm s"
  using assms(1)
proof (induction rule: sched_run.induct)
  case initial
  show ?case
    using assms(2) by (auto simp: createProfileScheduler_def sched_inv_def stage_simps state_of_def new_state_def split: if_splits)
next
  case (step s e s')
  then show ?case using sched_step_inv by blast
qed

section \<open>Guarantees\<close>

text \<open>
  A profile has at most one run at a time, and the books are right: in every
  reachable state the runs in progress are of distinct profiles, a profile is
  active exactly when it has one, \<open>inFlight\<close> counts them, and \<open>idle\<close> returns
  exactly when nothing runs and nothing is queued.
\<close>

theorem one_run_per_profile:
  assumes "createProfileScheduler cfg aborted = Inr s0" "sched_run cfg False s0 s"
  shows "distinct (map fst (sd_runs s)) \<and> sd_inFlight s = int (length (sd_runs s)) \<and>
    (\<forall>i. ps_active (state_of cfg s i) \<longleftrightarrow> i \<in> fst ` set (sd_runs s)) \<and>
    (is_idle s \<longleftrightarrow> sd_runs s = [] \<and> sd_queue s = [])"
proof -
  have inv: "sched_inv cfg False s" by (rule sched_run_inv [OF assms(2,1)])
  have act: "ps_active (state_of cfg s i) \<longleftrightarrow> i \<in> fst ` set (sd_runs s)" for i
    using inv map_of_eq_None_iff [of "sd_runs s" i] by (auto simp: sched_inv_def profile_ok_def)
  have "\<not> list_ex (\<lambda>(i, p). ps_active p) (sd_states s)" if "sd_runs s = []"
  proof -
    have "\<not> ps_active p" if "(i, p) \<in> set (sd_states s)" for i p
      using act [of i] that inv \<open>sd_runs s = []\<close> by (simp add: state_of_def sched_inv_def)
    then show ?thesis by (auto simp: list_ex_iff)
  qed
  then have "is_idle s \<longleftrightarrow> sd_runs s = [] \<and> sd_queue s = []"
    using inv by (auto simp: is_idle_def sched_inv_def)
  with inv act show ?thesis by (simp add: sched_inv_def)
qed

text \<open>
  C12: no wake is lost.  As long as neither the gate nor the harness throws an
  \<open>AbortError\<close> before the scheduler is stopped, in every reachable state that is
  not stopped a profile whose watermark is above the reconciled one is queued with a pump due,
  or has a run, and no run of it returns from the gate, normally or by a failure,
  without the watermark being reconciled or the profile marked for another run.
\<close>

theorem no_wake_lost:
  assumes "createProfileScheduler cfg aborted = Inr s0" "sched_run cfg True s0 s" "\<not> sd_stopped s"
    and "ps_lastReconciled (state_of cfg s i) < ps_highWatermark (state_of cfg s i)"
  shows "(i \<in> set (sd_queue s) \<and> 0 < sd_pumps s) \<or>
    (\<exists>stage. (i, stage) \<in> set (sd_runs s) \<and> (stage = Callback_done \<or> stage = Callback_threw True \<longrightarrow> ps_dirty (state_of cfg s i)))"
proof -
  have inv: "sched_inv cfg True s" by (rule sched_run_inv [OF assms(2,1)])
  then have pok: "profile_ok cfg True False (i \<in> set (sd_queue s)) (map_of (sd_runs s) i) (state_of cfg s i)"
    using assms(3) by (simp add: sched_inv_def)
  show ?thesis
  proof (cases "map_of (sd_runs s) i")
    case None
    with pok assms(4) have q: "i \<in> set (sd_queue s)" by (simp add: profile_ok_def)
    then have "sd_queue s \<noteq> []" by auto
    with q inv show ?thesis by (simp add: sched_inv_def)
  next
    case (Some st)
    then have "(i, st) \<in> set (sd_runs s)" by (rule map_of_SomeD)
    moreover have "run_covers st (state_of cfg s i)" using pok Some assms(4) by (auto simp: profile_ok_def)
    ultimately show ?thesis by (auto simp: run_covers_def)
  qed
qed

text \<open>
  Backoff stays within its bounds.  In every reachable state the backoff of
  every profile lies between the smaller and the larger of the two configured
  bounds, and a run reconciles watermarks only upwards: the reconciled watermark
  never exceeds the submitted one.
\<close>

theorem backoff_bounded:
  assumes "createProfileScheduler cfg aborted = Inr s0" "sched_run cfg False s0 s"
  shows "min (sg_initialBackoffMs cfg) (sg_maxBackoffMs cfg) \<le> ps_backoffMs (state_of cfg s i) \<and>
    ps_backoffMs (state_of cfg s i) \<le> max (sg_initialBackoffMs cfg) (sg_maxBackoffMs cfg) \<and>
    ps_lastReconciled (state_of cfg s i) \<le> ps_highWatermark (state_of cfg s i)"
  using sched_run_inv [OF assms(2,1)] by (simp add: sched_inv_def profile_ok_def)

text \<open>A scheduler to which a wake of profile \<open>p\<close> is submitted, and its run refused with an \<open>AbortError\<close>.\<close>

definition sample_sched_cfg :: scheduler_cfg where
  "sample_sched_cfg = \<lparr>sg_initialBackoffMs = 15000, sg_maxBackoffMs = 300000, sg_idleJitterRatio = 1 / 10\<rparr>"

definition sched_idle :: scheduler where
  "sched_idle = \<lparr>sd_states = [], sd_queue = [], sd_inFlight = 0, sd_stopped = False, sd_runs = [], sd_pumps = 0\<rparr>"

definition sched_woken :: scheduler where
  "sched_woken = snd (submitWake sample_sched_cfg 0 ''p'' (Some 5) ''wake'' sched_idle)"

definition sched_refused :: scheduler where
  "sched_refused = run_settled sample_sched_cfg 10 0 0 (set_run 0 (Callback_threw True) sched_woken)"

lemma sched_idle_created: "createProfileScheduler sample_sched_cfg False = Inr sched_idle"
  by (simp add: createProfileScheduler_def sample_sched_cfg_def sched_idle_def)

lemma sched_woken_run: "sched_run sample_sched_cfg calm sched_idle sched_woken"
  unfolding sched_woken_def
  by (rule sched_run.step [OF sched_run.initial sched_step.submit]) (simp add: calm_event_def)

lemma sched_woken_state:
  "sd_runs sched_woken = [(''p'', At_gate 5)]" "sd_stopped sched_woken = False"
  "ps_lastReconciled (state_of sample_sched_cfg sched_woken ''p'') < ps_highWatermark (state_of sample_sched_cfg sched_woken ''p'')"
  by code_simp+

theorem one_run_per_profile_witness:
  "sd_inFlight sched_woken = int (length (sd_runs sched_woken)) \<and> ps_active (state_of sample_sched_cfg sched_woken ''p'')"
  using one_run_per_profile [OF sched_idle_created sched_woken_run] by (simp add: sched_woken_state)

theorem no_wake_lost_witness:
  "(''p'' \<in> set (sd_queue sched_woken) \<and> 0 < sd_pumps sched_woken) \<or>
   (\<exists>stage. (''p'', stage) \<in> set (sd_runs sched_woken) \<and>
      (stage = Callback_done \<or> stage = Callback_threw True \<longrightarrow> ps_dirty (state_of sample_sched_cfg sched_woken ''p'')))"
  using no_wake_lost [OF sched_idle_created sched_woken_run _ sched_woken_state(3)] by (simp add: sched_woken_state(2))

theorem backoff_bounded_witness: "15000 \<le> ps_backoffMs (state_of sample_sched_cfg sched_woken ''p'')"
  using backoff_bounded [OF sched_idle_created sched_woken_run, of "''p''"] by (simp add: sample_sched_cfg_def)

text \<open>
  The condition on \<open>AbortError\<close> is needed: when the gate or the harness throws one
  while the scheduler runs, the run ends without marking its profile, and the
  watermark stays above the reconciled one with no run and an empty queue.
\<close>

lemma abort_error_drops_wake:
  "sched_run sample_sched_cfg False sched_idle sched_refused" "\<not> sd_stopped sched_refused" "sd_runs sched_refused = []"
  "sd_queue sched_refused = []"
  "ps_lastReconciled (state_of sample_sched_cfg sched_refused ''p'') < ps_highWatermark (state_of sample_sched_cfg sched_refused ''p'')"
proof -
  let ?s = "set_run 0 (Callback_threw True) sched_woken"
  have "sched_run sample_sched_cfg False sched_idle ?s"
    by (rule sched_run.step [OF sched_woken_run sched_step.gate_threw [where hw = 5]]) (simp_all add: sched_woken_state)
  then show "sched_run sample_sched_cfg False sched_idle sched_refused"
    unfolding sched_refused_def
    by (rule sched_run.step [OF _ sched_step.settled [where isAbort = True]]) (simp_all add: sched_woken_state set_run_def)
qed code_simp+

section \<open>The mailbox harness\<close>

text \<open>
  \<open>createMailboxHarness\<close>: the delivery client and the runner of an instance are
  injected.  \<open>listing\<close> is what \<open>listUnread\<close> gives, \<^const>\<open>None\<close> when it is no
  array; \<open>completion\<close> is \<open>completeAndAcknowledge\<close> on a message, with the value
  false for a completion whose \<open>claimed\<close> is false.  The result of the run is true
  for the status \<open>more\<close>.
\<close>

definition createMailboxHarness :: "string list \<Rightarrow> string list \<Rightarrow> unit result" where
  "createMailboxHarness clients runners =
    (if clients = [] \<or> runners = [] \<or> length clients \<noteq> length runners then Inl TypeErr
     else if \<not> list_all (\<lambda>i. i \<in> set runners) clients then Inl TypeErr
     else if \<not> list_all (\<lambda>i. i \<in> set clients) runners then Inl TypeErr
     else Inr ())"

definition mailbox_preflight :: "'m list option result \<Rightarrow> bool result" where
  "mailbox_preflight listing = (case listing of Inl e \<Rightarrow> Inl e | Inr None \<Rightarrow> Inl TypeErr | Inr (Some messages) \<Rightarrow> Inr (messages \<noteq> []))"

definition mailbox_run :: "'m list option result \<Rightarrow> ('m \<Rightarrow> bool result) \<Rightarrow> bool result" where
  "mailbox_run listing completion = (case listing of
      Inl e \<Rightarrow> Inl e
    | Inr None \<Rightarrow> Inl TypeErr
    | Inr (Some []) \<Rightarrow> Inr False
    | Inr (Some (m # _)) \<Rightarrow> (case completion m of Inl e \<Rightarrow> Inl e
        | Inr claimed \<Rightarrow> if \<not> claimed then Inl (Coded ''claim_conflict'') else Inr True))"

lemma mailbox_answers:
  "mailbox_preflight listing = Inr False \<longleftrightarrow> listing = Inr (Some [])"
  "mailbox_run listing completion = Inr False \<longleftrightarrow> listing = Inr (Some [])"
  by (auto simp: mailbox_preflight_def mailbox_run_def split: sum.splits option.splits list.splits)

text \<open>The events of a scheduler whose harness is the mailbox harness.\<close>

definition mailbox_event :: "'m list option result \<Rightarrow> ('m \<Rightarrow> bool result) \<Rightarrow> sched_event \<Rightarrow> bool" where
  "mailbox_event listing completion e = (case e of
      Preflight_returned _ actionable \<Rightarrow> mailbox_preflight listing = Inr actionable
    | Drain_returned _ hasMore \<Rightarrow> mailbox_run listing completion = Inr hasMore
    | Harness_threw _ _ \<Rightarrow> isl (mailbox_preflight listing) \<or> isl (mailbox_run listing completion)
    | _ \<Rightarrow> True)"

lemma begin_run_last: "ps_lastReconciled (state_of cfg (begin_run cfg nowMs i s) j) = ps_lastReconciled (state_of cfg s j)"
  by (simp add: begin_run_def Let_def)

lemma pump_loop_last: "ps_lastReconciled (state_of cfg (sched_pump_loop cfg nowMs q s) j) = ps_lastReconciled (state_of cfg s j)"
  by (induction cfg nowMs q s rule: sched_pump_loop.induct) (simp_all add: begin_run_last Let_def)

lemma submitWake_last: "ps_lastReconciled (state_of cfg (snd (submitWake cfg nowMs i w reason s)) j) = ps_lastReconciled (state_of cfg s j)"
  by (simp add: submitWake_def Let_def sched_pump_def pump_loop_last)

lemma end_run_last: "ps_lastReconciled (state_of cfg (end_run cfg n s) j) = ps_lastReconciled (state_of cfg s j)"
  by (simp add: end_run_def Let_def)

lemma run_settled_last: "ps_lastReconciled (state_of cfg (run_settled cfg nowMs random n s) j) = ps_lastReconciled (state_of cfg s j)"
  by (simp add: run_settled_def run_failed_def end_run_last Let_def split: prod.split run_stage.split)

text \<open>
  With the mailbox harness, the reconciled watermark of a profile moves only in
  an event of that profile's own run in which the mailbox was listed and had no
  unread message: a completed message, a claim conflict, a failed listing and
  every other event leave it where it was.
\<close>

theorem reconciled_only_on_empty_mailbox:
  assumes "sched_step cfg s e s'" "mailbox_event listing completion e"
    and "ps_lastReconciled (state_of cfg s' i) \<noteq> ps_lastReconciled (state_of cfg s i)"
  shows "listing = Inr (Some []) \<and> i \<in> fst ` set (sd_runs s)"
  using assms(1)
proof cases
  case (preflight n hw actionable)
  then have "\<not> actionable" "i = fst (sd_runs s ! n)"
    using assms(3) by (auto simp: preflight_returned_def Let_def split: if_splits)
  with preflight assms(2) show ?thesis by (simp add: mailbox_event_def mailbox_answers)
next
  case (drain n hw hasMore)
  then have "\<not> hasMore" "i = fst (sd_runs s ! n)"
    using assms(3) by (auto simp: drain_returned_def Let_def split: if_splits)
  with drain assms(2) show ?thesis by (simp add: mailbox_event_def mailbox_answers)
qed (use assms(3) in \<open>simp_all add: submitWake_last sched_pump_def pump_loop_last backoff_over_def end_run_last
    gate_enters_def run_settled_last sched_abort_def split: if_splits\<close>)

theorem reconciled_only_on_empty_mailbox_witness:
  "(Inr (Some []) :: nat list option result) = Inr (Some []) \<and> ''p'' \<in> fst ` set (sd_runs (gate_enters sample_sched_cfg 0 5 sched_woken))"
proof -
  let ?s = "gate_enters sample_sched_cfg 0 5 sched_woken"
  have s: "sd_runs ?s = [(''p'', In_preflight 5)]" by code_simp
  have "sched_step sample_sched_cfg ?s (Preflight_returned 0 False) (preflight_returned sample_sched_cfg 0 5 False ?s)"
    by (rule sched_step.preflight) (simp_all add: s)
  moreover have "mailbox_event (Inr (Some []) :: nat list option result) (\<lambda>_. Inr True) (Preflight_returned 0 False)"
    by (simp add: mailbox_event_def mailbox_preflight_def)
  moreover have "ps_lastReconciled (state_of sample_sched_cfg (preflight_returned sample_sched_cfg 0 5 False ?s) ''p'') \<noteq>
      ps_lastReconciled (state_of sample_sched_cfg ?s ''p'')"
    by code_simp
  ultimately show ?thesis by (rule reconciled_only_on_empty_mailbox)
qed

end
