(* ===== verification/Wake_Client.thy ===== *)
theory Wake_Client
  imports Identity_Primitives Profile_Scheduler
begin

text \<open>
  \<open>packages/agent-worker/src/wake-client.mjs\<close>: the listener of the wake events
  of an installation, which polls from a persisted cursor, coalesces the events
  per profile and hands them on before it moves the cursor; and its wiring to the
  profile scheduler (\<open>createWakeRuntime\<close> of \<open>profile-scheduler.mjs\<close>).  The
  transport is injected; the events it returns are JSON values.  The cursor
  store is its value: \<open>read\<close> and \<open>write\<close> of the memory store, which the file store
  mirrors on disk.  The code is cut at its awaits, as in the scheduler.
\<close>

section \<open>The client\<close>

record wake_client =
  wc_byAgent :: "(string \<times> string) list"
  wc_pending :: "(string \<times> int) list"
  wc_flushTimer :: bool
  wc_stopped :: bool
  wc_lastPollOkAt :: "int option"
  wc_cursor :: int

record wake_profile =
  wp_instanceId :: string
  wp_agentId :: string

definition WAKE_AGENT_ID :: "string \<Rightarrow> bool" where
  "WAKE_AGENT_ID x = matches_class ident_chars 1 120 x"

fun index_profiles :: "wake_profile list \<Rightarrow> (string \<times> string) list \<Rightarrow> (string \<times> string) list result" where
  "index_profiles [] byAgent = Inr byAgent"
| "index_profiles (p # ps) byAgent =
    (if \<not> INSTANCE_ID_PATTERN (wp_instanceId p) then Inl TypeErr
     else if \<not> WAKE_AGENT_ID (wp_agentId p) then Inl TypeErr
     else if map_of byAgent (wp_agentId p) \<noteq> None then Inl TypeErr
     else index_profiles ps (byAgent @ [(wp_agentId p, wp_instanceId p)]))"

definition createWakeClient :: "wake_profile list \<Rightarrow> int \<Rightarrow> int \<Rightarrow> wake_client result" where
  "createWakeClient profiles coalesceMs cursor =
    (if length profiles < 1 \<or> 100 < length profiles then Inl TypeErr
     else if coalesceMs < 1 then Inl TypeErr
     else case index_profiles profiles [] of Inl e \<Rightarrow> Inl e
       | Inr byAgent \<Rightarrow> Inr \<lparr>wc_byAgent = byAgent, wc_pending = [], wc_flushTimer = False, wc_stopped = False,
           wc_lastPollOkAt = None, wc_cursor = cursor\<rparr>)"

text \<open>\<open>cursorStore.write\<close>: \<open>positiveInteger(next, "cursor", 0)\<close>.\<close>

definition cursor_write :: "int \<Rightarrow> wake_client \<Rightarrow> wake_client result" where
  "cursor_write n c = (if n < 0 then Inl TypeErr else Inr (c\<lparr>wc_cursor := n\<rparr>))"

text \<open>\<open>a ?? b\<close> on two fields of an event.\<close>

definition either_field :: "json \<Rightarrow> string \<Rightarrow> string \<Rightarrow> json option" where
  "either_field e a b = (case obj_get e a of None \<Rightarrow> obj_get e b | Some JNull \<Rightarrow> obj_get e b | Some v \<Rightarrow> Some v)"

text \<open>
  The checks of one event in \<open>acceptEvents\<close>: the local instance it concerns and its
  watermark.  Numbers are the safe integers.
\<close>

definition local_event :: "(string \<times> string) list \<Rightarrow> json \<Rightarrow> (string \<times> int) option" where
  "local_event byAgent e =
    (case either_field e ''agent_id'' ''agentId'' of
       Some (JStr agentId) \<Rightarrow> (case map_of byAgent agentId of
          None \<Rightarrow> None
        | Some instanceId \<Rightarrow> (case either_field e ''high_watermark'' ''highWatermark'' of
             Some (JNum hw) \<Rightarrow> if hw < 1 then None else Some (instanceId, hw)
           | _ \<Rightarrow> None))
     | _ \<Rightarrow> None)"

definition raise_pending :: "string \<times> int \<Rightarrow> (string \<times> int) list \<Rightarrow> (string \<times> int) list" where
  "raise_pending x pending = (if opt_or (map_of pending (fst x)) 0 < snd x then AList.update (fst x) (snd x) pending else pending)"

fun accept_loop :: "(string \<times> string) list \<Rightarrow> json list \<Rightarrow> nat \<Rightarrow> (string \<times> int) list \<Rightarrow> nat \<times> (string \<times> int) list" where
  "accept_loop byAgent [] accepted pending = (accepted, pending)"
| "accept_loop byAgent (e # es) accepted pending = (case local_event byAgent e of
     None \<Rightarrow> accept_loop byAgent es accepted pending
   | Some x \<Rightarrow> accept_loop byAgent es (accepted + 1) (raise_pending x pending))"

definition acceptEvents :: "json list \<Rightarrow> wake_client \<Rightarrow> nat \<times> wake_client" where
  "acceptEvents events c =
    (let (accepted, pending) = accept_loop (wc_byAgent c) events 0 (wc_pending c) in
     (accepted, c\<lparr>wc_pending := pending, wc_flushTimer := wc_flushTimer c \<or> pending \<noteq> []\<rparr>))"

text \<open>The synchronous start of \<open>flush\<close>: the batch to hand on and the cursor to write after it.\<close>

definition max_watermark :: "(string \<times> int) list \<Rightarrow> int" where
  "max_watermark batch = Max (set (map snd batch))"

definition flush_begin :: "wake_client \<Rightarrow> ((string \<times> int) list \<times> int) option \<times> wake_client" where
  "flush_begin c =
    (if wc_pending c = [] then (None, c\<lparr>wc_flushTimer := False\<rparr>)
     else (Some (wc_pending c, max_watermark (wc_pending c)), c\<lparr>wc_flushTimer := False, wc_pending := []\<rparr>))"

text \<open>\<open>runOnce\<close> after a response of the transport.\<close>

definition poll_answered :: "int \<Rightarrow> int \<Rightarrow> json list \<Rightarrow> int option \<Rightarrow> wake_client \<Rightarrow> wake_client result" where
  "poll_answered now cursor events responseCursor c =
    (let (accepted, c1) = acceptEvents events (c\<lparr>wc_lastPollOkAt := Some now\<rparr>) in
     case responseCursor of
       None \<Rightarrow> Inr c1
     | Some rc \<Rightarrow> if accepted = 0 \<and> cursor \<le> rc then cursor_write rc c1 else Inr c1)"

definition poll_failed :: "wake_client \<Rightarrow> wake_client" where
  "poll_failed c = c\<lparr>wc_lastPollOkAt := None\<rparr>"

definition healthyWithinMs :: "int \<Rightarrow> rat \<Rightarrow> int" where
  "healthyWithinMs idlePollIntervalMs idleJitterRatio = \<lceil>of_int idlePollIntervalMs * (1 + idleJitterRatio)\<rceil> * 3 + 60000"

definition health :: "int \<Rightarrow> rat \<Rightarrow> int \<Rightarrow> wake_client \<Rightarrow> bool" where
  "health idlePollIntervalMs idleJitterRatio now c = (case wc_lastPollOkAt c of
      None \<Rightarrow> False
    | Some t \<Rightarrow> 0 \<le> now - t \<and> now - t \<le> healthyWithinMs idlePollIntervalMs idleJitterRatio)"

definition wake_stop :: "wake_client \<Rightarrow> wake_client" where
  "wake_stop c = c\<lparr>wc_stopped := True, wc_lastPollOkAt := None\<rparr>"

section \<open>The watch\<close>

text \<open>
  The activities: the loop of \<open>watch\<close> with the call of \<open>runOnce\<close> it is in, a flush
  that is handing on its batch, and \<open>stop\<close>.  \<open>Telling\<close> is the resynchronisation:
  the instances still to be told and the restart cursor.
\<close>

datatype watch_stage = Watch_ready | Polling int | Telling "string list" int | Awaiting_flush | Watch_over

record watch =
  wt_client :: wake_client
  wt_stage :: watch_stage
  wt_flush :: "((string \<times> int) list \<times> int) option"
  wt_stopWaits :: bool
  wt_woken :: "(string \<times> int) list"

definition start_flush :: "watch \<Rightarrow> watch" where
  "start_flush w = (let (job, c) = flush_begin (wt_client w) in
     w\<lparr>wt_client := c, wt_flush := job,
       wt_stage := (if job = None \<and> wt_stage w = Awaiting_flush then Watch_ready else wt_stage w)\<rparr>)"

definition watch_begin :: "watch \<Rightarrow> watch" where
  "watch_begin w = (if wc_stopped (wt_client w) then w\<lparr>wt_stage := Watch_over\<rparr> else w\<lparr>wt_stage := Polling (wc_cursor (wt_client w))\<rparr>)"

definition watch_answered :: "int \<Rightarrow> json list \<Rightarrow> int option \<Rightarrow> int \<Rightarrow> watch \<Rightarrow> watch" where
  "watch_answered now events responseCursor cursor w = (case poll_answered now cursor events responseCursor (wt_client w) of
      Inl _ \<Rightarrow> w\<lparr>wt_stage := Watch_over\<rparr>
    | Inr c \<Rightarrow> w\<lparr>wt_client := c, wt_stage := (if wc_flushTimer c then Awaiting_flush else Watch_ready)\<rparr>)"

definition watch_failed :: "bool \<Rightarrow> watch \<Rightarrow> watch" where
  "watch_failed isAbort w = w\<lparr>wt_client := (if isAbort then wt_client w else poll_failed (wt_client w)), wt_stage := Watch_over\<rparr>"

definition watch_resync :: "int \<Rightarrow> watch \<Rightarrow> watch" where
  "watch_resync restartCursor w = w\<lparr>wt_stage := Telling (map snd (wc_byAgent (wt_client w))) restartCursor\<rparr>"

text \<open>One turn of the loop of the resynchronisation: the next instance, or the write of the cursor.\<close>

definition watch_tell :: "int \<Rightarrow> string list \<Rightarrow> int \<Rightarrow> watch \<Rightarrow> watch" where
  "watch_tell now ids restartCursor w = (case ids of
      i # rest \<Rightarrow> w\<lparr>wt_woken := wt_woken w @ [(i, restartCursor)], wt_stage := Telling rest restartCursor\<rparr>
    | [] \<Rightarrow> (case cursor_write restartCursor (wt_client w) of
         Inl _ \<Rightarrow> w\<lparr>wt_stage := Watch_over\<rparr>
       | Inr c \<Rightarrow> w\<lparr>wt_client := c\<lparr>wc_lastPollOkAt := Some now\<rparr>,
                    wt_stage := (if wc_flushTimer c then Awaiting_flush else Watch_ready)\<rparr>))"

text \<open>The timer of \<open>scheduleFlush\<close>: after a stop it does nothing, and the callers that wait for it go on.\<close>

definition timer_fires :: "watch \<Rightarrow> watch" where
  "timer_fires w =
    (if \<not> wc_stopped (wt_client w) then start_flush w
     else let w1 = (if wt_stage w = Awaiting_flush then w\<lparr>wt_stage := Watch_over\<rparr> else w) in
       if wt_stopWaits w then start_flush (w1\<lparr>wt_stopWaits := False\<rparr>) else w1)"

definition flush_step :: "(string \<times> int) list \<Rightarrow> int \<Rightarrow> watch \<Rightarrow> watch" where
  "flush_step batch maxCursor w = (case batch of
      x # rest \<Rightarrow> w\<lparr>wt_woken := wt_woken w @ [x], wt_flush := Some (rest, maxCursor)\<rparr>
    | [] \<Rightarrow> (case cursor_write maxCursor (wt_client w) of
         Inl _ \<Rightarrow> w\<lparr>wt_flush := None, wt_stage := Watch_over\<rparr>
       | Inr c \<Rightarrow> w\<lparr>wt_client := c, wt_flush := None,
                    wt_stage := (if wt_stage w = Awaiting_flush then Watch_ready else wt_stage w)\<rparr>))"

definition flush_threw :: "watch \<Rightarrow> watch" where
  "flush_threw w = w\<lparr>wt_flush := None, wt_stage := (if wt_stage w = Awaiting_flush then Watch_over else wt_stage w)\<rparr>"

definition stop_called :: "watch \<Rightarrow> watch" where
  "stop_called w =
    (let w1 = w\<lparr>wt_client := wake_stop (wt_client w)\<rparr> in
     if wc_flushTimer (wt_client w) then w1\<lparr>wt_stopWaits := True\<rparr>
     else if wc_pending (wt_client w) \<noteq> [] then start_flush w1 else w1)"

section \<open>Runs against a server\<close>

text \<open>
  The server's side of a run: the events it published so far, an agent and a
  watermark each, and the highest watermark.  An answer from cursor \<open>c\<close> is honest
  when, up to some \<open>r\<close> that it returns as its cursor if it returns one, it has for
  every event of a local agent after \<open>c\<close> an entry of at least that watermark, and
  no entry of a local agent beyond \<open>r\<close>.
\<close>

definition honest_answer :: "(string \<times> string) list \<Rightarrow> (string \<times> int) list \<Rightarrow> int \<Rightarrow> int \<Rightarrow> json list \<Rightarrow> int option \<Rightarrow> bool" where
  "honest_answer byAgent published tip c events rc \<longleftrightarrow>
    (\<exists>r. c \<le> r \<and> r \<le> tip \<and> (rc = None \<or> rc = Some r) \<and>
      (\<forall>(a, n) \<in> set published. \<forall>i. c < n \<and> n \<le> r \<and> map_of byAgent a = Some i \<longrightarrow>
         (\<exists>e \<in> set events. \<exists>hw \<ge> n. local_event byAgent e = Some (i, hw))) \<and>
      (\<forall>e \<in> set events. \<forall>i hw. local_event byAgent e = Some (i, hw) \<longrightarrow> hw \<le> r))"

inductive watch_run :: "watch \<Rightarrow> watch \<Rightarrow> (string \<times> int) list \<Rightarrow> int \<Rightarrow> bool" for w0 where
  initial: "watch_run w0 w0 [] (wc_cursor (wt_client w0))"
| published: "watch_run w0 w pub tip \<Longrightarrow> tip < n \<Longrightarrow> watch_run w0 w (pub @ [(agent, n)]) n"
| began: "watch_run w0 w pub tip \<Longrightarrow> wt_stage w = Watch_ready \<Longrightarrow> watch_run w0 (watch_begin w) pub tip"
| answered: "watch_run w0 w pub tip \<Longrightarrow> wt_stage w = Polling c \<Longrightarrow>
    honest_answer (wc_byAgent (wt_client w)) pub tip c events rc \<Longrightarrow> watch_run w0 (watch_answered now events rc c w) pub tip"
| failed: "watch_run w0 w pub tip \<Longrightarrow> wt_stage w = Polling c \<Longrightarrow> watch_run w0 (watch_failed isAbort w) pub tip"
| resynced: "watch_run w0 w pub tip \<Longrightarrow> wt_stage w = Polling c \<Longrightarrow> restart \<le> tip \<Longrightarrow> watch_run w0 (watch_resync restart w) pub tip"
| told: "watch_run w0 w pub tip \<Longrightarrow> wt_stage w = Telling ids r \<Longrightarrow> watch_run w0 (watch_tell now ids r w) pub tip"
| tell_threw: "watch_run w0 w pub tip \<Longrightarrow> wt_stage w = Telling ids r \<Longrightarrow> watch_run w0 (w\<lparr>wt_stage := Watch_over\<rparr>) pub tip"
| fired: "watch_run w0 w pub tip \<Longrightarrow> wc_flushTimer (wt_client w) \<Longrightarrow> watch_run w0 (timer_fires w) pub tip"
| flushed: "watch_run w0 w pub tip \<Longrightarrow> wt_flush w = Some (batch, m) \<Longrightarrow> watch_run w0 (flush_step batch m w) pub tip"
| threw: "watch_run w0 w pub tip \<Longrightarrow> wt_flush w = Some (batch, m) \<Longrightarrow> watch_run w0 (flush_threw w) pub tip"
| stopped: "watch_run w0 w pub tip \<Longrightarrow> \<not> wc_stopped (wt_client w) \<Longrightarrow> watch_run w0 (stop_called w) pub tip"

section \<open>The cursor stays behind the wakes\<close>

text \<open>Every published event of a local agent up to \<open>m\<close> was handed on, or is in \<open>T\<close> to be handed on.\<close>

definition covers :: "watch \<Rightarrow> (string \<times> int) list \<Rightarrow> (string \<times> int) set \<Rightarrow> int \<Rightarrow> bool" where
  "covers w pub T m \<longleftrightarrow> (\<forall>(a, n) \<in> set pub. \<forall>i. map_of (wc_byAgent (wt_client w)) a = Some i \<and> n \<le> m \<longrightarrow>
     (\<exists>hw \<ge> n. (i, hw) \<in> set (wt_woken w) \<union> T))"

definition stage_ok :: "watch \<Rightarrow> int \<Rightarrow> bool" where
  "stage_ok w tip = (let c = wt_client w; quiet = (wc_pending c = [] \<and> \<not> wc_flushTimer c \<and> wt_flush w = None) in
     case wt_stage w of
       Watch_ready \<Rightarrow> quiet
     | Polling k \<Rightarrow> quiet \<and> k = wc_cursor c
     | Telling ids r \<Rightarrow> quiet \<and> r \<le> tip \<and> (\<forall>i \<in> snd ` set (wc_byAgent c). i \<in> set ids \<or> (i, r) \<in> set (wt_woken w))
     | _ \<Rightarrow> True)"

definition watch_inv :: "watch \<Rightarrow> (string \<times> int) list \<Rightarrow> int \<Rightarrow> bool" where
  "watch_inv w pub tip \<longleftrightarrow> (let c = wt_client w in
     0 \<le> wc_cursor c \<and> wc_cursor c \<le> tip \<and> (\<forall>(a, n) \<in> set pub. n \<le> tip) \<and> covers w pub {} (wc_cursor c) \<and>
     (wc_pending c \<noteq> [] \<longrightarrow> 1 \<le> max_watermark (wc_pending c) \<and> max_watermark (wc_pending c) \<le> tip \<and>
        covers w pub (set (wc_pending c)) (max_watermark (wc_pending c))) \<and>
     (case wt_flush w of None \<Rightarrow> True
      | Some (batch, m) \<Rightarrow> 1 \<le> m \<and> m \<le> tip \<and> covers w pub (set batch) m \<and> wc_pending c = [] \<and> \<not> wc_flushTimer c) \<and>
     stage_ok w tip)"

lemma covers_simps [simp]:
  "covers (w\<lparr>wt_stage := st\<rparr>) = covers w" "covers (w\<lparr>wt_flush := f\<rparr>) = covers w" "covers (w\<lparr>wt_stopWaits := b\<rparr>) = covers w"
  "wc_byAgent c = wc_byAgent (wt_client w) \<Longrightarrow> covers (w\<lparr>wt_client := c\<rparr>) = covers w"
  by (simp_all add: covers_def fun_eq_iff)

lemma covers_published: "covers w pub T m \<Longrightarrow> m < n \<Longrightarrow> covers w (pub @ [(a, n)]) T m"
  by (simp add: covers_def)

lemma covers_tell: "covers w pub T m \<Longrightarrow> set (wt_woken w) \<union> T \<subseteq> set (wt_woken w') \<union> T' \<Longrightarrow>
    wc_byAgent (wt_client w') = wc_byAgent (wt_client w) \<Longrightarrow> covers w' pub T' m"
  unfolding covers_def by fastforce

subsection \<open>Accepting events\<close>

lemma raise_pending_lookup:
  "opt_or (map_of (raise_pending x p) i) 0 = (if i = fst x then max (opt_or (map_of p i) 0) (snd x) else opt_or (map_of p i) 0)"
  by (auto simp: raise_pending_def update_conv max_def)

lemma raise_pending_ne: "1 \<le> snd x \<Longrightarrow> raise_pending x p \<noteq> []"
  by (cases p) (auto simp: raise_pending_def)

lemma raise_pending_values: "set (raise_pending x p) \<subseteq> insert x (set p)"
proof -
  have "set (AList.update k v al) \<subseteq> insert (k, v) (set al)" for k and v :: int and al
    by (induction al) auto
  from this [of "fst x" "snd x" p] show ?thesis by (auto simp: raise_pending_def)
qed

lemma local_event_pos: "local_event byAgent e = Some (i, hw) \<Longrightarrow> 1 \<le> hw"
  by (auto simp: local_event_def split: option.splits json.splits if_splits)

lemma accept_loop_keeps: "opt_or (map_of p i) 0 \<le> opt_or (map_of (snd (accept_loop byAgent es k p)) i) 0"
proof (induction byAgent es k p rule: accept_loop.induct)
  case (2 byAgent e es k p)
  show ?case
  proof (cases "local_event byAgent e")
    case (Some x)
    have "opt_or (map_of p i) 0 \<le> opt_or (map_of (raise_pending x p) i) 0" by (simp add: raise_pending_lookup)
    also have "\<dots> \<le> opt_or (map_of (snd (accept_loop byAgent es (k + 1) (raise_pending x p))) i) 0" by (rule 2(2) [OF Some])
    finally show ?thesis using Some by simp
  qed (use 2 in simp)
qed simp

lemma accept_loop_takes:
  "e \<in> set es \<Longrightarrow> local_event byAgent e = Some (i, hw) \<Longrightarrow> hw \<le> opt_or (map_of (snd (accept_loop byAgent es k p)) i) 0"
proof (induction byAgent es k p rule: accept_loop.induct)
  case (2 byAgent e' es k p)
  show ?case
  proof (cases "e = e'")
    case True
    have "hw \<le> opt_or (map_of (raise_pending (i, hw) p) i) 0" by (simp add: raise_pending_lookup)
    also have "\<dots> \<le> opt_or (map_of (snd (accept_loop byAgent es (k + 1) (raise_pending (i, hw) p))) i) 0"
      by (rule accept_loop_keeps)
    finally show ?thesis using True 2(4) by simp
  next
    case False
    with 2 show ?thesis by (auto split: option.split)
  qed
qed simp

lemma accept_loop_values:
  "set (snd (accept_loop byAgent es k p)) \<subseteq> set p \<union> {x. \<exists>e \<in> set es. local_event byAgent e = Some x}"
proof (induction byAgent es k p rule: accept_loop.induct)
  case (2 byAgent e es k p)
  show ?case
  proof (cases "local_event byAgent e")
    case (Some x)
    show ?thesis using 2(2) [OF Some] raise_pending_values [of x p] Some by auto
  qed (use 2 in auto)
qed simp

lemma accept_loop_count: "k \<le> fst (accept_loop byAgent es k p)"
  by (induction byAgent es k p rule: accept_loop.induct) (auto split: option.split)

lemma accept_loop_none: "fst (accept_loop byAgent es k p) = k \<Longrightarrow>
    snd (accept_loop byAgent es k p) = p \<and> (\<forall>e \<in> set es. local_event byAgent e = None)"
proof (induction byAgent es k p rule: accept_loop.induct)
  case (2 byAgent e es k p)
  have "local_event byAgent e = None"
    using 2(3) accept_loop_count [of "k + 1" byAgent es] by (auto split: option.splits) (metis Suc_n_not_le_n)
  with 2 show ?case by simp
qed simp

subsection \<open>Every step keeps the invariant\<close>

lemma watch_inv_published: "watch_inv w pub tip \<Longrightarrow> tip < n \<Longrightarrow> watch_inv w (pub @ [(a, n)]) n"
  by (auto simp: watch_inv_def stage_ok_def Let_def covers_published split: option.splits watch_stage.splits)

lemma watch_inv_begin: "watch_inv w pub tip \<Longrightarrow> wt_stage w = Watch_ready \<Longrightarrow> watch_inv (watch_begin w) pub tip"
  by (auto simp: watch_inv_def watch_begin_def stage_ok_def Let_def split: option.splits)

lemma watch_inv_failed: "watch_inv w pub tip \<Longrightarrow> watch_inv (watch_failed isAbort w) pub tip"
  by (auto simp: watch_inv_def watch_failed_def poll_failed_def stage_ok_def Let_def split: option.splits)

lemma watch_inv_over: "watch_inv w pub tip \<Longrightarrow> watch_inv (w\<lparr>wt_stage := Watch_over\<rparr>) pub tip"
  by (auto simp: watch_inv_def stage_ok_def Let_def split: option.splits)

lemma watch_inv_resync:
  "watch_inv w pub tip \<Longrightarrow> wt_stage w = Polling c \<Longrightarrow> r \<le> tip \<Longrightarrow> watch_inv (watch_resync r w) pub tip"
  by (auto simp: watch_inv_def watch_resync_def stage_ok_def Let_def split: option.splits)

lemma watch_inv_answered:
  assumes inv: "watch_inv w pub tip" and st: "wt_stage w = Polling c"
    and h: "honest_answer (wc_byAgent (wt_client w)) pub tip c events rc"
  shows "watch_inv (watch_answered now events rc c w) pub tip"
proof -
  let ?c = "wt_client w" and ?b = "wc_byAgent (wt_client w)"
  define P where "P = snd (accept_loop ?b events 0 [])"
  define k where "k = fst (accept_loop ?b events 0 [])"
  from inv st have q: "wc_pending ?c = []" "\<not> wc_flushTimer ?c" "wt_flush w = None" "c = wc_cursor ?c"
    and cur: "0 \<le> c" "c \<le> tip" "\<forall>(a, n) \<in> set pub. n \<le> tip" and cov: "covers w pub {} c"
    by (simp_all add: watch_inv_def stage_ok_def Let_def)
  from h obtain r where r: "c \<le> r" "r \<le> tip" "rc = None \<or> rc = Some r"
    and all: "\<And>a n i. (a, n) \<in> set pub \<Longrightarrow> c < n \<Longrightarrow> n \<le> r \<Longrightarrow> map_of ?b a = Some i \<Longrightarrow>
      \<exists>e \<in> set events. \<exists>hw \<ge> n. local_event ?b e = Some (i, hw)"
    and top: "\<And>e i hw. e \<in> set events \<Longrightarrow> local_event ?b e = Some (i, hw) \<Longrightarrow> hw \<le> r"
    unfolding honest_answer_def by fast
  have vals: "\<exists>e \<in> set events. local_event ?b e = Some x" if "x \<in> set P" for x
    using that accept_loop_values [of ?b events 0 "[]"] by (auto simp: P_def)
  have Ptop: "1 \<le> snd x \<and> snd x \<le> r" if "x \<in> set P" for x
    using vals [OF that] top local_event_pos by (cases x) fastforce
  have covP: "covers w pub (set P) r"
    unfolding covers_def
  proof (clarify)
    fix a n i
    assume a: "(a, n) \<in> set pub" "map_of ?b a = Some i" "n \<le> r"
    show "\<exists>hw \<ge> n. (i, hw) \<in> set (wt_woken w) \<union> set P"
    proof (cases "n \<le> c")
      case True
      then show ?thesis using cov a unfolding covers_def by fastforce
    next
      case False
      then obtain e hw where e: "e \<in> set events" "n \<le> hw" "local_event ?b e = Some (i, hw)"
        using all [OF a(1) _ a(3,2)] by auto
      have "hw \<le> opt_or (map_of P i) 0" "1 \<le> hw"
        using accept_loop_takes [OF e(1,3)] local_event_pos [OF e(3)] by (simp_all add: P_def)
      then obtain v where "map_of P i = Some v" "hw \<le> v" by (cases "map_of P i") auto
      then show ?thesis using e(2) by (intro exI [of _ v]) (auto dest: map_of_SomeD)
    qed
  qed
  show ?thesis
  proof (cases "k = 0 \<and> rc = Some r")
    case True
    then have none: "P = []" "\<forall>e \<in> set events. local_event ?b e = None"
      using accept_loop_none [of ?b events 0 "[]"] by (simp_all add: P_def k_def)
    have "watch_answered now events rc c w = w\<lparr>wt_client := ?c\<lparr>wc_lastPollOkAt := Some now, wc_cursor := r\<rparr>, wt_stage := Watch_ready\<rparr>"
      using True none q r cur
      by (simp add: watch_answered_def poll_answered_def acceptEvents_def split_beta Let_def cursor_write_def P_def [symmetric] k_def [symmetric])
    with covP none q r cur show ?thesis
      by (simp add: watch_inv_def stage_ok_def Let_def)
  next
    case False
    have eq: "watch_answered now events rc c w = w\<lparr>wt_client := ?c\<lparr>wc_lastPollOkAt := Some now, wc_pending := P,
        wc_flushTimer := P \<noteq> []\<rparr>, wt_stage := (if P \<noteq> [] then Awaiting_flush else Watch_ready)\<rparr>"
      using False q r
      by (auto simp: watch_answered_def poll_answered_def acceptEvents_def split_beta Let_def P_def [symmetric] k_def [symmetric])
    have max: "1 \<le> max_watermark P \<and> max_watermark P \<le> r" if "P \<noteq> []"
    proof -
      have "max_watermark P \<in> snd ` set P" using that Max_in [of "snd ` set P"] by (simp add: max_watermark_def)
      then show ?thesis using Ptop by auto
    qed
    have "covers w pub (set P) (max_watermark P)" if "P \<noteq> []"
      using covP max [OF that] unfolding covers_def by fastforce
    with max q r cur cov show ?thesis
      unfolding eq by (auto simp: watch_inv_def stage_ok_def Let_def)
  qed
qed

lemma watch_inv_tell:
  assumes inv: "watch_inv w pub tip" and st: "wt_stage w = Telling ids r"
  shows "watch_inv (watch_tell now ids r w) pub tip"
proof -
  let ?c = "wt_client w"
  from inv st have q: "wc_pending ?c = []" "\<not> wc_flushTimer ?c" "wt_flush w = None" "r \<le> tip"
    and told: "\<forall>i \<in> snd ` set (wc_byAgent ?c). i \<in> set ids \<or> (i, r) \<in> set (wt_woken w)"
    and cur: "0 \<le> wc_cursor ?c" "wc_cursor ?c \<le> tip" "\<forall>(a, n) \<in> set pub. n \<le> tip" and cov: "covers w pub {} (wc_cursor ?c)"
    by (simp_all add: watch_inv_def stage_ok_def Let_def)
  show ?thesis
  proof (cases ids)
    case (Cons i rest)
    let ?w = "w\<lparr>wt_woken := wt_woken w @ [(i, r)], wt_stage := Telling rest r\<rparr>"
    have "covers ?w pub {} (wc_cursor ?c)" by (rule covers_tell [OF cov]) auto
    moreover have "\<forall>j \<in> snd ` set (wc_byAgent ?c). j \<in> set rest \<or> (j, r) \<in> set (wt_woken ?w)"
      using told Cons by auto
    ultimately have "watch_inv ?w pub tip" using q cur by (simp add: watch_inv_def stage_ok_def Let_def)
    then show ?thesis by (simp add: watch_tell_def Cons)
  next
    case Nil
    have "covers w pub {} r"
      unfolding covers_def
    proof (clarify)
      fix a n i
      assume "map_of (wc_byAgent ?c) a = Some i" "n \<le> r"
      moreover have "i \<in> snd ` set (wc_byAgent ?c)" using calculation(1) by (force dest: map_of_SomeD)
      ultimately show "\<exists>hw \<ge> n. (i, hw) \<in> set (wt_woken w) \<union> {}" using told Nil by auto
    qed
    then show ?thesis
      using q cur watch_inv_over [OF inv]
      by (simp add: watch_tell_def Nil cursor_write_def, simp add: watch_inv_def stage_ok_def Let_def)
  qed
qed

lemma watch_inv_start_flush:
  assumes inv: "watch_inv w pub tip" and none: "wt_flush w = None" and st: "wt_stage w = Awaiting_flush \<or> wt_stage w = Watch_over"
  shows "watch_inv (start_flush w) pub tip"
  using assms by (auto simp: start_flush_def flush_begin_def watch_inv_def stage_ok_def Let_def)

lemma busy_stage:
  assumes "watch_inv w pub tip" "wc_pending (wt_client w) \<noteq> [] \<or> wc_flushTimer (wt_client w) \<or> wt_flush w \<noteq> None"
  shows "wt_stage w = Awaiting_flush \<or> wt_stage w = Watch_over"
  using assms by (cases "wt_stage w") (auto simp: watch_inv_def stage_ok_def Let_def)

lemma no_flush_with_timer:
  assumes "watch_inv w pub tip" "wc_pending (wt_client w) \<noteq> [] \<or> wc_flushTimer (wt_client w)"
  shows "wt_flush w = None"
  using assms by (auto simp: watch_inv_def Let_def split: option.splits)

lemma watch_inv_stopWaits: "watch_inv w pub tip \<Longrightarrow> watch_inv (w\<lparr>wt_stopWaits := b\<rparr>) pub tip"
  by (auto simp: watch_inv_def stage_ok_def Let_def split: option.splits watch_stage.splits)

lemma watch_inv_fired:
  assumes inv: "watch_inv w pub tip" and t: "wc_flushTimer (wt_client w)"
  shows "watch_inv (timer_fires w) pub tip"
proof -
  have st: "wt_stage w = Awaiting_flush \<or> wt_stage w = Watch_over" using busy_stage [OF inv] t by simp
  have none: "wt_flush w = None" using no_flush_with_timer [OF inv] t by simp
  let ?w = "if wt_stage w = Awaiting_flush then w\<lparr>wt_stage := Watch_over\<rparr> else w"
  have w1: "watch_inv ?w pub tip" using inv watch_inv_over [OF inv] by simp
  have w2: "watch_inv (?w\<lparr>wt_stopWaits := False\<rparr>) pub tip" by (rule watch_inv_stopWaits [OF w1])
  have "watch_inv (start_flush (?w\<lparr>wt_stopWaits := False\<rparr>)) pub tip"
    by (rule watch_inv_start_flush [OF w2]) (use st none in auto)
  moreover have "watch_inv (start_flush w) pub tip" by (rule watch_inv_start_flush [OF inv none st])
  ultimately show ?thesis using w1 by (simp add: timer_fires_def Let_def)
qed

lemma watch_inv_flush_step:
  assumes inv: "watch_inv w pub tip" and f: "wt_flush w = Some (batch, m)"
  shows "watch_inv (flush_step batch m w) pub tip"
proof -
  let ?c = "wt_client w"
  have st: "wt_stage w = Awaiting_flush \<or> wt_stage w = Watch_over" using busy_stage [OF inv] f by simp
  from inv f have m: "1 \<le> m" "m \<le> tip" "covers w pub (set batch) m" "wc_pending ?c = []" "\<not> wc_flushTimer ?c"
    and cur: "0 \<le> wc_cursor ?c" "wc_cursor ?c \<le> tip" "\<forall>(a, n) \<in> set pub. n \<le> tip" "covers w pub {} (wc_cursor ?c)"
    by (simp_all add: watch_inv_def Let_def)
  show ?thesis
  proof (cases batch)
    case (Cons x rest)
    let ?w = "w\<lparr>wt_woken := wt_woken w @ [x], wt_flush := Some (rest, m)\<rparr>"
    have "covers ?w pub (set rest) m" by (rule covers_tell [OF m(3)]) (auto simp: Cons)
    moreover have "covers ?w pub {} (wc_cursor ?c)" by (rule covers_tell [OF cur(4)]) auto
    ultimately have "watch_inv ?w pub tip" using m cur st by (auto simp: watch_inv_def stage_ok_def Let_def)
    then show ?thesis by (simp add: flush_step_def Cons)
  next
    case Nil
    then show ?thesis
      using m cur st by (auto simp: flush_step_def cursor_write_def watch_inv_def stage_ok_def Let_def)
  qed
qed

lemma watch_inv_flush_threw:
  "watch_inv w pub tip \<Longrightarrow> wt_flush w = Some (batch, m) \<Longrightarrow> watch_inv (flush_threw w) pub tip"
  using busy_stage [of w pub tip] by (auto simp: flush_threw_def watch_inv_def stage_ok_def Let_def)

lemma watch_inv_stop:
  assumes inv: "watch_inv w pub tip"
  shows "watch_inv (stop_called w) pub tip"
proof -
  let ?w = "w\<lparr>wt_client := wake_stop (wt_client w)\<rparr>"
  have w: "watch_inv ?w pub tip"
    using inv by (auto simp: watch_inv_def wake_stop_def stage_ok_def Let_def split: option.splits watch_stage.splits)
  have "watch_inv (?w\<lparr>wt_stopWaits := True\<rparr>) pub tip" by (rule watch_inv_stopWaits [OF w])
  moreover have "watch_inv (start_flush ?w) pub tip" if "wc_pending (wt_client w) \<noteq> []"
    by (rule watch_inv_start_flush [OF w]) (use that busy_stage [OF inv] no_flush_with_timer [OF inv] in simp_all)
  ultimately show ?thesis using w by (simp add: stop_called_def Let_def)
qed

lemma watch_run_inv:
  assumes "watch_run w0 w pub tip" "watch_inv w0 [] (wc_cursor (wt_client w0))"
  shows "watch_inv w pub tip"
  using assms(1)
proof (induction rule: watch_run.induct)
  case initial
  show ?case by (rule assms(2))
qed (simp_all add: watch_inv_published watch_inv_begin watch_inv_answered watch_inv_failed watch_inv_resync watch_inv_tell
    watch_inv_over watch_inv_fired watch_inv_flush_step watch_inv_flush_threw watch_inv_stop)

definition new_watch :: "wake_client \<Rightarrow> watch" where
  "new_watch c = \<lparr>wt_client = c, wt_stage = Watch_ready, wt_flush = None, wt_stopWaits = False, wt_woken = []\<rparr>"

text \<open>
  C36: the cursor never passes a wake that was not handed on.  Against a server whose
  answers are honest, whatever polls, failures, resynchronisations, timers,
  failing handlers and a stop happen in whatever order, every published event of a
  local agent at or below the stored cursor was handed to \<open>onWake\<close> for its
  instance with at least its watermark; so a crash at any point, followed by a
  poll from the stored cursor, misses no event.
\<close>

theorem cursor_never_passes_wake:
  assumes "createWakeClient profiles coalesceMs cursor = Inr c" "0 \<le> cursor" "watch_run (new_watch c) w pub tip"
    and "(agent, n) \<in> set pub" "map_of (wc_byAgent (wt_client w)) agent = Some i" "n \<le> wc_cursor (wt_client w)"
  shows "\<exists>hw \<ge> n. (i, hw) \<in> set (wt_woken w)"
proof -
  have c: "wc_cursor c = cursor" "wc_pending c = []" "\<not> wc_flushTimer c"
    using assms(1) by (auto simp: createWakeClient_def split: if_splits sum.splits)
  have "watch_inv (new_watch c) [] (wc_cursor (wt_client (new_watch c)))"
    using c assms(2) by (simp add: new_watch_def watch_inv_def stage_ok_def covers_def Let_def)
  then have "watch_inv w pub tip" by (rule watch_run_inv [OF assms(3)])
  then have "covers w pub {} (wc_cursor (wt_client w))" by (simp add: watch_inv_def Let_def)
  with assms(4-6) show ?thesis unfolding covers_def by fastforce
qed

section \<open>Wiring to the scheduler\<close>

text \<open>
  \<open>createWakeRuntime\<close> hands every wake to \<open>submitWake\<close>; \<open>reconcileStartup\<close> does so
  for every profile, with the stored cursor, before the watch starts.
\<close>

definition reconcileStartup :: "scheduler_cfg \<Rightarrow> int \<Rightarrow> wake_client \<Rightarrow> scheduler \<Rightarrow> scheduler" where
  "reconcileStartup cfg nowMs c s =
     fold (\<lambda>i. snd \<circ> submitWake cfg nowMs i (Some (wc_cursor c)) ''startup_reconcile'') (map snd (wc_byAgent c)) s"

lemma pump_loop_starts:
  "\<not> sd_stopped s \<Longrightarrow> j \<in> set q \<or> ps_active (state_of cfg s j) \<Longrightarrow> ps_active (state_of cfg (sched_pump_loop cfg nowMs q s) j)"
proof (induction q arbitrary: s)
  case (Cons i q)
  have "\<not> sd_stopped (begin_run cfg nowMs i (stateFor cfg i s))" using Cons.prems(1) by (simp add: begin_run_def Let_def)
  moreover have "ps_active (state_of cfg (begin_run cfg nowMs i (stateFor cfg i s)) k) = (k = i \<or> ps_active (state_of cfg s k))" for k
    by (simp add: begin_run_def Let_def)
  ultimately show ?case using Cons by (auto simp: Let_def)
qed simp

lemma pump_loop_high: "ps_highWatermark (state_of cfg (sched_pump_loop cfg nowMs q s) j) = ps_highWatermark (state_of cfg s j)"
proof -
  have "ps_highWatermark (state_of cfg (begin_run cfg nowMs i s) j) = ps_highWatermark (state_of cfg s j)" for i s
    by (simp add: begin_run_def Let_def)
  then show ?thesis by (induction cfg nowMs q s rule: sched_pump_loop.induct) (simp_all add: Let_def)
qed

lemma pump_loop_stopped: "sd_stopped (sched_pump_loop cfg nowMs q s) = sd_stopped s"
proof -
  have "sd_stopped (begin_run cfg nowMs i s) = sd_stopped s" for i s by (simp add: begin_run_def Let_def)
  then show ?thesis by (induction cfg nowMs q s rule: sched_pump_loop.induct) (simp_all add: Let_def)
qed

lemma submitWake_starts:
  assumes "i \<noteq> []" "\<not> sd_stopped s"
  shows "ps_active (state_of cfg (snd (submitWake cfg nowMs i w reason s)) i)"
    and "ps_active (state_of cfg s j) \<Longrightarrow> ps_active (state_of cfg (snd (submitWake cfg nowMs i w reason s)) j)"
    and "ps_highWatermark (state_of cfg s j) \<le> ps_highWatermark (state_of cfg (snd (submitWake cfg nowMs i w reason s)) j)"
    and "reason = ''startup_reconcile'' \<Longrightarrow> w = Some n \<Longrightarrow> 0 \<le> n \<Longrightarrow> ps_lastReconciled (state_of cfg s i) = 0 \<Longrightarrow>
      0 < ps_highWatermark (state_of cfg (snd (submitWake cfg nowMs i w reason s)) i)"
    and "\<not> sd_stopped (snd (submitWake cfg nowMs i w reason s))"
  using assms
  by (auto simp: submitWake_def Let_def sched_pump_def pump_loop_high pump_loop_stopped intro!: pump_loop_starts)

lemma index_profiles_ids:
  assumes "index_profiles ps m = Inr b" "\<forall>i \<in> snd ` set m. i \<noteq> []"
  shows "\<forall>i \<in> snd ` set b. i \<noteq> []"
  using assms
proof (induction ps m rule: index_profiles.induct)
  case (2 p ps m)
  then have "INSTANCE_ID_PATTERN (wp_instanceId p)" by (auto split: if_splits)
  then have "wp_instanceId p \<noteq> []" by (auto simp: INSTANCE_ID_PATTERN_def matches_class_def)
  with 2 show ?case by (auto split: if_splits)
qed simp

lemma index_profiles_instances:
  "index_profiles ps m = Inr b \<Longrightarrow> snd ` set m \<union> wp_instanceId ` set ps \<subseteq> snd ` set b"
  by (induction ps m rule: index_profiles.induct) (auto split: if_splits)

text \<open>During \<open>reconcileStartup\<close> on a new scheduler: the profiles of \<open>D\<close> were submitted.\<close>

definition submitted_all :: "scheduler_cfg \<Rightarrow> string set \<Rightarrow> scheduler \<Rightarrow> bool" where
  "submitted_all cfg D s \<longleftrightarrow> sched_inv cfg True s \<and> \<not> sd_stopped s \<and> (\<forall>j. ps_lastReconciled (state_of cfg s j) = 0) \<and>
    (\<forall>i \<in> D. ps_active (state_of cfg s i) \<and> 0 < ps_highWatermark (state_of cfg s i))"

lemma submitted_all_submit:
  assumes s: "submitted_all cfg D s" and i: "i \<noteq> []" and c: "0 \<le> cursor"
  shows "submitted_all cfg (insert i D) (snd (submitWake cfg nowMs i (Some cursor) ''startup_reconcile'' s))"
proof -
  let ?s = "snd (submitWake cfg nowMs i (Some cursor) ''startup_reconcile'' s)"
  have ns: "\<not> sd_stopped s" and inv: "sched_inv cfg True s" and zero: "ps_lastReconciled (state_of cfg s j) = 0" for j
    using s by (simp_all add: submitted_all_def)
  note st = submitWake_starts [OF i ns, where cfg = cfg and nowMs = nowMs and w = "Some cursor" and reason = "''startup_reconcile''"]
  have "0 < ps_highWatermark (state_of cfg ?s i)" by (rule st(4) [OF refl refl c zero])
  moreover have "ps_active (state_of cfg ?s j) \<and> 0 < ps_highWatermark (state_of cfg ?s j)" if "j \<in> D" for j
    using s that st(2) [of j] st(3) [of j] by (auto simp: submitted_all_def intro: less_le_trans)
  ultimately show ?thesis
    using st(1,5) submitWake_inv [OF inv] zero by (auto simp: submitted_all_def submitWake_last)
qed

lemma submitted_all_fold:
  assumes "submitted_all cfg D s" "\<forall>i \<in> set ids. i \<noteq> []" "0 \<le> cursor"
  shows "submitted_all cfg (D \<union> set ids) (fold (\<lambda>i. snd \<circ> submitWake cfg nowMs i (Some cursor) ''startup_reconcile'') ids s)"
  using assms
proof (induction ids arbitrary: D s)
  case (Cons i ids)
  have "submitted_all cfg (insert i D \<union> set ids) (fold (\<lambda>i. snd \<circ> submitWake cfg nowMs i (Some cursor) ''startup_reconcile'') ids
      (snd (submitWake cfg nowMs i (Some cursor) ''startup_reconcile'' s)))"
    by (rule Cons.IH) (use Cons.prems submitted_all_submit in auto)
  then show ?case by (simp add: comp_def)
qed simp

text \<open>
  A start reconciles every profile.  When the runtime starts on a new scheduler
  with any stored cursor, after \<open>reconcileStartup\<close> every profile of the wake
  client has work to reconcile and a run in progress for it, whatever the cursor
  says was handled before; together with the loss-free scheduling of wakes, work
  that was left when the process ended is looked for again.
\<close>

theorem startup_runs_every_profile:
  assumes "createWakeClient profiles coalesceMs cursor = Inr c" "0 \<le> cursor" "createProfileScheduler cfg False = Inr s0"
    and "p \<in> set profiles"
  shows "wp_instanceId p \<in> fst ` set (sd_runs (reconcileStartup cfg nowMs c s0)) \<and>
    ps_lastReconciled (state_of cfg (reconcileStartup cfg nowMs c s0) (wp_instanceId p)) <
    ps_highWatermark (state_of cfg (reconcileStartup cfg nowMs c s0) (wp_instanceId p))"
proof -
  let ?s = "reconcileStartup cfg nowMs c s0" and ?i = "wp_instanceId p"
  obtain b where b: "index_profiles profiles [] = Inr b" and c: "wc_byAgent c = b" "wc_cursor c = cursor"
    using assms(1) by (auto simp: createWakeClient_def split: if_splits sum.splits)
  have ids: "\<forall>i \<in> snd ` set b. i \<noteq> []" by (rule index_profiles_ids [OF b]) simp
  have s0: "submitted_all cfg {} s0"
    using sched_run_inv [OF sched_run.initial assms(3)] assms(3)
    by (auto simp: submitted_all_def createProfileScheduler_def state_of_def new_state_def split: if_splits)
  have fin: "submitted_all cfg (set (map snd b)) ?s"
    using submitted_all_fold [OF s0, of "map snd b" cursor nowMs] ids assms(2) by (simp add: reconcileStartup_def c)
  moreover have "?i \<in> set (map snd b)" using index_profiles_instances [OF b] assms(4) by auto
  ultimately have act: "ps_active (state_of cfg ?s ?i)" and "ps_lastReconciled (state_of cfg ?s ?i) < ps_highWatermark (state_of cfg ?s ?i)"
    and "sched_inv cfg True ?s"
    by (simp_all only: submitted_all_def)
  moreover from this have "map_of (sd_runs ?s) ?i \<noteq> None" by (simp add: sched_inv_def profile_ok_def)
  ultimately show ?thesis by (auto simp: map_of_eq_None_iff)
qed

text \<open>A client of one profile, whose first poll brings a wake that is handed on and then recorded.\<close>

definition sample_profile :: wake_profile where
  "sample_profile = \<lparr>wp_instanceId = replicate 64 (CHR ''a''), wp_agentId = ''agent-1''\<rparr>"

definition sample_client :: wake_client where
  "sample_client = \<lparr>wc_byAgent = [(''agent-1'', replicate 64 (CHR ''a''))], wc_pending = [], wc_flushTimer = False, wc_stopped = False,
     wc_lastPollOkAt = None, wc_cursor = 0\<rparr>"

definition sample_wake :: json where
  "sample_wake = JObj [(''agent_id'', JStr ''agent-1''), (''high_watermark'', JNum 4)]"

definition watch_polled :: watch where
  "watch_polled = watch_answered 50 [sample_wake] (Some 4) 0 (watch_begin (new_watch sample_client))"

definition watch_flushed :: watch where
  "watch_flushed = flush_step [] 4 (flush_step [(replicate 64 (CHR ''a''), 4)] 4 (timer_fires watch_polled))"

lemma sample_client_created: "createWakeClient [sample_profile] 300 0 = Inr sample_client"
  by code_simp

lemma sample_honest: "honest_answer (wc_byAgent sample_client) [(''agent-1'', 4)] 4 0 [sample_wake] (Some 4)"
proof -
  have "local_event (wc_byAgent sample_client) sample_wake = Some (replicate 64 (CHR ''a''), 4)" by code_simp
  moreover have "map_of (wc_byAgent sample_client) ''agent-1'' = Some (replicate 64 (CHR ''a''))" by code_simp
  ultimately show ?thesis unfolding honest_answer_def by (intro exI [of _ 4]) auto
qed

lemma watch_flushed_run: "watch_run (new_watch sample_client) watch_flushed [(''agent-1'', 4)] 4"
proof -
  let ?w = "new_watch sample_client" and ?pub = "[(''agent-1'', 4)] :: (string \<times> int) list"
  have "watch_run ?w ?w [] (wc_cursor (wt_client ?w))" by (rule watch_run.initial)
  moreover have "wc_cursor (wt_client ?w) < 4" by code_simp
  ultimately have "watch_run ?w ?w ([] @ ?pub) 4" by (rule watch_run.published)
  moreover have "wt_stage ?w = Watch_ready" by (simp add: new_watch_def)
  ultimately have "watch_run ?w (watch_begin ?w) ?pub 4" using watch_run.began by simp
  moreover have "wt_stage (watch_begin ?w) = Polling 0" "wc_byAgent (wt_client (watch_begin ?w)) = wc_byAgent sample_client"
    by code_simp+
  ultimately have "watch_run ?w watch_polled ?pub 4"
    unfolding watch_polled_def using sample_honest by (intro watch_run.answered) simp_all
  moreover have "wc_flushTimer (wt_client watch_polled)" by code_simp
  ultimately have "watch_run ?w (timer_fires watch_polled) ?pub 4" by (rule watch_run.fired)
  moreover have "wt_flush (timer_fires watch_polled) = Some ([(replicate 64 (CHR ''a''), 4)], 4)" by code_simp
  ultimately have "watch_run ?w (flush_step [(replicate 64 (CHR ''a''), 4)] 4 (timer_fires watch_polled)) ?pub 4"
    by (rule watch_run.flushed)
  moreover have "wt_flush (flush_step [(replicate 64 (CHR ''a''), 4)] 4 (timer_fires watch_polled)) = Some ([], 4)"
    by (simp add: flush_step_def)
  ultimately show ?thesis unfolding watch_flushed_def by (rule watch_run.flushed)
qed

theorem cursor_never_passes_wake_witness:
  "\<exists>hw \<ge> 4. (replicate 64 (CHR ''a''), hw) \<in> set (wt_woken watch_flushed)"
proof -
  have "map_of (wc_byAgent (wt_client watch_flushed)) ''agent-1'' = Some (replicate 64 (CHR ''a''))" "4 \<le> wc_cursor (wt_client watch_flushed)"
    by code_simp+
  then show ?thesis
    using cursor_never_passes_wake [OF sample_client_created _ watch_flushed_run, of "''agent-1''" 4] by simp
qed

theorem startup_runs_every_profile_witness:
  "wp_instanceId sample_profile \<in> fst ` set (sd_runs (reconcileStartup sample_sched_cfg 0 sample_client sched_idle))"
  using startup_runs_every_profile [OF sample_client_created _ sched_idle_created, of sample_profile 0] by simp

end
