(* ===== verification/Base64url.thy ===== *)
theory Base64url
  imports Prelude
begin

text \<open>
  The \<open>base64url\<close> encoding of Node's \<open>Buffer\<close>, which the credentials use:
  \<open>toString("base64url")\<close> writes groups of six bits without padding;
  \<open>Buffer.from(text, "base64url")\<close> reads both alphabets, skips other characters and
  stops at padding.
\<close>

section \<open>Groups of six bits\<close>

fun sextets :: "nat list \<Rightarrow> nat list" where
  "sextets [] = []"
| "sextets [a] = [a div 4, (a mod 4) * 16]"
| "sextets [a, b] = [a div 4, (a mod 4) * 16 + b div 16, (b mod 16) * 4]"
| "sextets (a # b # c # r) = [a div 4, (a mod 4) * 16 + b div 16, (b mod 16) * 4 + c div 64, c mod 64] @ sextets r"

fun octets :: "nat list \<Rightarrow> nat list" where
  "octets [] = []"
| "octets [x] = []"
| "octets [x, y] = [x * 4 + y div 16]"
| "octets [x, y, z] = [x * 4 + y div 16, (y mod 16) * 16 + z div 4]"
| "octets (x # y # z # w # r) = [x * 4 + y div 16, (y mod 16) * 16 + z div 4, (z mod 4) * 64 + w] @ octets r"

lemma octet_arith:
  fixes a b c :: nat
  assumes "b < 256" "c < 256"
  shows "a div 4 * 4 + ((a mod 4) * 16 + b div 16) div 16 = a"
    and "(((a mod 4) * 16 + b div 16) mod 16) * 16 + ((b mod 16) * 4 + c div 64) div 4 = b"
    and "(((b mod 16) * 4 + c div 64) mod 4) * 64 + c mod 64 = c"
proof -
  have b: "b div 16 < 16" and c: "c div 64 < 4" using assms by (simp_all add: less_mult_imp_div_less)
  have "((a mod 4) * 16 + b div 16) div 16 = a mod 4" and m: "((a mod 4) * 16 + b div 16) mod 16 = b div 16"
    using b by simp_all
  then show "a div 4 * 4 + ((a mod 4) * 16 + b div 16) div 16 = a" by simp
  have "((b mod 16) * 4 + c div 64) div 4 = b mod 16" and n: "((b mod 16) * 4 + c div 64) mod 4 = c div 64"
    using c by simp_all
  then show "(((a mod 4) * 16 + b div 16) mod 16) * 16 + ((b mod 16) * 4 + c div 64) div 4 = b" using m by simp
  show "(((b mod 16) * 4 + c div 64) mod 4) * 64 + c mod 64 = c" using n by simp
qed

lemma octets_sextets: "list_all (\<lambda>b. b < 256) bs \<Longrightarrow> octets (sextets bs) = bs"
proof (induction bs rule: sextets.induct)
  case (2 a)
  show ?case by simp
next
  case (3 a b)
  then show ?case using octet_arith(1,2) [where a = a and b = b and c = 0] by simp
next
  case (4 a b c r)
  then show ?case using octet_arith(1,2) [where a = a and b = b and c = c] octet_arith(3) [where b = b and c = c] by simp
qed simp

lemma sextet_arith:
  fixes a b c :: nat
  assumes "a < 256" "b < 256" "c < 256"
  shows "a div 4 < 64" "(a mod 4) * 16 + b div 16 < 64" "(b mod 16) * 4 + c div 64 < 64" "c mod 64 < 64"
    "(a mod 4) * 16 < 64" "(b mod 16) * 4 < 64"
proof -
  have "a mod 4 \<le> 3" "b mod 16 \<le> 15" "b div 16 \<le> 15" "c div 64 \<le> 3" "a div 4 < 64"
    using assms by (simp_all add: less_mult_imp_div_less less_Suc_eq_le [symmetric] del: One_nat_def)
  then show "a div 4 < 64" "(a mod 4) * 16 + b div 16 < 64" "(b mod 16) * 4 + c div 64 < 64" "c mod 64 < 64"
    "(a mod 4) * 16 < 64" "(b mod 16) * 4 < 64"
    by (linarith | simp)+
qed

lemma sextets_small: "list_all (\<lambda>b. b < 256) bs \<Longrightarrow> list_all (\<lambda>x. x < 64) (sextets bs)"
  by (induction bs rule: sextets.induct) (auto simp: sextet_arith)

section \<open>The alphabet\<close>

abbreviation "base64url_chars \<equiv> ''ABCDEFGHIJKLMNOPQRSTUVWXYZabcdefghijklmnopqrstuvwxyz0123456789-_''"

definition digit_of :: "nat \<Rightarrow> char" where
  "digit_of x = base64url_chars ! x"

definition sextet_of :: "char \<Rightarrow> nat option" where
  "sextet_of c =
    (let i = length (takeWhile (\<lambda>d. d \<noteq> c) base64url_chars) in
     if i < 64 then Some i else if c = CHR ''+'' then Some 62 else if c = CHR ''/'' then Some 63 else None)"

lemma digit_table: "list_all (\<lambda>x. sextet_of (digit_of x) = Some x \<and> digit_of x \<notin> set ''=.'') [0..<64]"
  by code_simp

lemma digit_of_props: "x < 64 \<Longrightarrow> sextet_of (digit_of x) = Some x" "x < 64 \<Longrightarrow> digit_of x \<noteq> CHR ''=''" "x < 64 \<Longrightarrow> digit_of x \<noteq> CHR ''.''"
  using digit_table by (auto simp: list_all_iff)

section \<open>Encoding and decoding\<close>

definition base64UrlEncode :: "string \<Rightarrow> string" where
  "base64UrlEncode s = map digit_of (sextets (map of_char s))"

definition base64UrlDecode :: "string \<Rightarrow> string" where
  "base64UrlDecode s = map char_of (octets (List.map_filter sextet_of (takeWhile (\<lambda>c. c \<noteq> CHR ''='') s)))"

lemma bytes_small: "list_all (\<lambda>b. b < 256) (map of_char (s :: string) :: nat list)"
  by (simp add: list_all_iff)

lemma map_filter_digits: "list_all (\<lambda>x. x < 64) xs \<Longrightarrow> List.map_filter sextet_of (map digit_of xs) = xs"
  by (induction xs) (simp_all add: List.map_filter_simps digit_of_props)

lemma base64_roundtrip [simp]: "base64UrlDecode (base64UrlEncode s) = s"
proof -
  let ?x = "sextets (map of_char s) :: nat list"
  have x: "list_all (\<lambda>x. x < 64) ?x" by (rule sextets_small [OF bytes_small])
  then have "takeWhile (\<lambda>c. c \<noteq> CHR ''='') (map digit_of ?x) = map digit_of ?x"
    by (auto simp: takeWhile_eq_all_conv list_all_iff digit_of_props)
  with x show ?thesis
    by (simp only: base64UrlDecode_def base64UrlEncode_def map_filter_digits octets_sextets [OF bytes_small])
      (simp add: comp_def)
qed

lemma base64_no_dot: "CHR ''.'' \<notin> set (base64UrlEncode s)"
  using sextets_small [OF bytes_small] digit_of_props(3) by (fastforce simp: base64UrlEncode_def list_all_iff)

lemma base64_inj: "base64UrlEncode s = base64UrlEncode t \<longleftrightarrow> s = t"
  by (metis base64_roundtrip)

end
