(* ===== verification/Credentials.thy ===== *)
theory Credentials
  imports Base64url Unified_Router Journal_Messages
begin

text \<open>
  \<open>packages/agent-worker/src/local-messaging-credentials.mjs\<close>: the turn credentials.
  The issuer signs the JSON text of its claims with a secret; the validator
  checks signature, shape, expiry and sender.  HMAC-SHA256 and \<open>JSON.parse\<close> are
  parameters.
\<close>

section \<open>Strings\<close>

text \<open>\<open>text.split(d)\<close>.\<close>

fun split_on :: "char \<Rightarrow> string \<Rightarrow> string list" where
  "split_on d [] = [[]]"
| "split_on d (c # s) = (if c = d then [] # split_on d s else (case split_on d s of [] \<Rightarrow> [[c]] | p # ps \<Rightarrow> (c # p) # ps))"

lemma split_on_none: "d \<notin> set s \<Longrightarrow> split_on d s = [s]"
  by (induction s) auto

lemma split_on_two: "d \<notin> set p \<Longrightarrow> d \<notin> set q \<Longrightarrow> split_on d (p @ d # q) = [p, q]"
  by (induction p) (auto simp: split_on_none)

lemma split_on_not_Nil [simp]: "split_on d s \<noteq> []"
  by (cases s) (auto split: list.splits)

lemma split_on_oneD: "split_on d s = [q] \<Longrightarrow> s = q"
  by (induction s arbitrary: q) (auto split: if_splits list.splits)

lemma split_on_twoD: "split_on d s = [p, q] \<Longrightarrow> s = p @ d # q"
  by (induction s arbitrary: p q) (auto split: if_splits list.splits dest: split_on_oneD)

lemma split_on_first: "split_on d s = p # ps \<Longrightarrow> d \<notin> set p"
  by (induction s arbitrary: p ps) (auto split: if_splits list.splits)

text \<open>
  \<open>text.trim()\<close>: the white space and line terminators of ECMAScript, by their UTF-8
  bytes.
\<close>

definition WHITE_SPACE :: "string list" where
  "WHITE_SPACE = [
     [CHR 0x09], [CHR 0x0A], [CHR 0x0B], [CHR 0x0C], [CHR 0x0D], [CHR 0x20], [CHR 0xC2, CHR 0xA0], [CHR 0xE1, CHR 0x9A, CHR 0x80],
     [CHR 0xE2, CHR 0x80, CHR 0x80], [CHR 0xE2, CHR 0x80, CHR 0x81], [CHR 0xE2, CHR 0x80, CHR 0x82],
     [CHR 0xE2, CHR 0x80, CHR 0x83], [CHR 0xE2, CHR 0x80, CHR 0x84], [CHR 0xE2, CHR 0x80, CHR 0x85],
     [CHR 0xE2, CHR 0x80, CHR 0x86], [CHR 0xE2, CHR 0x80, CHR 0x87], [CHR 0xE2, CHR 0x80, CHR 0x88],
     [CHR 0xE2, CHR 0x80, CHR 0x89], [CHR 0xE2, CHR 0x80, CHR 0x8A], [CHR 0xE2, CHR 0x80, CHR 0xA8],
     [CHR 0xE2, CHR 0x80, CHR 0xA9], [CHR 0xE2, CHR 0x80, CHR 0xAF], [CHR 0xE2, CHR 0x81, CHR 0x9F],
     [CHR 0xE3, CHR 0x80, CHR 0x80], [CHR 0xEF, CHR 0xBB, CHR 0xBF]]"

function trim_left :: "string list \<Rightarrow> string \<Rightarrow> string" where
  "trim_left ws s = (case find (\<lambda>w. w \<noteq> [] \<and> starts_with w s) ws of None \<Rightarrow> s | Some w \<Rightarrow> trim_left ws (drop (length w) s))"
  by pat_completeness auto
termination
  by (relation "measure (length \<circ> snd)") (auto simp: find_Some_iff starts_with_def intro!: diff_less)

declare trim_left.simps [simp del]

definition trim :: "string \<Rightarrow> string" where
  "trim s = rev (trim_left (map rev WHITE_SPACE) (rev (trim_left WHITE_SPACE s)))"

section \<open>Claims\<close>

definition MIN_TTL_MS :: int where "MIN_TTL_MS = 500"
definition MAX_TTL_MS :: int where "MAX_TTL_MS = 24 * 60 * 60 * 1000"
definition DEFAULT_TTL_MS :: int where "DEFAULT_TTL_MS = 5 * 60 * 1000"
definition MAX_LOOP_LIMIT :: int where "MAX_LOOP_LIMIT = 100"

definition text_claim :: "json option \<Rightarrow> bool" where
  "text_claim v = (case v of Some (JStr s) \<Rightarrow> trim s \<noteq> [] | _ \<Rightarrow> False)"

definition int_claim :: "int \<Rightarrow> int option \<Rightarrow> json option \<Rightarrow> bool" where
  "int_claim lo hi v = (case v of Some (JNum n) \<Rightarrow> lo \<le> n \<and> (case hi of None \<Rightarrow> True | Some h \<Rightarrow> n \<le> h) | _ \<Rightarrow> False)"

definition recipients_claim :: "json option \<Rightarrow> bool" where
  "recipients_claim v = (case v of Some (JArr rs) \<Rightarrow> list_all (\<lambda>r. text_claim (Some r)) rs | _ \<Rightarrow> False)"

definition validateClaimsShape :: "json \<Rightarrow> unit result" where
  "validateClaimsShape claims =
    (let f = obj_get claims; ok = (case claims of JObj _ \<Rightarrow> True | _ \<Rightarrow> False) \<and>
       text_claim (f ''senderId'') \<and> text_claim (f ''turnId'') \<and>
       (case (f ''issuedAt'', f ''expiresAt'') of
          (Some (JNum i), Some (JNum e)) \<Rightarrow> 0 < i \<and> i < e \<and> MIN_TTL_MS \<le> e - i \<and> e - i \<le> MAX_TTL_MS
        | _ \<Rightarrow> False) \<and>
       (nullish (f ''allowedRecipients'') \<or> recipients_claim (f ''allowedRecipients'')) \<and>
       (nullish (f ''maxLoopDepth'') \<or> int_claim 1 (Some MAX_LOOP_LIMIT) (f ''maxLoopDepth'')) \<and>
       (nullish (f ''conversationId'') \<or> text_claim (f ''conversationId'')) \<and>
       (nullish (f ''parentMessageId'') \<or> text_claim (f ''parentMessageId'')) \<and>
       (nullish (f ''loopDepth'') \<or> int_claim 1 (Some MAX_LOOP_LIMIT) (f ''loopDepth'')) \<and>
       (nullish (f ''sessionId'') \<or> text_claim (f ''sessionId'')) \<and>
       (nullish (f ''generation'') \<or> int_claim 1 None (f ''generation'')) \<and>
       (nullish (f ''bindingId'') \<or> text_claim (f ''bindingId'')) \<and>
       (nullish (f ''senderType'') \<or> text_claim (f ''senderType''))
     in if ok then Inr () else Inl (Coded ''malformed_claims''))"

text \<open>The claims as the callers of the validator read them.\<close>

record turn_claims =
  tc_senderId :: string
  tc_turnId :: string
  tc_issuedAt :: int
  tc_expiresAt :: int
  tc_allowedRecipients :: "string list option"
  tc_maxLoopDepth :: "int option"
  tc_conversationId :: "string option"
  tc_parentMessageId :: "string option"
  tc_loopDepth :: "int option"
  tc_sessionId :: "string option"
  tc_generation :: "int option"
  tc_bindingId :: "string option"
  tc_senderType :: "string option"

definition claims_json :: "turn_claims \<Rightarrow> json" where
  "claims_json c = JObj [
     (''senderId'', JStr (tc_senderId c)), (''turnId'', JStr (tc_turnId c)),
     (''issuedAt'', JNum (tc_issuedAt c)), (''expiresAt'', JNum (tc_expiresAt c)),
     (''allowedRecipients'', case tc_allowedRecipients c of None \<Rightarrow> JNull | Some rs \<Rightarrow> JArr (map JStr rs)),
     (''maxLoopDepth'', opt_num_json (tc_maxLoopDepth c)), (''conversationId'', opt_json (tc_conversationId c)),
     (''parentMessageId'', opt_json (tc_parentMessageId c)), (''loopDepth'', opt_num_json (tc_loopDepth c)),
     (''sessionId'', opt_json (tc_sessionId c)), (''generation'', opt_num_json (tc_generation c)),
     (''bindingId'', opt_json (tc_bindingId c)), (''senderType'', opt_json (tc_senderType c))]"

definition text_of :: "json option \<Rightarrow> string option" where
  "text_of v = (case v of Some (JStr s) \<Rightarrow> Some s | _ \<Rightarrow> None)"

definition int_of_json :: "json option \<Rightarrow> int option" where
  "int_of_json v = (case v of Some (JNum n) \<Rightarrow> Some n | _ \<Rightarrow> None)"

definition read_claims :: "json \<Rightarrow> turn_claims" where
  "read_claims j = (let f = obj_get j in \<lparr>
     tc_senderId = opt_or (text_of (f ''senderId'')) [], tc_turnId = opt_or (text_of (f ''turnId'')) [],
     tc_issuedAt = opt_or (int_of_json (f ''issuedAt'')) 0, tc_expiresAt = opt_or (int_of_json (f ''expiresAt'')) 0,
     tc_allowedRecipients = (case f ''allowedRecipients'' of Some (JArr rs) \<Rightarrow> Some (map (\<lambda>r. opt_or (text_of (Some r)) []) rs) | _ \<Rightarrow> None),
     tc_maxLoopDepth = int_of_json (f ''maxLoopDepth''), tc_conversationId = text_of (f ''conversationId''),
     tc_parentMessageId = text_of (f ''parentMessageId''), tc_loopDepth = int_of_json (f ''loopDepth''),
     tc_sessionId = text_of (f ''sessionId''), tc_generation = int_of_json (f ''generation''),
     tc_bindingId = text_of (f ''bindingId''), tc_senderType = text_of (f ''senderType'')\<rparr>)"

section \<open>Issuing and validating\<close>

record cred_env =
  ce_hmac :: "string \<Rightarrow> string \<Rightarrow> string"
  ce_parse :: "string \<Rightarrow> json option"

definition computeSignature :: "cred_env \<Rightarrow> string \<Rightarrow> string \<Rightarrow> string" where
  "computeSignature E payload secret = base64UrlEncode (ce_hmac E secret payload)"

record issue_options =
  io_senderId :: "string option"
  io_turnId :: string
  io_ttlMs :: "int option"
  io_allowedRecipients :: "string list option"
  io_maxLoopDepth :: "int option"
  io_conversationId :: "string option"
  io_parentMessageId :: "string option"
  io_loopDepth :: "int option"
  io_sessionId :: "string option"
  io_generation :: "int option"
  io_bindingId :: "string option"
  io_senderType :: "string option"

definition trimmed :: "string option \<Rightarrow> string option" where
  "trimmed x = (if truthy x then map_option trim x else None)"

definition boundedTtl :: "int \<Rightarrow> int option \<Rightarrow> int" where
  "boundedTtl defaultTtlMs ttlMs = (let t = opt_or ttlMs defaultTtlMs in
     min (max (if t = 0 then defaultTtlMs else t) MIN_TTL_MS) MAX_TTL_MS)"

definition issued_claims :: "int \<Rightarrow> int \<Rightarrow> string \<Rightarrow> issue_options \<Rightarrow> turn_claims" where
  "issued_claims defaultTtlMs now senderId o1 = \<lparr>
     tc_senderId = trim senderId, tc_turnId = io_turnId o1, tc_issuedAt = now, tc_expiresAt = now + boundedTtl defaultTtlMs (io_ttlMs o1),
     tc_allowedRecipients = map_option (\<lambda>rs. filter (\<lambda>r. r \<noteq> []) (map trim rs)) (io_allowedRecipients o1),
     tc_maxLoopDepth = (case io_maxLoopDepth o1 of None \<Rightarrow> None | Some m \<Rightarrow> if m = 0 then None else Some (min m MAX_LOOP_LIMIT)),
     tc_conversationId = trimmed (io_conversationId o1), tc_parentMessageId = trimmed (io_parentMessageId o1),
     tc_loopDepth = Some (case io_loopDepth o1 of Some d \<Rightarrow> if 1 \<le> d then d else 1 | None \<Rightarrow> 1),
     tc_sessionId = trimmed (io_sessionId o1),
     tc_generation = (case io_generation o1 of Some g \<Rightarrow> if 1 \<le> g then Some g else None | None \<Rightarrow> None),
     tc_bindingId = trimmed (io_bindingId o1), tc_senderType = trimmed (io_senderType o1)\<rparr>"

definition credential_of :: "cred_env \<Rightarrow> string \<Rightarrow> turn_claims \<Rightarrow> string" where
  "credential_of E secret c = (let payload = base64UrlEncode (stringify (claims_json c)) in
     payload @ ''.'' @ computeSignature E payload secret)"

definition issue :: "cred_env \<Rightarrow> string \<Rightarrow> int \<Rightarrow> int \<Rightarrow> issue_options \<Rightarrow> string result" where
  "issue E secret defaultTtlMs now o1 =
    (case io_senderId o1 of
       None \<Rightarrow> Inl (Coded ''invalid_sender_id'')
     | Some senderId \<Rightarrow>
         if trim senderId = [] then Inl (Coded ''invalid_sender_id'')
         else let claims = issued_claims defaultTtlMs now senderId o1 in
           (case validateClaimsShape (claims_json claims) of Inl e \<Rightarrow> Inl e
            | Inr _ \<Rightarrow> Inr (credential_of E secret claims)))"

definition valid_secret :: "string \<Rightarrow> bool" where
  "valid_secret secret = (16 \<le> length secret)"

definition validate :: "cred_env \<Rightarrow> string \<Rightarrow> int \<Rightarrow> json option \<Rightarrow> string option \<Rightarrow> turn_claims result" where
  "validate E secret now credential expectedSenderId =
    (case credential of
       Some (JStr text) \<Rightarrow>
         if text = [] then Inl (Coded ''unauthorized'')
         else (case split_on (CHR ''.'') text of
            [payload, signature] \<Rightarrow>
              if signature \<noteq> computeSignature E payload secret then Inl (Coded ''unauthorized'')
              else (case ce_parse E (base64UrlDecode payload) of
                 None \<Rightarrow> Inl (Coded ''unauthorized'')
               | Some claims \<Rightarrow>
                   (case validateClaimsShape claims of Inl e \<Rightarrow> Inl e
                    | Inr _ \<Rightarrow>
                        let c = read_claims claims in
                        if tc_expiresAt c < now then Inl (Coded ''credential_expired'')
                        else if truthy expectedSenderId \<and> expectedSenderId \<noteq> Some (tc_senderId c) then Inl (Coded ''unauthorized'')
                        else Inr c))
          | _ \<Rightarrow> Inl (Coded ''unauthorized''))
     | _ \<Rightarrow> Inl (Coded ''unauthorized''))"

section \<open>Exactly the issued credentials are accepted\<close>

lemma read_claims_json [simp]: "read_claims (claims_json c) = c"
  by (cases c) (simp add: read_claims_def claims_json_def obj_get_def text_of_def int_of_json_def opt_json_def opt_num_json_def
    comp_def split: option.splits)

lemma validate_split:
  "validate E secret now (Some (JStr cred)) sender = Inr c \<longleftrightarrow>
    (\<exists>payload claims. cred = payload @ ''.'' @ computeSignature E payload secret \<and> CHR ''.'' \<notin> set payload \<and>
      ce_parse E (base64UrlDecode payload) = Some claims \<and> validateClaimsShape claims = Inr () \<and> c = read_claims claims \<and>
      now \<le> tc_expiresAt c \<and> (truthy sender \<longrightarrow> sender = Some (tc_senderId c)))"
  (is "?V \<longleftrightarrow> ?S")
proof
  assume ?V
  then obtain p s where ps: "split_on (CHR ''.'') cred = [p, s]"
    by (auto simp: validate_def split: if_splits list.splits)
  moreover have "CHR ''.'' \<notin> set p" using ps by (rule split_on_first)
  ultimately show ?S using \<open>?V\<close> split_on_twoD [OF ps]
    by (auto simp: validate_def Let_def split: if_splits option.splits sum.splits)
next
  assume ?S
  then obtain p claims where "cred = p @ ''.'' @ computeSignature E p secret" "CHR ''.'' \<notin> set p"
    and r: "ce_parse E (base64UrlDecode p) = Some claims" "validateClaimsShape claims = Inr ()" "c = read_claims claims"
      "now \<le> tc_expiresAt c" "truthy sender \<longrightarrow> sender = Some (tc_senderId c)" by blast
  moreover from this have "split_on (CHR ''.'') cred = [p, computeSignature E p secret]"
    by (simp add: split_on_two computeSignature_def base64_no_dot)
  ultimately show ?V by (auto simp: validate_def Let_def)
qed

text \<open>The claims signed by a history of calls of \<open>issue\<close>, each with its default time to live and its time.\<close>

definition signed_claims :: "cred_env \<Rightarrow> string \<Rightarrow> (int \<times> int \<times> issue_options) list \<Rightarrow> turn_claims list" where
  "signed_claims E secret calls = List.map_filter (\<lambda>(ttl, t, o1). case issue E secret ttl t o1 of
     Inl _ \<Rightarrow> None | Inr _ \<Rightarrow> Some (issued_claims ttl t (opt_or (io_senderId o1) []) o1)) calls"

definition payload_of :: "turn_claims \<Rightarrow> string" where
  "payload_of c = base64UrlEncode (stringify (claims_json c))"

lemma signed_claims_shape: "c \<in> set (signed_claims E secret calls) \<Longrightarrow> validateClaimsShape (claims_json c) = Inr ()"
  by (auto simp: signed_claims_def List.map_filter_def issue_def Let_def split: option.splits sum.splits if_splits)

lemma shape_ttl: "validateClaimsShape (claims_json c) = Inr () \<Longrightarrow>
    MIN_TTL_MS \<le> tc_expiresAt c - tc_issuedAt c \<and> tc_expiresAt c - tc_issuedAt c \<le> MAX_TTL_MS"
  by (auto simp: validateClaimsShape_def Let_def claims_json_def obj_get_def split: if_splits)

text \<open>
  C6: the validator accepts exactly what the issuer signed.  Let \<open>JSON.parse\<close> read
  back the claims that were printed, and let the presented text be no forgery: a
  signature in it that verifies is that of a payload the issuer signed.  Then the
  validator returns claims \<open>c\<close> for a sender if and only if \<open>c\<close> was issued, the text
  is its credential, it is not expired and names that sender; in particular
  every issued credential is accepted for its sender until it expires, at least
  half a second and at most a day after its issue.
\<close>

theorem accepts_exactly_issued:
  assumes parses: "\<forall>c \<in> set (signed_claims E secret calls). ce_parse E (stringify (claims_json c)) = Some (claims_json c)"
    and no_forgery: "\<forall>p. CHR ''.'' \<notin> set p \<and> cred = p @ ''.'' @ computeSignature E p secret \<longrightarrow> p \<in> payload_of ` set (signed_claims E secret calls)"
    and sender: "sender \<noteq> []"
  shows "(validate E secret now (Some (JStr cred)) (Some sender) = Inr c \<longleftrightarrow>
      c \<in> set (signed_claims E secret calls) \<and> cred = credential_of E secret c \<and> now \<le> tc_expiresAt c \<and> sender = tc_senderId c) \<and>
    (c \<in> set (signed_claims E secret calls) \<longrightarrow> MIN_TTL_MS \<le> tc_expiresAt c - tc_issuedAt c \<and> tc_expiresAt c - tc_issuedAt c \<le> MAX_TTL_MS)"
(is "(?V \<longleftrightarrow> _ \<in> ?signed \<and> _) \<and> _")
proof (intro conjI impI iffI)
  assume "validate E secret now (Some (JStr cred)) (Some sender) = Inr c"
  then obtain p claims where cred: "cred = p @ ''.'' @ computeSignature E p secret" "CHR ''.'' \<notin> set p"
    and r: "ce_parse E (base64UrlDecode p) = Some claims" "c = read_claims claims" "now \<le> tc_expiresAt c" "sender = tc_senderId c"
    using sender unfolding validate_split by auto
  from no_forgery cred obtain k where k: "k \<in> ?signed" "p = payload_of k" by auto
  with r(1,2) parses have "c = k" by (auto simp: payload_of_def)
  with k r(3,4) cred show "c \<in> ?signed" "cred = credential_of E secret c" "now \<le> tc_expiresAt c" "sender = tc_senderId c"
    by (simp_all add: credential_of_def payload_of_def Let_def)
next
  assume c: "c \<in> ?signed \<and> cred = credential_of E secret c \<and> now \<le> tc_expiresAt c \<and> sender = tc_senderId c"
  then have "ce_parse E (base64UrlDecode (payload_of c)) = Some (claims_json c)" "validateClaimsShape (claims_json c) = Inr ()"
    using parses signed_claims_shape by (auto simp: payload_of_def)
  with c show "validate E secret now (Some (JStr cred)) (Some sender) = Inr c"
    unfolding validate_split
    by (intro exI [of _ "payload_of c"] exI [of _ "claims_json c"]) (simp add: credential_of_def payload_of_def base64_no_dot Let_def)
next
  assume "c \<in> ?signed"
  then show "MIN_TTL_MS \<le> tc_expiresAt c - tc_issuedAt c" "tc_expiresAt c - tc_issuedAt c \<le> MAX_TTL_MS"
    using shape_ttl [OF signed_claims_shape] by auto
qed

text \<open>One credential, with a printable stand-in for the keyed hash.\<close>

definition sample_issue :: issue_options where
  "sample_issue = \<lparr>io_senderId = Some '' agent-1 '', io_turnId = ''turn-1'', io_ttlMs = None, io_allowedRecipients = Some [''bob''],
     io_maxLoopDepth = None, io_conversationId = None, io_parentMessageId = None, io_loopDepth = None, io_sessionId = None,
     io_generation = None, io_bindingId = None, io_senderType = None\<rparr>"

definition sample_claims :: turn_claims where
  "sample_claims = issued_claims DEFAULT_TTL_MS 1000 '' agent-1 '' sample_issue"

definition sample_cred_env :: cred_env where
  "sample_cred_env = \<lparr>ce_hmac = (\<lambda>k p. take 8 p @ k), ce_parse = (\<lambda>t. if t = stringify (claims_json sample_claims) then Some (claims_json sample_claims) else None)\<rparr>"

theorem accepts_exactly_issued_witness:
  "validate sample_cred_env ''0123456789abcdef'' 2000 (Some (JStr (credential_of sample_cred_env ''0123456789abcdef'' sample_claims)))
     (Some ''agent-1'') = Inr sample_claims"
proof -
  let ?E = sample_cred_env and ?k = "''0123456789abcdef''"
  let ?cred = "credential_of ?E ?k sample_claims"
  have "validateClaimsShape (claims_json sample_claims) = Inr ()" "trim '' agent-1 '' \<noteq> []" by code_simp+
  then have signed: "signed_claims ?E ?k [(DEFAULT_TTL_MS, 1000, sample_issue)] = [sample_claims]"
    by (simp add: signed_claims_def List.map_filter_def issue_def sample_claims_def sample_issue_def)
  have "split_on (CHR ''.'') ?cred = [payload_of sample_claims, computeSignature ?E (payload_of sample_claims) ?k]"
    by (simp add: credential_of_def payload_of_def Let_def split_on_two computeSignature_def base64_no_dot)
  then have "p = payload_of sample_claims" if "?cred = p @ ''.'' @ computeSignature ?E p ?k" "CHR ''.'' \<notin> set p" for p
    using that by (simp add: split_on_two computeSignature_def base64_no_dot)
  moreover have "2000 \<le> tc_expiresAt sample_claims" "tc_senderId sample_claims = ''agent-1''" by code_simp+
  ultimately show ?thesis
    using accepts_exactly_issued [of ?E ?k "[(DEFAULT_TTL_MS, 1000, sample_issue)]" ?cred "''agent-1''" 2000 sample_claims]
    by (simp add: signed) (simp add: sample_cred_env_def)
qed

end
