(* ===== verification/Server_Types.thy ===== *)
theory Server_Types
  imports Credentials Rate_Limiter Journal_Custody Protocol
begin

text \<open>
  The vocabulary of \<open>packages/agent-worker/src/local-messaging-server.mjs\<close>: access
  lists (\<open>local-messaging-acl.mjs\<close>), the fields of requests, responses and their
  error codes, and the description of a message's delivery.
\<close>

section \<open>Access lists\<close>

text \<open>\<open>new Set(array)\<close> in insertion order.\<close>

definition js_set :: "'a list \<Rightarrow> 'a list" where
  "js_set xs = rev (remdups (rev xs))"

text \<open>The rules are a \<open>Map\<close> or an object: unique keys, and \<^const>\<open>None\<close> for a value that is no array.\<close>

definition createOwnerAcl :: "(string \<times> string list option) list \<Rightarrow> (string \<times> string list) list" where
  "createOwnerAcl rules = map (\<lambda>(sender, recipients). (sender, js_set (opt_or recipients []))) rules"

definition listAuthorizedRecipients :: "(string \<times> string list) list \<Rightarrow> string \<Rightarrow> string list" where
  "listAuthorizedRecipients aclMap senderId = (if senderId = [] then [] else opt_or (map_of aclMap senderId) [])"

definition isAllowed :: "(string \<times> string list) list \<Rightarrow> string \<Rightarrow> string \<Rightarrow> bool" where
  "isAllowed aclMap senderId recipientId =
    (if senderId = [] \<or> recipientId = [] then False
     else case map_of aclMap senderId of None \<Rightarrow> False | Some allowed \<Rightarrow> recipientId \<in> set allowed)"

definition checkAllowed :: "(string \<times> string list) list \<Rightarrow> string \<Rightarrow> string \<Rightarrow> unit result" where
  "checkAllowed aclMap senderId recipientId =
    (if isAllowed aclMap senderId recipientId then Inr () else Inl (Coded ''recipient_not_allowed''))"

text \<open>
  What the server uses of an access list, as it answers at one time: the host
  puts its own checks around the owner's rules.
\<close>

record access =
  ac_allowed :: "string \<Rightarrow> string \<Rightarrow> bool"
  ac_listed :: "string \<Rightarrow> string list"

definition owner_access :: "(string \<times> string list option) list \<Rightarrow> access" where
  "owner_access rules = (let aclMap = createOwnerAcl rules in
     \<lparr>ac_allowed = isAllowed aclMap, ac_listed = listAuthorizedRecipients aclMap\<rparr>)"

lemma owner_access_listed: "r \<noteq> [] \<Longrightarrow> r \<in> set (ac_listed (owner_access rules) s) \<longleftrightarrow> ac_allowed (owner_access rules) s r"
  by (auto simp: owner_access_def Let_def listAuthorizedRecipients_def isAllowed_def split: option.splits)

section \<open>Requests\<close>

text \<open>\<open>text.length\<close>: UTF-16 code units of a text given by its UTF-8 bytes.\<close>

definition js_length :: "string \<Rightarrow> nat" where
  "js_length s = length (filter (\<lambda>c. \<not> (128 \<le> (of_char c :: nat) \<and> of_char c < (192 :: nat))) s)
     + length (filter (\<lambda>c. 240 \<le> (of_char c :: nat)) s)"

definition MAX_REQUEST_ID_LENGTH :: nat where "MAX_REQUEST_ID_LENGTH = 128"
definition MAX_INFLIGHT_PER_SOCKET :: nat where "MAX_INFLIGHT_PER_SOCKET = 50"
definition MAX_FIELD_STRING_LENGTH :: int where "MAX_FIELD_STRING_LENGTH = 128 * 1024"
definition PROTOCOL_VERSION :: int where "PROTOCOL_VERSION = 1"

definition rpc_identifier :: "json option \<Rightarrow> string result" where
  "rpc_identifier v = (case v of Some (JStr s) \<Rightarrow> if IDENTIFIER_PATTERN s then Inr s else Inl (Coded ''invalid_request'')
     | _ \<Rightarrow> Inl (Coded ''invalid_request''))"

definition optional_identifier :: "json option \<Rightarrow> string option result" where
  "optional_identifier v = (if nullish v then Inr None else (case rpc_identifier v of Inl e \<Rightarrow> Inl e | Inr s \<Rightarrow> Inr (Some s)))"

text \<open>\<open>{ ...value }\<close>; a text has its characters as entries.\<close>

definition spread :: "json option \<Rightarrow> (string \<times> json) list" where
  "spread v = (case v of None \<Rightarrow> [] | Some (JStr s) \<Rightarrow> map (\<lambda>(i, c). (digits i, JStr [c])) (enumerate 0 s) | Some j \<Rightarrow> object_entries j)"

definition withoutPayloadProvenance :: "json option \<Rightarrow> json" where
  "withoutPayloadProvenance metadata = JObj (filter (\<lambda>(k, v). k \<notin> {''sender_provenance'', ''senderProvenance''}) (spread metadata))"

text \<open>\<open>Math.min(Math.max(Number(limit) || 50, 1), 100)\<close>; of texts only decimal numerals are converted.\<close>

definition js_number :: "json \<Rightarrow> int option" where
  "js_number v = (case v of JNum n \<Rightarrow> Some n | JBool b \<Rightarrow> Some (if b then 1 else 0) | JNull \<Rightarrow> Some 0
     | JStr s \<Rightarrow> let t = trim s in if t = [] then Some 0 else if list_all is_digit t then Some (int (dec_val t)) else None
     | _ \<Rightarrow> None)"

definition cappedLimit :: "json option \<Rightarrow> int" where
  "cappedLimit limit = (let n = opt_or (js_number (opt_or limit (JNum 50))) 0 in min (max (if n = 0 then 50 else n) 1) 100)"

section \<open>Responses\<close>

text \<open>A text by its UTF-16 code units, from its UTF-8 bytes.\<close>

fun units_of :: "string \<Rightarrow> units" where
  "units_of [] = []"
| "units_of (a # s) = (let n = of_char a :: nat; low = (\<lambda>c. of_char c mod 64 :: nat) in
     if n < 128 then word_of_nat n # units_of s
     else if n < 224 then (case s of b # t \<Rightarrow> word_of_nat (n mod 32 * 64 + low b) # units_of t | _ \<Rightarrow> [])
     else if n < 240 then (case s of b # c # t \<Rightarrow> word_of_nat (n mod 16 * 4096 + low b * 64 + low c) # units_of t | _ \<Rightarrow> [])
     else (case s of b # c # d # t \<Rightarrow>
         (let p = n mod 8 * 262144 + low b * 4096 + low c * 64 + low d - 65536 in
          word_of_nat (55296 + p div 1024) # word_of_nat (56320 + p mod 1024) # units_of t)
       | _ \<Rightarrow> []))"

definition listed_of :: "json \<Rightarrow> listed_reply" where
  "listed_of j = \<lparr>lr_text = map_option units_of (text_of (obj_get j ''text'')), lr_others = filter (\<lambda>(k, v). k \<noteq> ''text'') (object_entries j)\<rparr>"

text \<open>
  The code of \<open>sanitizeError\<close>: errors of the platform have codes in capitals or
  none.  Messages are not modelled.
\<close>

definition sanitized_code :: "js_error \<Rightarrow> string" where
  "sanitized_code e = (case e of
      Coded c \<Rightarrow> if matches_class ''abcdefghijklmnopqrstuvwxyz0123456789_'' 1 64 c then c else ''internal_error''
    | _ \<Rightarrow> ''internal_error'')"

text \<open>
  The result of a successful request, before it is printed: an object of the
  router's decorations, or the journal's answer.  A listing has the rows it is of
  and what is shown of them; the text form of an inbox cursor is not modelled.
\<close>

datatype body =
    Object json
  | Status_of "message_view + reply_view" json
  | Reply_list "reply_view list" "listed_reply list"
  | Consumed string
  | Acked bool
  | Wake_reserved reserve_result
  | Wake_reported report_result
  | Inbox_page "message_view list" "inbox_cursor option" json
  | Claimed claim_result
  | Reply_accepted reply_view bool
  | Session_status string "string option" "int option" inbox_counts

datatype response = Success json body | Failure json json string

definition createErrorResponse :: "json \<Rightarrow> js_error \<Rightarrow> json option \<Rightarrow> response" where
  "createErrorResponse i e version = Failure (opt_or (js_or version None) (JNum PROTOCOL_VERSION)) i (sanitized_code e)"

section \<open>Describing the delivery of a message\<close>

definition delivery_view :: "string \<Rightarrow> string \<Rightarrow> string \<Rightarrow> (string \<times> json) list" where
  "delivery_view state summary nextAction = [(''state'', JStr state), (''summary'', JStr summary), (''nextAction'', JStr nextAction)]"

definition unknown_delivery :: "(string \<times> json) list" where
  "unknown_delivery = delivery_view ''unknown'' ''The recorded state is not recognized by this reader.''
     ''Inspect the request with a compatible runtime before retrying.''"

definition describeMessageDelivery :: "int \<Rightarrow> string \<Rightarrow> bool option \<Rightarrow> bool \<Rightarrow> message_view + reply_view \<Rightarrow> json" where
  "describeMessageDelivery now notification recipientAvailable pullOnly r = JObj (case r of Inr _ \<Rightarrow> unknown_delivery
    | Inl v \<Rightarrow> (case v_phase v of
        Completed \<Rightarrow> delivery_view ''completed'' ''Completed in the local journal.''
          ''Retrieve the correlated reply if one was produced; verify its contents independently.''
      | Held \<Rightarrow> delivery_view ''held''
          (if v_hasLateResult v then ''Work is held; a late result is retained for owner review.'' else ''Work is held; completion is uncertain.'')
          ''Ask the owner to reconcile this request before starting another execution.''
      | Failed \<Rightarrow>
          if v_reason v = Some ''owner_marked_failed''
          then delivery_view ''closed_by_owner'' ''Closed by the owner without a result.''
            ''If the work is still needed, the sender should send a new request with new IDs; re-sending identical IDs does not restart it.''
          else unknown_delivery
      | Executing \<Rightarrow>
          if v_recipientType v = ''interactive'' \<and> (case v_leaseExpiresAt v of None \<Rightarrow> False | Some l \<Rightarrow> l \<le> now)
          then delivery_view ''lease_expired'' ''The claim lease has expired; completion is unverified.''
            ''Ask the owner to reconcile the request; do not start duplicate work.''
          else delivery_view ''executing'' ''Execution was claimed or started; active model progress is not observed here.''
            ''Wait for the correlated result or inspect the recipient runtime; do not start duplicate work.''
      | Queued_local \<Rightarrow>
          if recipientAvailable = Some False
          then delivery_view ''waiting_for_recipient'' ''Stored locally; the recipient has no currently usable delivery route.''
            ''Open or reload the recipient chat and check its Triangle attachment and messaging settings.''
          else if pullOnly
          then delivery_view ''waiting_for_poll'' ''Stored locally for a pull-only recipient; automatic wake is unavailable.''
            ''Ask the recipient to check its Triangle inbox in a user-initiated turn.''
          else if notification = ''accepted'' \<or> notification = ''acknowledged''
          then delivery_view ''notified_unclaimed'' ''A notification covering this request was accepted; the request has not been claimed.''
            ''Check the recipient chat for owner authorization, tool approval, or a busy turn.'' @ [(''approval'', JStr ''unknown'')]
          else delivery_view ''queued'' ''Stored locally; notification and execution are not confirmed.''
            ''Check recipient availability and notification delivery; keep the same IDs if retrying an uncertain send.''))"

end
