(* ===== verification/Server_Requests.thy ===== *)
theory Server_Requests
  imports Server_Types
begin

text \<open>
  The request handlers of \<open>local-messaging-server.mjs\<close> (\<open>handleRpc\<close>): authentication,
  sending, status, replies, wakes, inbox and interactive replies.  A handler is
  cut at its awaits; each piece is an operation on the server's state, and a
  \<open>handling\<close> records what the local variables of the handler hold at the await.
  A piece may be shorter than the code between two awaits, so that every
  interleaving of the code is one of the model.
\<close>

section \<open>Configuration, state and the outside\<close>

record 'p server_cfg =
  sc_env :: node_env
  sc_journal :: journal_cfg
  sc_cred :: cred_env
  sc_secret :: string
  sc_interactiveBroker :: "(string \<Rightarrow> bool) option"
  sc_inboxBroker :: "(string \<Rightarrow> bool) option"
  sc_sessionBroker :: bool
  sc_interactiveRecipients :: "(string \<Rightarrow> bool) option"
  sc_rateLimiter :: "(nat \<times> int) option"
  sc_loopTracker :: "(int \<times> nat) option"
  sc_replyIdentity :: bool
  sc_notifier :: bool
  sc_router :: router_config
  sc_snapshots :: "'p \<Rightarrow> snapshot_call \<times> 'p"
  sc_directory :: "string \<Rightarrow> json option"
  sc_hmac :: "string \<Rightarrow> string"
  sc_cursor :: "json \<Rightarrow> inbox_cursor"

record admission_job =
  aj_sender :: string
  aj_recipient :: string
  aj_messageId :: string
  aj_requestId :: string
  aj_inReplyTo :: "string option"
  aj_text :: string
  aj_metadata :: "json option"
  aj_loopDepth :: int
  aj_isDuplicate :: bool

record 'p server =
  sv_journal :: journal
  sv_limiter :: limiter
  sv_tracker :: tracker
  sv_router :: "'p router"
  sv_access :: access
  sv_executions :: "admission_job list"

text \<open>What the clock, the random source and the injected brokers answer in one step.\<close>

record answers =
  an_now :: int
  an_now2 :: int
  an_uuid :: string
  an_interactive :: "unit result"
  an_inbox :: "unit result"
  an_context :: "(reply_route \<times> json option) option result"
  an_identity :: "reply_identity result"
  an_available :: "bool option"
  an_broker :: "json result"
  an_attached :: "json list option"
  an_discovered :: "json list option"
  an_filter :: "json list \<Rightarrow> json list"
  an_routerError :: "string option"

record rpc =
  rq_id :: json
  rq_version :: "json option"
  rq_method :: "string option"
  rq_params :: "json option"
  rq_credential :: "json option"
  rq_senderId :: "json option"

record send_params =
  sp_to :: string
  sp_text :: string
  sp_messageId :: string
  sp_requestId :: "string option"
  sp_inReplyTo :: "string option"
  sp_metadata :: "json option"

record send_context =
  sx_params :: send_params
  sx_route :: send_route
  sx_reservation :: "nat option"
  sx_existing :: "(message_view + reply_view) option"
  sx_depth :: int
  sx_replyRoute :: "reply_route option"

datatype handling =
    Begin
  | Send_routed send_params send_route
  | Send_reserved send_params send_route "nat option"
  | Send_found send_params send_route "nat option" "(message_view + reply_view) option"
  | Send_measured send_context
  | Send_prepared send_context
  | Send_recorded send_context message_view bool
  | Status_found "message_view + reply_view"
  | Claiming string string
  | Replying interactive_reply bool

text \<open>A piece of a handler ends at the next await, or with the result or the exception of the request.\<close>

datatype outcome = Await handling | Done "body result"

abbreviation "throws code \<equiv> Done (Inl (Coded code))"

definition params_of :: "rpc \<Rightarrow> json" where
  "params_of q = opt_or (rq_params q) (JObj [])"

abbreviation "param q k \<equiv> obj_get (params_of q) k"

section \<open>Sending\<close>

definition in_scope :: "turn_claims \<Rightarrow> string \<Rightarrow> bool" where
  "in_scope c r = (case tc_allowedRecipients c of None \<Rightarrow> True | Some rs \<Rightarrow> r \<in> set rs)"

definition send_params_of :: "rpc \<Rightarrow> send_params result" where
  "send_params_of q =
    (if \<not> js_truthy (param q ''to'') \<or> \<not> js_truthy (param q ''text'') \<or> \<not> js_truthy (param q ''messageId'')
     then Inl (Coded ''invalid_request'')
     else case rpc_identifier (param q ''to'') of Inl e \<Rightarrow> Inl e
     | Inr to \<Rightarrow> (case rpc_identifier (param q ''messageId'') of Inl e \<Rightarrow> Inl e
     | Inr messageId \<Rightarrow> (case optional_identifier (param q ''requestId'') of Inl e \<Rightarrow> Inl e
     | Inr requestId \<Rightarrow> (case optional_identifier (param q ''inReplyTo'') of Inl e \<Rightarrow> Inl e
     | Inr inReplyTo \<Rightarrow> (case param q ''text'' of
          Some (JStr text) \<Rightarrow>
            if MAX_FIELD_STRING_LENGTH < int (js_length text) then Inl (Coded ''payload_too_large'')
            else Inr \<lparr>sp_to = to, sp_text = text, sp_messageId = messageId, sp_requestId = requestId, sp_inReplyTo = inReplyTo,
              sp_metadata = param q ''metadata''\<rparr>
        | _ \<Rightarrow> Inl (Coded ''payload_too_large''))))))"

definition may_message :: "turn_claims \<Rightarrow> access \<Rightarrow> string option \<Rightarrow> string \<Rightarrow> can_outcome" where
  "may_message c a sender candidate =
    (if \<not> in_scope c candidate then Says_false
     else if ac_allowed a (opt_or sender []) candidate then Says_other else Says_false)"

definition send_begin :: "'p server_cfg \<Rightarrow> rpc \<Rightarrow> turn_claims \<Rightarrow> 'p server \<Rightarrow> outcome \<times> 'p server" where
  "send_begin cfg q c sv = (case send_params_of q of Inl e \<Rightarrow> (Done (Inl e), sv)
    | Inr p \<Rightarrow>
       (let co = \<lparr>co_throwOnError = True, co_snapshot = None, co_recipients = None, co_canMessage = Some (may_message c (sv_access sv))\<rparr>;
            (r, router) = resolveSend (sc_snapshots cfg) (sc_router cfg) co (Some (tc_senderId c)) (Some (sp_to p)) (sv_router sv);
            sv1 = sv\<lparr>sv_router := router\<rparr>
        in case r of
            Routed route \<Rightarrow> (Await (Send_routed p route), sv1)
          | Route_throws code _ _ \<Rightarrow> (throws code, sv1)
          | _ \<Rightarrow> (Done (Inl TypeErr), sv1)))"

definition send_check :: "'p server_cfg \<Rightarrow> answers \<Rightarrow> turn_claims \<Rightarrow> send_params \<Rightarrow> send_route \<Rightarrow> 'p server \<Rightarrow> outcome \<times> 'p server" where
  "send_check cfg an c p route sv =
    (if \<not> ac_allowed (sv_access sv) (tc_senderId c) (sr_resolvedTo route) then (throws ''recipient_not_allowed'', sv)
     else if \<not> in_scope c (sr_resolvedTo route) then (throws ''recipient_not_allowed'', sv)
     else case sc_rateLimiter cfg of None \<Rightarrow> (Await (Send_reserved p route None), sv)
     | Some (maxRequests, windowMs) \<Rightarrow>
        (case rl_reserve maxRequests windowMs (an_now an) (an_now2 an) (tc_senderId c) (sv_limiter sv) of
           (Inl e, L) \<Rightarrow> (Done (Inl e), sv\<lparr>sv_limiter := L\<rparr>)
         | (Inr i, L) \<Rightarrow> (Await (Send_reserved p route (Some i)), sv\<lparr>sv_limiter := L\<rparr>)))"

definition send_lookup :: "send_params \<Rightarrow> send_route \<Rightarrow> nat option \<Rightarrow> 'p server \<Rightarrow> outcome \<times> 'p server" where
  "send_lookup p route i sv = (case fst (getRecord (sp_messageId p) (sv_journal sv)) of
      Inl e \<Rightarrow> (Done (Inl e), sv)
    | Inr existing \<Rightarrow> (Await (Send_found p route i existing), sv))"

definition effectiveRequestId :: "send_params \<Rightarrow> string" where
  "effectiveRequestId p = (if truthy (sp_requestId p) then opt_or (sp_requestId p) [] else sp_messageId p)"

text \<open>\<open>existingRecord.loopDepth || existingRecord.metadata?._loopDepth || 1\<close>, for a depth that is a number.\<close>

definition existing_depth :: "message_view + reply_view \<Rightarrow> int" where
  "existing_depth r = (case (case r of Inl v \<Rightarrow> (v_loopDepth v, v_metadata v) | Inr w \<Rightarrow> (w_loopDepth w, w_metadata w)) of
     (Some (JNum n), md) \<Rightarrow> if n \<noteq> 0 then n else opt_or (depth_field md ''_loopDepth'') 1
   | (_, md) \<Rightarrow> opt_or (depth_field md ''_loopDepth'') 1)"

definition loop_claims_of :: "turn_claims \<Rightarrow> loop_claims" where
  "loop_claims_of c = \<lparr>lc_maxLoopDepth = tc_maxLoopDepth c, lc_loopDepth = tc_loopDepth c, lc_parentMessageId = tc_parentMessageId c\<rparr>"

definition send_depth :: "'p server_cfg \<Rightarrow> turn_claims \<Rightarrow> send_params \<Rightarrow> send_route \<Rightarrow> nat option \<Rightarrow> (message_view + reply_view) option \<Rightarrow>
    'p server \<Rightarrow> outcome \<times> 'p server" where
  "send_depth cfg c p route i existing sv =
    (let measured = (\<lambda>d. Send_measured \<lparr>sx_params = p, sx_route = route, sx_reservation = i, sx_existing = existing, sx_depth = d,
           sx_replyRoute = None\<rparr>) in
     case existing of Some r \<Rightarrow> (Await (measured (existing_depth r)), sv)
     | None \<Rightarrow> (case sc_loopTracker cfg of None \<Rightarrow> (Await (measured 1), sv)
        | Some (maxLoopDepth, maxTracked) \<Rightarrow>
           (case calculateDepth maxLoopDepth maxTracked (Some (sv_journal sv)) (Some (loop_claims_of c)) (sp_inReplyTo p) (sv_tracker sv) of
              (Inl e, T) \<Rightarrow> (Done (Inl e), sv\<lparr>sv_tracker := T\<rparr>)
            | (Inr d, T) \<Rightarrow> (Await (measured d), sv\<lparr>sv_tracker := T\<rparr>))))"

text \<open>The \<open>catch\<close> of the admission: the reservation is given back and the error thrown on.\<close>

definition give_back :: "turn_claims \<Rightarrow> nat option \<Rightarrow> 'p server \<Rightarrow> 'p server" where
  "give_back c i sv = (case i of None \<Rightarrow> sv | Some n \<Rightarrow> sv\<lparr>sv_limiter := rl_rollback (tc_senderId c) n (sv_limiter sv)\<rparr>)"

definition refused :: "turn_claims \<Rightarrow> send_context \<Rightarrow> js_error \<Rightarrow> 'p server \<Rightarrow> outcome \<times> 'p server" where
  "refused c x e sv = (Done (Inl e), give_back c (sx_reservation x) sv)"

definition send_prepare :: "'p server_cfg \<Rightarrow> turn_claims \<Rightarrow> send_context \<Rightarrow> 'p server \<Rightarrow> outcome \<times> 'p server" where
  "send_prepare cfg c x sv =
    (case (if sx_existing x = None then Inr None
           else fst (getReplyRouteForMessage (sc_env cfg) (sc_journal cfg) (sp_messageId (sx_params x)) (sv_journal sv))) of
       Inl e \<Rightarrow> refused c x e sv
     | Inr route \<Rightarrow>
         if route \<noteq> None \<and> \<not> sc_replyIdentity cfg then refused c x (Coded ''reply_route_unavailable'') sv
         else (Await (Send_prepared (x\<lparr>sx_replyRoute := route\<rparr>)), sv))"

definition recipient_type :: "'p server_cfg \<Rightarrow> string \<Rightarrow> string" where
  "recipient_type cfg r = (case sc_interactiveRecipients cfg of None \<Rightarrow> ''runner'' | Some f \<Rightarrow> if f r then ''interactive'' else ''runner'')"

definition send_envelope :: "'p server_cfg \<Rightarrow> turn_claims \<Rightarrow> send_context \<Rightarrow> (reply_route \<times> json option) option \<Rightarrow> envelope" where
  "send_envelope cfg c x ctx =
    (let p = sx_params x; route = sx_route x;
         md = (if ctx \<noteq> None then spread (Some (withoutPayloadProvenance (sp_metadata p))) else spread (sp_metadata p)) in
     \<lparr>e_sender = tc_senderId c, e_recipient = sr_resolvedTo route, e_messageId = sp_messageId p, e_requestId = effectiveRequestId p,
      e_inReplyTo = sp_inReplyTo p, e_text = Some (sp_text p),
      e_metadata = Some (JObj (obj_put md ''_loopDepth'' (JNum (sx_depth x)))),
      e_recipientType = Some (recipient_type cfg (sr_resolvedTo route)),
      e_to_principal = (if sr_resolved route then text_of (Some (sr_principal route)) else None),
      e_resolved_via = sr_via route\<rparr>)"

definition reply_options :: "turn_claims \<Rightarrow> (reply_route \<times> json option) option \<Rightarrow> send_options" where
  "reply_options c ctx = \<lparr>so_to_principal = None, so_resolved_via = None, so_recipientType = None, so_maxPairRequests = None,
     so_pairWindowMs = None, so_now = None, so_replyRoute = map_option fst ctx,
     so_replySenderBindingId = (if ctx = None then None else tc_bindingId c), so_senderProvenance = Option.bind ctx snd\<rparr>"

definition send_record :: "'p server_cfg \<Rightarrow> answers \<Rightarrow> turn_claims \<Rightarrow> send_context \<Rightarrow> 'p server \<Rightarrow> outcome \<times> 'p server" where
  "send_record cfg an c x sv =
    (case (if sc_replyIdentity cfg \<and> (sx_existing x = None \<or> sx_replyRoute x \<noteq> None) then an_context an else Inr None) of
       Inl e \<Rightarrow> refused c x e sv
     | Inr ctx \<Rightarrow>
        (let (r, j) = recordSend (sc_env cfg) (sc_journal cfg) (an_now an) (send_envelope cfg c x ctx) (reply_options c ctx) (sv_journal sv);
             sv1 = sv\<lparr>sv_journal := j\<rparr>
         in case r of Inl e \<Rightarrow> refused c x e sv1 | Inr (view, dup) \<Rightarrow> (Await (Send_recorded x view dup), sv1)))"

definition receipt :: "int \<Rightarrow> message_view \<Rightarrow> bool \<Rightarrow> json" where
  "receipt now v dup = JObj (
     [(''accepted'', JBool True), (''delivery'', describeMessageDelivery now ''unknown'' None False (Inl v)),
      (''messageId'', JStr (v_messageId v)), (''requestId'', JStr (v_requestId v)), (''status'', JStr (phase_text (v_phase v))),
      (''isDuplicate'', JBool dup)] @ opt_member ''senderProvenance'' (v_senderProvenance v) @
     [(''to_principal'', opt_json (v_to_principal v)), (''resolved_via'', opt_json (v_resolved_via v))])"

definition duplicate_route :: "send_route \<Rightarrow> message_view \<Rightarrow> bool \<Rightarrow> send_route" where
  "duplicate_route route v dup =
    (if dup then \<lparr>sr_resolvedTo = v_recipient v, sr_to = sr_to route, sr_resolved = (v_resolved_via v = Some ''principal''),
       sr_via = v_resolved_via v, sr_principal = opt_json (v_to_principal v), sr_profile = None, sr_bindingId = None, sr_route = None\<rparr>
     else route)"

definition runner_job :: "'p server_cfg \<Rightarrow> turn_claims \<Rightarrow> send_context \<Rightarrow> message_view \<Rightarrow> bool \<Rightarrow> admission_job list" where
  "runner_job cfg c x v dup =
    (if recipient_type cfg (sr_resolvedTo (sx_route x)) \<noteq> ''interactive'' \<and> (\<not> dup \<or> v_phase v = Queued_local)
     then [\<lparr>aj_sender = tc_senderId c, aj_recipient = sr_resolvedTo (sx_route x), aj_messageId = sp_messageId (sx_params x),
            aj_requestId = v_requestId v, aj_inReplyTo = sp_inReplyTo (sx_params x), aj_text = sp_text (sx_params x),
            aj_metadata = sp_metadata (sx_params x), aj_loopDepth = sx_depth x, aj_isDuplicate = dup\<rparr>]
     else [])"

definition send_finish :: "'p server_cfg \<Rightarrow> answers \<Rightarrow> turn_claims \<Rightarrow> send_context \<Rightarrow> message_view \<Rightarrow> bool \<Rightarrow> 'p server \<Rightarrow> outcome \<times> 'p server" where
  "send_finish cfg an c x v dup sv =
    (let p = sx_params x;
         limiter = (case sx_reservation x of None \<Rightarrow> sv_limiter sv | Some i \<Rightarrow> rl_commit i (sv_limiter sv));
         tracker = (case sc_loopTracker cfg of None \<Rightarrow> sv_tracker sv
           | Some (_, maxTracked) \<Rightarrow> commitAdmission maxTracked (sp_messageId p) (effectiveRequestId p) (sx_depth x) dup (sv_tracker sv));
         opts = \<lparr>do_resolution = Some (duplicate_route (sx_route x) v dup), do_record = Some (message_json v), do_target = None,
           do_phase = None, do_snapshot = None\<rparr>;
         (r, router) = decorateSend (sc_snapshots cfg) (sc_router cfg) (receipt (an_now an) v dup) opts (sv_router sv)
     in (Done (case r of Inl e \<Rightarrow> Inl e | Inr j \<Rightarrow> Inr (Object j)),
         sv\<lparr>sv_limiter := limiter, sv_tracker := tracker, sv_router := router,
            sv_executions := sv_executions sv @ runner_job cfg c x v dup\<rparr>))"

section \<open>Status and replies\<close>

definition party :: "string \<Rightarrow> message_view + reply_view \<Rightarrow> bool" where
  "party s r = (case r of Inl v \<Rightarrow> v_sender v = s \<or> v_recipient v = s | Inr w \<Rightarrow> w_sender w = s \<or> w_recipient w = s)"

definition status_begin :: "rpc \<Rightarrow> turn_claims \<Rightarrow> 'p server \<Rightarrow> outcome \<times> 'p server" where
  "status_begin q c sv = (case rpc_identifier (param q ''messageId'') of Inl e \<Rightarrow> (Done (Inl e), sv)
    | Inr mid \<Rightarrow> (case fst (getRecord mid (sv_journal sv)) of Inl e \<Rightarrow> (Done (Inl e), sv)
       | Inr None \<Rightarrow> (throws ''not_found'', sv)
       | Inr (Some r) \<Rightarrow> if \<not> party (tc_senderId c) r then (throws ''foreign_access_denied'', sv) else (Await (Status_found r), sv)))"

definition reply_json :: "reply_view \<Rightarrow> json" where
  "reply_json w = JObj ([(''messageId'', JStr (w_messageId w))] @ opt_member ''senderProvenance'' (w_senderProvenance w) @
     [(''sender'', JStr (w_sender w)), (''recipient'', JStr (w_recipient w)), (''requestId'', JStr (w_requestId w)),
      (''inReplyTo'', JStr (w_inReplyTo w)), (''text'', JStr (w_text w)), (''metadata'', meta_json (w_metadata w))] @
     opt_member ''loopDepth'' (w_loopDepth w) @ [(''consumed'', JBool (w_consumed w))] @
     (case w_reconciled w of None \<Rightarrow> [] | Some i \<Rightarrow> [(''reconciled'', JObj [(''reconcileId'', JStr i)])]) @
     [(''createdAt'', JNum (w_createdAt w)), (''updatedAt'', JNum (w_updatedAt w))])"

definition record_json :: "message_view + reply_view \<Rightarrow> json" where
  "record_json r = (case r of Inl v \<Rightarrow> message_json v | Inr w \<Rightarrow> reply_json w)"

definition raw_status :: "json \<Rightarrow> message_view + reply_view \<Rightarrow> json" where
  "raw_status delivery r = JObj ([(''delivery'', delivery)] @ (case r of
      Inl v \<Rightarrow> [(''messageId'', JStr (v_messageId v))] @ opt_member ''senderProvenance'' (v_senderProvenance v) @
        [(''phase'', JStr (phase_text (v_phase v))), (''reason'', if truthy (v_reason v) then opt_json (v_reason v) else JNull),
         (''runtimeError'', if truthy (v_runtimeError v) then JStr ''Execution failure occurred'' else JNull),
         (''hasLateResult'', JBool (v_hasLateResult v)),
         (''to_principal'', opt_json (v_to_principal v)), (''resolved_via'', opt_json (v_resolved_via v))]
    | Inr w \<Rightarrow> [(''messageId'', JStr (w_messageId w))] @ opt_member ''senderProvenance'' (w_senderProvenance w) @
        [(''reason'', JNull), (''runtimeError'', JNull), (''hasLateResult'', JBool False)]))"

text \<open>\<open>directory.get(id)?.capabilities?.pullInbox === true\<close>.\<close>

definition pull_inbox :: "'p server_cfg \<Rightarrow> string \<Rightarrow> bool" where
  "pull_inbox cfg i = (Option.bind (Option.bind (sc_directory cfg i) (\<lambda>row. obj_get row ''capabilities'')) (\<lambda>caps. obj_get caps ''pullInbox'')
     = Some (JBool True))"

definition status_finish :: "'p server_cfg \<Rightarrow> answers \<Rightarrow> message_view + reply_view \<Rightarrow> 'p server \<Rightarrow> outcome \<times> 'p server" where
  "status_finish cfg an r sv =
    (let queued = (case r of Inl v \<Rightarrow> v_phase v = Queued_local | Inr _ \<Rightarrow> False);
         recipient = (case r of Inl v \<Rightarrow> v_recipient v | Inr w \<Rightarrow> w_recipient w);
         available = (case r of Inl v \<Rightarrow> if queued \<and> v_recipientType v = ''interactive'' \<and> starts_with ''session-'' recipient \<and> sc_sessionBroker cfg
             then an_available an else None | Inr _ \<Rightarrow> None);
         mid = (case r of Inl v \<Rightarrow> v_messageId v | Inr w \<Rightarrow> w_messageId w) in
     case (if queued then fst (getMessageWakeEvidence (sc_env cfg) mid (sv_journal sv)) else Inr ''unknown'') of
       Inl e \<Rightarrow> (Done (Inl e), sv)
     | Inr notification \<Rightarrow>
        (let delivery = describeMessageDelivery (an_now an) notification available (pull_inbox cfg recipient) r;
             opts = \<lparr>do_resolution = None, do_record = Some (record_json r), do_target = None, do_phase = None, do_snapshot = None\<rparr>;
             (d, router) = decorateStatus (sc_snapshots cfg) (sc_router cfg) (raw_status delivery r) opts (sv_router sv)
         in (Done (case d of Inl e \<Rightarrow> Inl e | Inr j \<Rightarrow> Inr (Status_of r j)), sv\<lparr>sv_router := router\<rparr>)))"

text \<open>The replies are decorated, and then bounded to the default size of \<open>boundRepliesToEnvelope\<close>.\<close>

definition shown_replies :: "'p server_cfg \<Rightarrow> reply_view list \<Rightarrow> listed_reply list result" where
  "shown_replies cfg ws = (case decorateReplies (sc_router cfg) (JObj [(''replies'', JArr (map reply_json ws))]) of Inl e \<Rightarrow> Inl e
    | Inr j \<Rightarrow> Inr (case obj_get j ''replies'' of
        Some (JArr rs) \<Rightarrow> boundRepliesToEnvelope (int MAX_PAYLOAD_BYTES - 1024) (map listed_of rs)
      | _ \<Rightarrow> []))"

definition list_replies :: "'p server_cfg \<Rightarrow> rpc \<Rightarrow> turn_claims \<Rightarrow> 'p server \<Rightarrow> outcome \<times> 'p server" where
  "list_replies cfg q c sv = (case optional_identifier (param q ''requestId'') of Inl e \<Rightarrow> (Done (Inl e), sv)
    | Inr requestId \<Rightarrow> (case optional_identifier (param q ''inReplyTo'') of Inl e \<Rightarrow> (Done (Inl e), sv)
       | Inr inReplyTo \<Rightarrow>
          (case fst (listReplies (tc_senderId c) requestId inReplyTo (cappedLimit (param q ''limit'')) NoCursor (sv_journal sv)) of
             Inl e \<Rightarrow> (Done (Inl e), sv)
           | Inr rs \<Rightarrow> (Done (case shown_replies cfg (map fst rs) of Inl e \<Rightarrow> Inl e | Inr ls \<Rightarrow> Inr (Reply_list (map fst rs) ls)), sv))))"

text \<open>The end of a request with one call of the journal.\<close>

definition journal_answer :: "('a \<Rightarrow> body) \<Rightarrow> (journal, 'a) op \<Rightarrow> 'p server \<Rightarrow> outcome \<times> 'p server" where
  "journal_answer f call sv = (case call (sv_journal sv) of (r, j) \<Rightarrow>
     (Done (case r of Inl e \<Rightarrow> Inl e | Inr x \<Rightarrow> Inr (f x)), sv\<lparr>sv_journal := j\<rparr>))"

definition consume_reply :: "answers \<Rightarrow> rpc \<Rightarrow> turn_claims \<Rightarrow> 'p server \<Rightarrow> outcome \<times> 'p server" where
  "consume_reply an q c sv = (case rpc_identifier (param q ''messageId'') of Inl e \<Rightarrow> (Done (Inl e), sv)
    | Inr mid \<Rightarrow> journal_answer Consumed (consumeReply (an_now an) (tc_senderId c) mid) sv)"

section \<open>Wakes\<close>

definition interactive_sender :: "'p server_cfg \<Rightarrow> turn_claims \<Rightarrow> bool" where
  "interactive_sender cfg c = (tc_senderType c = Some ''interactive'' \<or>
     (case sc_interactiveBroker cfg of None \<Rightarrow> False | Some f \<Rightarrow> f (tc_senderId c)))"

text \<open>The session claims every interactive wake call needs: session, binding and generation.\<close>

definition session_claims :: "turn_claims \<Rightarrow> (string \<times> string \<times> int) option" where
  "session_claims c = (case (tc_sessionId c, tc_bindingId c, tc_generation c) of
     (Some sid, Some bid, Some g) \<Rightarrow> if sid \<noteq> [] \<and> bid \<noteq> [] \<and> 1 \<le> g then Some (sid, bid, g) else None
   | _ \<Rightarrow> None)"

definition ack_notification :: "'p server_cfg \<Rightarrow> answers \<Rightarrow> rpc \<Rightarrow> turn_claims \<Rightarrow> 'p server \<Rightarrow> outcome \<times> 'p server" where
  "ack_notification cfg an q c sv = (case rpc_identifier (param q ''wakeId'') of Inl e \<Rightarrow> (Done (Inl e), sv)
    | Inr wakeId \<Rightarrow> (case param q ''generation'' of
        Some (JNum g) \<Rightarrow>
          if g < 0 then (throws ''invalid_request'', sv)
          else if interactive_sender cfg c then
            (case session_claims c of None \<Rightarrow> (throws ''unauthorized'', sv)
             | Some (sid, bid, gen) \<Rightarrow>
                 if g \<noteq> gen then (throws ''generation_fenced'', sv)
                 else journal_answer Acked (ackInteractiveWake (an_now an) (tc_senderId c) wakeId gen sid bid) sv)
          else if sc_notifier cfg then (Done (case an_broker an of Inl e \<Rightarrow> Inl e | Inr j \<Rightarrow> Inr (Object j)), sv)
          else journal_answer (\<lambda>_. Acked True) (ackWake (an_now an) (tc_senderId c) wakeId g) sv
      | _ \<Rightarrow> (throws ''invalid_request'', sv)))"

text \<open>\<open>claims?.senderType !== "interactive" || !interactiveBroker?.isInteractiveSender(senderId)\<close>.\<close>

definition strictly_interactive :: "'p server_cfg \<Rightarrow> turn_claims \<Rightarrow> bool" where
  "strictly_interactive cfg c = (tc_senderType c = Some ''interactive'' \<and>
     (case sc_interactiveBroker cfg of None \<Rightarrow> False | Some f \<Rightarrow> f (tc_senderId c)))"

definition reserve_wake :: "'p server_cfg \<Rightarrow> answers \<Rightarrow> rpc \<Rightarrow> turn_claims \<Rightarrow> 'p server \<Rightarrow> outcome \<times> 'p server" where
  "reserve_wake cfg an q c sv =
    (if \<not> strictly_interactive cfg c then (throws ''unauthorized'', sv)
     else case session_claims c of None \<Rightarrow> (throws ''unauthorized'', sv)
     | Some (sid, bid, gen) \<Rightarrow> (case rpc_identifier (param q ''reservationId'') of Inl e \<Rightarrow> (Done (Inl e), sv)
        | Inr rid \<Rightarrow> journal_answer Wake_reserved (reserveInteractiveWake (sc_env cfg) (an_now an) (tc_senderId c) rid sid gen bid) sv))"

definition report_fence :: "rpc \<Rightarrow> string \<Rightarrow> string \<Rightarrow> int \<Rightarrow> unit result" where
  "report_fence q sid bid gen =
    (case (case param q ''generation'' of None \<Rightarrow> Inr ()
         | Some (JNum g) \<Rightarrow> if g < 1 then Inl (Coded ''invalid_request'') else if g \<noteq> gen then Inl (Coded ''generation_fenced'') else Inr ()
         | Some _ \<Rightarrow> Inl (Coded ''invalid_request'')) of
       Inl e \<Rightarrow> Inl e
     | Inr _ \<Rightarrow>
         if param q ''sessionId'' \<noteq> None \<and> param q ''sessionId'' \<noteq> Some (JStr sid) then Inl (Coded ''session_fenced'')
         else (case param q ''bindingId'' of None \<Rightarrow> Inr ()
           | Some (JStr b) \<Rightarrow> if to_lower b \<noteq> to_lower bid then Inl (Coded ''binding_changed'') else Inr ()
           | Some _ \<Rightarrow> Inl TypeErr))"

definition report_wake :: "'p server_cfg \<Rightarrow> answers \<Rightarrow> rpc \<Rightarrow> turn_claims \<Rightarrow> 'p server \<Rightarrow> outcome \<times> 'p server" where
  "report_wake cfg an q c sv =
    (if \<not> strictly_interactive cfg c then (throws ''unauthorized'', sv)
     else case session_claims c of None \<Rightarrow> (throws ''unauthorized'', sv)
     | Some (sid, bid, gen) \<Rightarrow> (case rpc_identifier (param q ''wakeId'') of Inl e \<Rightarrow> (Done (Inl e), sv)
        | Inr wakeId \<Rightarrow> (case text_of (param q ''result'') of None \<Rightarrow> (throws ''invalid_request'', sv)
           | Some result \<Rightarrow>
               if result \<notin> set [''accepted'', ''uncertain'', ''failed''] then (throws ''invalid_request'', sv)
               else (case report_fence q sid bid gen of Inl e \<Rightarrow> (Done (Inl e), sv)
                  | Inr _ \<Rightarrow> journal_answer Wake_reported
                      (reportInteractiveWakeResult (an_now an) (tc_senderId c) wakeId gen sid bid result) sv))))"

section \<open>The inbox\<close>

definition inbox_page :: "message_view list \<times> inbox_cursor option \<Rightarrow> body result" where
  "inbox_page r = (case r of (items, next) \<Rightarrow>
     (case decorateInbox (JObj [(''items'', JArr (map message_json items))]) of Inl e \<Rightarrow> Inl e | Inr j \<Rightarrow> Inr (Inbox_page items next j)))"

definition list_inbox :: "'p server_cfg \<Rightarrow> answers \<Rightarrow> rpc \<Rightarrow> turn_claims \<Rightarrow> 'p server \<Rightarrow> outcome \<times> 'p server" where
  "list_inbox cfg an q c sv =
    (let cursor = (case param q ''cursor'' of None \<Rightarrow> None | Some v \<Rightarrow> if js_truthy (Some v) then Some (sc_cursor cfg v) else None) in
     case listInbox (sc_hmac cfg) (an_now an) (tc_senderId c) (cappedLimit (param q ''limit'')) cursor (sv_journal sv) of (r, j) \<Rightarrow>
       (Done (case r of Inl e \<Rightarrow> Inl e | Inr x \<Rightarrow> inbox_page x), sv\<lparr>sv_journal := j\<rparr>))"

definition claim_begin :: "rpc \<Rightarrow> turn_claims \<Rightarrow> 'p server \<Rightarrow> outcome \<times> 'p server" where
  "claim_begin q c sv = (case rpc_identifier (param q ''messageId'') of Inl e \<Rightarrow> (Done (Inl e), sv)
    | Inr mid \<Rightarrow> (case rpc_identifier (param q ''claimId'') of Inl e \<Rightarrow> (Done (Inl e), sv)
    | Inr claimId \<Rightarrow> (case fst (getRecord mid (sv_journal sv)) of Inl e \<Rightarrow> (Done (Inl e), sv)
       | Inr r \<Rightarrow>
           if (case r of None \<Rightarrow> False | Some (Inl v) \<Rightarrow> v_recipient v \<noteq> tc_senderId c | Some (Inr w) \<Rightarrow> w_recipient w \<noteq> tc_senderId c)
           then (throws ''foreign_access_denied'', sv)
           else if \<not> truthy (tc_sessionId c) \<or> tc_generation c = None then (throws ''unauthorized'', sv)
           else (Await (Claiming mid claimId), sv))))"

definition claim_finish :: "'p server_cfg \<Rightarrow> answers \<Rightarrow> turn_claims \<Rightarrow> string \<Rightarrow> string \<Rightarrow> 'p server \<Rightarrow> outcome \<times> 'p server" where
  "claim_finish cfg an c mid claimId sv =
    (case claimInboxMessage (sc_env cfg) (an_uuid an) (an_now an) mid (tc_senderId c) (opt_or (tc_sessionId c) [])
        (opt_or (tc_generation c) 0) claimId 3600000 (sv_journal sv) of (r, j) \<Rightarrow>
     (Done (case r of Inl e \<Rightarrow> Inl e | Inr None \<Rightarrow> Inl (Coded ''claim_failed'') | Inr (Some k) \<Rightarrow> Inr (Claimed k)), sv\<lparr>sv_journal := j\<rparr>))"

text \<open>A claim token that is no text is never that of a claim; it is carried as its JSON text.\<close>

definition reply_request :: "rpc \<Rightarrow> turn_claims \<Rightarrow> string \<Rightarrow> string \<Rightarrow> string option \<Rightarrow> bool \<Rightarrow> interactive_reply" where
  "reply_request q c mid text replyId isPinned = \<lparr>ir_messageId = mid,
     ir_claimToken = (case param q ''claimToken'' of Some (JStr t) \<Rightarrow> t | Some j \<Rightarrow> stringify j | None \<Rightarrow> []),
     ir_sessionId = opt_or (tc_sessionId c) [], ir_generation = opt_or (tc_generation c) 0, ir_requester = tc_senderId c,
     ir_text = Some text, ir_replyId = replyId,
     ir_metadata = (if isPinned then Some (withoutPayloadProvenance (param q ''metadata'')) else Some (opt_or (param q ''metadata'') (JObj []))),
     ir_identity = None\<rparr>"

definition reply_begin :: "'p server_cfg \<Rightarrow> rpc \<Rightarrow> turn_claims \<Rightarrow> 'p server \<Rightarrow> outcome \<times> 'p server" where
  "reply_begin cfg q c sv =
    (if \<not> js_truthy (param q ''messageId'') \<or> \<not> js_truthy (param q ''claimToken'') then (throws ''invalid_request'', sv)
     else case text_of (param q ''text'') of None \<Rightarrow> (throws ''invalid_request'', sv)
     | Some text \<Rightarrow> (case rpc_identifier (param q ''messageId'') of Inl e \<Rightarrow> (Done (Inl e), sv)
     | Inr mid \<Rightarrow> (case (if js_truthy (param q ''replyId'') then map_sum id Some (rpc_identifier (param q ''replyId'')) else Inr None) of
          Inl e \<Rightarrow> (Done (Inl e), sv)
        | Inr replyId \<Rightarrow>
            if MAX_FIELD_STRING_LENGTH < int (js_length text) then (throws ''payload_too_large'', sv)
            else if \<not> truthy (tc_sessionId c) \<or> tc_generation c = None then (throws ''unauthorized'', sv)
            else (case fst (getReplyRouteForMessage (sc_env cfg) (sc_journal cfg) mid (sv_journal sv)) of
               Inl e \<Rightarrow> (Done (Inl e), sv)
             | Inr route \<Rightarrow>
                 if route \<noteq> None \<and> \<not> sc_replyIdentity cfg then (throws ''reply_route_unavailable'', sv)
                 else (Await (Replying (reply_request q c mid text replyId (route \<noteq> None)) (route \<noteq> None)), sv)))))"

definition reply_finish :: "'p server_cfg \<Rightarrow> answers \<Rightarrow> turn_claims \<Rightarrow> interactive_reply \<Rightarrow> bool \<Rightarrow> 'p server \<Rightarrow> outcome \<times> 'p server" where
  "reply_finish cfg an c r isPinned sv =
    (case (if isPinned then map_sum id Some (an_identity an) else Inr None) of Inl e \<Rightarrow> (Done (Inl e), sv)
     | Inr identity \<Rightarrow>
        journal_answer (\<lambda>(w, dup). Reply_accepted w dup)
          (recordInteractiveReply (sc_env cfg) (sc_journal cfg) (an_uuid an) (an_now an)
             (r\<lparr>ir_identity := map_option (\<lambda>i. i\<lparr>ri_bindingId := tc_bindingId c\<rparr>) identity\<rparr>)) sv)"

section \<open>Discovery and sessions\<close>

definition explanation_json :: "explanation \<Rightarrow> json" where
  "explanation_json x = JObj ([(''id'', JStr (ex_id x)), (''principal'', opt_json (ex_principal x)),
     (''principalState'', JStr (ex_principalState x)), (''route'', JStr (ex_route x))] @
     (case ex_send x of None \<Rightarrow> [] | Some (ok, kinds) \<Rightarrow>
        [(''send'', JObj [(''permitted'', JBool ok), (''addressKinds'', JArr (map JStr kinds))])]))"

definition discover_recipients :: "'p server_cfg \<Rightarrow> turn_claims \<Rightarrow> 'p server \<Rightarrow> outcome \<times> 'p server" where
  "discover_recipients cfg c sv =
    (let recipients = filter (in_scope c) (ac_listed (sv_access sv) (tc_senderId c));
         (explained, router) = describeAddresses (sc_snapshots cfg) (sc_router cfg) recipients (Some (\<lambda>_. Some True)) None (sv_router sv)
     in (Done (Inr (Object (JObj ([(''recipients'', JArr (map JStr recipients))] @
           (case explained of None \<Rightarrow> [] | Some xs \<Rightarrow> [(''entries'', JArr (map explanation_json xs))]))))),
         sv\<lparr>sv_router := router\<rparr>))"

definition session_status :: "'p server_cfg \<Rightarrow> turn_claims \<Rightarrow> 'p server \<Rightarrow> outcome \<times> 'p server" where
  "session_status cfg c sv =
    (let bound = (\<not> interactive_sender cfg c \<and> tc_senderType c = Some ''desktop-inbox'' \<and>
           (case sc_inboxBroker cfg of None \<Rightarrow> False | Some f \<Rightarrow> f (tc_senderId c))) in
     if \<not> interactive_sender cfg c \<and> \<not> bound then (throws ''unsupported'', sv)
     else case (if bound then fst (getWakeBinding (tc_senderId c) (sv_journal sv)) else Inr None) of Inl e \<Rightarrow> (Done (Inl e), sv)
     | Inr b \<Rightarrow> (case fst (getInteractiveInboxCounts (tc_senderId c) (sv_journal sv)) of Inl e \<Rightarrow> (Done (Inl e), sv)
        | Inr n \<Rightarrow> (Done (Inr (Session_status (tc_senderId c) (tc_sessionId c)
            (case b of None \<Rightarrow> tc_generation c | Some w \<Rightarrow> Some (wb_generation w)) n)), sv)))"

section \<open>The directory\<close>

definition row_field :: "json \<Rightarrow> string \<Rightarrow> string \<Rightarrow> json option" where
  "row_field row k f = Option.bind (obj_get row k) (\<lambda>v. obj_get v f)"

definition describeRecipientDelivery :: "json \<Rightarrow> (string \<times> json) list" where
  "describeRecipientDelivery row =
    (let cap = (\<lambda>f. js_truthy (row_field row ''capabilities'' f)) in
     if row_field row ''send'' ''permitted'' = Some (JBool False) \<and> (cap ''reachable'' \<or> (cap ''pullInbox'' \<and> cap ''queueable''))
     then delivery_view ''not_permitted''
       ''A delivery route exists, but this caller's current credential does not cover it, so a send would be refused.''
       ''Do not send with this credential. Look again after the credential renews; if the entry stays not permitted, only the owner can change that.''
     else if cap ''pullInbox'' \<and> cap ''queueable''
     then delivery_view ''pull_only'' ''Requests can be queued; the recipient checks them on a user-initiated turn.''
       ''Send only if authorized, then ask the recipient to check its inbox.''
     else if cap ''reachable''
     then delivery_view ''ready_to_queue'' ''A delivery route is attached; this does not prove execution.''
       ''Send a request, then inspect its message status and correlated reply.''
     else if obj_get row ''attachment'' = Some (JStr ''ended'') \<or> obj_get row ''lifecycle'' = Some (JStr ''ended'')
     then delivery_view ''session_ended'' ''The session has ended.''
       ''Reopen the same session or ask the owner to select a new target; do not silently substitute another chat.''
     else if obj_get row ''attachment'' = Some (JStr ''not-attached'')
     then delivery_view ''not_attached'' ''The chat has no current Triangle attachment.''
       ''Open or reload that chat and call triangle_get_status.''
     else if cap ''visible''
     then delivery_view ''visible_only'' ''Listed by discovery; delivery authorization or attachment is not established.''
       ''Ask the owner to check exact and class grants and session attachment. Discovery alone grants no delivery permission.''
     else delivery_view ''availability_unknown'' ''The recipient is configured; live delivery availability is not established.''
       ''Send only if authorized and check the resulting message status.'')"

text \<open>The directory of the constructor: at most 256 entries with distinct ids, printable labels and a known kind.\<close>

definition entry_ok :: "json \<Rightarrow> bool" where
  "entry_ok e = ((case text_of (obj_get e ''label'') of None \<Rightarrow> False
      | Some l \<Rightarrow> 1 \<le> js_length l \<and> js_length l \<le> 128 \<and> list_all (\<lambda>ch. 32 \<le> (of_char ch :: nat) \<and> of_char ch \<noteq> (127 :: nat)) l) \<and>
    obj_get e ''kind'' \<in> {Some (JStr ''worker''), Some (JStr ''conversation'')})"

definition directory_entry :: "string \<Rightarrow> json \<Rightarrow> json" where
  "directory_entry i e = JObj ([(''id'', JStr i), (''label'', opt_json (text_of (obj_get e ''label''))),
     (''kind'', opt_json (text_of (obj_get e ''kind''))), (''presence'', JStr ''unknown'')] @
     (if obj_get e ''harness'' = Some (JStr ''grok'')
      then [(''harness'', JStr ''grok''),
        (''capabilities'', JObj [(''queueable'', JBool True), (''wakeCapable'', JBool False), (''pullInbox'', JBool True)])]
      else []))"

fun fill_directory :: "json list \<Rightarrow> (string \<times> json) list \<Rightarrow> (string \<times> json) list result" where
  "fill_directory [] dir = Inr dir"
| "fill_directory (e # es) dir = (case rpc_identifier (obj_get e ''id'') of Inl err \<Rightarrow> Inl err
    | Inr i \<Rightarrow> if map_of dir i \<noteq> None \<or> \<not> entry_ok e then Inl (Coded ''invalid_options'')
        else fill_directory es (dir @ [(i, directory_entry i e)]))"

definition build_directory :: "json list \<Rightarrow> (string \<times> json) list result" where
  "build_directory entries = (if 256 < length entries then Inl (Coded ''invalid_options'') else fill_directory entries [])"

definition row_id :: "json \<Rightarrow> string" where
  "row_id row = opt_or (text_of (obj_get row ''id'')) []"

definition directory_row :: "'p server_cfg \<Rightarrow> string \<Rightarrow> json" where
  "directory_row cfg i = opt_or (sc_directory cfg i)
     (JObj [(''id'', JStr i), (''label'', JStr i), (''kind'', JStr ''unknown''), (''presence'', JStr ''unknown'')])"

text \<open>An attached session replaces the first row with its id, or is added.\<close>

fun put_row :: "json \<Rightarrow> json list \<Rightarrow> json list" where
  "put_row x [] = [x]"
| "put_row x (r # rs) = (if row_id r = row_id x then x # rs else r # put_row x rs)"

definition session_rows :: "'p server_cfg \<Rightarrow> answers \<Rightarrow> turn_claims \<Rightarrow> string list \<Rightarrow> json list" where
  "session_rows cfg an c authorizedIds =
    (let sessions = map (directory_row cfg) (filter (in_scope c) authorizedIds);
         sessions = fold put_row (opt_or (an_attached an) []) sessions;
         known = map row_id sessions;
         sessions = sessions @ filter (\<lambda>e. row_id e \<notin> set known) (opt_or (an_discovered an) [])
     in an_filter an sessions)"

text \<open>Whom the policy and the credential let the caller message, for the explanation of a row.\<close>

definition row_permitted :: "'p server_cfg \<Rightarrow> answers \<Rightarrow> turn_claims \<Rightarrow> string list \<Rightarrow> string \<Rightarrow> bool" where
  "row_permitted cfg an c authorizedIds i =
    (let attached = opt_or (an_attached an) [];
         unreachable = map row_id (filter (\<lambda>e. row_field e ''capabilities'' ''reachable'' \<noteq> Some (JBool True)) attached);
         derived = ((case sc_inboxBroker cfg of None \<Rightarrow> False | Some f \<Rightarrow> f (tc_senderId c)) \<or>
           (sc_sessionBroker cfg \<and> starts_with ''session-'' (tc_senderId c)))
     in i \<in> set authorizedIds \<union> set (map row_id attached) \<and> (in_scope c i \<or> (derived \<and> i \<in> set unreachable)))"

definition put_fields :: "json \<Rightarrow> (string \<times> json) list \<Rightarrow> json" where
  "put_fields row fs = JObj (fold (\<lambda>(k, v) kvs. obj_put kvs k v) fs (object_entries row))"

definition explained_row :: "explanation list \<Rightarrow> json \<Rightarrow> json" where
  "explained_row explanations row = (case find (\<lambda>x. ex_id x = row_id row) explanations of None \<Rightarrow> row
     | Some x \<Rightarrow> put_fields row ([(''principal'', opt_json (ex_principal x)), (''principalState'', JStr (ex_principalState x)),
         (''route'', JStr (ex_route x))] @ (case ex_send x of None \<Rightarrow> [] | Some (ok, kinds) \<Rightarrow>
           [(''send'', JObj [(''permitted'', JBool ok), (''addressKinds'', JArr (map JStr kinds))])])))"

definition hinted_row :: "json \<Rightarrow> json" where
  "hinted_row row = put_fields row [(''delivery'', JObj (describeRecipientDelivery row))]"

definition createSuccessResponse :: "json \<Rightarrow> json \<Rightarrow> json" where
  "createSuccessResponse i result = JObj [(''protocol_version'', JNum PROTOCOL_VERSION), (''id'', i), (''result'', result)]"

definition response_fits :: "json \<Rightarrow> json \<Rightarrow> bool" where
  "response_fits i result = (length (stringify (createSuccessResponse i result)) \<le> MAX_PAYLOAD_BYTES)"

definition list_sessions :: "'p server_cfg \<Rightarrow> answers \<Rightarrow> rpc \<Rightarrow> turn_claims \<Rightarrow> 'p server \<Rightarrow> outcome \<times> 'p server" where
  "list_sessions cfg an q c sv =
    (let authorizedIds = ac_listed (sv_access sv) (tc_senderId c);
         raw = session_rows cfg an c authorizedIds;
         (d, router) = decorateSessions (sc_snapshots cfg) (sc_router cfg) (JObj [(''sessions'', JArr raw)]) None (sv_router sv)
     in case d of Inl e \<Rightarrow> (Done (Inl e), sv\<lparr>sv_router := router\<rparr>)
     | Inr decorated \<Rightarrow>
        (let rows = opt_or (listed ''sessions'' decorated) [];
             (explained, router2) = describeAddresses (sc_snapshots cfg) (sc_router cfg) (map row_id rows)
               (Some (\<lambda>i. Some (row_permitted cfg an c authorizedIds i))) None router;
             rows2 = (case explained of None \<Rightarrow> rows | Some xs \<Rightarrow> map (explained_row xs) rows);
             hinted = put_fields decorated [(''sessions'', JArr (map hinted_row rows2))]
         in (Done (Inr (Object (if response_fits (rq_id q) hinted then hinted else decorated))), sv\<lparr>sv_router := router2\<rparr>)))"

end
