(* ===== verification/Control_Server.thy ===== *)
theory Control_Server
  imports Server_Requests
begin

text \<open>
  The dispatch of requests and the life of a connection in
  \<open>local-messaging-server.mjs\<close> (\<open>handleRpc\<close>, \<open>start\<close>, \<open>close\<close>).  A request in flight is a
  connection, the request and the stage it is in; what is written to a socket is
  a log, with the claims under which the request was handled.
\<close>

section \<open>Authentication and dispatch\<close>

datatype stage = Arrived | Validating turn_claims | Handling "turn_claims option" handling

definition OPEN_METHODS :: "string list" where
  "OPEN_METHODS = [''hello'', ''issue_turn'', ''exchange_session'', ''discovery_challenge'', ''discovery_report'', ''attach_session'', ''detach_session'']"

definition DESKTOP_METHODS :: "string list" where
  "DESKTOP_METHODS = [''list_inbox'', ''claim_inbox_message'', ''send_reply'', ''session_status'']"

definition called :: "rpc \<Rightarrow> string list \<Rightarrow> bool" where
  "called q ms = (case rq_method q of None \<Rightarrow> False | Some m \<Rightarrow> m \<in> set ms)"

definition authenticate :: "'p server_cfg \<Rightarrow> answers \<Rightarrow> rpc \<Rightarrow> stage result" where
  "authenticate cfg an q =
    (if rq_version q \<noteq> Some (JNum PROTOCOL_VERSION) then Inl (Coded ''protocol_version_mismatch'')
     else case params_of q of
       JObj _ \<Rightarrow>
         if called q OPEN_METHODS then Inr (Handling None Begin)
         else (case text_of (rq_senderId q) of None \<Rightarrow> Inl (Coded ''unauthorized'')
           | Some s \<Rightarrow>
               if trim s = [] then Inl (Coded ''unauthorized'')
               else (case validate (sc_cred cfg) (sc_secret cfg) (an_now an) (rq_credential q) (Some (trim s)) of
                  Inl e \<Rightarrow> Inl e | Inr c \<Rightarrow> Inr (Validating c)))
     | _ \<Rightarrow> Inl (Coded ''invalid_request''))"

definition check_sessions :: "'p server_cfg \<Rightarrow> answers \<Rightarrow> rpc \<Rightarrow> turn_claims \<Rightarrow> unit result" where
  "check_sessions cfg an q c =
    (let desktop = tc_senderType c = Some ''desktop-inbox'' \<or>
           ((case sc_inboxBroker cfg of None \<Rightarrow> False | Some f \<Rightarrow> f (tc_senderId c)) \<and> called q DESKTOP_METHODS);
         inbox = (if \<not> desktop then Inr () else if sc_inboxBroker cfg = None then Inl (Coded ''unauthorized'') else an_inbox an)
     in if \<not> interactive_sender cfg c then inbox
        else if sc_interactiveBroker cfg = None then Inl (Coded ''unauthorized'')
        else (case an_interactive an of Inl e \<Rightarrow> Inl e | Inr _ \<Rightarrow> inbox))"

definition broker_answer :: "answers \<Rightarrow> 'p server \<Rightarrow> outcome \<times> 'p server" where
  "broker_answer an sv = (Done (case an_broker an of Inl e \<Rightarrow> Inl e | Inr j \<Rightarrow> Inr (Object j)), sv)"

definition hello :: json where
  "hello = JObj [(''server'', JStr ''triangle-local-control''), (''protocol_version'', JNum PROTOCOL_VERSION)]"

definition unsupported_cancel :: json where
  "unsupported_cancel = JObj [(''status'', JStr ''unsupported''),
     (''message'', JStr ''Cancellation is not supported for local route messages'')]"

definition status_block_json :: "status_block \<Rightarrow> json" where
  "status_block_json b = JObj [(''enabled'', JBool (sb_enabled b)),
     (''registry'', JObj [(''state'', JStr (sb_state b)), (''sequence'', JNum (sb_sequence b))]),
     (''resolved'', JObj [(''principal'', JNum (int (n_principal (sb_counters b)))), (''id'', JNum (int (n_id (sb_counters b))))]),
     (''errors'', JObj (map (\<lambda>(k, v). (k, JNum (int v))) (n_errors (sb_counters b))))]"

text \<open>The status of the host is the answer of the injected \<open>statusProvider\<close>; the router's block is added unless it has one.\<close>

definition local_status :: "'p server_cfg \<Rightarrow> answers \<Rightarrow> turn_claims \<Rightarrow> 'p server \<Rightarrow> outcome \<times> 'p server" where
  "local_status cfg an c sv =
    (if interactive_sender cfg c then session_status cfg c sv
     else case an_broker an of Inl e \<Rightarrow> (Done (Inl e), sv)
     | Inr base \<Rightarrow>
        (let (block, router) = statusBlock (sc_snapshots cfg) (sc_router cfg) None (sv_router sv);
             shown = put_fields (status_block_json block) (case an_routerError an of None \<Rightarrow> [] | Some e \<Rightarrow> [(''error'', JStr e)]);
             own = obj_get base ''router''
         in (Done (Inr (Object (put_fields base [(''router'', if nullish own then shown else the own)]))), sv\<lparr>sv_router := router\<rparr>)))"

definition begin_method :: "'p server_cfg \<Rightarrow> answers \<Rightarrow> rpc \<Rightarrow> turn_claims \<Rightarrow> 'p server \<Rightarrow> outcome \<times> 'p server" where
  "begin_method cfg an q c =
    (if called q [''send_message''] then send_begin cfg q c
     else if called q [''get_message_status''] then status_begin q c
     else if called q [''list_replies''] then list_replies cfg q c
     else if called q [''consume_reply''] then consume_reply an q c
     else if called q [''ack_notification''] then ack_notification cfg an q c
     else if called q [''reserve_wake_notification''] then reserve_wake cfg an q c
     else if called q [''report_wake_result''] then report_wake cfg an q c
     else if called q [''list_inbox''] then list_inbox cfg an q c
     else if called q [''claim_inbox_message''] then claim_begin q c
     else if called q [''send_reply''] then reply_begin cfg q c
     else if called q [''list_sessions''] then list_sessions cfg an q c
     else if called q [''discover_recipients''] then discover_recipients cfg c
     else if called q [''session_status''] then session_status cfg c
     else if called q [''local_status''] then local_status cfg an c
     else if called q [''cancel_message''] then Pair (Done (Inr (Object unsupported_cancel)))
     else Pair (throws ''method_not_found''))"

definition open_method :: "answers \<Rightarrow> rpc \<Rightarrow> 'p server \<Rightarrow> outcome \<times> 'p server" where
  "open_method an q sv = (if called q [''hello''] then (Done (Inr (Object hello)), sv) else broker_answer an sv)"

definition continue_method :: "'p server_cfg \<Rightarrow> answers \<Rightarrow> rpc \<Rightarrow> turn_claims \<Rightarrow> handling \<Rightarrow> 'p server \<Rightarrow> outcome \<times> 'p server" where
  "continue_method cfg an q c h = (case h of
      Begin \<Rightarrow> begin_method cfg an q c
    | Send_routed p route \<Rightarrow> send_check cfg an c p route
    | Send_reserved p route i \<Rightarrow> send_lookup p route i
    | Send_found p route i existing \<Rightarrow> send_depth cfg c p route i existing
    | Send_measured x \<Rightarrow> send_prepare cfg c x
    | Send_prepared x \<Rightarrow> send_record cfg an c x
    | Send_recorded x v dup \<Rightarrow> send_finish cfg an c x v dup
    | Status_found r \<Rightarrow> status_finish cfg an r
    | Claiming mid claimId \<Rightarrow> claim_finish cfg an c mid claimId
    | Replying r isPinned \<Rightarrow> reply_finish cfg an c r isPinned)"

text \<open>One piece of the request's code: the next stage, or the claims and the result it ends with.\<close>

definition advance :: "'p server_cfg \<Rightarrow> answers \<Rightarrow> rpc \<Rightarrow> stage \<Rightarrow> 'p server \<Rightarrow> (stage + turn_claims option \<times> body result) \<times> 'p server" where
  "advance cfg an q st sv = (case st of
      Arrived \<Rightarrow> ((case authenticate cfg an q of Inl e \<Rightarrow> Inr (None, Inl e) | Inr st' \<Rightarrow> Inl st'), sv)
    | Validating c \<Rightarrow> ((case check_sessions cfg an q c of Inl e \<Rightarrow> Inr (Some c, Inl e) | Inr _ \<Rightarrow> Inl (Handling (Some c) Begin)), sv)
    | Handling claims h \<Rightarrow>
        (case (case claims of None \<Rightarrow> open_method an q sv | Some c \<Rightarrow> continue_method cfg an q c h sv) of
           (Await h', sv') \<Rightarrow> (Inl (Handling claims h'), sv')
         | (Done r, sv') \<Rightarrow> (Inr (claims, r), sv')))"

section \<open>Connections\<close>

record connection =
  cn_ids :: "json list"
  cn_active :: nat

record request =
  rt_conn :: nat
  rt_rpc :: rpc
  rt_stage :: stage

record 'p control =
  ct_server :: "'p server"
  ct_closing :: bool
  ct_conn :: "nat \<Rightarrow> connection"
  ct_rpcs :: "request list"
  ct_sent :: "(nat \<times> turn_claims option \<times> response) list"

definition socket_write :: "nat \<Rightarrow> turn_claims option \<Rightarrow> response \<Rightarrow> 'p control \<Rightarrow> 'p control" where
  "socket_write k claims r ct = ct\<lparr>ct_sent := ct_sent ct @ [(k, claims, r)]\<rparr>"

definition valid_id :: "json \<Rightarrow> bool" where
  "valid_id i = (case i of JStr s \<Rightarrow> s \<noteq> [] \<and> js_length s \<le> MAX_REQUEST_ID_LENGTH | JNum _ \<Rightarrow> True | _ \<Rightarrow> False)"

definition rpc_of :: "json \<Rightarrow> json \<Rightarrow> rpc" where
  "rpc_of msg i = \<lparr>rq_id = i, rq_version = obj_get msg ''protocol_version'', rq_method = text_of (obj_get msg ''method''),
     rq_params = obj_get msg ''params'', rq_credential = obj_get msg ''credential'', rq_senderId = obj_get msg ''senderId''\<rparr>"

definition enter :: "nat \<Rightarrow> rpc \<Rightarrow> 'p control \<Rightarrow> 'p control" where
  "enter k q ct = (let cn = ct_conn ct k in
     ct\<lparr>ct_conn := (ct_conn ct)(k := \<lparr>cn_ids = rq_id q # cn_ids cn, cn_active = cn_active cn + 1\<rparr>),
        ct_rpcs := ct_rpcs ct @ [\<lparr>rt_conn = k, rt_rpc = q, rt_stage = Arrived\<rparr>]\<rparr>)"

text \<open>\<open>onMessage\<close> and the checks of \<open>handleRpc\<close> before the request counts as in flight.\<close>

definition on_message :: "nat \<Rightarrow> json \<Rightarrow> 'p control \<Rightarrow> 'p control" where
  "on_message k msg ct =
    (if ct_closing ct then ct
     else case msg of
       JObj _ \<Rightarrow>
         (let reject = (\<lambda>i code. socket_write k None (createErrorResponse i (Coded code) (obj_get msg ''protocol_version'')) ct);
              cn = ct_conn ct k in
          case obj_get msg ''id'' of None \<Rightarrow> ct
          | Some i \<Rightarrow>
              if \<not> valid_id i then reject JNull ''invalid_request''
              else if i \<in> set (cn_ids cn) then reject i ''invalid_request''
              else if MAX_INFLIGHT_PER_SOCKET \<le> cn_active cn then reject i ''too_many_requests''
              else enter k (rpc_of msg i) ct)
     | _ \<Rightarrow> socket_write k None (createErrorResponse JNull (Coded ''invalid_request'') None) ct)"

text \<open>
  The size check of \<open>encodeFrame\<close>: listings are bounded before and the other
  answers of the journal are short.
\<close>

definition encodes :: "json \<Rightarrow> body \<Rightarrow> bool" where
  "encodes i b = (case b of Object j \<Rightarrow> response_fits i j | Status_of _ j \<Rightarrow> response_fits i j
     | Reply_accepted w dup \<Rightarrow> response_fits i (put_fields (reply_json w) [(''isDuplicate'', JBool dup)]) | _ \<Rightarrow> True)"

definition answer :: "rpc \<Rightarrow> body result \<Rightarrow> response" where
  "answer q r = (case r of
      Inl e \<Rightarrow> createErrorResponse (rq_id q) e (rq_version q)
    | Inr b \<Rightarrow> if encodes (rq_id q) b then Success (rq_id q) b
        else createErrorResponse (rq_id q) (Coded ''payload_too_large'') (rq_version q))"

text \<open>The \<open>finally\<close> block.\<close>

definition leave :: "nat \<Rightarrow> 'p control \<Rightarrow> 'p control" where
  "leave n ct = (let r = ct_rpcs ct ! n; k = rt_conn r; cn = ct_conn ct k in
     ct\<lparr>ct_conn := (ct_conn ct)(k := \<lparr>cn_ids = removeAll (rq_id (rt_rpc r)) (cn_ids cn), cn_active = cn_active cn - 1\<rparr>),
        ct_rpcs := take n (ct_rpcs ct) @ drop (Suc n) (ct_rpcs ct)\<rparr>)"

definition rpc_step :: "'p server_cfg \<Rightarrow> answers \<Rightarrow> nat \<Rightarrow> 'p control \<Rightarrow> 'p control" where
  "rpc_step cfg an n ct = (let r = ct_rpcs ct ! n in
     case advance cfg an (rt_rpc r) (rt_stage r) (ct_server ct) of
       (Inl st, sv) \<Rightarrow> ct\<lparr>ct_server := sv, ct_rpcs := (ct_rpcs ct)[n := r\<lparr>rt_stage := st\<rparr>]\<rparr>
     | (Inr (claims, res), sv) \<Rightarrow> leave n (socket_write (rt_conn r) claims (answer (rt_rpc r) res) (ct\<lparr>ct_server := sv\<rparr>)))"

text \<open>The call of \<open>notifyAdmission\<close> for a job: the dispatcher takes it, or throws and the failure is recorded.\<close>

definition admission_taken :: "admission_job \<Rightarrow> 'p server \<Rightarrow> 'p server" where
  "admission_taken job sv = sv\<lparr>sv_executions := remove1 job (sv_executions sv)\<rparr>"

definition admission_failed :: "int \<Rightarrow> admission_job \<Rightarrow> 'p server \<Rightarrow> 'p server" where
  "admission_failed now job sv = admission_taken job (sv\<lparr>sv_journal :=
     snd (recordExecutionFailure now (aj_messageId job) ''admission_failure'' (Some ''Execution admission failed'') (sv_journal sv))\<rparr>)"

definition close_server :: "'p control \<Rightarrow> 'p control" where
  "close_server ct = ct\<lparr>ct_closing := True\<rparr>"

text \<open>\<open>close\<close> goes on to release the socket once no request and no notification is in flight.\<close>

definition drained :: "'p control \<Rightarrow> bool" where
  "drained ct = (ct_closing ct \<and> ct_rpcs ct = [] \<and> sv_executions (ct_server ct) = [])"

definition new_control :: "'p server \<Rightarrow> 'p control" where
  "new_control sv = \<lparr>ct_server = sv, ct_closing = False, ct_conn = (\<lambda>_. \<lparr>cn_ids = [], cn_active = 0\<rparr>), ct_rpcs = [], ct_sent = []\<rparr>"

end
