(* ===== verification/Journal_Rows.thy ===== *)
theory Journal_Rows
  imports Journal_Window
begin

text \<open>
  Only \<open>recordSend\<close> adds a message to the journal, and the row it adds is that of its
  envelope: after any other call every row is an earlier one in its
  unchanging columns.
\<close>


lemma count_notClosed: "length (j_messages (snd (body s))) = length (j_messages s) \<Longrightarrow>
    length (j_messages (snd (assertNotClosed body s))) = length (j_messages s)"
  by (simp add: assertNotClosed_def)

lemma count_transaction: "(\<And>x s'. body s = (Inr x, s') \<Longrightarrow> length (j_messages s') = length (j_messages s)) \<Longrightarrow>
    length (j_messages (snd (transaction body s))) = length (j_messages s)"
  by (auto simp: transaction_def split: prod.splits sum.splits)

lemma count_execution:
  "length (j_messages (snd (consumeReply now requester mid s))) = length (j_messages s)"
  "length (j_messages (snd (recoverQueued now s))) = length (j_messages s)"
  "length (j_messages (open_recovery now (close_journal s))) = length (j_messages s)"
  "length (j_messages (snd (claimExecution now mid s))) = length (j_messages s)"
  "length (j_messages (snd (completeExecution now mid s))) = length (j_messages s)"
  "length (j_messages (snd (holdExecution now mid reason late s))) = length (j_messages s)"
  "length (j_messages (snd (recordExecutionFailure now mid reason err s))) = length (j_messages s)"
  "length (j_messages (snd (claimInboxMessage E uuid now mid requester sid gen cid lease s))) = length (j_messages s)"
  "length (j_messages (snd (listInbox hmac now requester limit cur s))) = length (j_messages s)"
  unfolding consumeReply_def recoverQueued_def claimExecution_def completeExecution_def holdExecution_def
    recordExecutionFailure_def claimInboxMessage_def listInbox_def open_recovery_def close_journal_def Let_def reap_expired_def
    hold_executing_def
  by (rule count_notClosed, simp split: option.split sum.split | simp)+

lemma count_recordReplySync: "recordReplySync E now e s = (r, s') \<Longrightarrow> j_messages s' = j_messages s"
  by (auto simp: recordReplySync_def assertNotClosed_def split: if_splits option.splits)

lemma count_replies:
  "length (j_messages (snd (recordReply E now e s))) = length (j_messages s)"
  "length (j_messages (snd (completeExecutionWithReply E now1 now2 e s))) = length (j_messages s)"
  "length (j_messages (snd (reconcileMessage E now q s))) = length (j_messages s)"
proof -
  show "length (j_messages (snd (recordReply E now e s))) = length (j_messages s)"
    using count_recordReplySync [of E now e s] by (cases "recordReplySync E now e s") (simp add: recordReply_def)
  have tx: "length (j_messages s') = length (j_messages s)" if "completeExecutionWithReply_tx E now1 now2 e s = (Inr x, s')" for x s'
    using that
  proof (rule completeExecutionWithReply_tx_Inr)
    fix orig s1
    assume "recordReplySync E now1 e s = (Inr x, s1)"
      and s': "s' = (if m_phase orig = Executing then s1\<lparr>j_messages := upd_where (\<lambda>r. m_message_id r = m_message_id orig \<and> m_phase r = Executing)
          (set_phase Completed now2) (j_messages s1)\<rparr> else s1)"
    with count_recordReplySync show "length (j_messages s') = length (j_messages s)" by (simp add: s')
  qed
  show "length (j_messages (snd (completeExecutionWithReply E now1 now2 e s))) = length (j_messages s)"
    unfolding completeExecutionWithReply_def by (rule count_notClosed) (simp add: count_transaction tx)
  have rc: "length (j_messages s') = length (j_messages s)" if "reconcileMessage_tx E now n s = (Inr x, s')" for n x s'
    using that by (auto simp: reconcileMessage_tx_def Let_def split: option.splits sum.splits prod.splits if_splits)
  show "length (j_messages (snd (reconcileMessage E now q s))) = length (j_messages s)"
    unfolding reconcileMessage_def by (rule count_notClosed) (simp add: count_transaction rc split: sum.split)
qed

lemma count_recordInteractiveReply_tx:
  assumes "recordInteractiveReply_tx E C uuid now q s = (Inr x, s')"
  shows "length (j_messages s') = length (j_messages s)"
proof -
  from assms obtain orig pin where orig: "sel m_message_id (ir_messageId q) (j_messages s) = Some orig"
    and own: "m_recipient orig = ir_requester q" "m_recipient_type orig = ''interactive''"
    and pin: "reply_pin_check E C now q orig s = Inr pin" "claim_fence q orig pin = Inr ()"
    by (auto simp: recordInteractiveReply_tx_def split: option.splits if_splits sum.splits)
  note tx = assms [unfolded recordInteractiveReply_tx_def orig option.case own pin sum.case, simplified]
  have fin: "length (j_messages s') = length (j_messages u)" if "finish_reply E q orig pin y d u = (Inr x, s')" for y d u
    using finish_reply_Inr [OF that] by auto
  show ?thesis
  proof (cases "m_phase orig")
    case Completed
    with tx obtain y where "finish_reply E q orig pin y True s = (Inr x, s')"
      by (auto simp: reply_to_completed_def split: option.splits if_splits)
    then show ?thesis by (rule fin)
  next
    case Executing
    show ?thesis
    proof (cases "lease_expired now orig")
      case False
      with tx Executing have "reply_to_executing E uuid now q orig pin s = (Inr x, s')" by simp
      then show ?thesis by (cases rule: reply_to_executing_cases) (auto dest: fin)
    qed (use tx Executing in auto)
  qed (use tx in auto)
qed

lemma count_recordInteractiveReply: "length (j_messages (snd (recordInteractiveReply E C uuid now q s))) = length (j_messages s)"
proof (cases "recordInteractiveReply_tx E C uuid now q s")
  case (Pair r s')
  with count_recordInteractiveReply_tx [of E C uuid now q s] show ?thesis
    by (cases r) (auto simp: recordInteractiveReply_def assertNotClosed_def transaction_def split: reply_outcome.splits)
qed

lemma count_exec: "\<not> is_send k \<Longrightarrow> \<not> is_compact k \<Longrightarrow> length (j_messages (exec E C k s)) = length (j_messages s)"
  using custody_simps [unfolded custody_def]
  by (cases k) (simp_all add: count_execution count_replies count_recordInteractiveReply)

text \<open>The rows after a call: earlier ones in their unchanging columns.\<close>

definition no_new_messages :: "journal \<Rightarrow> journal \<Rightarrow> bool" where
  "no_new_messages s s' \<longleftrightarrow> (\<forall>r' \<in> set (j_messages s'). \<exists>r \<in> set (j_messages s). message_identity r' = message_identity r)"

lemma no_new_messages_refl [simp]: "no_new_messages s s"
  by (auto simp: no_new_messages_def)

lemma no_new_messages_exec: "\<not> is_send k \<Longrightarrow> no_new_messages s (exec E C k s)"
proof (cases "is_compact k")
  case True
  then obtain now ret where "k = CCompact now ret" by (cases k) auto
  with exec_refines [of s E C k] show ?thesis
    by (auto simp: no_new_messages_def compact_def assertNotClosed_def del_where_def Let_def split: if_splits)
next
  case False
  assume k: "\<not> is_send k"
  from exec_keeps [OF False] have "custody_keep (custody s) (custody (exec E C k s))" .
  then have "list_all2 evolves (j_messages s) (j_messages (exec E C k s))"
    using count_exec [OF k False, of E C s] by (cases rule: custody_keep.cases) (auto simp: custody_def)
  then show ?thesis using list_all2_memD2 unfolding no_new_messages_def evolves_def by fastforce
qed

text \<open>
  A send adds at most the row of its envelope; if it succeeds, the view it returns
  is that of a stored row with its message id, which for a duplicate was there before.
\<close>

lemma recordSend_outcome:
  assumes "recordSend E C clock e opts s = (Inr (v, d), s')"
  obtains (new) "\<not> d" "j_messages s' = j_messages s @ [admitted_row E (opt_or (so_now opts) clock) e opts]"
      "v = mapMessageRow (admitted_row E (opt_or (so_now opts) clock) e opts)"
  | (duplicate) r where "d" "s' = s" "r \<in> set (j_messages s)" "v = mapMessageRow r" "m_message_id r = e_messageId e"
      "m_recipient_type r = send_recipient_type e opts"
proof (cases "sel m_message_id (e_messageId e) (j_messages s)")
  case None
  have "recordSend_tx E C clock e opts s = (Inr (v, d), s')" using recordSend_Inr [OF assms] by simp
  from recordSend_tx_fresh [OF this None] show ?thesis by (intro new) simp_all
next
  case (Some r)
  with recordSend_Inr [OF assms] have "d" "s' = s" "v = mapMessageRow r" "m_recipient_type r = send_recipient_type e opts"
    by (auto simp: recordSend_tx_def split: if_splits)
  with sel_SomeD [OF Some] show ?thesis by (intro duplicate) auto
qed

lemma recordSend_rows:
  assumes "r' \<in> set (j_messages (snd (recordSend E C clock e opts s)))"
  shows "r' \<in> set (j_messages s) \<or> m_sender r' = e_sender e \<and> m_recipient r' = e_recipient e"
proof (cases "recordSend E C clock e opts s")
  case (Pair x s')
  show ?thesis
  proof (cases x)
    case (Inl err)
    with Pair recordSend_fails_same [of E C clock e opts s err] assms show ?thesis by simp
  next
    case (Inr y)
    with Pair have "recordSend E C clock e opts s = (Inr (fst y, snd y), s')" by simp
    then show ?thesis
      by (cases rule: recordSend_outcome) (use assms Pair in \<open>auto simp: admitted_row_def new_message_row_def\<close>)
  qed
qed

end
