(* ===== verification/Server_Guarantees.thy ===== *)
theory Server_Guarantees
  imports Control_Server Journal_Rows Journal_Delivery
begin

text \<open>
  What the control server guarantees over all interleavings of requests, of the
  notifications of admitted jobs, of changes of the access list, and of the calls
  that the other clients of the journal make: it admits messages only as
  their authenticated sender and as permitted, it tells a caller only of its own
  messages, and it answers every request once within the limits of a connection.
\<close>

section \<open>Runs\<close>

abbreviation on_server :: "('p server \<Rightarrow> 'p server) \<Rightarrow> 'p control \<Rightarrow> 'p control" where
  "on_server f ct \<equiv> ct\<lparr>ct_server := f (ct_server ct)\<rparr>"

text \<open>The last argument collects the access lists the server had.\<close>

inductive control_run :: "'p server_cfg \<Rightarrow> 'p control \<Rightarrow> 'p control \<Rightarrow> access list \<Rightarrow> bool" for cfg ct0 where
  initial: "control_run cfg ct0 ct0 [sv_access (ct_server ct0)]"
| arrives: "control_run cfg ct0 ct accs \<Longrightarrow> control_run cfg ct0 (on_message k msg ct) accs"
| steps: "control_run cfg ct0 ct accs \<Longrightarrow> n < length (ct_rpcs ct) \<Longrightarrow> control_run cfg ct0 (rpc_step cfg an n ct) accs"
| taken: "control_run cfg ct0 ct accs \<Longrightarrow> job \<in> set (sv_executions (ct_server ct)) \<Longrightarrow>
    control_run cfg ct0 (on_server (admission_taken job) ct) accs"
| failed: "control_run cfg ct0 ct accs \<Longrightarrow> job \<in> set (sv_executions (ct_server ct)) \<Longrightarrow>
    control_run cfg ct0 (on_server (admission_failed now job) ct) accs"
| access_changes: "control_run cfg ct0 ct accs \<Longrightarrow> control_run cfg ct0 (on_server (sv_access_update (\<lambda>_. a)) ct) (a # accs)"
| elsewhere: "control_run cfg ct0 ct accs \<Longrightarrow> \<not> is_send k \<Longrightarrow>
    control_run cfg ct0 (on_server (sv_journal_update (exec (sc_env cfg) (sc_journal cfg) k)) ct) accs"
| closes: "control_run cfg ct0 ct accs \<Longrightarrow> control_run cfg ct0 (close_server ct) accs"

section \<open>What one piece of a request does to the journal\<close>

text \<open>What an answer shows is the caller's own: its messages, the replies to it, its inbox and its session.\<close>

definition visible :: "turn_claims \<Rightarrow> body \<Rightarrow> bool" where
  "visible c b = (case b of
      Status_of r j \<Rightarrow> party (tc_senderId c) r
    | Reply_list ws ls \<Rightarrow> list_all (\<lambda>w. w_recipient w = tc_senderId c) ws
    | Inbox_page vs next j \<Rightarrow> list_all (\<lambda>v. v_recipient v = tc_senderId c) vs
    | Session_status s sid gen n \<Rightarrow> s = tc_senderId c
    | _ \<Rightarrow> True)"

text \<open>
  The claims a request carries were accepted by the validator, and from the
  check on its recipient was permitted by an access list the server had and is in
  the scope of the credential.
\<close>

definition accepted :: "'p server_cfg \<Rightarrow> turn_claims \<Rightarrow> bool" where
  "accepted cfg c \<longleftrightarrow> (\<exists>now cred sender. validate (sc_cred cfg) (sc_secret cfg) now cred sender = Inr c)"

lemma acceptedI: "validate (sc_cred cfg) (sc_secret cfg) now cred sender = Inr c \<Longrightarrow> accepted cfg c"
  unfolding accepted_def by blast

definition permitted :: "access list \<Rightarrow> turn_claims \<Rightarrow> string \<Rightarrow> bool" where
  "permitted accs c r \<longleftrightarrow> (\<exists>a \<in> set accs. ac_allowed a (tc_senderId c) r) \<and> in_scope c r"

definition handling_permitted :: "access list \<Rightarrow> turn_claims \<Rightarrow> handling \<Rightarrow> bool" where
  "handling_permitted accs c h = (case h of
      Status_found r \<Rightarrow> party (tc_senderId c) r
    |
      Send_reserved p route i \<Rightarrow> permitted accs c (sr_resolvedTo route)
    | Send_found p route i existing \<Rightarrow> permitted accs c (sr_resolvedTo route)
    | Send_measured x \<Rightarrow> permitted accs c (sr_resolvedTo (sx_route x))
    | Send_prepared x \<Rightarrow> permitted accs c (sr_resolvedTo (sx_route x))
    | _ \<Rightarrow> True)"

definition stage_permitted :: "'p server_cfg \<Rightarrow> access list \<Rightarrow> stage \<Rightarrow> bool" where
  "stage_permitted cfg accs st = (case st of
      Arrived \<Rightarrow> True
    | Validating c \<Rightarrow> accepted cfg c
    | Handling claims h \<Rightarrow> (case claims of None \<Rightarrow> True | Some c \<Rightarrow> accepted cfg c \<and> handling_permitted accs c h))"

text \<open>The origin of a message row.\<close>

definition authentic :: "'p server_cfg \<Rightarrow> access list \<Rightarrow> message_row \<Rightarrow> bool" where
  "authentic cfg accs r \<longleftrightarrow> (\<exists>c. accepted cfg c \<and> m_sender r = tc_senderId c \<and> permitted accs c (m_recipient r))"

lemma authentic_mono: "authentic cfg accs r \<Longrightarrow> set accs \<subseteq> set accs' \<Longrightarrow> authentic cfg accs' r"
  by (auto simp: authentic_def permitted_def)

lemma authentic_identity: "message_identity r' = message_identity r \<Longrightarrow> authentic cfg accs r' = authentic cfg accs r"
  by (simp add: authentic_def message_identity_def)

lemma stage_permitted_mono: "stage_permitted cfg accs st \<Longrightarrow> set accs \<subseteq> set accs' \<Longrightarrow> stage_permitted cfg accs' st"
  by (auto simp: stage_permitted_def handling_permitted_def permitted_def split: stage.splits option.splits handling.splits)

text \<open>One piece of a handler under claims \<open>c\<close>, from \<open>sv\<close>.\<close>

definition piece_ok :: "'p server_cfg \<Rightarrow> access list \<Rightarrow> turn_claims \<Rightarrow> 'p server \<Rightarrow> outcome \<times> 'p server \<Rightarrow> bool" where
  "piece_ok cfg accs c sv p \<longleftrightarrow>
    (\<forall>r' \<in> set (j_messages (sv_journal (snd p))).
       (\<exists>r \<in> set (j_messages (sv_journal sv)). message_identity r' = message_identity r) \<or> authentic cfg accs r') \<and>
    sv_access (snd p) = sv_access sv \<and>
    (case fst p of Await h \<Rightarrow> handling_permitted accs c h | Done r \<Rightarrow> (\<forall>b. r = Inr b \<longrightarrow> visible c b))"

lemma piece_done:
  "no_new_messages (sv_journal sv) (sv_journal sv') \<Longrightarrow> sv_access sv' = sv_access sv \<Longrightarrow> (\<And>b. r = Inr b \<Longrightarrow> visible c b) \<Longrightarrow>
    piece_ok cfg accs c sv (Done r, sv')"
  by (auto simp: piece_ok_def no_new_messages_def)

lemma piece_await:
  "sv_journal sv' = sv_journal sv \<Longrightarrow> sv_access sv' = sv_access sv \<Longrightarrow> handling_permitted accs c h \<Longrightarrow>
    piece_ok cfg accs c sv (Await h, sv')"
  by (auto simp: piece_ok_def)

lemmas piece_intros = piece_done piece_await

lemma piece_journal_answer:
  assumes "no_new_messages (sv_journal sv) (snd (call (sv_journal sv)))" "\<And>x. fst (call (sv_journal sv)) = Inr x \<Longrightarrow> visible c (f x)"
  shows "piece_ok cfg accs c sv (journal_answer f call sv)"
  using assms by (auto simp: journal_answer_def intro!: piece_done split: prod.splits sum.splits)

lemma no_new_messages_calls:
  "no_new_messages s (snd (consumeReply now requester mid s))"
  "no_new_messages s (snd (ackInteractiveWake now target wid gen sid bid s))"
  "no_new_messages s (snd (ackWake now requester wid gen s))"
  "no_new_messages s (snd (reserveInteractiveWake E now target rid sid gen bid s))"
  "no_new_messages s (snd (reportInteractiveWakeResult now target wid gen sid bid res s))"
  "no_new_messages s (snd (listInbox hmac now requester limit cur s))"
  "no_new_messages s (snd (claimInboxMessage E uuid now mid requester sid gen cid lease s))"
  "no_new_messages s (snd (recordInteractiveReply E C uuid now q s))"
  "no_new_messages s (snd (recordExecutionFailure now mid reason err s))"
  using no_new_messages_exec [of "CConsume now requester mid" s] no_new_messages_exec [of "CAck now target wid gen sid bid" s]
    no_new_messages_exec [of "CAckWake now requester wid gen" s] no_new_messages_exec [of "CReserve now target rid sid gen bid" s E]
    no_new_messages_exec [of "CReport now target wid gen sid bid res" s] no_new_messages_exec [of "CListInbox hmac now requester limit cur" s]
    no_new_messages_exec [of "CClaimInbox uuid now mid requester sid gen cid lease" s E]
    no_new_messages_exec [of "CInteractiveReply uuid now q" s E C] no_new_messages_exec [of "CFailure now mid reason err" s]
  by simp_all

subsection \<open>Requests that only read or touch the caller's rows\<close>

lemma listReplies_own: "fst (listReplies requester rid irt limit cur s) = Inr rs \<Longrightarrow> list_all (\<lambda>w. w_recipient w = requester) (map fst rs)"
  by (auto simp: listReplies_def assertNotClosed_def list_all_iff mapReplyRow_def split: if_splits dest!: in_set_takeD)

lemma page_loop_subset: "set (fst (page_loop m b [] rows)) \<subseteq> set rows"
  using page_loop_split [of rows m b "[]"] by auto

lemma listInbox_own:
  assumes "fst (listInbox hmac now requester limit cur s) = Inr (items, next)"
  shows "list_all (\<lambda>v. v_recipient v = requester) items"
proof -
  from assms obtain m pos rows where "items = map mapMessageRow (fst (page_loop m 64 [] (take (m + 1) (inbox_rows requester pos rows))))"
    by (auto simp: listInbox_def assertNotClosed_def Let_def split: if_splits sum.splits)
  moreover have "m_recipient r = requester" if "r \<in> set (take (m + 1) (inbox_rows requester pos rows))" for r
    using in_set_takeD [OF that] by (simp add: inbox_rows_def)
  ultimately show ?thesis
    using page_loop_subset [of m 64 "take (m + 1) (inbox_rows requester pos rows)"]
    by (auto simp: list_all_iff mapMessageRow_def simp del: take_Suc)
qed

lemma piece_status_begin: "piece_ok cfg accs c sv (status_begin q c sv)"
  by (auto simp: status_begin_def handling_permitted_def intro!: piece_intros split: sum.splits option.splits)

lemma piece_status_finish: "handling_permitted accs c (Status_found r) \<Longrightarrow> piece_ok cfg accs c sv (status_finish cfg an r sv)"
  unfolding status_finish_def Let_def
  by (auto simp: handling_permitted_def visible_def intro!: piece_done split: sum.splits prod.splits)

lemma piece_list_replies: "piece_ok cfg accs c sv (list_replies cfg q c sv)"
  by (auto simp: list_replies_def visible_def intro!: piece_done split: sum.splits dest!: listReplies_own)

lemma piece_consume_reply: "piece_ok cfg accs c sv (consume_reply an q c sv)"
  by (auto simp: consume_reply_def visible_def no_new_messages_calls intro!: piece_done piece_journal_answer split: sum.splits)

lemma piece_ack: "piece_ok cfg accs c sv (ack_notification cfg an q c sv)"
  by (auto simp: ack_notification_def visible_def no_new_messages_calls intro!: piece_done piece_journal_answer
    split: sum.splits option.splits json.splits prod.splits)

lemma piece_reserve_wake: "piece_ok cfg accs c sv (reserve_wake cfg an q c sv)"
  by (auto simp: reserve_wake_def visible_def no_new_messages_calls intro!: piece_done piece_journal_answer
    split: sum.splits option.splits prod.splits)

lemma piece_report_wake: "piece_ok cfg accs c sv (report_wake cfg an q c sv)"
  by (auto simp: report_wake_def visible_def no_new_messages_calls intro!: piece_done piece_journal_answer
    split: sum.splits option.splits prod.splits)

lemma piece_list_inbox: "piece_ok cfg accs c sv (list_inbox cfg an q c sv)"
  unfolding list_inbox_def Let_def
  by (auto simp: inbox_page_def visible_def prod.case_eq_if no_new_messages_calls intro!: piece_done split: sum.splits dest: listInbox_own)

lemma piece_claim_begin: "piece_ok cfg accs c sv (claim_begin q c sv)"
  by (auto simp: claim_begin_def handling_permitted_def intro!: piece_intros split: sum.splits)

lemma piece_claim_finish: "piece_ok cfg accs c sv (claim_finish cfg an c mid cid sv)"
  by (auto simp: claim_finish_def visible_def prod.case_eq_if no_new_messages_calls intro!: piece_done split: sum.splits option.splits)

lemma piece_reply_begin: "piece_ok cfg accs c sv (reply_begin cfg q c sv)"
  unfolding reply_begin_def
  by (auto simp: handling_permitted_def intro!: piece_intros split: sum.splits option.splits)

lemma piece_reply_finish: "piece_ok cfg accs c sv (reply_finish cfg an c r isPinned sv)"
  by (auto simp: reply_finish_def visible_def no_new_messages_calls intro!: piece_done piece_journal_answer split: sum.splits)

lemma piece_discover: "piece_ok cfg accs c sv (discover_recipients cfg c sv)"
  unfolding discover_recipients_def Let_def
  by (auto simp: visible_def intro!: piece_done split: prod.splits)

lemma piece_session_status: "piece_ok cfg accs c sv (session_status cfg c sv)"
  by (auto simp: session_status_def visible_def Let_def intro!: piece_done split: sum.splits)

lemma piece_list_sessions: "piece_ok cfg accs c sv (list_sessions cfg an q c sv)"
  unfolding list_sessions_def Let_def
  by (auto simp: visible_def intro!: piece_done split: prod.splits sum.splits)

lemma piece_broker: "piece_ok cfg accs c sv (broker_answer an sv)"
  by (auto simp: broker_answer_def visible_def intro!: piece_done split: sum.splits)

subsection \<open>Sending\<close>

lemma give_back_simps [simp]: "sv_journal (give_back c i sv) = sv_journal sv" "sv_access (give_back c i sv) = sv_access sv"
  by (simp_all add: give_back_def split: option.splits)

lemma piece_refused: "no_new_messages (sv_journal sv) (sv_journal sv') \<Longrightarrow> sv_access sv' = sv_access sv \<Longrightarrow>
    piece_ok cfg accs c sv (refused c x e sv')"
  by (auto simp: refused_def intro!: piece_done)

lemma piece_send_begin: "piece_ok cfg accs c sv (send_begin cfg q c sv)"
  unfolding send_begin_def Let_def
  by (auto simp: handling_permitted_def intro!: piece_intros split: sum.splits prod.splits send_outcome.splits)

lemma piece_send_check: "sv_access sv \<in> set accs \<Longrightarrow> piece_ok cfg accs c sv (send_check cfg an c p route sv)"
  by (auto simp: send_check_def handling_permitted_def permitted_def intro!: piece_intros split: option.splits prod.splits sum.splits)

lemma piece_send_lookup:
  "handling_permitted accs c (Send_reserved p route i) \<Longrightarrow> piece_ok cfg accs c sv (send_lookup p route i sv)"
  by (auto simp: send_lookup_def handling_permitted_def intro!: piece_intros split: sum.splits)

lemma piece_send_depth:
  "handling_permitted accs c (Send_found p route i existing) \<Longrightarrow> piece_ok cfg accs c sv (send_depth cfg c p route i existing sv)"
  by (auto simp: send_depth_def handling_permitted_def Let_def intro!: piece_intros split: sum.splits option.splits prod.splits)

lemma piece_send_prepare:
  "handling_permitted accs c (Send_measured x) \<Longrightarrow> piece_ok cfg accs c sv (send_prepare cfg c x sv)"
  by (auto simp: send_prepare_def handling_permitted_def intro!: piece_await piece_refused split: sum.splits)

lemma piece_send_record:
  assumes acc: "accepted cfg c" and perm: "handling_permitted accs c (Send_prepared x)"
  shows "piece_ok cfg accs c sv (send_record cfg an c x sv)"
proof (cases "if sc_replyIdentity cfg \<and> (sx_existing x = None \<or> sx_replyRoute x \<noteq> None) then an_context an else Inr None")
  case (Inl e)
  then show ?thesis by (simp add: send_record_def piece_refused)
next
  case (Inr ctx)
  let ?e = "send_envelope cfg c x ctx"
  obtain r j where call: "recordSend (sc_env cfg) (sc_journal cfg) (an_now an) ?e (reply_options c ctx) (sv_journal sv) = (r, j)"
    by force
  with Inr have rec: "send_record cfg an c x sv = (case r of Inl e \<Rightarrow> refused c x e (sv\<lparr>sv_journal := j\<rparr>)
      | Inr (view, dup) \<Rightarrow> (Await (Send_recorded x view dup), sv\<lparr>sv_journal := j\<rparr>))"
    by (simp add: send_record_def Let_def)
  have env: "e_sender ?e = tc_senderId c" "e_recipient ?e = sr_resolvedTo (sx_route x)" by (simp_all add: send_envelope_def Let_def)
  show ?thesis
  proof (cases r)
    case (Inl e)
    with recordSend_fails_same [of "sc_env cfg" "sc_journal cfg" "an_now an" ?e "reply_options c ctx" "sv_journal sv" e] call
    show ?thesis by (simp add: rec piece_refused)
  next
    case (Inr y)
    have "authentic cfg accs r'" if "m_sender r' = e_sender ?e \<and> m_recipient r' = e_recipient ?e" for r'
      using that acc perm by (auto simp: authentic_def env handling_permitted_def)
    then show ?thesis
      using recordSend_rows [of _ "sc_env cfg" "sc_journal cfg" "an_now an" ?e "reply_options c ctx" "sv_journal sv"] call Inr
      by (auto simp: rec piece_ok_def handling_permitted_def split: prod.splits)
  qed
qed

lemma piece_send_finish: "piece_ok cfg accs c sv (send_finish cfg an c x v dup sv)"
  unfolding send_finish_def Let_def
  by (auto simp: visible_def intro!: piece_done split: prod.splits sum.splits)

lemmas piece_simps = piece_send_begin piece_status_begin piece_list_replies piece_consume_reply piece_ack piece_reserve_wake
  piece_report_wake piece_list_inbox piece_claim_begin piece_reply_begin piece_list_sessions piece_discover piece_session_status
  piece_broker piece_status_finish piece_claim_finish piece_reply_finish piece_send_check piece_send_lookup piece_send_depth
  piece_send_prepare piece_send_record piece_send_finish

lemma piece_constant: "piece_ok cfg accs c sv (Done (Inr (Object j)), sv)" "piece_ok cfg accs c sv (Done (Inl e), sv)"
  by (auto simp: visible_def intro!: piece_done)

lemma piece_local_status: "piece_ok cfg accs c sv (local_status cfg an c sv)"
  unfolding local_status_def Let_def
  by (auto simp: piece_simps visible_def prod.case_eq_if intro!: piece_done split: sum.splits)

lemma piece_begin: "piece_ok cfg accs c sv (begin_method cfg an q c sv)"
  unfolding begin_method_def by (simp add: piece_simps piece_local_status piece_constant)

lemma piece_continue:
  assumes "accepted cfg c" "handling_permitted accs c h" "sv_access sv \<in> set accs"
  shows "piece_ok cfg accs c sv (continue_method cfg an q c h sv)"
  using assms by (cases h) (simp_all add: continue_method_def piece_begin piece_simps)

lemma open_method_state: "snd (open_method an q sv) = sv \<and> (\<exists>r. fst (open_method an q sv) = Done r \<and> (\<forall>b. r = Inr b \<longrightarrow> (\<exists>j. b = Object j)))"
  by (auto simp: open_method_def broker_answer_def split: sum.splits)

section \<open>Invariants of the runs\<close>

definition shown :: "'p server_cfg \<Rightarrow> turn_claims option \<Rightarrow> body \<Rightarrow> bool" where
  "shown cfg claims b = (case claims of None \<Rightarrow> (\<exists>j. b = Object j) | Some c \<Rightarrow> accepted cfg c \<and> visible c b)"

definition rows_from :: "'p server_cfg \<Rightarrow> access list \<Rightarrow> journal \<Rightarrow> journal \<Rightarrow> bool" where
  "rows_from cfg accs s s' \<longleftrightarrow> (\<forall>r' \<in> set (j_messages s').
     (\<exists>r \<in> set (j_messages s). message_identity r' = message_identity r) \<or> authentic cfg accs r')"

lemma rows_from_refl [simp]: "rows_from cfg accs s s"
  by (auto simp: rows_from_def)

lemma advance_ok:
  assumes st: "stage_permitted cfg accs st" and acc: "sv_access sv \<in> set accs" and adv: "advance cfg an q st sv = (out, sv')"
  shows "rows_from cfg accs (sv_journal sv) (sv_journal sv') \<and> sv_access sv' = sv_access sv \<and>
    (case out of Inl st' \<Rightarrow> stage_permitted cfg accs st' | Inr (claims, r) \<Rightarrow> (\<forall>b. r = Inr b \<longrightarrow> shown cfg claims b))"
proof (cases st)
  case Arrived
  have "stage_permitted cfg accs st'" if "authenticate cfg an q = Inr st'" for st'
    using that by (auto simp: authenticate_def stage_permitted_def intro: acceptedI split: if_splits json.splits option.splits sum.splits)
  with adv Arrived show ?thesis by (auto simp: advance_def split: sum.splits)
next
  case (Validating c)
  with adv st show ?thesis by (auto simp: advance_def stage_permitted_def handling_permitted_def split: sum.splits)
next
  case (Handling claims h)
  show ?thesis
  proof (cases claims)
    case None
    with adv Handling open_method_state [of an q sv] show ?thesis
      by (auto simp: advance_def shown_def split: prod.splits outcome.splits)
  next
    case (Some c)
    with st Handling have c: "accepted cfg c" "handling_permitted accs c h" by (simp_all add: stage_permitted_def)
    from piece_continue [OF this acc] have "piece_ok cfg accs c sv (continue_method cfg an q c h sv)" .
    with adv Handling Some c show ?thesis
      by (auto simp: advance_def piece_ok_def rows_from_def shown_def stage_permitted_def split: prod.splits outcome.splits)
  qed
qed

definition control_ok :: "'p server_cfg \<Rightarrow> access list \<Rightarrow> 'p control \<Rightarrow> bool" where
  "control_ok cfg accs ct \<longleftrightarrow> sv_access (ct_server ct) \<in> set accs \<and>
    (\<forall>r \<in> set (ct_rpcs ct). stage_permitted cfg accs (rt_stage r)) \<and>
    (\<forall>r \<in> set (j_messages (sv_journal (ct_server ct))). authentic cfg accs r) \<and>
    (\<forall>(k, claims, resp) \<in> set (ct_sent ct). \<forall>i b. resp = Success i b \<longrightarrow> shown cfg claims b)"

lemma control_ok_rows:
  assumes "control_ok cfg accs ct" "rows_from cfg accs (sv_journal (ct_server ct)) (sv_journal sv)" "sv_access sv = sv_access (ct_server ct)"
  shows "control_ok cfg accs (ct\<lparr>ct_server := sv\<rparr>)"
proof -
  have "authentic cfg accs r'" if "r' \<in> set (j_messages (sv_journal sv))" for r'
    using that assms(1,2) authentic_identity [of r' _ cfg accs] unfolding control_ok_def rows_from_def by blast
  then show ?thesis using assms(1,3) by (simp add: control_ok_def)
qed

lemma rows_from_no_new: "no_new_messages s s' \<Longrightarrow> rows_from cfg accs s s'"
  by (auto simp: no_new_messages_def rows_from_def)

lemma control_ok_write:
  "control_ok cfg accs ct \<Longrightarrow> (\<And>i b. r = Success i b \<Longrightarrow> shown cfg claims b) \<Longrightarrow> control_ok cfg accs (socket_write k claims r ct)"
  by (auto simp: control_ok_def socket_write_def)

lemma error_not_success [simp]: "createErrorResponse i e v \<noteq> Success j b"
  by (simp add: createErrorResponse_def)

lemma answer_Success: "answer q r = Success i b \<Longrightarrow> r = Inr b"
  by (auto simp: answer_def split: sum.splits if_splits)

lemma control_ok_on_message: "control_ok cfg accs ct \<Longrightarrow> control_ok cfg accs (on_message k msg ct)"
  by (auto simp: on_message_def Let_def enter_def intro!: control_ok_write split: json.splits option.splits)
    (auto simp: control_ok_def stage_permitted_def)

lemma control_ok_leave: "control_ok cfg accs ct \<Longrightarrow> control_ok cfg accs (leave n ct)"
  by (auto simp: control_ok_def leave_def Let_def dest: in_set_takeD in_set_dropD)

lemma control_ok_step:
  assumes ok: "control_ok cfg accs ct" and n: "n < length (ct_rpcs ct)"
  shows "control_ok cfg accs (rpc_step cfg an n ct)"
proof -
  let ?r = "ct_rpcs ct ! n"
  obtain out sv where adv: "advance cfg an (rt_rpc ?r) (rt_stage ?r) (ct_server ct) = (out, sv)" by force
  have st: "stage_permitted cfg accs (rt_stage ?r)" "sv_access (ct_server ct) \<in> set accs"
    using ok n by (auto simp: control_ok_def)
  note a = advance_ok [OF st adv]
  then have sv: "control_ok cfg accs (ct\<lparr>ct_server := sv\<rparr>)" using control_ok_rows [OF ok] by simp
  show ?thesis
  proof (cases out)
    case (Inl st')
    with sv a have "control_ok cfg accs (ct\<lparr>ct_server := sv, ct_rpcs := (ct_rpcs ct)[n := ?r\<lparr>rt_stage := st'\<rparr>]\<rparr>)"
      by (auto simp: control_ok_def dest: set_update_subset_insert [THEN subsetD])
    with adv Inl show ?thesis by (simp add: rpc_step_def Let_def)
  next
    case (Inr p)
    with a have "control_ok cfg accs (leave n (socket_write (rt_conn ?r) (fst p) (answer (rt_rpc ?r) (snd p)) (ct\<lparr>ct_server := sv\<rparr>)))"
      by (intro control_ok_leave control_ok_write sv) (auto dest: answer_Success split: prod.splits)
    with adv Inr show ?thesis by (simp add: rpc_step_def Let_def prod.case_eq_if)
  qed
qed

lemma control_ok_access:
  "control_ok cfg accs ct \<Longrightarrow> control_ok cfg (a # accs) (on_server (sv_access_update (\<lambda>_. a)) ct)"
  using stage_permitted_mono [of cfg accs _ "a # accs"] authentic_mono [of cfg accs _ "a # accs"]
  by (auto simp: control_ok_def)

lemma control_run_ok:
  assumes "control_run cfg ct0 ct accs" "control_ok cfg [sv_access (ct_server ct0)] ct0"
  shows "control_ok cfg accs ct"
  using assms
proof (induction rule: control_run.induct)
  case (taken ct accs job)
  then show ?case by (auto simp: admission_taken_def intro!: control_ok_rows)
next
  case (failed ct accs job now)
  then show ?case by (auto simp: admission_taken_def admission_failed_def no_new_messages_calls intro!: control_ok_rows rows_from_no_new)
next
  case (elsewhere ct accs k)
  then show ?case by (auto intro!: control_ok_rows rows_from_no_new no_new_messages_exec)
next
  case (closes ct accs)
  then show ?case by (auto simp: control_ok_def close_server_def)
qed (simp_all add: control_ok_on_message control_ok_step control_ok_access)

section \<open>Connections\<close>

abbreviation request_key :: "request \<Rightarrow> nat \<times> json" where
  "request_key r \<equiv> (rt_conn r, rq_id (rt_rpc r))"

definition in_flight :: "nat \<Rightarrow> 'p control \<Rightarrow> json list" where
  "in_flight k ct = map (\<lambda>r. rq_id (rt_rpc r)) (filter (\<lambda>r. rt_conn r = k) (ct_rpcs ct))"

text \<open>The bookkeeping of a connection is exact, and its limits hold.\<close>

definition connections_ok :: "'p control \<Rightarrow> bool" where
  "connections_ok ct \<longleftrightarrow> (\<forall>k. distinct (in_flight k ct) \<and> set (cn_ids (ct_conn ct k)) = set (in_flight k ct) \<and>
     cn_active (ct_conn ct k) = length (in_flight k ct) \<and> length (in_flight k ct) \<le> MAX_INFLIGHT_PER_SOCKET \<and>
     list_all valid_id (in_flight k ct))"

lemma in_flight_keys: "in_flight k ct = map snd (filter (\<lambda>p. fst p = k) (map request_key (ct_rpcs ct)))"
  by (simp add: in_flight_def filter_map comp_def)

lemma connections_ok_cong:
  assumes "connections_ok ct" "ct_conn ct' = ct_conn ct" "map request_key (ct_rpcs ct') = map request_key (ct_rpcs ct)"
  shows "connections_ok ct'"
  using assms(1) unfolding connections_ok_def in_flight_keys assms(2,3) .

lemma connections_ok_enter:
  assumes "connections_ok ct" "valid_id (rq_id q)" "rq_id q \<notin> set (cn_ids (ct_conn ct k))" "cn_active (ct_conn ct k) < MAX_INFLIGHT_PER_SOCKET"
  shows "connections_ok (enter k q ct)"
proof -
  have f: "in_flight j (enter k q ct) = in_flight j ct @ (if j = k then [rq_id q] else [])" for j
    by (simp add: in_flight_def enter_def Let_def)
  show ?thesis using assms unfolding connections_ok_def f by (auto simp: enter_def Let_def)
qed

lemma connections_ok_on_message: "connections_ok ct \<Longrightarrow> connections_ok (on_message k msg ct)"
proof -
  assume ok: "connections_ok ct"
  have w: "connections_ok (socket_write k' cl r ct)" for k' cl r
    using ok by (rule connections_ok_cong) (simp_all add: socket_write_def)
  show ?thesis
    using ok by (auto simp: on_message_def Let_def w rpc_of_def intro!: connections_ok_enter split: json.splits option.splits)
qed

lemma connections_ok_leave:
  assumes ok: "connections_ok ct" and n: "n < length (ct_rpcs ct)"
  shows "connections_ok (leave n ct)" "request_key (ct_rpcs ct ! n) \<notin> request_key ` set (ct_rpcs (leave n ct))"
proof -
  let ?r = "ct_rpcs ct ! n"
  define xs ys where "xs = take n (ct_rpcs ct)" and "ys = drop (Suc n) (ct_rpcs ct)"
  have split: "ct_rpcs ct = xs @ ?r # ys" using id_take_nth_drop [OF n] by (simp add: xs_def ys_def)
  have l: "ct_rpcs (leave n ct) = xs @ ys" by (simp add: leave_def Let_def xs_def ys_def)
  let ?ids = "\<lambda>k zs. map (\<lambda>r. rq_id (rt_rpc r)) (filter (\<lambda>r. rt_conn r = k) zs)"
  have f: "in_flight k ct = ?ids k xs @ (if k = rt_conn ?r then [rq_id (rt_rpc ?r)] else []) @ ?ids k ys" for k
    unfolding in_flight_def by (subst split) simp
  have g: "in_flight k (leave n ct) = ?ids k xs @ ?ids k ys" for k by (simp add: in_flight_def l)
  have d: "distinct (in_flight k ct)" "set (cn_ids (ct_conn ct k)) = set (in_flight k ct)"
    "cn_active (ct_conn ct k) = length (in_flight k ct)" "length (in_flight k ct) \<le> MAX_INFLIGHT_PER_SOCKET" "list_all valid_id (in_flight k ct)" for k
    using ok by (simp_all add: connections_ok_def)
  have notin: "rq_id (rt_rpc ?r) \<notin> set (in_flight (rt_conn ?r) (leave n ct))"
    using d(1) [of "rt_conn ?r"] unfolding f g by auto
  show "connections_ok (leave n ct)"
    unfolding connections_ok_def
  proof (intro allI)
    fix k
    show "distinct (in_flight k (leave n ct)) \<and> set (cn_ids (ct_conn (leave n ct) k)) = set (in_flight k (leave n ct)) \<and>
      cn_active (ct_conn (leave n ct) k) = length (in_flight k (leave n ct)) \<and> length (in_flight k (leave n ct)) \<le> MAX_INFLIGHT_PER_SOCKET \<and>
      list_all valid_id (in_flight k (leave n ct))"
    proof (cases "k = rt_conn ?r")
      case True
      then show ?thesis using d [of k] notin unfolding f g by (auto simp: leave_def Let_def)
    next
      case False
      then have "ct_conn (leave n ct) k = ct_conn ct k" "in_flight k (leave n ct) = in_flight k ct"
        unfolding f g by (simp_all add: leave_def Let_def)
      with d [of k] show ?thesis by simp
    qed
  qed
  show "request_key ?r \<notin> request_key ` set (ct_rpcs (leave n ct))"
    using notin by (auto simp: in_flight_def l)
qed

lemma connections_ok_step:
  assumes ok: "connections_ok ct" and n: "n < length (ct_rpcs ct)"
  shows "connections_ok (rpc_step cfg an n ct)"
proof -
  let ?r = "ct_rpcs ct ! n"
  obtain out sv where adv: "advance cfg an (rt_rpc ?r) (rt_stage ?r) (ct_server ct) = (out, sv)" by force
  show ?thesis
  proof (cases out)
    case (Inl st)
    have "map request_key ((ct_rpcs ct)[n := ?r\<lparr>rt_stage := st\<rparr>]) = map request_key (ct_rpcs ct)"
      using n by (simp add: map_update list_update_same_conv)
    with adv Inl show ?thesis by (auto simp: rpc_step_def Let_def intro: connections_ok_cong [OF ok])
  next
    case (Inr p)
    have "connections_ok (socket_write (rt_conn ?r) (fst p) (answer (rt_rpc ?r) (snd p)) (ct\<lparr>ct_server := sv\<rparr>))"
      using ok by (rule connections_ok_cong) (simp_all add: socket_write_def)
    from connections_ok_leave(1) [OF this, of n] n adv Inr show ?thesis
      by (simp add: rpc_step_def Let_def prod.case_eq_if socket_write_def)
  qed
qed

lemma connections_ok_run: "control_run cfg ct0 ct accs \<Longrightarrow> connections_ok ct0 \<Longrightarrow> connections_ok ct"
proof (induction rule: control_run.induct)
  case (arrives ct accs k msg)
  then show ?case by (simp add: connections_ok_on_message)
next
  case (steps ct accs n an)
  then show ?case by (simp add: connections_ok_step)
qed (auto simp: close_server_def elim: connections_ok_cong)

lemma connections_ok_new [simp]: "connections_ok (new_control sv)"
  by (simp add: connections_ok_def new_control_def in_flight_def)

lemma connections_ok_distinct:
  assumes "connections_ok ct"
  shows "distinct (map request_key (ct_rpcs ct))"
proof -
  have "(\<forall>k. distinct (map snd (filter (\<lambda>p. fst p = k) ps))) \<Longrightarrow> distinct ps" for ps :: "(nat \<times> json) list"
  proof (induction ps)
    case (Cons p ps)
    have "distinct (map snd (filter (\<lambda>p. fst p = k) ps))" for k using Cons.prems [rule_format, of k] by (cases "fst p = k") auto
    moreover have "p \<notin> set ps" using Cons.prems [rule_format, of "fst p"] by force
    ultimately show ?case using Cons.IH by simp
  qed simp
  with assms show ?thesis unfolding connections_ok_def in_flight_keys by blast
qed

section \<open>Every request is answered once\<close>

definition handling_rank :: "handling \<Rightarrow> nat" where
  "handling_rank h = (case h of Begin \<Rightarrow> 7 | Send_routed _ _ \<Rightarrow> 6 | Send_reserved _ _ _ \<Rightarrow> 5 | Send_found _ _ _ _ \<Rightarrow> 4
     | Send_measured _ \<Rightarrow> 3 | Send_prepared _ \<Rightarrow> 2 | _ \<Rightarrow> 1)"

definition stage_rank :: "stage \<Rightarrow> nat" where
  "stage_rank st = (case st of Arrived \<Rightarrow> 9 | Validating _ \<Rightarrow> 8 | Handling _ h \<Rightarrow> handling_rank h)"

lemma journal_answer_Done [simp]: "fst (journal_answer f call sv) \<noteq> Await h"
  by (simp add: journal_answer_def split: prod.splits)

lemma begin_rank: "fst (begin_method cfg an q c sv) = Await h \<Longrightarrow> handling_rank h < 7"
  unfolding begin_method_def
  by (auto simp: handling_rank_def send_begin_def status_begin_def list_replies_def consume_reply_def ack_notification_def
      reserve_wake_def report_wake_def list_inbox_def claim_begin_def reply_begin_def list_sessions_def discover_recipients_def
      session_status_def local_status_def broker_answer_def Let_def
      split: if_splits sum.splits option.splits prod.splits send_outcome.splits json.splits)

lemma continue_rank: "fst (continue_method cfg an q c h sv) = Await h' \<Longrightarrow> handling_rank h' < handling_rank h"
proof (cases h)
  case Begin
  assume "fst (continue_method cfg an q c h sv) = Await h'"
  with Begin begin_rank [of cfg an q c sv h'] show ?thesis by (simp add: continue_method_def handling_rank_def)
qed (auto simp: continue_method_def handling_rank_def send_check_def send_lookup_def send_depth_def send_prepare_def send_record_def
    send_finish_def status_finish_def claim_finish_def reply_finish_def refused_def Let_def
    split: if_splits sum.splits option.splits prod.splits)

lemma advance_rank: "advance cfg an q st sv = (Inl st', sv') \<Longrightarrow> stage_rank st' < stage_rank st"
proof (cases st)
  case (Handling claims h)
  assume adv: "advance cfg an q st sv = (Inl st', sv')"
  show ?thesis
  proof (cases claims)
    case None
    with adv Handling open_method_state [of an q sv] show ?thesis by (auto simp: advance_def split: prod.splits outcome.splits)
  next
    case (Some c)
    with adv Handling continue_rank [of cfg an q c h sv] show ?thesis
      by (auto simp: advance_def stage_rank_def split: prod.splits outcome.splits)
  qed
qed (auto simp: advance_def authenticate_def stage_rank_def handling_rank_def split: sum.splits if_splits json.splits option.splits)

primrec response_id :: "response \<Rightarrow> json" where
  "response_id (Success i b) = i"
| "response_id (Failure v i code) = i"

lemma response_id_answer [simp]: "response_id (answer q r) = rq_id q" "response_id (createErrorResponse i e v) = i"
  by (simp_all add: answer_def createErrorResponse_def split: sum.splits)

definition sent_for :: "nat \<times> json \<Rightarrow> 'p control \<Rightarrow> (nat \<times> turn_claims option \<times> response) list" where
  "sent_for key ct = filter (\<lambda>(k, claims, r). (k, response_id r) = key) (ct_sent ct)"

text \<open>
  What may happen while a request is in flight: its own steps, which are counted,
  steps of other requests, messages other than a second use of its id, any
  change of the server's state from elsewhere, and the closing of the server.
\<close>

inductive attended :: "'p server_cfg \<Rightarrow> nat \<times> json \<Rightarrow> 'p control \<Rightarrow> nat \<Rightarrow> 'p control \<Rightarrow> bool" for cfg key ct0 where
  start: "attended cfg key ct0 0 ct0"
| own: "attended cfg key ct0 m ct \<Longrightarrow> n < length (ct_rpcs ct) \<Longrightarrow> request_key (ct_rpcs ct ! n) = key \<Longrightarrow>
    attended cfg key ct0 (Suc m) (rpc_step cfg an n ct)"
| other: "attended cfg key ct0 m ct \<Longrightarrow> n < length (ct_rpcs ct) \<Longrightarrow> request_key (ct_rpcs ct ! n) \<noteq> key \<Longrightarrow>
    attended cfg key ct0 m (rpc_step cfg an n ct)"
| message: "attended cfg key ct0 m ct \<Longrightarrow> k \<noteq> fst key \<or> obj_get msg ''id'' \<noteq> Some (snd key) \<Longrightarrow>
    attended cfg key ct0 m (on_message k msg ct)"
| elsewhere: "attended cfg key ct0 m ct \<Longrightarrow> attended cfg key ct0 m (ct\<lparr>ct_server := sv\<rparr>)"
| closing: "attended cfg key ct0 m ct \<Longrightarrow> attended cfg key ct0 m (close_server ct)"

lemma connections_ok_attended: "attended cfg key ct0 m ct \<Longrightarrow> connections_ok ct0 \<Longrightarrow> connections_ok ct"
proof (induction rule: attended.induct)
  case (message m ct k msg)
  then show ?case by (simp add: connections_ok_on_message)
qed (auto simp: close_server_def connections_ok_step elim: connections_ok_cong)

text \<open>A step of the request at index \<open>n\<close>: it goes on with a lower rank, or it is answered and gone.\<close>

lemma rpc_step_own:
  fixes ct :: "'p control" and n :: nat
  defines "r \<equiv> ct_rpcs ct ! n"
  obtains (goes_on) st where "stage_rank st < stage_rank (rt_stage r)" "ct_rpcs (rpc_step cfg an n ct) = (ct_rpcs ct)[n := r\<lparr>rt_stage := st\<rparr>]"
      "ct_sent (rpc_step cfg an n ct) = ct_sent ct"
  | (answered) claims resp where "response_id resp = rq_id (rt_rpc r)"
      "ct_rpcs (rpc_step cfg an n ct) = take n (ct_rpcs ct) @ drop (Suc n) (ct_rpcs ct)"
      "ct_sent (rpc_step cfg an n ct) = ct_sent ct @ [(rt_conn r, claims, resp)]"
proof -
  obtain out sv where adv: "advance cfg an (rt_rpc r) (rt_stage r) (ct_server ct) = (out, sv)" by force
  show thesis
  proof (cases out)
    case (Inl st)
    with adv have "stage_rank st < stage_rank (rt_stage r)" by (auto dest: advance_rank)
    then show thesis by (rule goes_on) (use adv Inl in \<open>simp_all add: rpc_step_def Let_def r_def [symmetric]\<close>)
  next
    case (Inr p)
    have "response_id (answer (rt_rpc r) (snd p)) = rq_id (rt_rpc r)" by simp
    then show thesis
      by (rule answered [where claims = "fst p"])
        (use adv Inr in \<open>simp_all add: rpc_step_def Let_def r_def [symmetric] leave_def socket_write_def prod.case_eq_if\<close>)
  qed
qed

lemma stage_rank_pos: "0 < stage_rank st"
  by (simp add: stage_rank_def handling_rank_def split: stage.splits handling.splits)

lemma set_without_nth: "n < length xs \<Longrightarrow> set xs = insert (xs ! n) (set (take n xs @ drop (Suc n) xs))"
  by (subst id_take_nth_drop [of n xs]) auto

lemma sent_for_append: "ct_sent ct' = ct_sent ct @ [(k, claims, r)] \<Longrightarrow>
    sent_for key ct' = sent_for key ct @ (if (k, response_id r) = key then [(k, claims, r)] else [])"
  by (simp add: sent_for_def)

lemma sent_for_same: "ct_sent ct' = ct_sent ct \<Longrightarrow> sent_for key ct' = sent_for key ct"
  by (simp add: sent_for_def)

text \<open>The request in flight with its answer to come, or answered once and gone.\<close>

definition answered_once :: "nat \<times> json \<Rightarrow> 'p control \<Rightarrow> nat \<Rightarrow> 'p control \<Rightarrow> bool" where
  "answered_once key ct0 m ct \<longleftrightarrow>
    (\<exists>r \<in> set (ct_rpcs ct). request_key r = key \<and> m + stage_rank (rt_stage r) \<le> 9 \<and> sent_for key ct = sent_for key ct0) \<or>
    (key \<notin> request_key ` set (ct_rpcs ct) \<and> m \<le> 9 \<and> (\<exists>x. sent_for key ct = sent_for key ct0 @ [x]))"

lemma answered_once_own:
  assumes once: "answered_once key ct0 m ct" and ok: "connections_ok ct"
    and n: "n < length (ct_rpcs ct)" "request_key (ct_rpcs ct ! n) = key"
  shows "answered_once key ct0 (Suc m) (rpc_step cfg an n ct)"
proof -
  let ?r = "ct_rpcs ct ! n"
  have d: "distinct (map request_key (ct_rpcs ct))" using ok by (rule connections_ok_distinct)
  have "request_key r = key \<Longrightarrow> r \<in> set (ct_rpcs ct) \<Longrightarrow> r = ?r" for r
    using inj_onD [OF d [unfolded distinct_map, THEN conjunct2], of r ?r] n by (simp add: prod_eq_iff)
  moreover have "key \<in> request_key ` set (ct_rpcs ct)" using n by force
  ultimately have m: "m + stage_rank (rt_stage ?r) \<le> 9" "sent_for key ct = sent_for key ct0"
    using once unfolding answered_once_def by blast+
  show ?thesis
  proof (cases rule: rpc_step_own [of ct n cfg an])
    case (goes_on st)
    moreover have "?r\<lparr>rt_stage := st\<rparr> \<in> set ((ct_rpcs ct)[n := ?r\<lparr>rt_stage := st\<rparr>])" using n by (simp add: set_update_memI)
    moreover have "sent_for key (rpc_step cfg an n ct) = sent_for key ct0" using sent_for_same [OF goes_on(3)] m by simp
    ultimately show ?thesis using m n unfolding answered_once_def goes_on(2)
      by (intro disjI1 bexI [of _ "?r\<lparr>rt_stage := st\<rparr>"]) simp_all
  next
    case (answered claims resp)
    have "distinct (map request_key (take n (ct_rpcs ct) @ ?r # drop (Suc n) (ct_rpcs ct)))"
      using d id_take_nth_drop [OF n(1)] by simp
    then have "key \<notin> request_key ` set (take n (ct_rpcs ct) @ drop (Suc n) (ct_rpcs ct))" using n by auto
    moreover have "sent_for key (rpc_step cfg an n ct) = sent_for key ct0 @ [(rt_conn ?r, claims, resp)]"
      using sent_for_append [OF answered(3), of key] answered(1) n m by simp
    ultimately show ?thesis using m stage_rank_pos [of "rt_stage ?r"] unfolding answered_once_def answered(2) by auto
  qed
qed

lemma answered_once_other:
  assumes once: "answered_once key ct0 m ct" and n: "n < length (ct_rpcs ct)" "request_key (ct_rpcs ct ! n) \<noteq> key"
  shows "answered_once key ct0 m (rpc_step cfg an n ct)"
proof -
  let ?r = "ct_rpcs ct ! n" and ?ct' = "rpc_step cfg an n ct"
  have keep: "r \<in> set (ct_rpcs ?ct')" if "r \<in> set (ct_rpcs ct)" "request_key r = key" for r
  proof (cases rule: rpc_step_own [of ct n cfg an])
    case (goes_on st)
    from that n obtain i where "i < length (ct_rpcs ct)" "ct_rpcs ct ! i = r" "i \<noteq> n" by (auto simp: in_set_conv_nth)
    then show ?thesis unfolding goes_on(2) by (metis length_list_update nth_list_update_neq nth_mem)
  next
    case (answered claims resp)
    with that n set_without_nth [OF n(1)] show ?thesis by auto
  qed
  have keys: "request_key ` set (ct_rpcs ?ct') \<subseteq> request_key ` set (ct_rpcs ct)"
  proof (cases rule: rpc_step_own [of ct n cfg an])
    case (goes_on st)
    have "set ((ct_rpcs ct)[n := ?r\<lparr>rt_stage := st\<rparr>]) \<subseteq> insert (?r\<lparr>rt_stage := st\<rparr>) (set (ct_rpcs ct))" by (rule set_update_subset_insert)
    moreover have "request_key (?r\<lparr>rt_stage := st\<rparr>) \<in> request_key ` set (ct_rpcs ct)" using n by force
    ultimately show ?thesis unfolding goes_on(2) by blast
  next
    case (answered claims resp)
    with set_without_nth [OF n(1)] show ?thesis by auto
  qed
  have sent: "sent_for key ?ct' = sent_for key ct"
  proof (cases rule: rpc_step_own [of ct n cfg an])
    case (goes_on st)
    from goes_on(3) show ?thesis by (rule sent_for_same)
  next
    case (answered claims resp)
    from sent_for_append [OF answered(3), of key] answered(1) n show ?thesis by simp
  qed
  from once [unfolded answered_once_def] show ?thesis
  proof (elim disjE bexE conjE)
    fix r assume "r \<in> set (ct_rpcs ct)" "request_key r = key" "m + stage_rank (rt_stage r) \<le> 9" "sent_for key ct = sent_for key ct0"
    with keep [of r] show ?thesis unfolding answered_once_def sent by blast
  next
    assume "key \<notin> request_key ` set (ct_rpcs ct)" "m \<le> 9" "\<exists>x. sent_for key ct = sent_for key ct0 @ [x]"
    with keys show ?thesis unfolding answered_once_def sent by blast
  qed
qed

lemma answered_once_message:
  assumes once: "answered_once key ct0 m ct" and v: "valid_id (snd key)" and i: "k \<noteq> fst key \<or> obj_get msg ''id'' \<noteq> Some (snd key)"
  shows "answered_once key ct0 m (on_message k msg ct)"
proof -
  have w: "answered_once key ct0 m (socket_write k None (createErrorResponse i e ver) ct)" if "(k, i) \<noteq> key" for i e ver
    using once that by (auto simp: answered_once_def socket_write_def sent_for_def)
  have en: "answered_once key ct0 m (enter k q ct)" if "(k, rq_id q) \<noteq> key" for q
    using once that by (auto simp: answered_once_def enter_def Let_def sent_for_def)
  have "(k, JNull) \<noteq> key" using v by (auto simp: valid_id_def)
  moreover have "(k, j) \<noteq> key" if "obj_get msg ''id'' = Some j" for j using i that by auto
  ultimately show ?thesis
    using once w en by (auto simp: on_message_def Let_def rpc_of_def split: json.splits option.splits)
qed

lemma attended_answered:
  assumes "attended cfg key ct0 m ct" "connections_ok ct0" "answered_once key ct0 0 ct0" "valid_id (snd key)"
  shows "answered_once key ct0 m ct"
  using assms(1)
proof (induction rule: attended.induct)
  case start
  show ?case by (rule assms(3))
next
  case (own m ct n an)
  with connections_ok_attended [OF own(1) assms(2)] show ?case by (simp add: answered_once_own)
next
  case (other m ct n an)
  then show ?case by (simp add: answered_once_other)
next
  case (message m ct k msg)
  with answered_once_message [OF _ assms(4)] show ?case by blast
next
  case (elsewhere m ct sv)
  then show ?case by (auto simp: answered_once_def sent_for_def)
next
  case (closing m ct)
  then show ?case by (auto simp: answered_once_def sent_for_def close_server_def)
qed

section \<open>The guarantees\<close>

lemma new_control_ok: "j_messages (sv_journal sv) = [] \<Longrightarrow> control_ok cfg [sv_access (ct_server (new_control sv))] (new_control sv)"
  by (simp add: control_ok_def new_control_def)

text \<open>
  C5: messages are admitted only as their authenticated sender and as permitted.
  Start the server on a journal without messages and let requests, notifications,
  changes of the access list, journal calls of other components that are no sends,
  and the closing of the server happen in any order.  Then every message of the
  journal has as its sender the sender of claims that the validator accepted,
  and its recipient was allowed to that sender by an access list the server had
  and is in the scope of those claims.
\<close>

theorem admitted_as_authenticated:
  assumes "control_run cfg (new_control sv) ct accs" "j_messages (sv_journal sv) = []"
    and "r \<in> set (j_messages (sv_journal (ct_server ct)))"
  shows "\<exists>now cred sender c. validate (sc_cred cfg) (sc_secret cfg) now cred sender = Inr c \<and> m_sender r = tc_senderId c \<and>
    (\<exists>a \<in> set accs. ac_allowed a (m_sender r) (m_recipient r)) \<and>
    (\<forall>rs. tc_allowedRecipients c = Some rs \<longrightarrow> m_recipient r \<in> set rs)"
proof -
  from control_run_ok [OF assms(1) new_control_ok [OF assms(2)]] assms(3) have "authentic cfg accs r"
    by (simp add: control_ok_def)
  then obtain c where "accepted cfg c" "m_sender r = tc_senderId c" "permitted accs c (m_recipient r)"
    by (auto simp: authentic_def)
  moreover from \<open>accepted cfg c\<close> obtain now cred sender where "validate (sc_cred cfg) (sc_secret cfg) now cred sender = Inr c"
    by (auto simp: accepted_def)
  ultimately show ?thesis by (intro exI [of _ now] exI [of _ cred] exI [of _ sender] exI [of _ c]) (auto simp: permitted_def in_scope_def)
qed


text \<open>
  C22: the limits of a connection.  In every run the requests in flight on a
  connection have distinct ids, the connection's set of ids and its counter are
  exactly those of the requests in flight, and there are at most fifty.
\<close>

theorem connection_limits:
  assumes "control_run cfg (new_control sv) ct accs"
  shows "distinct (in_flight k ct) \<and> set (cn_ids (ct_conn ct k)) = set (in_flight k ct) \<and>
    cn_active (ct_conn ct k) = length (in_flight k ct) \<and> length (in_flight k ct) \<le> 50"
  using connections_ok_run [OF assms connections_ok_new] by (simp add: connections_ok_def MAX_INFLIGHT_PER_SOCKET_def)

text \<open>
  C21: every request is answered exactly once.  Take a request in flight in a
  reachable state, and let it take \<open>m\<close> steps with any answers of the brokers, while
  other requests step and arrive, the server's state changes elsewhere and the
  server may be closed.  Then either it is still in flight, has had fewer than
  nine steps and nothing was written for it, or it is gone after at most nine
  steps and exactly one response with its id was written to its connection.
\<close>

theorem request_answered_once:
  assumes "control_run cfg (new_control sv) ct accs" "r \<in> set (ct_rpcs ct)" "attended cfg (request_key r) ct m ct'"
  shows "request_key r \<in> request_key ` set (ct_rpcs ct') \<and> m < 9 \<and> sent_for (request_key r) ct' = sent_for (request_key r) ct \<or>
    request_key r \<notin> request_key ` set (ct_rpcs ct') \<and> m \<le> 9 \<and> (\<exists>x. sent_for (request_key r) ct' = sent_for (request_key r) ct @ [x])"
proof -
  have ok: "connections_ok ct" by (rule connections_ok_run [OF assms(1) connections_ok_new])
  have "stage_rank (rt_stage r) \<le> 9" by (simp add: stage_rank_def handling_rank_def split: stage.splits handling.splits)
  with assms(2) have start: "answered_once (request_key r) ct 0 ct" by (auto simp: answered_once_def)
  have "rq_id (rt_rpc r) \<in> set (in_flight (rt_conn r) ct)" using assms(2) by (auto simp: in_flight_def)
  with ok have "valid_id (snd (request_key r))" by (auto simp: connections_ok_def list_all_iff)
  from attended_answered [OF assms(3) ok start this, unfolded answered_once_def] show ?thesis
  proof (elim disjE bexE conjE)
    fix r' assume r': "r' \<in> set (ct_rpcs ct')" "request_key r' = request_key r" "m + stage_rank (rt_stage r') \<le> 9"
      "sent_for (request_key r) ct' = sent_for (request_key r) ct"
    have "request_key r \<in> request_key ` set (ct_rpcs ct')" unfolding r'(2) [symmetric] using r'(1) by (rule imageI)
    with r' stage_rank_pos [of "rt_stage r'"] show ?thesis by simp
  qed blast
qed

text \<open>The entry of a reservation counts in the window of the sender.\<close>

definition counted :: "turn_claims \<Rightarrow> nat \<Rightarrow> 'p server \<Rightarrow> bool" where
  "counted c i sv = (i \<in> fst ` set (hist_get (tc_senderId c) (rl_history (sv_limiter sv))))"


section \<open>A session with the server\<close>

text \<open>
  A server for one sender, whose credential is a dot (a keyed hash that is empty and a
  parser that always reads the sample claims), and one send to \<open>bob\<close> that is served
  to its end.
\<close>

definition sample_server_cfg :: "unit server_cfg" where
  "sample_server_cfg = \<lparr>sc_env = plain_env, sc_journal = default_cfg,
     sc_cred = \<lparr>ce_hmac = (\<lambda>_ _. []), ce_parse = (\<lambda>_. Some (claims_json sample_claims))\<rparr>, sc_secret = ''0123456789abcdef'',
     sc_interactiveBroker = None, sc_inboxBroker = None, sc_sessionBroker = False, sc_interactiveRecipients = None,
     sc_rateLimiter = Some (60, 60000), sc_loopTracker = Some (10, 100), sc_replyIdentity = False, sc_notifier = False,
     sc_router = \<lparr>rf_enabled = False, rf_recipients = [], rf_canMessage = None\<rparr>, sc_snapshots = (\<lambda>p. (Threw None, p)),
     sc_directory = (\<lambda>_. None), sc_hmac = (\<lambda>t. t), sc_cursor = (\<lambda>_. Malformed)\<rparr>"

definition sample_server :: "unit server" where
  "sample_server = \<lparr>sv_journal = empty_journal, sv_limiter = new_limiter, sv_tracker = \<lparr>lt_byMessage = [], lt_byRequest = []\<rparr>,
     sv_router = createUnifiedRouter None, sv_access = owner_access [(''agent-1'', Some [''bob''])], sv_executions = []\<rparr>"

definition sample_answers :: answers where
  "sample_answers = \<lparr>an_now = 2000, an_now2 = 2000, an_uuid = ''u1'', an_interactive = Inr (), an_inbox = Inr (), an_context = Inr None,
     an_identity = Inl TypeErr, an_available = None, an_broker = Inl (Coded ''unsupported''), an_attached = None, an_discovered = None,
     an_filter = (\<lambda>xs. xs), an_routerError = None\<rparr>"

definition request_text :: "string \<Rightarrow> (string \<times> json) list \<Rightarrow> json" where
  "request_text method ps = JObj [(''protocol_version'', JNum 1), (''id'', JNum 7), (''method'', JStr method), (''senderId'', JStr ''agent-1''),
     (''credential'', JStr ''.''), (''params'', JObj ps)]"

fun serve :: "'p server_cfg \<Rightarrow> answers \<Rightarrow> nat \<Rightarrow> 'p control \<Rightarrow> 'p control" where
  "serve cfg an 0 ct = ct"
| "serve cfg an (Suc m) ct = (if ct_rpcs ct = [] then ct else serve cfg an m (rpc_step cfg an 0 ct))"

lemma serve_run: "control_run cfg ct0 ct accs \<Longrightarrow> control_run cfg ct0 (serve cfg an m ct) accs"
  by (induction m arbitrary: ct) (auto intro: control_run.steps)

definition arrived_send :: "unit control" where
  "arrived_send = on_message 0 (request_text ''send_message'' [(''to'', JStr ''bob''), (''text'', JStr ''hi''), (''messageId'', JStr ''m1'')])
     (new_control sample_server)"

definition served_send :: "unit control" where
  "served_send = serve sample_server_cfg sample_answers 8 arrived_send"

lemma served_send_facts: "map m_sender (j_messages (sv_journal (ct_server served_send))) = [''agent-1'']"
  by code_simp

lemma arrived_send_run: "control_run sample_server_cfg (new_control sample_server) arrived_send [sv_access sample_server]"
  unfolding arrived_send_def using control_run.initial [of sample_server_cfg "new_control sample_server"]
  by (intro control_run.arrives) (simp add: new_control_def)

lemma served_send_run: "control_run sample_server_cfg (new_control sample_server) served_send [sv_access sample_server]"
  unfolding served_send_def by (rule serve_run [OF arrived_send_run])

lemma sample_server_empty: "j_messages (sv_journal sample_server) = []"
  by (simp add: sample_server_def empty_journal_def)

theorem admitted_as_authenticated_witness:
  "\<exists>r \<in> set (j_messages (sv_journal (ct_server served_send))). m_sender r = ''agent-1'' \<and>
     (\<exists>now cred sender c. validate (sc_cred sample_server_cfg) (sc_secret sample_server_cfg) now cred sender = Inr c \<and>
        tc_senderId c = ''agent-1'' \<and> ac_allowed (sv_access sample_server) ''agent-1'' (m_recipient r))"
proof -
  from served_send_facts obtain r where r: "r \<in> set (j_messages (sv_journal (ct_server served_send)))" "m_sender r = ''agent-1''"
    by (auto simp: map_eq_Cons_conv)
  with admitted_as_authenticated [OF served_send_run sample_server_empty r(1)] show ?thesis
    by (metis (no_types, lifting) list.set_intros(1) empty_iff list.set(1) set_ConsD)
qed

theorem connection_limits_witness:
  "distinct (in_flight 0 arrived_send) \<and> set (cn_ids (ct_conn arrived_send 0)) = set (in_flight 0 arrived_send) \<and>
   cn_active (ct_conn arrived_send 0) = length (in_flight 0 arrived_send) \<and> length (in_flight 0 arrived_send) \<le> 50 \<and>
   in_flight 0 arrived_send = [JNum 7]"
proof -
  have "in_flight 0 arrived_send = [JNum 7]" by code_simp
  with connection_limits [OF arrived_send_run, of 0] show ?thesis by simp
qed

text \<open>A caller of \<open>session_status\<close>, whose sender has an interactive session.\<close>

definition session_server_cfg :: "unit server_cfg" where
  "session_server_cfg = sample_server_cfg\<lparr>sc_interactiveBroker := Some (\<lambda>_. True)\<rparr>"

definition arrived_status :: "unit control" where
  "arrived_status = on_message 0 (request_text ''session_status'' []) (new_control sample_server)"

definition served_status :: "unit control" where
  "served_status = serve session_server_cfg sample_answers 3 arrived_status"

lemma arrived_status_run: "control_run session_server_cfg (new_control sample_server) arrived_status [sv_access sample_server]"
  unfolding arrived_status_def using control_run.initial [of session_server_cfg "new_control sample_server"]
  by (intro control_run.arrives) (simp add: new_control_def)

lemma served_status_run: "control_run session_server_cfg (new_control sample_server) served_status [sv_access sample_server]"
  unfolding served_status_def by (rule serve_run [OF arrived_status_run])

lemma served_status_facts:
  "ct_sent served_status = [(0, Some sample_claims, Success (JNum 7) (Session_status ''agent-1'' None None \<lparr>ic_queued = 0, ic_executing = 0, ic_held = 0\<rparr>))]"
  by code_simp


lemma attended_serve:
  assumes "ct_rpcs ct = [r]" "request_key r = key" "attended cfg key ct0 n ct"
  shows "\<exists>m \<le> k. attended cfg key ct0 (n + m) (serve cfg an k ct)"
  using assms
proof (induction k arbitrary: ct r n)
  case (Suc k)
  have step: "attended cfg key ct0 (Suc n) (rpc_step cfg an 0 ct)" using Suc.prems by (intro attended.own) auto
  show ?case
  proof (rule rpc_step_own [of ct 0 cfg an])
    fix st assume "ct_rpcs (rpc_step cfg an 0 ct) = (ct_rpcs ct)[0 := (ct_rpcs ct ! 0)\<lparr>rt_stage := st\<rparr>]"
    then have "ct_rpcs (rpc_step cfg an 0 ct) = [r\<lparr>rt_stage := st\<rparr>]" "request_key (r\<lparr>rt_stage := st\<rparr>) = key"
      using Suc.prems by simp_all
    from Suc.IH [OF this step] obtain m where "m \<le> k" "attended cfg key ct0 (Suc n + m) (serve cfg an k (rpc_step cfg an 0 ct))" by auto
    with Suc.prems show ?thesis by (intro exI [of _ "Suc m"]) simp
  next
    assume "ct_rpcs (rpc_step cfg an 0 ct) = take 0 (ct_rpcs ct) @ drop (Suc 0) (ct_rpcs ct)"
    then have "serve cfg an k (rpc_step cfg an 0 ct) = rpc_step cfg an 0 ct" using Suc.prems by (cases k) auto
    with step Suc.prems show ?thesis by (intro exI [of _ 1]) simp
  qed
qed auto

theorem request_answered_once_witness:
  "\<exists>r m. ct_rpcs arrived_status = [r] \<and> attended session_server_cfg (request_key r) arrived_status m served_status \<and>
     (\<exists>x. sent_for (request_key r) served_status = sent_for (request_key r) arrived_status @ [x])"
proof -
  have one: "length (ct_rpcs arrived_status) = 1" and none: "ct_rpcs served_status = []" by code_simp+
  then obtain r where r: "ct_rpcs arrived_status = [r]" by (auto simp: length_Suc_conv)
  from attended_serve [OF this refl attended.start, where k = 3 and an = sample_answers and cfg = session_server_cfg]
  obtain m where m: "attended session_server_cfg (request_key r) arrived_status m served_status" by (auto simp: served_status_def)
  have "r \<in> set (ct_rpcs arrived_status)" by (simp add: r)
  from request_answered_once [OF arrived_status_run this m] none r m show ?thesis by auto
qed

text \<open>A send whose reservation counts, refused by the journal for a message id it cannot use, and one with an unknown parent.\<close>

definition sample_route :: send_route where
  "sample_route = \<lparr>sr_resolvedTo = ''bob'', sr_to = ''bob'', sr_resolved = False, sr_via = None, sr_principal = JNull, sr_profile = None,
     sr_bindingId = None, sr_route = None\<rparr>"

definition sample_send :: "string \<Rightarrow> string option \<Rightarrow> send_context" where
  "sample_send mid parent = \<lparr>sx_params = \<lparr>sp_to = ''bob'', sp_text = ''hi'', sp_messageId = mid, sp_requestId = None, sp_inReplyTo = parent, sp_metadata = None\<rparr>,
     sx_route = sample_route, sx_reservation = Some 0, sx_existing = None, sx_depth = 1, sx_replyRoute = None\<rparr>"

definition reserved_server :: "unit server" where
  "reserved_server = snd (send_check sample_server_cfg sample_answers sample_claims (sx_params (sample_send [] None)) sample_route sample_server)"


end
