(* ===== verification/Json_Parse.thy ===== *)
theory Json_Parse
  imports Json
begin

text \<open>
  \<open>JSON.parse\<close>, on the UTF-8 bytes of a text.  Numbers are integers; a text with a
  number that is no integer has no value.  Parsing inverts \<open>JSON.stringify\<close>.
\<close>

section \<open>Strings\<close>

definition ch :: "nat \<Rightarrow> char" where
  "ch n = char_of n"

text \<open>The UTF-8 bytes of a code point; a lone surrogate is written as any other.\<close>

definition utf8 :: "nat \<Rightarrow> string" where
  "utf8 n =
    (if n < 128 then [ch n]
     else if n < 2048 then [ch (192 + n div 64), ch (128 + n mod 64)]
     else if n < 65536 then [ch (224 + n div 4096), ch (128 + n div 64 mod 64), ch (128 + n mod 64)]
     else [ch (240 + n div 262144), ch (128 + n div 4096 mod 64), ch (128 + n div 64 mod 64), ch (128 + n mod 64)])"

definition hex_digit :: "char \<Rightarrow> nat option" where
  "hex_digit c = (if c \<in> set hex_chars then Some (hexval c)
     else if c \<in> set ''ABCDEF'' then Some (of_char c - 55) else None)"

definition hex4 :: "char \<Rightarrow> char \<Rightarrow> char \<Rightarrow> char \<Rightarrow> nat option" where
  "hex4 a b c d = (case (hex_digit a, hex_digit b, hex_digit c, hex_digit d) of
     (Some w, Some x, Some y, Some z) \<Rightarrow> Some (w * 4096 + x * 256 + y * 16 + z) | _ \<Rightarrow> None)"

definition simple_escape :: "char \<Rightarrow> char option" where
  "simple_escape e = (if e \<in> {CHR 0x22, CHR 0x5C, CHR ''/''} then Some e
     else map_of [(CHR ''b'', ch 8), (CHR ''t'', ch 9), (CHR ''n'', ch 10), (CHR ''f'', ch 12), (CHR ''r'', ch 13)] e)"

definition is_surrogate :: "nat \<Rightarrow> nat \<Rightarrow> bool" where
  "is_surrogate base n = (base \<le> n \<and> n < base + 1024)"

text \<open>The code unit of an escape \<open>\u\<close> whose four digits begin the text, and what follows.\<close>

definition unit_escape :: "string \<Rightarrow> (nat \<times> string) option" where
  "unit_escape s = (case s of a # b # c # d # r \<Rightarrow> map_option (\<lambda>n. (n, r)) (hex4 a b c d) | _ \<Rightarrow> None)"

text \<open>The bytes of an escape, after the backslash, and what follows it.\<close>

definition escape :: "string \<Rightarrow> (string \<times> string) option" where
  "escape s = (case s of [] \<Rightarrow> None | e # t \<Rightarrow>
     if e \<noteq> CHR ''u'' then map_option (\<lambda>c. ([c], t)) (simple_escape e)
     else (case unit_escape t of None \<Rightarrow> None | Some (n, r) \<Rightarrow>
       if is_surrogate 55296 n \<and> take 2 r = [CHR 0x5C, CHR ''u'']
       then (case unit_escape (drop 2 r) of
           Some (m, u) \<Rightarrow> if is_surrogate 56320 m then Some (utf8 (65536 + (n - 55296) * 1024 + (m - 56320)), u) else Some (utf8 n, r)
         | None \<Rightarrow> Some (utf8 n, r))
       else Some (utf8 n, r)))"

lemma unit_escape_length: "unit_escape s = Some (n, r) \<Longrightarrow> length r < length s"
  by (auto simp: unit_escape_def split: list.splits)

lemma escape_length: "escape s = Some (x, r) \<Longrightarrow> length r < length s"
  by (fastforce simp: escape_def split: list.splits if_splits option.splits dest!: unit_escape_length)

function parse_chars :: "string \<Rightarrow> (string \<times> string) option" where
  "parse_chars s = (case s of [] \<Rightarrow> None | c # t \<Rightarrow>
     if c = CHR 0x22 then Some ([], t)
     else if c = CHR 0x5C then (case escape t of None \<Rightarrow> None | Some (x, r) \<Rightarrow> map_option (\<lambda>(y, u). (x @ y, u)) (parse_chars r))
     else if of_char c < (32 :: nat) then None
     else map_option (\<lambda>(y, u). (c # y, u)) (parse_chars t))"
  by pat_completeness auto
termination
  by (relation "measure length") (auto dest: escape_length)

declare parse_chars.simps [simp del]

section \<open>Numbers\<close>

text \<open>The digits at the start of a text; \<open>exponent\<close> is an optional \<open>e\<close> with its sign and digits.\<close>

definition split_digits :: "string \<Rightarrow> string \<times> string" where
  "split_digits s = (takeWhile is_digit s, dropWhile is_digit s)"

definition fraction :: "string \<Rightarrow> (string \<times> string) option" where
  "fraction s = (case s of c # t \<Rightarrow>
       if c = CHR ''.'' then (case split_digits t of (ds, r) \<Rightarrow> if ds = [] then None else Some (ds, r)) else Some ([], s)
     | [] \<Rightarrow> Some ([], []))"

definition exponent :: "string \<Rightarrow> (int \<times> string) option" where
  "exponent s = (case s of c # t \<Rightarrow>
       if c \<in> {CHR ''e'', CHR ''E''} then
         (let (neg, u) = (case t of d # u \<Rightarrow> if d = CHR ''-'' then (True, u) else if d = CHR ''+'' then (False, u) else (False, t) | [] \<Rightarrow> (False, t)) in
          case split_digits u of (ds, r) \<Rightarrow> if ds = [] then None else Some (if neg then - int (dec_val ds) else int (dec_val ds), r))
       else Some (0, s)
     | [] \<Rightarrow> Some (0, []))"

definition scaled :: "nat \<Rightarrow> int \<Rightarrow> nat option" where
  "scaled n e = (if 0 \<le> e then Some (n * 10 ^ nat e) else if n mod 10 ^ nat (- e) = 0 then Some (n div 10 ^ nat (- e)) else None)"

definition parse_number :: "string \<Rightarrow> (json \<times> string) option" where
  "parse_number s =
    (let (neg, t) = (case s of c # u \<Rightarrow> if c = CHR ''-'' then (True, u) else (False, s) | [] \<Rightarrow> (False, s)); (ds, r) = split_digits t in
     if ds = [] \<or> (1 < length ds \<and> hd ds = CHR ''0'') then None
     else case fraction r of None \<Rightarrow> None
     | Some (fs, r1) \<Rightarrow> (case exponent r1 of None \<Rightarrow> None
        | Some (e, r2) \<Rightarrow> map_option (\<lambda>n. (JNum (if neg then - int n else int n), r2)) (scaled (dec_val (ds @ fs)) (e - int (length fs)))))"

section \<open>Values\<close>

definition skip :: "string \<Rightarrow> string" where
  "skip s = dropWhile (\<lambda>c. c \<in> {CHR '' '', ch 9, ch 10, ch 13}) s"

definition keyword :: "string \<Rightarrow> json \<Rightarrow> string \<Rightarrow> (json \<times> string) option" where
  "keyword w v s = (if take (length w) s = w then Some (v, drop (length w) s) else None)"

text \<open>A key that occurs twice keeps its first place and has its last value.\<close>

definition object_of :: "(string \<times> json) list \<Rightarrow> json" where
  "object_of ms = JObj (fold (\<lambda>(k, v) kvs. obj_put kvs k v) ms [])"

text \<open>The first argument bounds the depth of the recursion; the length of the text is enough.\<close>

fun parse_value :: "nat \<Rightarrow> string \<Rightarrow> (json \<times> string) option"
  and parse_elems :: "nat \<Rightarrow> string \<Rightarrow> (json list \<times> string) option"
  and parse_members :: "nat \<Rightarrow> string \<Rightarrow> ((string \<times> json) list \<times> string) option" where
  "parse_value 0 s = None"
| "parse_value (Suc n) s = (case skip s of [] \<Rightarrow> None | c # t \<Rightarrow>
     if c = CHR 0x22 then map_option (map_prod JStr id) (parse_chars t)
     else if c = CHR ''['' then
       (if take 1 (skip t) = '']'' then Some (JArr [], drop 1 (skip t)) else map_option (map_prod JArr id) (parse_elems n t))
     else if c = CHR ''{'' then
       (if take 1 (skip t) = ''}'' then Some (JObj [], drop 1 (skip t)) else map_option (map_prod object_of id) (parse_members n t))
     else if c = CHR ''n'' then keyword ''null'' JNull (c # t)
     else if c = CHR ''t'' then keyword ''true'' (JBool True) (c # t)
     else if c = CHR ''f'' then keyword ''false'' (JBool False) (c # t)
     else parse_number (c # t))"
| "parse_elems 0 s = None"
| "parse_elems (Suc n) s = (case parse_value n s of None \<Rightarrow> None | Some (v, r) \<Rightarrow>
     (case skip r of [] \<Rightarrow> None | c # u \<Rightarrow>
        if c = CHR '']'' then Some ([v], u)
        else if c = CHR '','' then map_option (map_prod ((#) v) id) (parse_elems n u)
        else None))"
| "parse_members 0 s = None"
| "parse_members (Suc n) s = (case skip s of [] \<Rightarrow> None | q # t \<Rightarrow>
     if q \<noteq> CHR 0x22 then None
     else case parse_chars t of None \<Rightarrow> None | Some (k, r) \<Rightarrow>
       (case skip r of [] \<Rightarrow> None | c # u \<Rightarrow>
          if c \<noteq> CHR '':'' then None
          else case parse_value n u of None \<Rightarrow> None | Some (v, r') \<Rightarrow>
            (case skip r' of [] \<Rightarrow> None | d # w \<Rightarrow>
               if d = CHR ''}'' then Some ([(k, v)], w)
               else if d = CHR '','' then map_option (map_prod ((#) (k, v)) id) (parse_members n w)
               else None)))"

definition json_parse :: "string \<Rightarrow> json option" where
  "json_parse s = (case parse_value (Suc (length s)) s of None \<Rightarrow> None | Some (v, r) \<Rightarrow> if skip r = [] then Some v else None)"

section \<open>Parsing inverts printing\<close>

lemma hexd_chars: "n < 16 \<Longrightarrow> hex_digit (hexd n) = Some n"
  using hexd_inverse [of n] nth_mem [of n hex_chars] by (simp add: hex_digit_def hexd_def)

lemma parse_plain: "of_char c \<ge> (32 :: nat) \<Longrightarrow> c \<noteq> CHR 0x22 \<Longrightarrow> c \<noteq> CHR 0x5C \<Longrightarrow>
    parse_chars (c # r) = map_option (\<lambda>(y, u). (c # y, u)) (parse_chars r)"
  by (subst parse_chars.simps) simp

lemma parse_escape: "escape t = Some (x, r) \<Longrightarrow> parse_chars (CHR 0x5C # t) = map_option (\<lambda>(y, u). (x @ y, u)) (parse_chars r)"
  by (subst parse_chars.simps) simp

lemma parse_end: "parse_chars (CHR 0x22 # r) = Some ([], r)"
  by (subst parse_chars.simps) simp

lemma escape_control:
  assumes "n < 32"
  shows "escape (CHR ''u'' # CHR ''0'' # CHR ''0'' # hexd (n div 16) # hexd (n mod 16) # r) = Some ([char_of n], r)"
proof -
  have "hex_digit (CHR ''0'') = Some 0" using hexd_chars [of 0] by (simp add: hexd_def)
  moreover have "hex_digit (hexd (n div 16)) = Some (n div 16)" "hex_digit (hexd (n mod 16)) = Some (n mod 16)"
    using assms by (intro hexd_chars; simp)+
  ultimately have "hex4 (CHR ''0'') (CHR ''0'') (hexd (n div 16)) (hexd (n mod 16)) = Some n" by (simp add: hex4_def)
  with assms show ?thesis by (simp add: escape_def unit_escape_def is_surrogate_def utf8_def ch_def)
qed

lemma parse_esc: "parse_chars (esc c @ r) = map_option (\<lambda>(y, u). (c # y, u)) (parse_chars r)"
proof -
  define n where "n = (of_char c :: nat)"
  have c: "char_of n = c" by (simp add: n_def)
  consider "c = CHR 0x22" | "c = CHR 0x5C" | "n \<in> {8, 9, 10, 12, 13}" | "n < 32" "n \<notin> {8, 9, 10, 12, 13}" "c \<noteq> CHR 0x22" "c \<noteq> CHR 0x5C"
    | "32 \<le> n" "c \<noteq> CHR 0x22" "c \<noteq> CHR 0x5C" by fastforce
  then show ?thesis
  proof cases
    case 3
    then have "\<exists>e. esc c = [CHR 0x5C, e] \<and> simple_escape e = Some c \<and> e \<noteq> CHR ''u''"
      using c by (auto simp: esc_def simple_escape_def Let_def ch_def simp flip: n_def)
    then obtain e where "esc c = [CHR 0x5C, e]" "simple_escape e = Some c" "e \<noteq> CHR ''u''" by blast
    then show ?thesis using parse_escape [of "e # r" "[c]" r] by (simp add: escape_def)
  next
    case 4
    then have "esc c = [CHR 0x5C, CHR ''u'', CHR ''0'', CHR ''0'', hexd (n div 16), hexd (n mod 16)]"
      by (simp add: esc_def Let_def flip: n_def)
    with parse_escape [OF escape_control [OF 4(1)], of r] c show ?thesis by simp
  next
    case 5
    then have "esc c = [c]" by (auto simp: esc_def Let_def simp flip: n_def)
    with 5 show ?thesis by (simp add: parse_plain n_def)
  qed (use parse_escape [of "c # r" "[c]" r] in \<open>simp_all add: esc_def escape_def simple_escape_def\<close>)
qed

lemma parse_quote: "parse_chars (concat (map esc s) @ CHR 0x22 # r) = Some (s, r)"
  by (induction s) (simp_all add: parse_end parse_esc)

definition ends_number :: "string \<Rightarrow> bool" where
  "ends_number r = (r = [] \<or> \<not> is_digit (hd r) \<and> hd r \<notin> {CHR ''.'', CHR ''e'', CHR ''E''})"

lemma no_leading_zero: "10 \<le> n \<Longrightarrow> hd (digits n) \<noteq> CHR ''0''"
proof (induction n rule: digits.induct)
  case (1 n)
  show ?case
  proof (cases "n div 10 < 10")
    case True
    with 1(2) have "digits n = [digit_char (n div 10), digit_char (n mod 10)]" "0 < n div 10"
      by (subst digits_unfold, simp, subst digits_unfold, simp, simp)
    moreover have "digit_val (digit_char (n div 10)) = n div 10" using True by (rule digit_char)
    moreover have "digit_val (CHR ''0'') = 0" by (simp add: digit_val_def)
    ultimately show ?thesis by auto
  next
    case False
    with 1 have "hd (digits (n div 10)) \<noteq> CHR ''0''" by simp
    with 1(2) digits_nonempty show ?thesis by (subst digits_unfold) simp
  qed
qed

lemma digits_leading: "Suc 0 < length (digits n) \<Longrightarrow> hd (digits n) \<noteq> CHR ''0''"
proof (cases "n < 10")
  case True
  moreover assume "Suc 0 < length (digits n)"
  ultimately show ?thesis by (subst (asm) digits_unfold) simp
qed (use no_leading_zero [of n] in simp)

lemma split_digits_append: "ends_number r \<Longrightarrow> split_digits (digits n @ r) = (digits n, r)"
proof -
  assume "ends_number r"
  then have "delim r" by (auto simp: ends_number_def delim_def)
  then have "takeWhile is_digit (digits n @ r) = digits n" by (rule takeWhile_digits)
  then have "split_digits (digits n @ r) = (digits n, drop (length (digits n)) (digits n @ r))"
    by (simp only: split_digits_def dropWhile_eq_drop)
  then show ?thesis by simp
qed

lemma parse_number_text:
  assumes "ends_number r"
  shows "parse_number (num_text n @ r) = Some (JNum n, r)"
proof -
  have ends: "fraction r = Some ([], r)" "exponent r = Some (0, r)"
    using assms by (cases r; simp add: ends_number_def fraction_def exponent_def)+
  show ?thesis
  proof (cases "n < 0")
    case True
    then show ?thesis
      using split_digits_append [OF assms, of "nat (- n)"]
      by (simp add: num_text_def parse_number_def digits_leading digits_nonempty ends dec_val_digits scaled_def)
  next
    case False
    have "\<exists>c u. digits (nat n) @ r = c # u \<and> c \<noteq> CHR ''-''"
      using hd_digits [of "nat n" r] digits_nonempty [of "nat n"] by (cases "digits (nat n) @ r") auto
    then obtain c u where cu: "digits (nat n) @ r = c # u" "c \<noteq> CHR ''-''" by blast
    from split_digits_append [OF assms, of "nat n"] False show ?thesis
      unfolding num_text_def by (simp add: parse_number_def cu digits_leading digits_nonempty ends dec_val_digits scaled_def)
  qed
qed

primrec distinct_keys :: "json \<Rightarrow> bool" where
  "distinct_keys JNull = True"
| "distinct_keys (JBool b) = True"
| "distinct_keys (JNum n) = True"
| "distinct_keys (JStr s) = True"
| "distinct_keys (JArr xs) = list_all id (map distinct_keys xs)"
| "distinct_keys (JObj kvs) = (distinct (map fst kvs) \<and> list_all snd (map (map_prod id distinct_keys) kvs))"

lemma obj_put_new: "k \<notin> set (map fst kvs) \<Longrightarrow> obj_put kvs k v = kvs @ [(k, v)]"
  by (auto simp: obj_put_def)

lemma object_of_distinct: "distinct (map fst kvs) \<Longrightarrow> object_of kvs = JObj kvs"
proof -
  have "distinct (map fst (acc @ kvs)) \<Longrightarrow> fold (\<lambda>(k, v) kvs. obj_put kvs k v) kvs acc = acc @ kvs" for acc
  proof (induction kvs arbitrary: acc)
    case (Cons p kvs)
    then have "obj_put acc (fst p) (snd p) = acc @ [p]" by (simp add: obj_put_new)
    with Cons.IH [of "acc @ [p]"] Cons.prems show ?case by (simp add: case_prod_beta)
  qed simp
  from this [of "[]"] show "distinct (map fst kvs) \<Longrightarrow> object_of kvs = JObj kvs" by (simp add: object_of_def)
qed

lemma skip_Cons: "c \<notin> {CHR '' '', ch 9, ch 10, ch 13} \<Longrightarrow> skip (c # s) = c # s"
  by (simp add: skip_def)

lemma skip_marks [simp]:
  "skip (CHR 0x22 # s) = CHR 0x22 # s" "skip (CHR ''['' # s) = CHR ''['' # s" "skip (CHR ''{'' # s) = CHR ''{'' # s"
  "skip (CHR '']'' # s) = CHR '']'' # s" "skip (CHR ''}'' # s) = CHR ''}'' # s" "skip (CHR '','' # s) = CHR '','' # s"
  "skip (CHR '':'' # s) = CHR '':'' # s" "skip (CHR ''n'' # s) = CHR ''n'' # s" "skip (CHR ''t'' # s) = CHR ''t'' # s"
  "skip (CHR ''f'' # s) = CHR ''f'' # s"
  by (simp_all add: skip_Cons ch_def char_of_def)

lemma keyword_text: "keyword w v (w @ r) = Some (v, r)"
  by (simp add: keyword_def)

lemma parse_value_number:
  assumes "ends_number r" "0 < n"
  shows "parse_value n (num_text m @ r) = Some (JNum m, r)"
proof -
  obtain c t where ct: "num_text m @ r = c # t" using stringify_nonempty [of "JNum m"] by (cases "num_text m @ r") auto
  have "is_digit c \<or> c = CHR ''-''" by (rule num_text_first [OF ct])
  then have "c \<in> set ''0123456789-''" by (auto simp: is_digit_def)
  then have c: "skip (c # t) = c # t" "c \<notin> {CHR 0x22, CHR ''['', CHR ''{'', CHR ''n'', CHR ''t'', CHR ''f''}"
    by (auto simp: skip_Cons ch_def char_of_def)
  obtain k where "n = Suc k" using assms(2) by (cases n) auto
  with c parse_number_text [OF assms(1), of m] show ?thesis by (simp add: ct)
qed

text \<open>A value that is parsed back from its text, in front of a text that ends a number, with fuel for its length.\<close>

definition parses :: "json \<Rightarrow> bool" where
  "parses j = (\<forall>r n. ends_number r \<longrightarrow> length (stringify j) \<le> n \<longrightarrow> parse_value n (stringify j @ r) = Some (j, r))"

lemma ends_marks [simp]: "ends_number (CHR '']'' # r)" "ends_number (CHR ''}'' # r)" "ends_number (CHR '','' # r)" "ends_number []"
  by (simp_all add: ends_number_def)

lemma ends_tail: "cl \<in> {CHR '']'', CHR ''}''} \<Longrightarrow> ends_number (tail_text enc xs @ cl # r)"
  by (cases xs) (auto simp: tail_text_def)

lemma tail_text_simps [simp]: "tail_text enc [] = []" "tail_text enc (x # xs) = CHR '','' # enc x @ tail_text enc xs"
  by (simp_all add: tail_text_def)

lemma parse_elems_text:
  assumes "\<forall>y \<in> set (x # xs). parses y" "length (stringify x @ tail_text stringify xs) < n"
  shows "parse_elems n (stringify x @ tail_text stringify xs @ CHR '']'' # r) = Some (x # xs, r)"
  using assms
proof (induction xs arbitrary: x n)
  case (Cons y ys)
  then obtain k where n: "n = Suc k" "length (stringify x) \<le> k" "length (stringify y @ tail_text stringify ys) < k" by (cases n) auto
  from Cons.prems(1) have "parse_value k (stringify x @ (tail_text stringify (y # ys) @ CHR '']'' # r)) =
      Some (x, tail_text stringify (y # ys) @ CHR '']'' # r)"
    using n(2) by (auto simp: parses_def)
  with n Cons.IH [of y k] Cons.prems(1) show ?case by simp
next
  case Nil
  then obtain k where "n = Suc k" "length (stringify x) \<le> k" by (cases n) auto
  with Nil show ?case by (simp add: parses_def)
qed

definition member_string :: "string \<times> json \<Rightarrow> string" where
  "member_string p = quote (fst p) @ CHR '':'' # stringify (snd p)"

lemma member_longer: "length (stringify (snd p)) < length (member_string p)"
  by (simp add: member_string_def)

lemma parse_key: "parse_members (Suc k) (quote x @ CHR '':'' # u) =
    (case parse_value k u of None \<Rightarrow> None | Some (v, r') \<Rightarrow> (case skip r' of [] \<Rightarrow> None | d # w \<Rightarrow>
       if d = CHR ''}'' then Some ([(x, v)], w)
       else if d = CHR '','' then map_option (map_prod ((#) (x, v)) id) (parse_members k w) else None))"
  by (simp add: quote_def parse_quote)

lemma parse_members_text:
  assumes "\<forall>p \<in> set (x # xs). parses (snd p)" "length (member_string x @ tail_text member_string xs) < n"
  shows "parse_members n (member_string x @ tail_text member_string xs @ CHR ''}'' # r) = Some (x # xs, r)"
  using assms
proof (induction xs arbitrary: x n)
  case (Cons y ys)
  then obtain k where n: "n = Suc k" "length (stringify (snd x)) \<le> k" "length (member_string y @ tail_text member_string ys) < k"
    using member_longer [of x] by (cases n) auto
  from Cons.prems(1) have "parse_value k (stringify (snd x) @ (tail_text member_string (y # ys) @ CHR ''}'' # r)) =
      Some (snd x, tail_text member_string (y # ys) @ CHR ''}'' # r)"
    using n(2) by (auto simp: parses_def)
  with n Cons.IH [of y k] Cons.prems(1) show ?case by (simp add: member_string_def [of x] parse_key del: parse_members.simps)
next
  case Nil
  then obtain k where "n = Suc k" "length (stringify (snd x)) \<le> k" using member_longer [of x] by (cases n) auto
  with Nil show ?case by (simp add: parses_def member_string_def [of x] parse_key del: parse_members.simps)
qed

lemma stringify_object: "stringify (JObj kvs) = ''{'' @ join '','' (map member_string kvs) @ ''}''"
  by (simp add: member_string_def member_text_def comp_def case_prod_beta cong: map_cong)

lemma skip_stringify: "skip (stringify j @ r) = stringify j @ r"
proof -
  obtain c t where ct: "stringify j @ r = c # t" using stringify_nonempty [of j] by (cases "stringify j @ r") auto
  have "head_class c < 6" using stringify_first [OF ct] by (cases j) auto
  then have "c \<notin> {CHR '' '', ch 9, ch 10, ch 13}" by (auto simp: head_class_def is_digit_def ch_def char_of_def split: if_splits)
  then show ?thesis by (simp add: ct skip_Cons)
qed

lemma not_closed:
  "take 1 (skip (stringify j @ r)) \<noteq> '']''"
  "take 1 (skip (member_string p @ r)) \<noteq> ''}''"
proof -
  obtain c t where "stringify j @ r = c # t" using stringify_nonempty [of j] by (cases "stringify j @ r") auto
  with stringify_not_close [of j r] skip_stringify [of j r] show "take 1 (skip (stringify j @ r)) \<noteq> '']''" by auto
qed (simp add: member_string_def quote_def)

lemma parses_all: "distinct_keys j \<Longrightarrow> parses j"
proof (induction j)
  case (JArr xs)
  show ?case
    unfolding parses_def
  proof (intro allI impI)
    fix r n assume "ends_number r" and len: "length (stringify (JArr xs)) \<le> n"
    obtain k where k: "n = Suc k" using len by (cases n) auto
    show "parse_value n (stringify (JArr xs) @ r) = Some (JArr xs, r)"
    proof (cases xs)
      case (Cons y ys)
      have eq: "stringify (JArr xs) @ r = CHR ''['' # (stringify y @ tail_text stringify ys @ CHR '']'' # r)"
        unfolding Cons by (simp add: join_map_Cons del: list.map(2))
      have "take 1 (skip (stringify y @ tail_text stringify ys @ CHR '']'' # r)) \<noteq> '']''" by (rule not_closed)
      moreover have "parse_elems k (stringify y @ tail_text stringify ys @ CHR '']'' # r) = Some (y # ys, r)"
        using JArr len Cons k by (intro parse_elems_text) (auto simp: list_all_iff join_map_Cons simp del: list.map(2))
      ultimately show ?thesis unfolding eq k by (simp add: Cons)
    qed (use k in simp)
  qed
next
  case (JObj kvs)
  show ?case
    unfolding parses_def
  proof (intro allI impI)
    fix r n assume "ends_number r" and len: "length (stringify (JObj kvs)) \<le> n"
    obtain k where k: "n = Suc k" using len by (cases n) auto
    show "parse_value n (stringify (JObj kvs) @ r) = Some (JObj kvs, r)"
    proof (cases kvs)
      case (Cons y ys)
      have eq: "stringify (JObj kvs) @ r = CHR ''{'' # (member_string y @ tail_text member_string ys @ CHR ''}'' # r)"
        unfolding Cons stringify_object by (simp add: join_map_Cons del: list.map(2))
      have "take 1 (skip (member_string y @ tail_text member_string ys @ CHR ''}'' # r)) \<noteq> ''}''" by (rule not_closed)
      moreover have "parse_members k (member_string y @ tail_text member_string ys @ CHR ''}'' # r) = Some (y # ys, r)"
      proof (rule parse_members_text)
        show "\<forall>p \<in> set (y # ys). parses (snd p)" using JObj Cons by (auto simp: list_all_iff snds.simps)
        show "length (member_string y @ tail_text member_string ys) < k"
          using len eq k by (simp add: Cons stringify_object join_map_Cons del: list.map(2) stringify.simps)
      qed
      ultimately show ?thesis using JObj(2) unfolding eq k by (simp add: Cons object_of_distinct)
    qed (use k in simp)
  qed
next
  case (JNum m)
  show ?case by (auto simp: parses_def intro!: parse_value_number) (metis gr0I le_zero_eq length_0_conv stringify.simps(3) stringify_nonempty)
qed (auto simp: parses_def quote_def parse_quote keyword_def dest!: Suc_le_D)

theorem json_parse_stringify: "distinct_keys j \<Longrightarrow> json_parse (stringify j) = Some j"
proof -
  assume "distinct_keys j"
  then have "parse_value (Suc (length (stringify j))) (stringify j @ []) = Some (j, [])"
    using parses_all [of j] unfolding parses_def by (metis ends_marks(4) le_Suc_eq order_refl)
  then show "json_parse (stringify j) = Some j" by (simp add: json_parse_def skip_def)
qed

text \<open>No text of \<open>JSON.stringify\<close> has a line break.\<close>

lemma hexd_no_newline: "n < 16 \<Longrightarrow> hexd n \<noteq> CHR 0x0A"
  using hexd_chars [of n] by (auto simp: hex_digit_def)

lemma esc_no_newline: "CHR 0x0A \<notin> set (esc c)"
proof -
  define n where "n = (of_char c :: nat)"
  have "n = 10" if "c = CHR 0x0A" using that by (simp add: n_def)
  moreover have "hexd (n div 16) \<noteq> CHR 0x0A" "hexd (n mod 16) \<noteq> CHR 0x0A" if "n < 32"
    using that by (intro hexd_no_newline; simp)+
  ultimately show ?thesis by (auto simp: esc_def Let_def simp flip: n_def split: if_splits)
qed

lemma quote_no_newline: "CHR 0x0A \<notin> set (quote s)"
  using esc_no_newline by (auto simp: quote_def)

lemma join_no_newline: "\<forall>x \<in> set xs. CHR 0x0A \<notin> set x \<Longrightarrow> CHR 0x0A \<notin> set (join '','' xs)"
  by (induction "'',''" xs rule: join.induct) auto

lemma num_no_newline: "CHR 0x0A \<notin> set (num_text n)"
proof -
  have "\<not> is_digit (CHR 0x0A)" by (simp add: is_digit_def)
  then have "CHR 0x0A \<notin> set (digits m)" for m using list_all_digits [of m] by (auto simp: list_all_iff)
  then show ?thesis by (simp add: num_text_def)
qed

lemma no_newline: "CHR 0x0A \<notin> set (stringify j)"
proof (induction j)
  case (JArr xs)
  then show ?case using join_no_newline [of "map stringify xs"] by auto
next
  case (JObj kvs)
  then have "\<forall>x \<in> set (map member_string kvs). CHR 0x0A \<notin> set x"
    using quote_no_newline by (auto simp: member_string_def snds.simps)
  then show ?case unfolding stringify_object using join_no_newline [of "map member_string kvs"] by auto
qed (simp_all add: quote_no_newline num_no_newline)

section \<open>Sorted keys\<close>

lemma distinct_keys_sort [simp]: "distinct_keys (sort_keys j) = distinct_keys j"
proof (induction j)
  case (JObj kvs)
  have keys: "distinct (map fst (sort_key fst ms)) = distinct (map fst ms)" for ms :: "(string \<times> json) list"
    by (simp add: distinct_map inj_on_def)
  show ?case using JObj by (auto simp: keys list_all_iff snds.simps comp_def)
qed (auto simp: list_all_iff)

lemma map_of_sort_key: "distinct (map fst kvs) \<Longrightarrow> map_of (sort_key fst kvs) k = map_of kvs k"
proof -
  assume "distinct (map fst kvs)"
  moreover from this have "distinct (map fst (sort_key fst kvs))" by (simp add: distinct_map inj_on_def)
  ultimately have "map_of (sort_key fst kvs) k = Some v \<longleftrightarrow> map_of kvs k = Some v" for v by (simp add: map_of_eq_Some_iff)
  then show ?thesis by (metis not_None_eq)
qed

lemma obj_get_sorted: "distinct (map fst kvs) \<Longrightarrow> obj_get (sort_keys (JObj kvs)) k = map_option sort_keys (obj_get (JObj kvs) k)"
proof -
  assume "distinct (map fst kvs)"
  then have "map_of (sort_key fst (map (map_prod id sort_keys) kvs)) k = map_of (map (map_prod id sort_keys) kvs) k"
    by (intro map_of_sort_key) (simp add: comp_def)
  moreover have "map_of (map (map_prod id sort_keys) kvs) k = map_option sort_keys (map_of kvs k)"
    by (induction kvs) auto
  ultimately show ?thesis by (simp add: obj_get_def)
qed

lemma json_parse_file:
  assumes "distinct_keys j"
  shows "json_parse (canonicalJson j @ [CHR 0x0A]) = Some (sort_keys j)" "json_parse (canonicalJson j) = Some (sort_keys j)"
proof -
  let ?t = "stringify (sort_keys j)"
  have "ends_number [CHR 0x0A]" by (simp add: ends_number_def is_digit_def)
  moreover have "parses (sort_keys j)" using assms by (simp add: parses_all)
  ultimately have "parse_value (Suc (Suc (length ?t))) (?t @ [CHR 0x0A]) = Some (sort_keys j, [CHR 0x0A])"
    unfolding parses_def by (metis le_Suc_eq order_refl)
  moreover have "skip [CHR 0x0A] = []" by code_simp
  ultimately show "json_parse (canonicalJson j @ [CHR 0x0A]) = Some (sort_keys j)" by (simp add: json_parse_def canonicalJson_stringify)
  show "json_parse (canonicalJson j) = Some (sort_keys j)" using assms by (simp add: canonicalJson_stringify json_parse_stringify)
qed

section \<open>Updated objects\<close>

lemma lookup_obj_put: "map_of (obj_put kvs k v) k' = (if k' = k then Some v else map_of kvs k')"
proof (cases "k \<in> fst ` set kvs")
  case True
  have "map_of (map (\<lambda>p. if fst p = k then (k, v) else p) kvs) k' =
      (if k' = k \<and> k \<in> fst ` set kvs then Some v else map_of kvs k')"
    by (induction kvs) force+
  with True show ?thesis by (simp add: obj_put_def)
next
  case False
  then have "map_of kvs k = None" by (simp add: map_of_eq_None_iff)
  with False show ?thesis by (simp add: obj_put_def map_add_def split: option.split)
qed

lemma keys_obj_put: "map fst (obj_put kvs k v) = (if k \<in> set (map fst kvs) then map fst kvs else map fst kvs @ [k])"
  by (auto simp: obj_put_def)

lemma distinct_keys_put: "distinct_keys (JObj kvs) \<Longrightarrow> distinct_keys v \<Longrightarrow> distinct_keys (JObj (obj_put kvs k v))"
proof -
  assume "distinct_keys (JObj kvs)" "distinct_keys v"
  moreover from this(1) have "distinct (map fst (obj_put kvs k v))" unfolding keys_obj_put by simp
  ultimately show ?thesis by (auto simp: list_all_iff obj_put_def)
qed

end
