(* ===== verification/Identity_Registry.thy ===== *)
theory Identity_Registry
  imports Json_Parse Registry_Snapshot Credentials
begin

text \<open>
  \<open>packages/agent-worker/src/identity-registry.mjs\<close>: the identity registry of a
  host, one file that is replaced atomically and an append-only log of audit
  entries, each with the hash of the one before.  A store is the contents of the
  two files; the checks of owners, modes and links of the files are not modelled,
  and the lock makes an update exclusive.  An error is a code and a reason.
\<close>

section \<open>Times and names\<close>

type_synonym 'a checked = "(string \<times> string) + 'a"

text \<open>The first check that fails gives the error.\<close>

definition demand :: "string \<Rightarrow> (bool \<times> string) list \<Rightarrow> 'a \<Rightarrow> 'a checked" where
  "demand code checks x = (case find (\<lambda>c. \<not> fst c) checks of None \<Rightarrow> Inr x | Some c \<Rightarrow> Inl (code, snd c))"

definition number_at :: "nat \<Rightarrow> nat \<Rightarrow> string \<Rightarrow> int option" where
  "number_at i n s = (let t = take n (drop i s) in if length t = n \<and> list_all is_digit t then Some (int (dec_val t)) else None)"

definition mark_at :: "nat \<Rightarrow> char \<Rightarrow> string \<Rightarrow> bool" where
  "mark_at i c s = (take 1 (drop i s) = [c])"

text \<open>The milliseconds of \<open>(?:\.(\d{1,9}))?Z\<close>.\<close>

definition fraction_ms :: "string \<Rightarrow> int option" where
  "fraction_ms s =
    (if s = ''Z'' then Some 0
     else let ds = takeWhile is_digit (drop 1 s) in
       if take 1 s = ''.'' \<and> ds \<noteq> [] \<and> length ds \<le> 9 \<and> drop (1 + length ds) s = ''Z''
       then Some (int (dec_val (take 3 (ds @ ''00'')))) else None)"

definition days_in_month :: "int \<Rightarrow> int \<Rightarrow> int" where
  "days_in_month y m =
    (if m = 2 then (if y mod 4 = 0 \<and> (y mod 100 \<noteq> 0 \<or> y mod 400 = 0) then 29 else 28)
     else if m \<in> {4, 6, 9, 11} then 30 else 31)"

text \<open>Days since the first of January 1970 in the proleptic Gregorian calendar.\<close>

definition days_from_civil :: "int \<Rightarrow> int \<Rightarrow> int \<Rightarrow> int" where
  "days_from_civil y m d =
    (let y1 = (if m \<le> 2 then y - 1 else y); era = y1 div 400; yoe = y1 mod 400; doy = (153 * ((m + 9) mod 12) + 2) div 5 + d - 1 in
     era * 146097 + yoe * 365 + yoe div 4 - yoe div 100 + doy - 719468)"

definition parseIsoUtc :: "string \<Rightarrow> int option" where
  "parseIsoUtc s =
    (case (number_at 0 4 s, number_at 5 2 s, number_at 8 2 s, number_at 11 2 s, number_at 14 2 s, number_at 17 2 s, fraction_ms (drop 19 s)) of
       (Some y, Some mo, Some d, Some h, Some mi, Some sec, Some ms) \<Rightarrow>
         if mark_at 4 (CHR ''-'') s \<and> mark_at 7 (CHR ''-'') s \<and> mark_at 10 (CHR ''T'') s \<and> mark_at 13 (CHR '':'') s \<and> mark_at 16 (CHR '':'') s \<and>
            1 \<le> mo \<and> mo \<le> 12 \<and> 1 \<le> d \<and> d \<le> days_in_month y mo \<and> h \<le> 23 \<and> mi \<le> 59 \<and> sec \<le> 59
         then Some ((((days_from_civil y mo d * 24 + h) * 60 + mi) * 60 + sec) * 1000 + ms) else None
     | _ \<Rightarrow> None)"

definition time_of :: "json option \<Rightarrow> int option" where
  "time_of v = (case text_of v of None \<Rightarrow> None | Some s \<Rightarrow> parseIsoUtc s)"

text \<open>The code points of a text.\<close>

fun code_points :: "string \<Rightarrow> int list" where
  "code_points [] = []"
| "code_points (a # s) = (let n = of_char a :: int; low = (\<lambda>c. of_char c mod 64 :: int) in
     if n < 128 then n # code_points s
     else if n < 224 then (case s of b # t \<Rightarrow> (n mod 32 * 64 + low b) # code_points t | _ \<Rightarrow> [])
     else if n < 240 then (case s of b # c # t \<Rightarrow> (n mod 16 * 4096 + low b * 64 + low c) # code_points t | _ \<Rightarrow> [])
     else (case s of b # c # d # t \<Rightarrow> (n mod 8 * 262144 + low b * 4096 + low c * 64 + low d) # code_points t | _ \<Rightarrow> []))"

text \<open>The Unicode categories Cc and Cf.\<close>

definition CONTROL_RANGES :: "(int \<times> int) list" where
  "CONTROL_RANGES = [(0, 0x1F), (0x7F, 0x9F), (0xAD, 0xAD), (0x600, 0x605), (0x61C, 0x61C), (0x6DD, 0x6DD), (0x70F, 0x70F), (0x890, 0x891),
     (0x8E2, 0x8E2), (0x180E, 0x180E), (0x200B, 0x200F), (0x202A, 0x202E), (0x2060, 0x2064), (0x2066, 0x206F), (0xFEFF, 0xFEFF),
     (0xFFF9, 0xFFFB), (0x110BD, 0x110BD), (0x110CD, 0x110CD), (0x13430, 0x1343F), (0x1BCA0, 0x1BCA3), (0x1D173, 0x1D17A),
     (0xE0001, 0xE0001), (0xE0020, 0xE007F)]"

definition isValidProfileName :: "string \<Rightarrow> bool" where
  "isValidProfileName s = (s \<noteq> [] \<and> length s \<le> 64 \<and> CHR ''/'' \<notin> set s \<and> CHR 0x5C \<notin> set s \<and>
     list_all (\<lambda>n. list_all (\<lambda>(lo, hi). n < lo \<or> hi < n) CONTROL_RANGES) (code_points s))"

section \<open>The registry\<close>

record binding =
  bd_binding_id :: string
  bd_principal_id :: string
  bd_profile_name :: string
  bd_profile_instance_id :: string
  bd_authority_origin :: string
  bd_binding_generation :: int
  bd_issued_at :: string
  bd_revoked_at :: "string option"

record identity_registry =
  rg_sequence :: int
  rg_createdAt :: string
  rg_updatedAt :: string
  rg_headSequence :: int
  rg_headHash :: string
  rg_bindings :: "(string \<times> binding) list"

definition IDENTITY_REGISTRY_SCHEMA :: string where "IDENTITY_REGISTRY_SCHEMA = ''identity_registry_v1''"
definition LOCAL_PROFILE_BINDING_SCHEMA :: string where "LOCAL_PROFILE_BINDING_SCHEMA = ''local_profile_binding_v1''"
definition MAX_REGISTRY_BINDINGS :: int where "MAX_REGISTRY_BINDINGS = 1000"
definition MAX_REGISTRY_BYTES :: int where "MAX_REGISTRY_BYTES = 1024 * 1024"
definition MAX_AUDIT_BYTES :: int where "MAX_AUDIT_BYTES = 8 * 1024 * 1024"
definition ZERO_HASH_64 :: string where "ZERO_HASH_64 = replicate 64 (CHR ''0'')"

definition BINDING_ID_PATTERN :: "string \<Rightarrow> bool" where
  "BINDING_ID_PATTERN x = (starts_with ''bind_'' x \<and> matches_class hex_chars 32 32 (drop 5 x))"

definition HEX_64_PATTERN :: "string \<Rightarrow> bool" where
  "HEX_64_PATTERN x = matches_class hex_chars 64 64 x"

definition REGISTRY_TOP_KEYS :: "string list" where
  "REGISTRY_TOP_KEYS = [''schema'', ''sequence'', ''createdAt'', ''updatedAt'', ''auditHead'', ''bindings'']"
definition AUDIT_HEAD_KEYS :: "string list" where "AUDIT_HEAD_KEYS = [''sequence'', ''hash'']"
definition BINDING_KEYS :: "string list" where
  "BINDING_KEYS = [''schema'', ''binding_id'', ''trust_mode'', ''principal_id'', ''profile_name'', ''profile_instance_id'', ''authority_origin'',
     ''binding_generation'', ''issued_at'', ''revoked_at'', ''proof'']"
definition PROOF_KEYS :: "string list" where "PROOF_KEYS = [''kind'', ''observed_on_disk'', ''verified_live_authority'']"
definition AUDIT_ENTRY_KEYS :: "string list" where
  "AUDIT_ENTRY_KEYS = [''sequence'', ''at'', ''action'', ''subject'', ''bindingId'', ''prevHash'', ''hash'']"
definition AUDIT_ACTIONS :: "string list" where "AUDIT_ACTIONS = [''init'', ''bind'', ''revoke'']"

definition isPlainObject :: "json option \<Rightarrow> bool" where
  "isPlainObject v = (case v of Some (JObj _) \<Rightarrow> True | _ \<Rightarrow> False)"

definition object_keys :: "json option \<Rightarrow> string list" where
  "object_keys v = (case v of Some (JObj kvs) \<Rightarrow> map fst kvs | _ \<Rightarrow> [])"

definition known_keys :: "string list \<Rightarrow> json option \<Rightarrow> bool" where
  "known_keys allowed v = list_all (\<lambda>k. k \<in> set allowed) (object_keys v)"

definition hasExactKeys :: "json option \<Rightarrow> string list \<Rightarrow> bool" where
  "hasExactKeys v allowed = (length (object_keys v) = length allowed \<and> known_keys allowed v)"

definition text_where :: "(string \<Rightarrow> bool) \<Rightarrow> json option \<Rightarrow> bool" where
  "text_where P v = (case text_of v of None \<Rightarrow> False | Some s \<Rightarrow> P s)"

definition safe_from :: "int \<Rightarrow> json option \<Rightarrow> bool" where
  "safe_from lo v = (case int_of_json v of None \<Rightarrow> False | Some n \<Rightarrow> lo \<le> n \<and> n \<le> MAX_SAFE_INTEGER)"

abbreviation "the_text v \<equiv> opt_or (text_of v) []"
abbreviation "the_int v \<equiv> opt_or (int_of_json v) 0"

definition proof_json :: json where
  "proof_json = JObj [(''kind'', JStr ''disk_observation''), (''observed_on_disk'', JBool True), (''verified_live_authority'', JBool False)]"

definition binding_json :: "binding \<Rightarrow> json" where
  "binding_json b = JObj [(''schema'', JStr LOCAL_PROFILE_BINDING_SCHEMA), (''binding_id'', JStr (bd_binding_id b)), (''trust_mode'', JStr ''mesh-managed''),
     (''principal_id'', JStr (bd_principal_id b)), (''profile_name'', JStr (bd_profile_name b)),
     (''profile_instance_id'', JStr (bd_profile_instance_id b)), (''authority_origin'', JStr (bd_authority_origin b)),
     (''binding_generation'', JNum (bd_binding_generation b)), (''issued_at'', JStr (bd_issued_at b)),
     (''revoked_at'', opt_json (bd_revoked_at b)), (''proof'', proof_json)]"

definition registry_json :: "identity_registry \<Rightarrow> json" where
  "registry_json r = JObj [(''schema'', JStr IDENTITY_REGISTRY_SCHEMA), (''sequence'', JNum (rg_sequence r)), (''createdAt'', JStr (rg_createdAt r)),
     (''updatedAt'', JStr (rg_updatedAt r)),
     (''auditHead'', JObj [(''sequence'', JNum (rg_headSequence r)), (''hash'', JStr (rg_headHash r))]),
     (''bindings'', JObj (map (map_prod id binding_json) (rg_bindings r)))]"

definition file_text :: "json \<Rightarrow> string" where
  "file_text j = canonicalJson j @ [CHR 0x0A]"

definition proof_checks :: "json option \<Rightarrow> (bool \<times> string) list" where
  "proof_checks v = (let f = (\<lambda>k. case v of None \<Rightarrow> None | Some j \<Rightarrow> obj_get j k) in [
     (isPlainObject v, ''invalid_proof''),
     (known_keys PROOF_KEYS v, ''unknown_proof_key''),
     (hasExactKeys v PROOF_KEYS, ''missing_proof_key''),
     (f ''kind'' = Some (JStr ''disk_observation'') \<and> f ''observed_on_disk'' = Some (JBool True) \<and> f ''verified_live_authority'' = Some (JBool False),
      ''invalid_proof_values'')])"

definition validateBindingRecord :: "node_env \<Rightarrow> string \<Rightarrow> json \<Rightarrow> string list \<Rightarrow> binding checked" where
  "validateBindingRecord E key j seen =
    (let f = obj_get j; name = the_text (f ''profile_name''); inst = the_text (f ''profile_instance_id'');
         issued = opt_or (time_of (f ''issued_at'')) 0 in
     demand ''invalid_registry'' ([
       (isPlainObject (Some j), ''binding_not_object''),
       (known_keys BINDING_KEYS (Some j), ''unknown_binding_key''),
       (hasExactKeys (Some j) BINDING_KEYS, ''missing_binding_key''),
       (f ''schema'' = Some (JStr LOCAL_PROFILE_BINDING_SCHEMA), ''invalid_binding_schema''),
       (text_where BINDING_ID_PATTERN (f ''binding_id''), ''invalid_binding_id''),
       (the_text (f ''binding_id'') \<notin> set seen, ''duplicate_binding_id''),
       (f ''trust_mode'' = Some (JStr ''mesh-managed''), ''invalid_trust_mode''),
       (text_where AGENT_ID_PATTERN (f ''principal_id''), ''invalid_principal_id''),
       (text_where isValidProfileName (f ''profile_name''), ''invalid_profile_name''),
       (text_where INSTANCE_ID_PATTERN (f ''profile_instance_id''), ''invalid_profile_instance_id''),
       (inst = deriveClientInstanceId E name, ''profile_instance_id_mismatch''),
       (key = inst, ''binding_key_mismatch''),
       (text_where (isValidBareHttpsOrigin E) (f ''authority_origin''), ''invalid_authority_origin''),
       (safe_from 1 (f ''binding_generation''), ''invalid_binding_generation''),
       (time_of (f ''issued_at'') \<noteq> None, ''invalid_issued_at''),
       (f ''revoked_at'' = Some JNull \<or> time_of (f ''revoked_at'') \<noteq> None, ''invalid_revoked_at''),
       (f ''revoked_at'' = Some JNull \<or> issued \<le> opt_or (time_of (f ''revoked_at'')) 0, ''revoked_before_issued'')] @
       proof_checks (f ''proof''))
       \<lparr>bd_binding_id = the_text (f ''binding_id''), bd_principal_id = the_text (f ''principal_id''), bd_profile_name = name,
        bd_profile_instance_id = inst, bd_authority_origin = the_text (f ''authority_origin''),
        bd_binding_generation = the_int (f ''binding_generation''), bd_issued_at = the_text (f ''issued_at''),
        bd_revoked_at = text_of (f ''revoked_at'')\<rparr>)"

fun validate_bindings :: "node_env \<Rightarrow> string list \<Rightarrow> (string \<times> json) list \<Rightarrow> (string \<times> binding) list checked" where
  "validate_bindings E seen [] = Inr []"
| "validate_bindings E seen ((k, j) # rest) =
    (if \<not> INSTANCE_ID_PATTERN k then Inl (''invalid_registry'', ''invalid_binding_map_key'')
     else case validateBindingRecord E k j seen of Inl e \<Rightarrow> Inl e
     | Inr b \<Rightarrow> (case validate_bindings E (bd_binding_id b # seen) rest of Inl e \<Rightarrow> Inl e | Inr bs \<Rightarrow> Inr ((k, b) # bs)))"

definition head_checks :: "json option \<Rightarrow> int \<Rightarrow> (bool \<times> string) list" where
  "head_checks v sequence = (let f = (\<lambda>k. case v of None \<Rightarrow> None | Some j \<Rightarrow> obj_get j k) in [
     (isPlainObject v, ''invalid_audit_head''),
     (known_keys AUDIT_HEAD_KEYS v, ''unknown_audit_head_key''),
     (hasExactKeys v AUDIT_HEAD_KEYS, ''missing_audit_head_key''),
     (safe_from 0 (f ''sequence'') \<and> the_int (f ''sequence'') = sequence, ''invalid_audit_head_sequence''),
     (text_where HEX_64_PATTERN (f ''hash''), ''invalid_audit_head_hash''),
     (sequence = 0 \<longrightarrow> f ''hash'' = Some (JStr ZERO_HASH_64), ''invalid_zero_sequence_hash''),
     (0 < sequence \<longrightarrow> f ''hash'' \<noteq> Some (JStr ZERO_HASH_64), ''invalid_nonzero_sequence_hash'')])"

definition validateIdentityRegistry :: "node_env \<Rightarrow> json \<Rightarrow> identity_registry checked" where
  "validateIdentityRegistry E j =
    (let f = obj_get j; sequence = the_int (f ''sequence''); members = (case f ''bindings'' of Some (JObj kvs) \<Rightarrow> kvs | _ \<Rightarrow> []);
         head = (\<lambda>k. case f ''auditHead'' of None \<Rightarrow> None | Some h \<Rightarrow> obj_get h k) in
     case demand ''invalid_registry'' ([
       (isPlainObject (Some j), ''registry_not_object''),
       (known_keys REGISTRY_TOP_KEYS (Some j), ''unknown_registry_key''),
       (hasExactKeys (Some j) REGISTRY_TOP_KEYS, ''missing_registry_key''),
       (f ''schema'' = Some (JStr IDENTITY_REGISTRY_SCHEMA), ''invalid_registry_schema''),
       (safe_from 0 (f ''sequence''), ''invalid_sequence''),
       (time_of (f ''createdAt'') \<noteq> None, ''invalid_created_at''),
       (time_of (f ''updatedAt'') \<noteq> None, ''invalid_updated_at''),
       (opt_or (time_of (f ''createdAt'')) 0 \<le> opt_or (time_of (f ''updatedAt'')) 0, ''updated_before_created'')] @
       head_checks (f ''auditHead'') sequence @ [
       (isPlainObject (f ''bindings''), ''bindings_not_object''),
       (int (length members) \<le> MAX_REGISTRY_BINDINGS, ''too_many_bindings'')]) () of
       Inl e \<Rightarrow> Inl e
     | Inr _ \<Rightarrow> (case validate_bindings E [] (sort_key fst members) of Inl e \<Rightarrow> Inl e
        | Inr bs \<Rightarrow>
           (let r = \<lparr>rg_sequence = sequence, rg_createdAt = the_text (f ''createdAt''), rg_updatedAt = the_text (f ''updatedAt''),
                rg_headSequence = the_int (head ''sequence''), rg_headHash = the_text (head ''hash''), rg_bindings = bs\<rparr> in
            if MAX_REGISTRY_BYTES < int (length (file_text (registry_json r))) then Inl (''invalid_registry'', ''registry_oversized'') else Inr r)))"

section \<open>The audit log\<close>

record audit_entry =
  ae_sequence :: int
  ae_at :: string
  ae_action :: string
  ae_subject :: "string option"
  ae_bindingId :: "string option"
  ae_prevHash :: string
  ae_hash :: string

definition payload_members :: "audit_entry \<Rightarrow> (string \<times> json) list" where
  "payload_members e = [(''sequence'', JNum (ae_sequence e)), (''at'', JStr (ae_at e)), (''action'', JStr (ae_action e)),
     (''subject'', opt_json (ae_subject e)), (''bindingId'', opt_json (ae_bindingId e)), (''prevHash'', JStr (ae_prevHash e))]"

definition entry_json :: "audit_entry \<Rightarrow> json" where
  "entry_json e = JObj (payload_members e @ [(''hash'', JStr (ae_hash e))])"

definition payload_hash :: "node_env \<Rightarrow> audit_entry \<Rightarrow> string" where
  "payload_hash E e = sha256 E (canonicalJson (JObj (payload_members e)))"

definition buildAuditEntry :: "node_env \<Rightarrow> int \<Rightarrow> string \<Rightarrow> string \<Rightarrow> string option \<Rightarrow> string option \<Rightarrow> string \<Rightarrow> audit_entry" where
  "buildAuditEntry E sequence time action subject bindingId prevHash =
    (let e = \<lparr>ae_sequence = sequence, ae_at = time, ae_action = action, ae_subject = subject, ae_bindingId = bindingId, ae_prevHash = prevHash, ae_hash = []\<rparr>
     in e\<lparr>ae_hash := payload_hash E e\<rparr>)"

definition read_entry :: "json \<Rightarrow> audit_entry" where
  "read_entry j = (let f = obj_get j in
     \<lparr>ae_sequence = the_int (f ''sequence''), ae_at = the_text (f ''at''), ae_action = the_text (f ''action''), ae_subject = text_of (f ''subject''),
      ae_bindingId = text_of (f ''bindingId''), ae_prevHash = the_text (f ''prevHash''), ae_hash = the_text (f ''hash'')\<rparr>)"

definition validateAuditEntryObject :: "node_env \<Rightarrow> json \<Rightarrow> audit_entry checked" where
  "validateAuditEntryObject E j =
    (let f = obj_get j; e = read_entry j in
     demand ''registry_chain_broken'' [
       (isPlainObject (Some j), ''audit_entry_not_object''),
       (known_keys AUDIT_ENTRY_KEYS (Some j), ''unknown_audit_entry_key''),
       (hasExactKeys (Some j) AUDIT_ENTRY_KEYS, ''missing_audit_entry_key''),
       (safe_from 1 (f ''sequence''), ''invalid_audit_sequence''),
       (time_of (f ''at'') \<noteq> None, ''invalid_audit_timestamp''),
       (text_where (\<lambda>a. a \<in> set AUDIT_ACTIONS) (f ''action''), ''invalid_audit_action''),
       (f ''subject'' = Some JNull \<or> text_where INSTANCE_ID_PATTERN (f ''subject''), ''invalid_audit_subject''),
       (f ''bindingId'' = Some JNull \<or> text_where BINDING_ID_PATTERN (f ''bindingId''), ''invalid_audit_binding_id''),
       (ae_action e = ''init'' \<longrightarrow> ae_subject e = None \<and> ae_bindingId e = None, ''invalid_init_audit_fields''),
       (ae_action e \<noteq> ''init'' \<longrightarrow> ae_subject e \<noteq> None \<and> ae_bindingId e \<noteq> None, ''missing_audit_subject_or_binding''),
       (text_where HEX_64_PATTERN (f ''prevHash''), ''invalid_audit_prev_hash''),
       (text_where HEX_64_PATTERN (f ''hash''), ''invalid_audit_hash''),
       (ae_hash e = payload_hash E e, ''audit_hash_mismatch'')] e)"

record audit_check =
  ac_entries :: "audit_entry list"
  ac_uncommittedTail :: int
  ac_verifiedThrough :: int
  ac_committedByteLength :: nat

definition no_audit :: audit_check where
  "no_audit = \<lparr>ac_entries = [], ac_uncommittedTail = 0, ac_verifiedThrough = 0, ac_committedByteLength = 0\<rparr>"

text \<open>The checks of one line, the \<open>expectedSeq\<close>-th.\<close>

definition verify_line :: "node_env \<Rightarrow> int \<Rightarrow> string \<Rightarrow> string \<Rightarrow> audit_entry checked" where
  "verify_line E expectedSeq prevHash line =
    (if line = [] then Inl (''registry_chain_broken'', ''empty_audit_line'')
     else case json_parse line of None \<Rightarrow> Inl (''registry_chain_broken'', ''invalid_audit_json'')
     | Some j \<Rightarrow> (case validateAuditEntryObject E j of Inl e \<Rightarrow> Inl e
        | Inr e \<Rightarrow> demand ''registry_chain_broken'' [
            (ae_sequence e = expectedSeq, ''audit_sequence_gap_or_reorder''),
            (ae_prevHash e = prevHash, ''audit_prev_hash_mismatch''),
            (expectedSeq = 1 \<longrightarrow> ae_action e \<in> {''init'', ''bind''}, ''invalid_first_audit_action''),
            (expectedSeq \<noteq> 1 \<longrightarrow> ae_action e \<noteq> ''init'', ''unexpected_init_audit_action'')] e))"

text \<open>The loop over the lines; \<open>committed\<close> is the offset after the line that has the sequence of the head.\<close>

fun verify_lines :: "node_env \<Rightarrow> (int \<times> string) option \<Rightarrow> int \<Rightarrow> string \<Rightarrow> nat \<Rightarrow> nat \<Rightarrow> string list \<Rightarrow> (audit_entry list \<times> nat) checked" where
  "verify_lines E head i prevHash byteOffset committed [] = Inr ([], committed)"
| "verify_lines E head i prevHash byteOffset committed (line # lines) =
    (case verify_line E (i + 1) prevHash line of Inl e \<Rightarrow> Inl e
     | Inr e \<Rightarrow>
        (let byteOffset1 = byteOffset + length line + 1;
             committed1 = (case head of None \<Rightarrow> committed | Some (n, _) \<Rightarrow> if ae_sequence e = n then byteOffset1 else committed) in
         case verify_lines E head (i + 1) (ae_hash e) byteOffset1 committed1 lines of Inl x \<Rightarrow> Inl x
         | Inr (es, c) \<Rightarrow> Inr (e # es, c)))"

definition log_lines :: "string \<Rightarrow> string list" where
  "log_lines text = (if last text \<noteq> CHR 0x0A then butlast (split_on (CHR 0x0A) text) else split_on (CHR 0x0A) (butlast text))"

definition check_head :: "(int \<times> string) option \<Rightarrow> bool \<Rightarrow> audit_entry list \<Rightarrow> nat \<Rightarrow> audit_check checked" where
  "check_head head torn entries committed =
    (let fails = (\<lambda>reason. Inl (''registry_chain_broken'', reason));
         tail_of = (\<lambda>es. Inr \<lparr>ac_entries = es, ac_uncommittedTail = 1, ac_verifiedThrough = 0, ac_committedByteLength = 0\<rparr>);
         total = int (length entries) + (if torn then 1 else 0) in
     case head of
       None \<Rightarrow>
         if torn \<and> entries = [] then tail_of []
         else if \<not> torn \<and> length entries = 1 \<and> ae_sequence (hd entries) = 1 \<and> ae_action (hd entries) \<in> {''init'', ''bind''} then tail_of entries
         else fails ''orphan_audit_log''
     | Some (sequence, hash) \<Rightarrow>
         if sequence = 0 then
           (if total = 0 then Inr no_audit else if total = 1 then tail_of entries else fails ''unexpected_audit_entries_for_seq_zero'')
         else if int (length entries) < sequence then
           fails (if torn \<and> int (length entries) = sequence - 1 then ''audit_line_truncated'' else ''audit_log_behind_registry'')
         else if 1 < total - sequence then fails ''audit_log_too_many_uncommitted_lines''
         else if ae_hash (entries ! nat (sequence - 1)) \<noteq> hash then fails ''audit_head_hash_mismatch''
         else Inr \<lparr>ac_entries = entries, ac_uncommittedTail = total - sequence, ac_verifiedThrough = sequence, ac_committedByteLength = committed\<rparr>)"

definition no_log :: "(int \<times> string) option \<Rightarrow> string \<Rightarrow> audit_check checked" where
  "no_log head reason = (if head = None \<or> head = Some (0, ZERO_HASH_64) then Inr no_audit else Inl (''registry_chain_broken'', reason))"

definition parseAndVerifyAuditLog :: "node_env \<Rightarrow> string option \<Rightarrow> (int \<times> string) option \<Rightarrow> audit_check checked" where
  "parseAndVerifyAuditLog E auditBuf head = (case auditBuf of
      None \<Rightarrow> no_log head ''audit_log_missing''
    | Some text \<Rightarrow>
        if text = [] then no_log head ''audit_log_empty''
        else case verify_lines E head 0 ZERO_HASH_64 0 0 (log_lines text) of Inl e \<Rightarrow> Inl e
        | Inr (entries, committed) \<Rightarrow> check_head head (last text \<noteq> CHR 0x0A) entries committed)"

section \<open>Reading\<close>

record current =
  cu_registry :: "identity_registry option"
  cu_audit :: audit_check

definition parse_registry :: "node_env \<Rightarrow> string \<Rightarrow> identity_registry checked" where
  "parse_registry E text =
    (if trim text = [] then Inl (''registry_corrupt'', ''empty_registry_file'')
     else case json_parse text of None \<Rightarrow> Inl (''registry_corrupt'', ''invalid_registry_json'')
     | Some j \<Rightarrow> (case validateIdentityRegistry E j of Inl (_, reason) \<Rightarrow> Inl (''registry_corrupt'', reason) | Inr r \<Rightarrow> Inr r))"

definition oversized :: "int \<Rightarrow> string option \<Rightarrow> bool" where
  "oversized limit buf = (case buf of None \<Rightarrow> False | Some t \<Rightarrow> limit < int (length t))"

definition readAndVerifyUnlocked :: "node_env \<Rightarrow> string option \<Rightarrow> string option \<Rightarrow> current checked" where
  "readAndVerifyUnlocked E regBuf auditBuf =
    (if oversized MAX_REGISTRY_BYTES regBuf then Inl (''registry_corrupt'', ''registry_oversized'')
     else if oversized (MAX_AUDIT_BYTES + 1024 * 1024) auditBuf then Inl (''registry_corrupt'', ''audit_oversized'')
     else case regBuf of
       None \<Rightarrow> (case (if auditBuf = None then Inr no_audit else parseAndVerifyAuditLog E auditBuf None) of Inl e \<Rightarrow> Inl e
          | Inr c \<Rightarrow> Inr \<lparr>cu_registry = None, cu_audit = c\<lparr>ac_committedByteLength := 0\<rparr>\<rparr>)
     | Some text \<Rightarrow> (case parse_registry E text of Inl e \<Rightarrow> Inl e
          | Inr r \<Rightarrow> (case parseAndVerifyAuditLog E auditBuf (Some (rg_headSequence r, rg_headHash r)) of Inl e \<Rightarrow> Inl e
             | Inr c \<Rightarrow> Inr \<lparr>cu_registry = Some r, cu_audit = c\<rparr>)))"

definition TRANSIENT_AUDIT_REASONS :: "string list" where
  "TRANSIENT_AUDIT_REASONS = [''audit_log_behind_registry'', ''audit_log_too_many_uncommitted_lines'', ''audit_log_missing'', ''audit_log_empty'',
     ''audit_line_truncated'', ''orphan_audit_log'']"

definition isRetryableReadTimingError :: "string \<times> string \<Rightarrow> bool" where
  "isRetryableReadTimingError e = (fst e = ''registry_chain_broken'' \<and> snd e \<in> set TRANSIENT_AUDIT_REASONS)"

definition READ_MAX_RETRIES :: nat where "READ_MAX_RETRIES = 5"

text \<open>
  \<open>readIdentityRegistry\<close>, given what the two files hold when each attempt opens
  them; at most \<open>READ_MAX_RETRIES\<close> attempts follow the first.
\<close>

fun read_attempts :: "node_env \<Rightarrow> nat \<Rightarrow> (nat \<Rightarrow> string option \<times> string option) \<Rightarrow> nat \<Rightarrow> current checked" where
  "read_attempts E attempt files 0 = readAndVerifyUnlocked E (fst (files attempt)) (snd (files attempt))"
| "read_attempts E attempt files (Suc left) =
    (case readAndVerifyUnlocked E (fst (files attempt)) (snd (files attempt)) of
       Inl e \<Rightarrow> if isRetryableReadTimingError e then read_attempts E (attempt + 1) files left else Inl e
     | Inr c \<Rightarrow> Inr c)"

definition readIdentityRegistry :: "node_env \<Rightarrow> (nat \<Rightarrow> string option \<times> string option) \<Rightarrow> current checked" where
  "readIdentityRegistry E files = read_attempts E 0 files READ_MAX_RETRIES"

section \<open>Updating\<close>

definition lookup_binding :: "(string \<times> binding) list \<Rightarrow> string \<Rightarrow> binding option" where
  "lookup_binding bs k = map_of bs k"

text \<open>Every binding but that of the subject is the same before and after.\<close>

definition others_unchanged :: "(string \<times> binding) list \<Rightarrow> (string \<times> binding) list \<Rightarrow> string option \<Rightarrow> bool" where
  "others_unchanged oldBindings nextBindings subject =
    (list_all (\<lambda>(k, b). Some k = subject \<or> (case lookup_binding nextBindings k of None \<Rightarrow> False
        | Some b' \<Rightarrow> canonicalJson (binding_json b') = canonicalJson (binding_json b))) oldBindings \<and>
     list_all (\<lambda>(k, _). Some k = subject \<or> lookup_binding oldBindings k \<noteq> None) nextBindings)"

definition mismatch :: "string \<times> string" where
  "mismatch = (''invalid_registry'', ''mutation_does_not_match_action'')"

definition bind_check :: "(string \<times> binding) list \<Rightarrow> string option \<Rightarrow> binding option \<Rightarrow> binding \<Rightarrow> string option checked" where
  "bind_check nextBindings subject oldB nextB =
    (if (case oldB of
           None \<Rightarrow> bd_binding_generation nextB \<noteq> 1 \<or> bd_revoked_at nextB \<noteq> None
         | Some b \<Rightarrow> bd_binding_generation nextB \<noteq> bd_binding_generation b + 1 \<or> bd_revoked_at nextB \<noteq> None \<or>
             bd_binding_id nextB = bd_binding_id b \<or> bd_profile_name nextB \<noteq> bd_profile_name b \<or>
             bd_profile_instance_id nextB \<noteq> bd_profile_instance_id b)
     then Inl mismatch
     else if (case oldB of None \<Rightarrow> False | Some b \<Rightarrow> bd_principal_id nextB \<noteq> bd_principal_id b \<or> bd_authority_origin nextB \<noteq> bd_authority_origin b)
     then Inl (''binding_conflict'', ''identity_change_requires_move'')
     else if list_ex (\<lambda>(k, b). Some k \<noteq> subject \<and> bd_revoked_at b = None \<and> bd_principal_id b = bd_principal_id nextB) nextBindings
     then Inl (''binding_conflict'', ''principal_already_bound'')
     else Inr (Some (bd_binding_id nextB)))"

definition revoke_check :: "binding option \<Rightarrow> binding \<Rightarrow> string option checked" where
  "revoke_check oldB nextB = (case oldB of None \<Rightarrow> Inl mismatch
    | Some b \<Rightarrow>
        if bd_revoked_at b \<noteq> None \<or> bd_revoked_at nextB = None then Inl mismatch
        else if canonicalJson (binding_json nextB) \<noteq> canonicalJson (binding_json (b\<lparr>bd_revoked_at := bd_revoked_at nextB\<rparr>)) then Inl mismatch
        else Inr (Some (bd_binding_id nextB)))"

definition assertMutationMatchesAction :: "bool \<Rightarrow> (string \<times> binding) list \<Rightarrow> (string \<times> binding) list \<Rightarrow> string \<Rightarrow> string option \<Rightarrow>
    string option checked" where
  "assertMutationMatchesAction absent oldBindings nextBindings action subject =
    (if action = ''init'' then (if \<not> absent \<or> nextBindings \<noteq> [] then Inl mismatch else Inr None)
     else if \<not> others_unchanged oldBindings nextBindings subject then Inl mismatch
     else case Option.bind subject (lookup_binding nextBindings) of None \<Rightarrow> Inl mismatch
     | Some nextB \<Rightarrow>
        (let oldB = Option.bind subject (lookup_binding oldBindings) in
         if action = ''bind'' then bind_check nextBindings subject oldB nextB
         else if action = ''revoke'' then revoke_check oldB nextB
         else Inl mismatch))"

definition updateArguments :: "int \<Rightarrow> string \<Rightarrow> string \<Rightarrow> string option \<Rightarrow> unit checked" where
  "updateArguments expectedSequence now action subject = demand ''invalid_registry'' [
     (0 \<le> expectedSequence \<and> expectedSequence \<le> MAX_SAFE_INTEGER, ''invalid_expected_sequence''),
     (action \<in> set AUDIT_ACTIONS, ''invalid_audit_action''),
     (case subject of None \<Rightarrow> True | Some s \<Rightarrow> INSTANCE_ID_PATTERN s, ''invalid_audit_subject''),
     (action = ''init'' \<longrightarrow> subject = None, ''init_subject_must_be_null''),
     (action \<in> {''bind'', ''revoke''} \<longrightarrow> subject \<noteq> None, ''subject_required_for_action''),
     (parseIsoUtc now \<noteq> None, ''invalid_timestamp'')] ()"

definition base_registry :: "string \<Rightarrow> identity_registry option \<Rightarrow> identity_registry" where
  "base_registry now r = (case r of
      None \<Rightarrow> \<lparr>rg_sequence = 0, rg_createdAt = now, rg_updatedAt = now, rg_headSequence = 0, rg_headHash = ZERO_HASH_64, rg_bindings = []\<rparr>
    | Some r \<Rightarrow> r)"

text \<open>The fields a mutation must leave alone.\<close>

definition protected_kept :: "json \<Rightarrow> identity_registry \<Rightarrow> bool" where
  "protected_kept m base =
    (obj_get m ''sequence'' = Some (JNum (rg_sequence base)) \<and> obj_get m ''updatedAt'' = Some (JStr (rg_updatedAt base)) \<and>
     isPlainObject (obj_get m ''auditHead'') \<and>
     (case obj_get m ''auditHead'' of None \<Rightarrow> False | Some h \<Rightarrow>
        obj_get h ''sequence'' = Some (JNum (rg_headSequence base)) \<and> obj_get h ''hash'' = Some (JStr (rg_headHash base))))"

text \<open>\<open>{...object, sequence, updatedAt, auditHead}\<close>.\<close>

definition stamped :: "(string \<times> json) list \<Rightarrow> int \<Rightarrow> string \<Rightarrow> string \<Rightarrow> json" where
  "stamped kvs sequence now hash = JObj (obj_put (obj_put (obj_put kvs ''sequence'' (JNum sequence)) ''updatedAt'' (JStr now)) ''auditHead''
     (JObj [(''sequence'', JNum sequence), (''hash'', JStr hash)]))"

definition PLACEHOLDER_HASH :: string where "PLACEHOLDER_HASH = replicate 64 (CHR ''a'')"

text \<open>The registry and the audit entry an update is going to write.\<close>

definition prepareUpdate :: "node_env \<Rightarrow> int \<Rightarrow> string \<Rightarrow> string \<Rightarrow> string option \<Rightarrow> (json \<Rightarrow> json) \<Rightarrow> current \<Rightarrow>
    (identity_registry \<times> audit_entry) checked" where
  "prepareUpdate E expectedSequence now action subject mutate cur =
    (let absent = (cu_registry cur = None); base = base_registry now (cu_registry cur); currentSeq = rg_sequence base; nextSeq = currentSeq + 1 in
     if currentSeq \<noteq> expectedSequence then Inl (''registry_sequence_conflict'', ''sequence_mismatch'')
     else if absent \<and> action \<notin> {''init'', ''bind''} then Inl mismatch
     else case mutate (sort_keys (registry_json base)) of
       JObj kvs \<Rightarrow>
         if \<not> protected_kept (JObj kvs) base then Inl (''invalid_registry'', ''mutate_modified_protected_fields'')
         else if \<not> absent \<and> obj_get (JObj kvs) ''createdAt'' \<noteq> Some (JStr (rg_createdAt base)) then Inl (''invalid_registry'', ''mutate_modified_created_at'')
         else (case validateIdentityRegistry E (stamped kvs nextSeq now PLACEHOLDER_HASH) of Inl e \<Rightarrow> Inl e
          | Inr candidate \<Rightarrow> (case assertMutationMatchesAction absent (rg_bindings base) (rg_bindings candidate) action subject of Inl e \<Rightarrow> Inl e
          | Inr bindingId \<Rightarrow>
              (let entry = buildAuditEntry E nextSeq now action subject bindingId (rg_headHash base) in
               case validateAuditEntryObject E (entry_json entry) of Inl e \<Rightarrow> Inl e
               | Inr _ \<Rightarrow> (case validateIdentityRegistry E (registry_json (candidate\<lparr>rg_headHash := ae_hash entry\<rparr>)) of Inl e \<Rightarrow> Inl e
                  | Inr r \<Rightarrow> Inr (r, entry)))))
     | _ \<Rightarrow> Inl (''invalid_registry'', ''mutate_returned_non_object''))"

subsection \<open>The files\<close>

record store =
  st_registry :: "string option"
  st_audit :: "string option"

text \<open>An update under the lock, once everything is checked: what it writes, and where the log is cut first.\<close>

record write_plan =
  wp_registry :: identity_registry
  wp_entry :: audit_entry
  wp_committed :: nat

definition entry_line :: "audit_entry \<Rightarrow> string" where
  "entry_line e = file_text (entry_json e)"

definition beginUpdate :: "node_env \<Rightarrow> int \<Rightarrow> string \<Rightarrow> string \<Rightarrow> string option \<Rightarrow> (json \<Rightarrow> json) \<Rightarrow> store \<Rightarrow> write_plan checked" where
  "beginUpdate E expectedSequence now action subject mutate st = (case updateArguments expectedSequence now action subject of Inl e \<Rightarrow> Inl e
    | Inr _ \<Rightarrow> (case readAndVerifyUnlocked E (st_registry st) (st_audit st) of Inl e \<Rightarrow> Inl e
    | Inr cur \<Rightarrow> (case prepareUpdate E expectedSequence now action subject mutate cur of Inl e \<Rightarrow> Inl e
    | Inr (r, entry) \<Rightarrow>
       (let committed = (if st_audit st = None then 0 else ac_committedByteLength (cu_audit cur)) in
        if MAX_AUDIT_BYTES < int (committed + length (entry_line entry)) then Inl (''registry_audit_full'', ''audit_file_limit_exceeded'')
        else Inr \<lparr>wp_registry = r, wp_entry = entry, wp_committed = committed\<rparr>))))"

text \<open>\<open>appendAuditEntrySync\<close>: the log is created or cut to its committed length, then the line is written piece by piece, each at its position.\<close>

definition openAudit :: "write_plan \<Rightarrow> store \<Rightarrow> store" where
  "openAudit p st = st\<lparr>st_audit := Some (take (wp_committed p) (opt_or (st_audit st) []))\<rparr>"

definition writeAudit :: "write_plan \<Rightarrow> nat \<Rightarrow> nat \<Rightarrow> store \<Rightarrow> store" where
  "writeAudit p offset n st = (let old = opt_or (st_audit st) []; pos = wp_committed p + offset in
     st\<lparr>st_audit := Some (take pos old @ take n (drop offset (entry_line (wp_entry p))) @ drop (pos + n) old)\<rparr>)"

text \<open>\<open>writeAtomicRegistrySync\<close>: the rename of the new file over the old one.\<close>

definition renameRegistry :: "write_plan \<Rightarrow> store \<Rightarrow> store" where
  "renameRegistry p st = st\<lparr>st_registry := Some (file_text (registry_json (wp_registry p)))\<rparr>"

end
