(* ===== verification/Registry_Files.thy ===== *)
theory Registry_Files
  imports Identity_Registry
begin

text \<open>
  What the registry and its log look like on disk, and that reading inverts
  writing: a validated registry and a chain of audit entries are read back as
  they were written, also with one more entry written in full or in part.
\<close>

section \<open>Checks\<close>

lemma demand_Inr: "demand code cs x = Inr y \<longleftrightarrow> list_all fst cs \<and> y = x"
  by (auto simp: demand_def find_None_iff list_all_iff find_Some_iff split: option.splits)

lemma known_keys_sorted [simp]: "known_keys allowed (Some (sort_keys j)) = known_keys allowed (Some j)"
  by (cases j) (auto simp: known_keys_def object_keys_def list_all_iff)

lemma exact_keys_sorted [simp]: "hasExactKeys (Some (sort_keys j)) allowed = hasExactKeys (Some j) allowed"
proof -
  have "length (object_keys (Some (sort_keys j))) = length (object_keys (Some j))" by (cases j) (simp_all add: object_keys_def)
  then show ?thesis by (simp add: hasExactKeys_def)
qed

lemma plain_object [simp]: "isPlainObject (Some (JObj kvs))"
  by (simp add: isPlainObject_def)

lemma plain_sorted [simp]: "isPlainObject (Some (sort_keys j)) = isPlainObject (Some j)"
  by (cases j) (simp_all add: isPlainObject_def)

lemma text_sorted [simp]: "text_of (map_option sort_keys v) = text_of v" "int_of_json (map_option sort_keys v) = int_of_json v"
  by (cases v; simp add: text_of_def int_of_json_def split: json.splits)+

lemma scalar_sorted [simp]:
  "sort_keys j = JStr s \<longleftrightarrow> j = JStr s" "sort_keys j = JNull \<longleftrightarrow> j = JNull" "sort_keys j = JBool b \<longleftrightarrow> j = JBool b" "sort_keys j = JNum n \<longleftrightarrow> j = JNum n"
  by (cases j; simp)+

lemma some_sorted: "map_option sort_keys v = Some (JStr s) \<longleftrightarrow> v = Some (JStr s)" "map_option sort_keys v = Some JNull \<longleftrightarrow> v = Some JNull"
  "map_option sort_keys v = Some (JBool b) \<longleftrightarrow> v = Some (JBool b)"
  by (cases v; simp)+

lemma time_sorted [simp]: "time_of (map_option sort_keys v) = time_of v"
  by (simp add: time_of_def)

lemma where_sorted [simp]: "text_where P (map_option sort_keys v) = text_where P v" "safe_from n (map_option sort_keys v) = safe_from n v"
  by (simp_all add: text_where_def safe_from_def)

section \<open>Bindings\<close>

definition binding_ok :: "node_env \<Rightarrow> string \<Rightarrow> binding \<Rightarrow> bool" where
  "binding_ok E key b \<longleftrightarrow> INSTANCE_ID_PATTERN key \<and> validateBindingRecord E key (binding_json b) [] = Inr b"

lemma binding_json_keys: "binding_json b = JObj kvs \<Longrightarrow> distinct (map fst kvs)"
  by (auto simp: binding_json_def)

lemma binding_get: "obj_get (sort_keys (binding_json b)) k = map_option sort_keys (obj_get (binding_json b) k)"
proof -
  obtain kvs where "binding_json b = JObj kvs" by (simp add: binding_json_def)
  with binding_json_keys [OF this] show ?thesis by (simp only: obj_get_sorted)
qed

lemma proof_get: "sort_keys proof_json = proof_json"
  by code_simp

lemma validate_binding_sorted: "validateBindingRecord E key (sort_keys (binding_json b)) seen = validateBindingRecord E key (binding_json b) seen"
proof -
  have p: "obj_get (binding_json b) ''proof'' = Some proof_json" by (simp add: obj_get_def binding_json_def)
  show ?thesis unfolding validateBindingRecord_def Let_def binding_get by (simp add: some_sorted p proof_get)
qed

text \<open>What the checks say of the record that passes.\<close>

definition binding_facts :: "node_env \<Rightarrow> string \<Rightarrow> binding \<Rightarrow> bool" where
  "binding_facts E key b \<longleftrightarrow> BINDING_ID_PATTERN (bd_binding_id b) \<and> AGENT_ID_PATTERN (bd_principal_id b) \<and> isValidProfileName (bd_profile_name b) \<and>
     INSTANCE_ID_PATTERN (bd_profile_instance_id b) \<and> bd_profile_instance_id b = deriveClientInstanceId E (bd_profile_name b) \<and>
     key = bd_profile_instance_id b \<and> isValidBareHttpsOrigin E (bd_authority_origin b) \<and>
     1 \<le> bd_binding_generation b \<and> bd_binding_generation b \<le> MAX_SAFE_INTEGER \<and> parseIsoUtc (bd_issued_at b) \<noteq> None \<and>
     (case bd_revoked_at b of None \<Rightarrow> True | Some t \<Rightarrow> (case parseIsoUtc t of None \<Rightarrow> False | Some m \<Rightarrow> opt_or (parseIsoUtc (bd_issued_at b)) 0 \<le> m))"

lemma text_whereE: "text_where P v \<Longrightarrow> (\<And>s. v = Some (JStr s) \<Longrightarrow> P s \<Longrightarrow> thesis) \<Longrightarrow> thesis"
  by (auto simp: text_where_def text_of_def split: option.splits json.splits)

lemma safe_fromE: "safe_from lo v \<Longrightarrow> (\<And>n. v = Some (JNum n) \<Longrightarrow> lo \<le> n \<Longrightarrow> n \<le> MAX_SAFE_INTEGER \<Longrightarrow> thesis) \<Longrightarrow> thesis"
  by (auto simp: safe_from_def int_of_json_def split: option.splits json.splits)

lemma time_ofE: "time_of v = Some t \<Longrightarrow> (\<And>s. v = Some (JStr s) \<Longrightarrow> parseIsoUtc s = Some t \<Longrightarrow> thesis) \<Longrightarrow> thesis"
  by (auto simp: time_of_def text_of_def split: option.splits json.splits)

lemmas field_elims = text_whereE safe_fromE time_ofE

lemma field_values [simp]:
  "text_of (Some (JStr s)) = Some s" "text_of (Some JNull) = None" "int_of_json (Some (JNum n)) = Some n"
  "text_where P (Some (JStr s)) = P s" "safe_from lo (Some (JNum n)) = (lo \<le> n \<and> n \<le> MAX_SAFE_INTEGER)" "time_of (Some (JStr s)) = parseIsoUtc s"
  "time_of (Some JNull) = None"
  by (simp_all add: text_of_def int_of_json_def text_where_def safe_from_def time_of_def)

lemma opt_or_values [simp]: "opt_or (Some x) y = x" "opt_or None y = y"
  by (simp_all add: opt_or_def)

lemma validate_binding_facts:
  assumes "validateBindingRecord E key j seen = Inr b"
  shows "binding_facts E key b" "bd_binding_id b \<notin> set seen"
proof -
  note checked = assms [unfolded validateBindingRecord_def Let_def demand_Inr, simplified]
  show "bd_binding_id b \<notin> set seen" using checked by auto
  show "binding_facts E key b"
    using checked unfolding binding_facts_def
    by (elim conjE field_elims) (auto elim!: field_elims split: option.splits)
qed

lemma validate_binding_json:
  assumes "binding_facts E key b" "bd_binding_id b \<notin> set seen"
  shows "validateBindingRecord E key (binding_json b) seen = Inr b"
proof -
  have keys: "known_keys BINDING_KEYS (Some (binding_json b))" "hasExactKeys (Some (binding_json b)) BINDING_KEYS"
      "isPlainObject (Some (binding_json b))" "list_all fst (proof_checks (Some proof_json))"
    by code_simp+
  have get: "obj_get (binding_json b) ''schema'' = Some (JStr LOCAL_PROFILE_BINDING_SCHEMA)" "obj_get (binding_json b) ''binding_id'' = Some (JStr (bd_binding_id b))"
      "obj_get (binding_json b) ''trust_mode'' = Some (JStr ''mesh-managed'')" "obj_get (binding_json b) ''principal_id'' = Some (JStr (bd_principal_id b))"
      "obj_get (binding_json b) ''profile_name'' = Some (JStr (bd_profile_name b))"
      "obj_get (binding_json b) ''profile_instance_id'' = Some (JStr (bd_profile_instance_id b))"
      "obj_get (binding_json b) ''authority_origin'' = Some (JStr (bd_authority_origin b))"
      "obj_get (binding_json b) ''binding_generation'' = Some (JNum (bd_binding_generation b))" "obj_get (binding_json b) ''issued_at'' = Some (JStr (bd_issued_at b))"
      "obj_get (binding_json b) ''revoked_at'' = Some (opt_json (bd_revoked_at b))" "obj_get (binding_json b) ''proof'' = Some proof_json"
    by (simp_all add: obj_get_def binding_json_def)
  show ?thesis
    unfolding validateBindingRecord_def Let_def demand_Inr get using assms keys
    by (auto simp: binding_facts_def opt_json_def split: option.splits)
qed

definition bindings_ok :: "node_env \<Rightarrow> string list \<Rightarrow> (string \<times> binding) list \<Rightarrow> bool" where
  "bindings_ok E seen bs \<longleftrightarrow> (\<forall>(k, b) \<in> set bs. INSTANCE_ID_PATTERN k \<and> binding_facts E k b) \<and>
     distinct (map (bd_binding_id \<circ> snd) bs) \<and> set (map (bd_binding_id \<circ> snd) bs) \<inter> set seen = {}"

lemma bindings_ok_Cons: "bindings_ok E seen ((k, b) # bs) \<longleftrightarrow>
    INSTANCE_ID_PATTERN k \<and> binding_facts E k b \<and> bd_binding_id b \<notin> set seen \<and> bindings_ok E (bd_binding_id b # seen) bs"
  by (auto simp: bindings_ok_def)

lemma validate_bindings_facts:
  "validate_bindings E seen ms = Inr bs \<Longrightarrow> map fst bs = map fst ms \<and> bindings_ok E seen bs"
proof (induction ms arbitrary: seen bs)
  case (Cons m ms)
  obtain k j where m: "m = (k, j)" by force
  from Cons.prems m obtain b bs' where b: "INSTANCE_ID_PATTERN k" "validateBindingRecord E k j seen = Inr b"
      "validate_bindings E (bd_binding_id b # seen) ms = Inr bs'" "bs = (k, b) # bs'"
    by (auto split: if_splits sum.splits)
  with Cons.IH [OF b(3)] validate_binding_facts [OF b(2)] m show ?case by (simp add: bindings_ok_Cons)
qed (simp add: bindings_ok_def)

lemma validate_bindings_json:
  assumes "bindings_ok E seen bs" "\<forall>k b seen. validateBindingRecord E k (f b) seen = validateBindingRecord E k (binding_json b) seen"
  shows "validate_bindings E seen (map (map_prod id f) bs) = Inr bs"
  using assms(1)
proof (induction bs arbitrary: seen)
  case (Cons p bs)
  obtain k b where p: "p = (k, b)" by force
  with Cons assms(2) show ?case by (simp add: bindings_ok_Cons validate_binding_json)
qed simp

section \<open>Registries\<close>

definition registry_ok :: "node_env \<Rightarrow> identity_registry \<Rightarrow> bool" where
  "registry_ok E r \<longleftrightarrow> 0 \<le> rg_sequence r \<and> rg_sequence r \<le> MAX_SAFE_INTEGER \<and> rg_headSequence r = rg_sequence r \<and>
     (case (parseIsoUtc (rg_createdAt r), parseIsoUtc (rg_updatedAt r)) of (Some c, Some u) \<Rightarrow> c \<le> u | _ \<Rightarrow> False) \<and>
     HEX_64_PATTERN (rg_headHash r) \<and> (rg_sequence r = 0 \<longleftrightarrow> rg_headHash r = ZERO_HASH_64) \<and>
     int (length (rg_bindings r)) \<le> MAX_REGISTRY_BINDINGS \<and> sorted (map fst (rg_bindings r)) \<and> bindings_ok E [] (rg_bindings r) \<and>
     int (length (file_text (registry_json r))) \<le> MAX_REGISTRY_BYTES"

lemma demand_then: "(case demand code cs () of Inl e \<Rightarrow> Inl e | Inr u \<Rightarrow> f) = Inr y \<longleftrightarrow> list_all fst cs \<and> f = Inr y"
  by (auto simp: demand_def find_None_iff list_all_iff find_Some_iff split: option.splits)

lemma validate_registryD:
  assumes "validateIdentityRegistry E j = Inr r"
  obtains i c u h hh ms bs where "obj_get j ''sequence'' = Some (JNum i)" "0 \<le> i" "i \<le> MAX_SAFE_INTEGER"
    "obj_get j ''createdAt'' = Some (JStr c)" "obj_get j ''updatedAt'' = Some (JStr u)"
    "(case (parseIsoUtc c, parseIsoUtc u) of (Some c, Some u) \<Rightarrow> c \<le> u | _ \<Rightarrow> False)"
    "obj_get j ''auditHead'' = Some h" "obj_get h ''sequence'' = Some (JNum i)" "obj_get h ''hash'' = Some (JStr hh)" "HEX_64_PATTERN hh"
    "i = 0 \<longleftrightarrow> hh = ZERO_HASH_64" "obj_get j ''bindings'' = Some (JObj ms)" "int (length ms) \<le> MAX_REGISTRY_BINDINGS"
    "validate_bindings E [] (sort_key fst ms) = Inr bs"
    "r = \<lparr>rg_sequence = i, rg_createdAt = c, rg_updatedAt = u, rg_headSequence = i, rg_headHash = hh, rg_bindings = bs\<rparr>"
    "int (length (file_text (registry_json r))) \<le> MAX_REGISTRY_BYTES"
proof -
  note checked = assms [unfolded validateIdentityRegistry_def Let_def demand_then head_checks_def, simplified]
  from checked obtain i where i: "obj_get j ''sequence'' = Some (JNum i)" "0 \<le> i" "i \<le> MAX_SAFE_INTEGER" by (auto elim: safe_fromE)
  from checked obtain c where c: "obj_get j ''createdAt'' = Some (JStr c)" by (auto elim: time_ofE)
  from checked obtain u where u: "obj_get j ''updatedAt'' = Some (JStr u)" by (auto elim: time_ofE)
  from checked obtain h where h: "obj_get j ''auditHead'' = Some h" by (auto simp: isPlainObject_def split: option.splits)
  from checked h obtain hi hh where hh: "obj_get h ''sequence'' = Some (JNum hi)" "obj_get h ''hash'' = Some (JStr hh)" "HEX_64_PATTERN hh"
    by (auto elim!: safe_fromE text_whereE)
  from checked obtain ms where ms: "obj_get j ''bindings'' = Some (JObj ms)" by (auto simp: isPlainObject_def split: option.splits json.splits)
  from checked ms obtain bs where bs: "validate_bindings E [] (sort_key fst ms) = Inr bs"
    by (cases "validate_bindings E [] (sort_key fst ms)") auto
  from checked i c u h hh ms bs show thesis
    by (intro that [of i c u h hh ms bs]) (auto split: if_splits option.splits)
qed

lemma object_member_distinct: "distinct_keys j \<Longrightarrow> obj_get j k = Some v \<Longrightarrow> distinct_keys v"
  by (cases j) (auto simp: obj_get_def list_all_iff dest!: map_of_SomeD)

lemma validate_registry_ok: "validateIdentityRegistry E j = Inr r \<Longrightarrow> registry_ok E r"
proof (erule validate_registryD)
  fix i c u h hh ms bs
  assume v: "validate_bindings E [] (sort_key fst ms) = Inr bs"
    and rest: "r = \<lparr>rg_sequence = i, rg_createdAt = c, rg_updatedAt = u, rg_headSequence = i, rg_headHash = hh, rg_bindings = bs\<rparr>"
      "0 \<le> i" "i \<le> MAX_SAFE_INTEGER" "(case (parseIsoUtc c, parseIsoUtc u) of (Some c, Some u) \<Rightarrow> c \<le> u | _ \<Rightarrow> False)" "HEX_64_PATTERN hh"
      "i = 0 \<longleftrightarrow> hh = ZERO_HASH_64" "int (length ms) \<le> MAX_REGISTRY_BINDINGS" "int (length (file_text (registry_json r))) \<le> MAX_REGISTRY_BYTES"
  from validate_bindings_facts [OF v] have "map fst bs = map fst (sort_key fst ms)" "bindings_ok E [] bs" by auto
  moreover from this(1) have "length bs = length ms" by (metis length_map length_sort)
  moreover have "sorted (map fst (sort_key fst ms))" by simp
  ultimately show ?thesis using rest by (simp add: registry_ok_def)
qed

lemma validate_registry_distinct:
  assumes "validateIdentityRegistry E j = Inr r" "distinct_keys j"
  shows "distinct (map fst (rg_bindings r))"
  using assms(1)
proof (rule validate_registryD)
  fix i c u h hh ms bs
  assume "obj_get j ''bindings'' = Some (JObj ms)" and v: "validate_bindings E [] (sort_key fst ms) = Inr bs"
    and r: "r = \<lparr>rg_sequence = i, rg_createdAt = c, rg_updatedAt = u, rg_headSequence = i, rg_headHash = hh, rg_bindings = bs\<rparr>"
  with object_member_distinct [OF assms(2)] have "distinct (map fst ms)" by fastforce
  then have "distinct (map fst (sort_key fst ms))" by (simp add: distinct_map inj_on_def)
  with validate_bindings_facts [OF v] r show ?thesis by simp
qed

lemma registry_get: "obj_get (sort_keys (registry_json r)) k = map_option sort_keys (obj_get (registry_json r) k)"
  unfolding registry_json_def by (rule obj_get_sorted) simp

lemma validate_registry_json:
  assumes "registry_ok E r"
  shows "validateIdentityRegistry E (sort_keys (registry_json r)) = Inr r"
proof -
  define h where "h = JObj [(''sequence'', JNum (rg_headSequence r)), (''hash'', JStr (rg_headHash r))]"
  let ?b = "JObj (map (map_prod id binding_json) (rg_bindings r))"
  have get: "obj_get (registry_json r) ''schema'' = Some (JStr IDENTITY_REGISTRY_SCHEMA)" "obj_get (registry_json r) ''sequence'' = Some (JNum (rg_sequence r))"
      "obj_get (registry_json r) ''createdAt'' = Some (JStr (rg_createdAt r))" "obj_get (registry_json r) ''updatedAt'' = Some (JStr (rg_updatedAt r))"
      "obj_get (registry_json r) ''auditHead'' = Some h" "obj_get (registry_json r) ''bindings'' = Some ?b"
    by (simp_all add: registry_json_def obj_get_def h_def)
  have head: "obj_get (sort_keys h) ''sequence'' = Some (JNum (rg_headSequence r))" "obj_get (sort_keys h) ''hash'' = Some (JStr (rg_headHash r))"
    unfolding h_def by (subst obj_get_sorted; simp add: obj_get_def)+
  have head_keys: "known_keys AUDIT_HEAD_KEYS (Some h)" "hasExactKeys (Some h) AUDIT_HEAD_KEYS" "isPlainObject (Some h)"
    by (simp_all add: known_keys_def hasExactKeys_def object_keys_def AUDIT_HEAD_KEYS_def h_def)
  have top: "known_keys REGISTRY_TOP_KEYS (Some (registry_json r))" "hasExactKeys (Some (registry_json r)) REGISTRY_TOP_KEYS"
      "isPlainObject (Some (registry_json r))" "isPlainObject (Some ?b)"
    by (simp_all add: registry_json_def known_keys_def hasExactKeys_def object_keys_def REGISTRY_TOP_KEYS_def isPlainObject_def)
  have sorted: "sort_key fst (map (map_prod id sort_keys) (map (map_prod id binding_json) (rg_bindings r))) =
      map (map_prod id (sort_keys \<circ> binding_json)) (rg_bindings r)"
    using assms by (simp add: registry_ok_def comp_def map_prod_def case_prod_beta sort_key_id_if_sorted)
  have members: "sort_keys ?b = JObj (map (map_prod id (sort_keys \<circ> binding_json)) (rg_bindings r))"
    by (simp only: sort_keys.simps sorted)
  have again: "sort_key fst (map (map_prod id (sort_keys \<circ> binding_json)) (rg_bindings r)) = map (map_prod id (sort_keys \<circ> binding_json)) (rg_bindings r)"
    using assms by (simp add: registry_ok_def comp_def map_prod_def case_prod_beta sort_key_id_if_sorted)
  have eta: "\<lparr>rg_sequence = rg_sequence r, rg_createdAt = rg_createdAt r, rg_updatedAt = rg_updatedAt r, rg_headSequence = rg_sequence r,
      rg_headHash = rg_headHash r, rg_bindings = rg_bindings r\<rparr> = r" using assms by (cases r) (simp add: registry_ok_def)
  have ok: "bindings_ok E [] (rg_bindings r)" using assms by (simp add: registry_ok_def)
  show ?thesis
    unfolding validateIdentityRegistry_def Let_def demand_then head_checks_def registry_get get option.map using assms ok head head_keys top
    by (auto simp add: members again eta validate_bindings_json validate_binding_sorted registry_ok_def simp del: sort_keys.simps(6) split: option.splits)
qed

section \<open>The log\<close>

abbreviation entry_text :: "audit_entry \<Rightarrow> string" where
  "entry_text e \<equiv> canonicalJson (entry_json e)"

definition log_text :: "audit_entry list \<Rightarrow> string" where
  "log_text es = concat (map entry_line es)"

definition entry_ok :: "node_env \<Rightarrow> audit_entry \<Rightarrow> bool" where
  "entry_ok E e \<longleftrightarrow> validateAuditEntryObject E (entry_json e) = Inr e"

lemma entry_get: "obj_get (sort_keys (entry_json e)) k = map_option sort_keys (obj_get (entry_json e) k)"
  unfolding entry_json_def payload_members_def by (rule obj_get_sorted) simp

lemma opt_json_text [simp]: "text_of (Some (opt_json x)) = x" "distinct_keys (opt_json x)"
  by (cases x; simp add: opt_json_def)+

lemma read_entry_json [simp]: "read_entry (entry_json e) = e" "read_entry (sort_keys (entry_json e)) = e"
  by (cases e; simp add: read_entry_def entry_get Let_def; simp add: entry_json_def payload_members_def obj_get_def)+

lemma validate_entry_sorted: "validateAuditEntryObject E (sort_keys (entry_json e)) = validateAuditEntryObject E (entry_json e)"
  unfolding validateAuditEntryObject_def Let_def entry_get by (simp add: some_sorted)

lemma validate_entry_ok: "validateAuditEntryObject E (entry_json e) = Inr e' \<Longrightarrow> entry_ok E e"
  unfolding entry_ok_def by (simp add: validateAuditEntryObject_def demand_Inr Let_def)

lemma entry_distinct: "distinct_keys (entry_json e)"
  by (simp add: entry_json_def payload_members_def)

fun chain :: "node_env \<Rightarrow> int \<Rightarrow> string \<Rightarrow> audit_entry list \<Rightarrow> bool" where
  "chain E i prev [] = True"
| "chain E i prev (e # es) = (entry_ok E e \<and> ae_sequence e = i + 1 \<and> ae_prevHash e = prev \<and> (i = 0 \<longrightarrow> ae_action e \<in> {''init'', ''bind''}) \<and>
     (i \<noteq> 0 \<longrightarrow> ae_action e \<noteq> ''init'') \<and> chain E (i + 1) (ae_hash e) es)"

lemma chain_append: "chain E i prev (es @ fs) \<longleftrightarrow> chain E i prev es \<and> chain E (i + int (length es)) (if es = [] then prev else ae_hash (last es)) fs"
  by (induction es arbitrary: i prev) (auto simp: algebra_simps)

lemma verify_entry:
  assumes "chain E i prev [e]"
  shows "verify_line E (i + 1) prev (entry_text e) = Inr e"
proof -
  have "entry_text e \<noteq> []" by (simp add: canonicalJson_stringify stringify_nonempty)
  moreover have "json_parse (entry_text e) = Some (sort_keys (entry_json e))" by (rule json_parse_file [OF entry_distinct])
  moreover have "validateAuditEntryObject E (sort_keys (entry_json e)) = Inr e" using assms by (simp add: validate_entry_sorted entry_ok_def)
  ultimately show ?thesis using assms by (auto simp: verify_line_def demand_Inr)
qed

lemma entry_line_length: "length (entry_line e) = length (entry_text e) + 1"
  by (simp add: entry_line_def file_text_def)

lemma verify_chain:
  assumes "chain E i prev es"
  shows "verify_lines E head i prev off com (map entry_text es) = Inr (es, case head of None \<Rightarrow> com
     | Some (n, _) \<Rightarrow> if i < n \<and> n \<le> i + int (length es) then off + length (log_text (take (nat (n - i)) es)) else com)"
  using assms
proof (induction es arbitrary: i prev off com)
  case (Cons e es)
  have v: "verify_line E (i + 1) prev (entry_text e) = Inr e" using Cons.prems by (intro verify_entry) simp
  have c: "chain E (i + 1) (ae_hash e) es" "ae_sequence e = i + 1" using Cons.prems by auto
  show ?case
  proof (cases head)
    case (Some p)
    obtain n h where "p = (n, h)" by force
    moreover have "nat (n - (i + 1)) = nat (n - i) - Suc 0" by simp
    ultimately show ?thesis
      using Cons.IH [OF c(1)] v c(2) Some by (cases "n = i + 1") (auto simp: log_text_def entry_line_length take_Cons' Let_def)
  qed (use Cons.IH [OF c(1)] v in \<open>simp add: Let_def\<close>)
qed (auto split: option.splits)

lemma split_on_line: "d \<notin> set l \<Longrightarrow> split_on d (l @ d # s) = l # split_on d s"
  by (induction l) auto

lemma entry_no_newline: "CHR 0x0A \<notin> set (entry_text e)"
  by (simp add: canonicalJson_stringify no_newline)

lemma split_log: "CHR 0x0A \<notin> set frag \<Longrightarrow> split_on (CHR 0x0A) (log_text es @ frag) = map entry_text es @ [frag]"
  by (induction es) (simp_all add: log_text_def entry_line_def file_text_def split_on_none split_on_line entry_no_newline)

lemma log_lines_whole:
  assumes "es \<noteq> []"
  shows "log_lines (log_text es) = map entry_text es" "last (log_text es) = CHR 0x0A" "log_text es \<noteq> []"
proof -
  obtain fs e where es: "es = fs @ [e]" using assms by (cases es rule: rev_cases) auto
  have eq: "log_text es = (log_text fs @ entry_text e) @ [CHR 0x0A]" by (simp add: es log_text_def entry_line_def file_text_def)
  show last: "last (log_text es) = CHR 0x0A" "log_text es \<noteq> []" by (simp_all add: eq)
  have "split_on (CHR 0x0A) (log_text fs @ entry_text e) = map entry_text es" by (simp add: split_log entry_no_newline es)
  then show "log_lines (log_text es) = map entry_text es" using last(1) by (simp add: log_lines_def eq butlast_append)
qed

lemma log_lines_torn:
  assumes "frag \<noteq> []" "CHR 0x0A \<notin> set frag"
  shows "log_lines (log_text es @ frag) = map entry_text es" "last (log_text es @ frag) \<noteq> CHR 0x0A"
proof -
  from assms show last: "last (log_text es @ frag) \<noteq> CHR 0x0A" by (metis last_appendR last_in_set)
  then show "log_lines (log_text es @ frag) = map entry_text es" using split_log [OF assms(2)] by (simp add: log_lines_def)
qed

text \<open>
  The contents of a log: the committed entries \<open>es\<close>, and the first \<open>k\<close> bytes of one
  more entry, which continues the chain if it is complete.
\<close>

definition more_entries :: "audit_entry \<Rightarrow> nat \<Rightarrow> audit_entry list" where
  "more_entries e k = (if length (entry_line e) \<le> k then [e] else [])"

definition log_holds :: "node_env \<Rightarrow> audit_entry list \<Rightarrow> audit_entry \<Rightarrow> nat \<Rightarrow> string \<Rightarrow> bool" where
  "log_holds E es e k text \<longleftrightarrow> chain E 0 ZERO_HASH_64 (es @ more_entries e k) \<and> text = log_text es @ take k (entry_line e) \<and>
     int (length text) \<le> MAX_AUDIT_BYTES"

definition torn :: "audit_entry \<Rightarrow> nat \<Rightarrow> bool" where
  "torn e k = (0 < k \<and> k < length (entry_line e))"

lemma parse_log:
  assumes "log_holds E es e k text" "text \<noteq> []"
  shows "parseAndVerifyAuditLog E (Some text) head = check_head head (torn e k) (es @ more_entries e k)
    (case head of None \<Rightarrow> 0 | Some (n, _) \<Rightarrow> if 0 < n \<and> n \<le> int (length (es @ more_entries e k)) then length (log_text (take (nat n) (es @ more_entries e k))) else 0)"
proof -
  have c: "chain E 0 ZERO_HASH_64 (es @ more_entries e k)"
    using assms(1) by (simp add: log_holds_def)
  have lines: "log_lines text = map entry_text (es @ more_entries e k) \<and> (last text \<noteq> CHR 0x0A) = torn e k"
  proof (cases "torn e k")
    case True
    then have "take k (entry_line e) = take k (entry_text e)" by (simp add: torn_def entry_line_def file_text_def)
    then have t: "text = log_text es @ take k (entry_text e)" using assms(1) by (simp add: log_holds_def)
    moreover have "take k (entry_text e) \<noteq> []" "CHR 0x0A \<notin> set (take k (entry_text e))"
      using True entry_no_newline [of e] by (auto simp: torn_def entry_line_length dest: in_set_takeD)
    ultimately show ?thesis using log_lines_torn [of "take k (entry_text e)" es] True by (simp add: more_entries_def torn_def)
  next
    case False
    then have "text = log_text (es @ more_entries e k)"
      using assms(1) by (auto simp: log_holds_def more_entries_def torn_def log_text_def)
    moreover from this assms(2) have "es @ more_entries e k \<noteq> []" by (auto simp: log_text_def)
    ultimately show ?thesis using log_lines_whole [of "es @ more_entries e k"] False by simp
  qed
  show ?thesis
    using verify_chain [OF c, of head 0 0] assms(2) lines
    by (simp add: parseAndVerifyAuditLog_def del: map_append split: option.splits prod.splits)
qed

lemma log_size: "log_holds E es e k text \<Longrightarrow> \<not> oversized (MAX_AUDIT_BYTES + 1024 * 1024) (Some text)"
  by (auto simp: log_holds_def oversized_def MAX_AUDIT_BYTES_def min_def)

section \<open>The registry file\<close>

lemma trim_left_suffix: "\<exists>p. s = p @ trim_left ws s \<and> set p \<subseteq> \<Union> (set ` set ws)"
proof (induction ws s rule: trim_left.induct)
  case (1 ws s)
  show ?case
  proof (cases "find (\<lambda>w. w \<noteq> [] \<and> starts_with w s) ws")
    case None
    then show ?thesis by (intro exI [of _ "[]"]) (simp add: trim_left.simps [of ws s])
  next
    case (Some w)
    then have w: "w \<in> set ws" "take (length w) s = w" by (auto simp: find_Some_iff starts_with_def)
    from 1 [OF Some] obtain p where p: "drop (length w) s = p @ trim_left ws (drop (length w) s)" "set p \<subseteq> \<Union> (set ` set ws)" by blast
    have "s = w @ drop (length w) s" using w(2) by (metis append_take_drop_id)
    then have "s = (w @ p) @ trim_left ws s" using p(1) Some by (simp add: trim_left.simps [of ws s])
    then show ?thesis using p(2) w(1) by (intro exI [of _ "w @ p"]) auto
  qed
qed

lemma trim_keeps: "c \<in> set s \<Longrightarrow> \<forall>w \<in> set WHITE_SPACE. c \<notin> set w \<Longrightarrow> trim s \<noteq> []"
proof -
  assume c: "c \<in> set s" "\<forall>w \<in> set WHITE_SPACE. c \<notin> set w"
  have keep: "c \<in> set (trim_left ws t)" if "c \<in> set t" "c \<notin> \<Union> (set ` set ws)" for t ws
  proof -
    obtain p where p: "t = p @ trim_left ws t" "set p \<subseteq> \<Union> (set ` set ws)" using trim_left_suffix by blast
    then have "c \<notin> set p" using that(2) by blast
    moreover have "set t = set p \<union> set (trim_left ws t)" by (subst p(1)) simp
    ultimately show ?thesis using that(1) by blast
  qed
  have "c \<in> set (trim_left WHITE_SPACE s)" using c by (intro keep) auto
  then have "c \<in> set (trim_left (map rev WHITE_SPACE) (rev (trim_left WHITE_SPACE s)))" using c(2) by (intro keep) auto
  then show "trim s \<noteq> []" by (auto simp: trim_def)
qed

lemma registry_distinct: "distinct (map fst (rg_bindings r)) \<Longrightarrow> distinct_keys (registry_json r)"
  by (auto simp: registry_json_def binding_json_def proof_json_def list_all_iff comp_def case_prod_beta)

lemma parse_registry_file:
  assumes "registry_ok E r" "distinct (map fst (rg_bindings r))"
  shows "parse_registry E (file_text (registry_json r)) = Inr r" "\<not> oversized MAX_REGISTRY_BYTES (Some (file_text (registry_json r)))"
proof -
  have "CHR ''{'' \<in> set (file_text (registry_json r))" by (simp add: file_text_def registry_json_def)
  moreover have "\<forall>w \<in> set WHITE_SPACE. CHR ''{'' \<notin> set w" by code_simp
  ultimately have "trim (file_text (registry_json r)) \<noteq> []" by (rule trim_keeps)
  moreover have "json_parse (file_text (registry_json r)) = Some (sort_keys (registry_json r))"
    unfolding file_text_def by (rule json_parse_file [OF registry_distinct [OF assms(2)]])
  ultimately show "parse_registry E (file_text (registry_json r)) = Inr r" by (simp add: parse_registry_def validate_registry_json [OF assms(1)])
  show "\<not> oversized MAX_REGISTRY_BYTES (Some (file_text (registry_json r)))" using assms(1) by (simp add: oversized_def registry_ok_def)
qed

end
