(* ===== verification/Registry_Runs.thy ===== *)
theory Registry_Runs
  imports Registry_Files
begin

text \<open>
  Runs of the identity registry: updates that start, write their line of the log
  piece by piece, replace the registry, or are cut off in between; and the invariant
  that the two files always hold the commits and at most a part of one more.
\<close>

section \<open>Runs\<close>

text \<open>
  The store, the update that holds the lock with the number of bytes of its line
  that it has written, and, for the specification, what was committed so far.
\<close>

record registry_run =
  rr_commits :: "(identity_registry \<times> audit_entry) list"
  rr_store :: store
  rr_writer :: "(write_plan \<times> nat option) option"

text \<open>The keys of an object of the language are distinct, also in what a mutation returns.\<close>

inductive registry_step :: "node_env \<Rightarrow> registry_run \<Rightarrow> registry_run \<Rightarrow> bool" for E where
  begins: "rr_writer c = None \<Longrightarrow> \<forall>j. distinct_keys (mutate j) \<Longrightarrow>
    beginUpdate E expectedSequence now action subject mutate (rr_store c) = Inr p \<Longrightarrow> registry_step E c (c\<lparr>rr_writer := Some (p, None)\<rparr>)"
| opens: "rr_writer c = Some (p, None) \<Longrightarrow> registry_step E c (c\<lparr>rr_store := openAudit p (rr_store c), rr_writer := Some (p, Some 0)\<rparr>)"
| writes: "rr_writer c = Some (p, Some i) \<Longrightarrow> 0 < n \<Longrightarrow> i + n \<le> length (entry_line (wp_entry p)) \<Longrightarrow>
    registry_step E c (c\<lparr>rr_store := writeAudit p i n (rr_store c), rr_writer := Some (p, Some (i + n))\<rparr>)"
| commits: "rr_writer c = Some (p, Some (length (entry_line (wp_entry p)))) \<Longrightarrow>
    registry_step E c (c\<lparr>rr_commits := rr_commits c @ [(wp_registry p, wp_entry p)], rr_store := renameRegistry p (rr_store c), rr_writer := None\<rparr>)"
| stops: "rr_writer c = Some w \<Longrightarrow> registry_step E c (c\<lparr>rr_writer := None\<rparr>)"

definition new_registry :: registry_run where
  "new_registry = \<lparr>rr_commits = [], rr_store = \<lparr>st_registry = None, st_audit = None\<rparr>, rr_writer = None\<rparr>"

section \<open>Commits\<close>

definition latest :: "(identity_registry \<times> audit_entry) list \<Rightarrow> identity_registry option" where
  "latest h = (if h = [] then None else Some (fst (last h)))"

definition head_hash :: "(identity_registry \<times> audit_entry) list \<Rightarrow> string" where
  "head_hash h = (if h = [] then ZERO_HASH_64 else ae_hash (snd (last h)))"

abbreviation bindings_of :: "identity_registry option \<Rightarrow> (string \<times> binding) list" where
  "bindings_of r \<equiv> (case r of None \<Rightarrow> [] | Some r \<Rightarrow> rg_bindings r)"

definition same_identity :: "binding \<Rightarrow> binding \<Rightarrow> bool" where
  "same_identity a b \<longleftrightarrow> bd_principal_id a = bd_principal_id b \<and> bd_profile_name a = bd_profile_name b \<and>
     bd_profile_instance_id a = bd_profile_instance_id b \<and> bd_authority_origin a = bd_authority_origin b"

definition binds :: "(string \<times> binding) list \<Rightarrow> (string \<times> binding) list \<Rightarrow> string \<Rightarrow> bool" where
  "binds old new s \<longleftrightarrow> (\<exists>b. map_of new s = Some b \<and> bd_revoked_at b = None \<and>
     (case map_of old s of None \<Rightarrow> bd_binding_generation b = 1 | Some a \<Rightarrow> bd_binding_generation b = bd_binding_generation a + 1 \<and> same_identity a b) \<and>
     (\<forall>k a. k \<noteq> s \<longrightarrow> map_of new k = Some a \<longrightarrow> bd_revoked_at a = None \<longrightarrow> bd_principal_id a \<noteq> bd_principal_id b))"

definition revokes :: "(string \<times> binding) list \<Rightarrow> (string \<times> binding) list \<Rightarrow> string \<Rightarrow> bool" where
  "revokes old new s \<longleftrightarrow> (\<exists>a t. map_of old s = Some a \<and> bd_revoked_at a = None \<and> map_of new s = Some (a\<lparr>bd_revoked_at := Some t\<rparr>))"

text \<open>What an action changes: nothing but the binding of its subject, and that as the action says.\<close>

definition acts :: "(string \<times> binding) list \<Rightarrow> (string \<times> binding) list \<Rightarrow> string \<Rightarrow> string option \<Rightarrow> bool" where
  "acts old new action subject \<longleftrightarrow> (case subject of
      None \<Rightarrow> action = ''init'' \<and> old = [] \<and> new = []
    | Some s \<Rightarrow> (\<forall>k. k \<noteq> s \<longrightarrow> map_of new k = map_of old k) \<and> (action = ''bind'' \<and> binds old new s \<or> action = ''revoke'' \<and> revokes old new s))"

definition extends :: "node_env \<Rightarrow> (identity_registry \<times> audit_entry) list \<Rightarrow> identity_registry \<Rightarrow> audit_entry \<Rightarrow> bool" where
  "extends E h r e \<longleftrightarrow> registry_ok E r \<and> distinct (map fst (rg_bindings r)) \<and> rg_sequence r = int (length h) + 1 \<and> rg_headHash r = ae_hash e \<and>
     chain E (int (length h)) (head_hash h) [e] \<and> acts (bindings_of (latest h)) (rg_bindings r) (ae_action e) (ae_subject e)"

inductive history :: "node_env \<Rightarrow> (identity_registry \<times> audit_entry) list \<Rightarrow> bool" for E where
  empty: "history E []"
| commit: "history E h \<Longrightarrow> extends E h r e \<Longrightarrow> history E (h @ [(r, e)])"

lemma history_chain: "history E h \<Longrightarrow> chain E 0 ZERO_HASH_64 (map snd h)"
proof (induction rule: history.induct)
  case (commit h r e)
  then show ?case by (auto simp: chain_append extends_def head_hash_def last_map)
qed simp

lemma history_latest:
  assumes "history E h" "latest h = Some r"
  shows "registry_ok E r" "distinct (map fst (rg_bindings r))" "rg_sequence r = int (length h)" "rg_headHash r = head_hash h"
  using assms by (cases rule: history.cases; auto simp: latest_def extends_def head_hash_def)+

lemma history_snoc: "history E (h @ [(r, e)]) \<longleftrightarrow> history E h \<and> extends E h r e"
  by (auto intro: history.commit elim: history.cases)

lemma history_prefix: "history E (h @ g) \<Longrightarrow> history E h"
proof (induction g rule: rev_induct)
  case (snoc x g)
  obtain r e where "x = (r, e)" by force
  with snoc show ?case using history_snoc [of E "h @ g" r e] by simp
qed simp

subsection \<open>An update extends the history\<close>

lemma binding_text_inject: "canonicalJson (binding_json a) = canonicalJson (binding_json b) \<longleftrightarrow> a = b"
proof
  assume "canonicalJson (binding_json a) = canonicalJson (binding_json b)"
  then have "sort_keys (binding_json a) = sort_keys (binding_json b)" by (simp add: canonicalJson_eq_iff)
  then have "map_option sort_keys (obj_get (binding_json a) k) = map_option sort_keys (obj_get (binding_json b) k)" for k
    by (metis binding_get)
  from this [of "''binding_id''"] this [of "''principal_id''"] this [of "''profile_name''"] this [of "''profile_instance_id''"]
    this [of "''authority_origin''"] this [of "''binding_generation''"] this [of "''issued_at''"] this [of "''revoked_at''"]
  show "a = b" by (cases a; cases b) (simp add: binding_json_def obj_get_def opt_json_def split: option.splits)
qed simp

lemma others_unchangedD:
  assumes "others_unchanged old new subject" "Some k \<noteq> subject"
  shows "map_of new k = map_of old k"
proof (cases "map_of old k")
  case None
  then have "k \<notin> fst ` set old" by (simp add: map_of_eq_None_iff)
  with assms have "k \<notin> fst ` set new" by (fastforce simp: others_unchanged_def lookup_binding_def list_all_iff map_of_eq_None_iff)
  with None show ?thesis by (simp add: map_of_eq_None_iff [THEN iffD2])
next
  case (Some b)
  then have "(k, b) \<in> set old" by (rule map_of_SomeD)
  with assms Some show ?thesis
    by (auto simp: others_unchanged_def lookup_binding_def list_all_iff binding_text_inject split: option.splits)
qed

lemma action_acts:
  assumes "assertMutationMatchesAction absent old new action subject = Inr bid"
    and "action = ''init'' \<longleftrightarrow> subject = None" "absent \<Longrightarrow> old = []"
  shows "acts old new action subject" "action = ''init'' \<Longrightarrow> absent"
proof -
  show "action = ''init'' \<Longrightarrow> absent" using assms(1) by (auto simp: assertMutationMatchesAction_def split: if_splits)
  show "acts old new action subject"
  proof (cases subject)
    case None
    with assms show ?thesis by (auto simp: acts_def assertMutationMatchesAction_def split: if_splits)
  next
    case (Some s)
    with assms(1,2) obtain b where ou: "others_unchanged old new (Some s)" and b: "map_of new s = Some b"
        and check: "action = ''bind'' \<and> bind_check new (Some s) (map_of old s) b = Inr bid \<or> action = ''revoke'' \<and> revoke_check (map_of old s) b = Inr bid"
      by (auto simp: assertMutationMatchesAction_def lookup_binding_def Let_def split: if_splits option.splits)
    have others: "\<forall>k. k \<noteq> s \<longrightarrow> map_of new k = map_of old k" using others_unchangedD [OF ou] by simp
    from check have "action = ''bind'' \<and> binds old new s \<or> action = ''revoke'' \<and> revokes old new s"
    proof (elim disjE conjE)
      assume bind: "bind_check new (Some s) (map_of old s) b = Inr bid" and "action = ''bind''"
      have "bd_principal_id a \<noteq> bd_principal_id b" if "k \<noteq> s" "map_of new k = Some a" "bd_revoked_at a = None" for k a
        using bind map_of_SomeD [OF that(2)] that(1,3) by (auto simp: bind_check_def list_ex_iff split: if_splits)
      with bind b \<open>action = ''bind''\<close> show ?thesis
        by (auto simp: binds_def bind_check_def same_identity_def split: if_splits option.splits)
    next
      assume "revoke_check (map_of old s) b = Inr bid" "action = ''revoke''"
      with b show ?thesis by (auto simp: revokes_def revoke_check_def binding_text_inject split: option.splits if_splits)
    qed
    with Some others show ?thesis by (simp add: acts_def)
  qed
qed

lemma arguments_subject: "updateArguments n now action subject = Inr u \<Longrightarrow> action \<in> {''init'', ''bind'', ''revoke''} \<and> (action = ''init'' \<longleftrightarrow> subject = None)"
  by (auto simp: updateArguments_def demand_Inr AUDIT_ACTIONS_def)

lemma stamped_get:
  "obj_get (stamped kvs n now hash) ''sequence'' = Some (JNum n)"
  "obj_get (stamped kvs n now hash) ''auditHead'' = Some (JObj [(''sequence'', JNum n), (''hash'', JStr hash)])"
  by (simp_all add: stamped_def obj_get_def lookup_obj_put)

lemma stamped_distinct: "distinct_keys (JObj kvs) \<Longrightarrow> distinct_keys (stamped kvs n now hash)"
  unfolding stamped_def by (intro distinct_keys_put) simp_all

lemma validate_again:
  assumes "registry_ok E c" "validateIdentityRegistry E (registry_json (c\<lparr>rg_headHash := hash\<rparr>)) = Inr r"
  shows "rg_bindings r = rg_bindings c" "rg_sequence r = rg_sequence c" "rg_headHash r = hash"
proof -
  let ?c = "c\<lparr>rg_headHash := hash\<rparr>"
  have sorted: "sort_key fst (map (map_prod id binding_json) (rg_bindings c)) = map (map_prod id binding_json) (rg_bindings c)"
    using assms(1) by (simp add: registry_ok_def comp_def map_prod_def case_prod_beta sort_key_id_if_sorted)
  have "bindings_ok E [] (rg_bindings c)" using assms(1) by (simp add: registry_ok_def)
  then have v: "validate_bindings E [] (map (map_prod id binding_json) (rg_bindings c)) = Inr (rg_bindings c)" by (rule validate_bindings_json) simp
  from assms(2) show "rg_bindings r = rg_bindings c" "rg_sequence r = rg_sequence c" "rg_headHash r = hash"
    by (auto elim!: validate_registryD simp: registry_json_def obj_get_def sorted v)
qed

lemma prepare_steps:
  assumes "prepareUpdate E n now action subject mutate \<lparr>cu_registry = current, cu_audit = ac\<rparr> = Inr (r, e)"
  obtains kvs cand bid e' where "mutate (sort_keys (registry_json (base_registry now current))) = JObj kvs" "n = rg_sequence (base_registry now current)"
    "current = None \<longrightarrow> action \<in> {''init'', ''bind''}"
    "validateIdentityRegistry E (stamped kvs (n + 1) now PLACEHOLDER_HASH) = Inr cand"
    "assertMutationMatchesAction (current = None) (rg_bindings (base_registry now current)) (rg_bindings cand) action subject = Inr bid"
    "e = buildAuditEntry E (n + 1) now action subject bid (rg_headHash (base_registry now current))"
    "validateAuditEntryObject E (entry_json e) = Inr e'" "validateIdentityRegistry E (registry_json (cand\<lparr>rg_headHash := ae_hash e\<rparr>)) = Inr r"
  using assms unfolding prepareUpdate_def Let_def
  by (auto split: if_splits json.splits sum.splits)

lemma prepare_extends:
  assumes prep: "prepareUpdate E n now action subject mutate \<lparr>cu_registry = latest h, cu_audit = ac\<rparr> = Inr (r, e)"
    and args: "updateArguments n now action subject = Inr u" and mutate: "\<forall>j. distinct_keys (mutate j)" and h: "history E h"
  shows "extends E h r e" "n = int (length h)"
proof -
  let ?base = "base_registry now (latest h)"
  have base: "rg_sequence ?base = int (length h)" "rg_headHash ?base = head_hash h" "rg_bindings ?base = bindings_of (latest h)"
    using history_latest [OF h] by (cases "latest h"; simp add: base_registry_def latest_def head_hash_def split: if_splits)+
  from prep show n: "n = int (length h)" using base by (elim prepare_steps) simp
  from prep show "extends E h r e"
  proof (rule prepare_steps)
    fix kvs cand bid e'
    assume m: "mutate (sort_keys (registry_json ?base)) = JObj kvs" and cand: "validateIdentityRegistry E (stamped kvs (n + 1) now PLACEHOLDER_HASH) = Inr cand"
      and act: "assertMutationMatchesAction (latest h = None) (rg_bindings ?base) (rg_bindings cand) action subject = Inr bid"
      and e: "e = buildAuditEntry E (n + 1) now action subject bid (rg_headHash ?base)" and ok: "validateAuditEntryObject E (entry_json e) = Inr e'"
      and r: "validateIdentityRegistry E (registry_json (cand\<lparr>rg_headHash := ae_hash e\<rparr>)) = Inr r" and first: "latest h = None \<longrightarrow> action \<in> {''init'', ''bind''}"
    have "distinct_keys (JObj kvs)" using mutate m by metis
    then have dc: "distinct (map fst (rg_bindings cand))" by (intro validate_registry_distinct [OF cand] stamped_distinct)
    have seq: "rg_sequence cand = n + 1" using cand by (auto elim!: validate_registryD simp: stamped_get)
    note again = validate_again [OF validate_registry_ok [OF cand] r]
    have entry: "ae_sequence e = n + 1" "ae_prevHash e = head_hash h" "ae_action e = action" "ae_subject e = subject"
      using base by (simp_all add: e buildAuditEntry_def Let_def)
    have init: "action = ''init'' \<longleftrightarrow> subject = None" using arguments_subject [OF args] by simp
    have absent: "latest h = None \<longleftrightarrow> h = []" by (simp add: latest_def)
    have acts: "acts (bindings_of (latest h)) (rg_bindings cand) action subject" "action = ''init'' \<Longrightarrow> latest h = None"
      using action_acts [OF act [unfolded base] init] by simp_all
    have "chain E (int (length h)) (head_hash h) [e]"
      using validate_entry_ok [OF ok] entry n first acts(2) absent by auto
    with acts(1) again seq dc entry n validate_registry_ok [OF r] show ?thesis by (simp add: extends_def)
  qed
qed

section \<open>The files follow the commits\<close>

definition plan_ok :: "node_env \<Rightarrow> (identity_registry \<times> audit_entry) list \<Rightarrow> write_plan \<Rightarrow> bool" where
  "plan_ok E h p \<longleftrightarrow> extends E h (wp_registry p) (wp_entry p) \<and> wp_committed p = length (log_text (map snd h)) \<and>
     int (length (log_text (map snd h)) + length (entry_line (wp_entry p))) \<le> MAX_AUDIT_BYTES"

definition log_ok :: "node_env \<Rightarrow> (identity_registry \<times> audit_entry) list \<Rightarrow> string option \<Rightarrow> bool" where
  "log_ok E h audit = (case audit of None \<Rightarrow> h = [] | Some text \<Rightarrow> \<exists>e k. log_holds E (map snd h) e k text)"

definition registry_file :: "(identity_registry \<times> audit_entry) list \<Rightarrow> string option" where
  "registry_file h = map_option (\<lambda>r. file_text (registry_json r)) (latest h)"

definition run_ok :: "node_env \<Rightarrow> registry_run \<Rightarrow> bool" where
  "run_ok E c \<longleftrightarrow> history E (rr_commits c) \<and> st_registry (rr_store c) = registry_file (rr_commits c) \<and> log_ok E (rr_commits c) (st_audit (rr_store c)) \<and>
     (case rr_writer c of None \<Rightarrow> True
      | Some (p, i) \<Rightarrow> plan_ok E (rr_commits c) p \<and> (case i of None \<Rightarrow> True
          | Some n \<Rightarrow> n \<le> length (entry_line (wp_entry p)) \<and>
              st_audit (rr_store c) = Some (log_text (map snd (rr_commits c)) @ take n (entry_line (wp_entry p)))))"

lemma entry_line_ne: "0 < length (entry_line e)"
  by (simp add: entry_line_length)

lemma log_holds_whole:
  assumes "chain E 0 ZERO_HASH_64 es" "int (length (log_text es)) \<le> MAX_AUDIT_BYTES"
  shows "log_holds E es e 0 (log_text es)"
  using assms by (simp add: log_holds_def more_entries_def entry_line_length)

lemma plan_log:
  assumes "history E h" "plan_ok E h p"
  shows "log_holds E (map snd h) (wp_entry p) n (log_text (map snd h) @ take n (entry_line (wp_entry p)))"
proof -
  have "chain E 0 ZERO_HASH_64 (map snd h @ [wp_entry p])"
    using history_chain [OF assms(1)] assms(2) by (auto simp: plan_ok_def extends_def chain_append head_hash_def last_map split: if_splits)
  then show ?thesis using assms(2) by (auto simp: log_holds_def more_entries_def chain_append plan_ok_def min_def)
qed

lemma log_nonempty: "h \<noteq> [] \<Longrightarrow> log_text (map snd h) \<noteq> []"
  using log_lines_whole(3) [of "map snd h"] by simp

text \<open>Reading the registry of the commits \<open>h\<close> and the log of the commits \<open>h @ g\<close>.\<close>

lemma read_pair:
  assumes h: "history E (h @ g)" and log: "log_ok E (h @ g) audit"
  shows "case readAndVerifyUnlocked E (registry_file h) audit of
      Inr cur \<Rightarrow> cu_registry cur = latest h \<and> (h \<noteq> [] \<longrightarrow> take (length h) (ac_entries (cu_audit cur)) = map snd h \<and>
          ac_committedByteLength (cu_audit cur) = length (log_text (map snd h)) \<and> ac_verifiedThrough (cu_audit cur) = int (length h)) \<and>
        (h = [] \<longrightarrow> ac_committedByteLength (cu_audit cur) = 0) \<and> 0 \<le> ac_uncommittedTail (cu_audit cur) \<and> ac_uncommittedTail (cu_audit cur) \<le> 1
    | Inl e \<Rightarrow> isRetryableReadTimingError e \<and> g \<noteq> []"
proof (cases "latest h")
  case None
  then have hN: "h = []" by (simp add: latest_def split: if_splits)
  show ?thesis
  proof (cases audit)
    case None
    with hN show ?thesis by (simp add: readAndVerifyUnlocked_def registry_file_def latest_def oversized_def no_audit_def)
  next
    case (Some t)
    with log obtain e k where l: "log_holds E (map snd g) e k t" by (auto simp: log_ok_def hN)
    show ?thesis
    proof (cases "t = []")
      case True
      with hN Some show ?thesis
        by (simp add: readAndVerifyUnlocked_def registry_file_def latest_def oversized_def parseAndVerifyAuditLog_def no_log_def no_audit_def MAX_AUDIT_BYTES_def)
    next
      case False
      have first: "ae_sequence x = 1 \<and> ae_action x \<in> {''init'', ''bind''}" if "map snd g @ more_entries e k = x # xs" for x xs
        using l that by (simp add: log_holds_def)
      have one: "torn e k \<and> more_entries e k = [] \<or> \<not> torn e k \<and> more_entries e k = [e]" if "g = []"
        using l False that by (auto simp: log_holds_def torn_def more_entries_def log_text_def)
      have size: "\<not> oversized (MAX_AUDIT_BYTES + 1024 * 1024) audit" using log_size [OF l] Some by simp
      have parse: "parseAndVerifyAuditLog E audit None = check_head None (torn e k) (map snd g @ more_entries e k) 0"
        using parse_log [OF l False, of None] Some by simp
      have read: "readAndVerifyUnlocked E (registry_file h) audit = (case check_head None (torn e k) (map snd g @ more_entries e k) 0 of Inl x \<Rightarrow> Inl x
          | Inr c \<Rightarrow> Inr \<lparr>cu_registry = None, cu_audit = c\<lparr>ac_committedByteLength := 0\<rparr>\<rparr>)"
        using size parse Some hN by (simp add: readAndVerifyUnlocked_def registry_file_def latest_def oversized_def)
      show ?thesis
      proof (cases "g = []")
        case True
        with one first show ?thesis unfolding read by (auto simp: hN check_head_def Let_def latest_def)
      next
        case False
        then show ?thesis unfolding read
          by (auto simp: hN check_head_def Let_def latest_def isRetryableReadTimingError_def TRANSIENT_AUDIT_REASONS_def)
      qed
    qed
  qed
next
  case (Some r)
  then have ne: "h \<noteq> []" by (auto simp: latest_def)
  note r = history_latest [OF history_prefix [OF h] Some]
  from log ne obtain t e k where aud: "audit = Some t" and l: "log_holds E (map snd (h @ g)) e k t"
    by (auto simp: log_ok_def split: option.splits)
  have tne: "t \<noteq> []" using l log_nonempty [of "h @ g"] ne by (auto simp: log_holds_def)
  let ?es = "map snd (h @ g) @ more_entries e k" and ?n = "length h"
  have es: "take ?n ?es = map snd h" "?es ! (?n - 1) = snd (last h)" "?n \<le> length ?es"
    using ne by (simp_all add: nth_append last_conv_nth)
  have head: "(rg_headSequence r, rg_headHash r) = (int ?n, ae_hash (snd (last h)))"
    using r ne by (simp add: registry_ok_def head_hash_def)
  have nat: "nat (int ?n - 1) = ?n - 1" by simp
  have reg: "registry_file h = Some (file_text (registry_json r))" using Some by (simp add: registry_file_def)
  have check: "parseAndVerifyAuditLog E audit (Some (rg_headSequence r, rg_headHash r)) =
      check_head (Some (int ?n, ae_hash (snd (last h)))) (torn e k) ?es (length (log_text (map snd h)))"
    using parse_log [OF l tne, of "Some (int ?n, ae_hash (snd (last h)))"] ne es unfolding head aud by simp
  have tail: "g \<noteq> []" if "1 < int (length ?es) + (if torn e k then 1 else 0) - int ?n"
    using that by (auto simp: more_entries_def torn_def split: if_splits)
  show ?thesis
    unfolding readAndVerifyUnlocked_def reg
    using parse_registry_file [OF r(1,2)] log_size [OF l] check tail es ne
    by (auto simp: aud Some check_head_def Let_def nat isRetryableReadTimingError_def TRANSIENT_AUDIT_REASONS_def)
qed


lemma begin_plan:
  assumes ok: "run_ok E c" and mutate: "\<forall>j. distinct_keys (mutate j)"
    and started: "beginUpdate E n now action subject mutate (rr_store c) = Inr p"
  shows "plan_ok E (rr_commits c) p" "n = int (length (rr_commits c))"
proof -
  let ?h = "rr_commits c" and ?st = "rr_store c"
  have h: "history E ?h" and log: "log_ok E ?h (st_audit ?st)" and reg: "st_registry ?st = registry_file ?h" using ok by (simp_all add: run_ok_def)
  from started obtain u cur r e where args: "updateArguments n now action subject = Inr u" and read: "readAndVerifyUnlocked E (registry_file ?h) (st_audit ?st) = Inr cur"
      and prep: "prepareUpdate E n now action subject mutate cur = Inr (r, e)"
      and p: "wp_registry p = r" "wp_entry p = e" "wp_committed p = (if st_audit ?st = None then 0 else ac_committedByteLength (cu_audit cur))"
        "int (wp_committed p + length (entry_line e)) \<le> MAX_AUDIT_BYTES"
    unfolding beginUpdate_def reg Let_def by (auto split: sum.splits if_splits)
  from read_pair [of E ?h "[]" "st_audit ?st"] h log read have cur: "cu_registry cur = latest ?h"
      and com: "ac_committedByteLength (cu_audit cur) = length (log_text (map snd ?h))" by (auto simp: log_text_def)
  have absent: "st_audit ?st = None \<Longrightarrow> ?h = []" using log by (simp add: log_ok_def)
  obtain ac where "cur = \<lparr>cu_registry = latest ?h, cu_audit = ac\<rparr>" using cur by (cases cur) simp
  note extended = prepare_extends [OF prep [unfolded this] args mutate h]
  have len: "wp_committed p = length (log_text (map snd ?h))" using com p(3) absent by (auto simp: log_text_def)
  with extended p show "plan_ok E ?h p" "n = int (length ?h)" by (simp_all add: plan_ok_def)
qed

lemma open_log:
  assumes "log_ok E h audit" "plan_ok E h p"
  shows "take (wp_committed p) (opt_or audit []) = log_text (map snd h)"
  using assms by (auto simp: log_ok_def plan_ok_def log_holds_def log_text_def split: option.splits)

lemma step_ok:
  assumes "registry_step E c c'" "run_ok E c"
  shows "run_ok E c'"
  using assms
proof (cases rule: registry_step.cases)
  case (begins mutate n now action subject p)
  with assms(2) begin_plan(1) [OF assms(2) begins(3,4)] show ?thesis by (simp add: run_ok_def)
next
  case (opens p)
  with assms(2) have ok: "history E (rr_commits c)" "plan_ok E (rr_commits c) p" "log_ok E (rr_commits c) (st_audit (rr_store c))" by (simp_all add: run_ok_def)
  from plan_log [OF ok(1,2), of 0] have "log_ok E (rr_commits c) (Some (log_text (map snd (rr_commits c))))" by (auto simp: log_ok_def)
  with opens assms(2) open_log [OF ok(3,2)] show ?thesis by (simp add: run_ok_def openAudit_def)
next
  case (writes p i n)
  with assms(2) have ok: "history E (rr_commits c)" "plan_ok E (rr_commits c) p"
      "st_audit (rr_store c) = Some (log_text (map snd (rr_commits c)) @ take i (entry_line (wp_entry p)))" by (simp_all add: run_ok_def)
  let ?t = "log_text (map snd (rr_commits c)) @ take (i + n) (entry_line (wp_entry p))"
  have "log_ok E (rr_commits c) (Some ?t)" using plan_log [OF ok(1,2), of "i + n"] by (auto simp: log_ok_def)
  moreover have "st_audit (writeAudit p i n (rr_store c)) = Some ?t"
    using ok writes by (simp add: writeAudit_def plan_ok_def take_add Let_def)
  ultimately show ?thesis using writes assms(2) by (simp add: run_ok_def writeAudit_def Let_def)
next
  case (commits p)
  with assms(2) have ok: "history E (rr_commits c)" "plan_ok E (rr_commits c) p"
      "st_audit (rr_store c) = Some (log_text (map snd (rr_commits c)) @ entry_line (wp_entry p))" by (simp_all add: run_ok_def)
  let ?h = "rr_commits c @ [(wp_registry p, wp_entry p)]"
  have h: "history E ?h" using ok by (intro history.commit) (simp_all add: plan_ok_def)
  have t: "log_text (map snd (rr_commits c)) @ entry_line (wp_entry p) = log_text (map snd ?h)" by (simp add: log_text_def)
  have "log_holds E (map snd ?h) (wp_entry p) 0 (log_text (map snd ?h))"
    using ok(2) by (intro log_holds_whole history_chain [OF h]) (simp add: plan_ok_def log_text_def)
  then have "log_ok E ?h (st_audit (rr_store c))" unfolding ok(3) t by (auto simp: log_ok_def)
  with h commits show ?thesis by (simp add: run_ok_def renameRegistry_def registry_file_def latest_def)
next
  case (stops w)
  with assms(2) show ?thesis by (simp add: run_ok_def)
qed

lemma run_ok: "(registry_step E)\<^sup>*\<^sup>* new_registry c \<Longrightarrow> run_ok E c"
proof (induction rule: rtranclp_induct)
  case base
  show ?case by (simp add: run_ok_def new_registry_def history.empty registry_file_def latest_def log_ok_def)
qed (rule step_ok)

lemma later_ok: "(registry_step E)\<^sup>*\<^sup>* c d \<Longrightarrow> run_ok E c \<Longrightarrow> run_ok E d"
  by (induction rule: rtranclp_induct) (auto intro: step_ok)

lemma commits_grow: "(registry_step E)\<^sup>*\<^sup>* c d \<Longrightarrow> \<exists>g. rr_commits d = rr_commits c @ g"
  by (induction rule: rtranclp_induct) (auto elim!: registry_step.cases)

lemma partial_update:
  assumes "rr_writer c = None" "\<forall>j. distinct_keys (mutate j)" "beginUpdate E m now action subject mutate (rr_store c) = Inr p"
    and "0 < n" "n \<le> length (entry_line (wp_entry p))"
  shows "(registry_step E)\<^sup>*\<^sup>* c (c\<lparr>rr_store := writeAudit p 0 n (openAudit p (rr_store c)), rr_writer := Some (p, Some n)\<rparr>)"
proof -
  let ?b = "c\<lparr>rr_writer := Some (p, None)\<rparr>" and ?o = "c\<lparr>rr_store := openAudit p (rr_store c), rr_writer := Some (p, Some 0)\<rparr>"
  have "registry_step E c ?b" by (rule registry_step.begins [OF assms(1-3)])
  moreover have "registry_step E ?b ?o" using registry_step.opens [of ?b p E] by simp
  moreover have "registry_step E ?o (c\<lparr>rr_store := writeAudit p 0 n (openAudit p (rr_store c)), rr_writer := Some (p, Some n)\<rparr>)"
    using registry_step.writes [of ?o p 0 n E] assms(4,5) by simp
  ultimately show ?thesis by (meson converse_rtranclp_into_rtranclp r_into_rtranclp)
qed

end
