(* ===== verification/Registry_Identities.thy ===== *)
theory Registry_Identities
  imports Registry_Runs
begin

text \<open>
  What the commits of a registry say: how bindings evolve from one commit to the
  next, and that entries linked by their hashes are determined by the last of them.
\<close>

section \<open>Identities\<close>

text \<open>A binding keeps its identity; its generation grows, and within a generation it can only be revoked.\<close>

definition binding_evolves :: "binding \<Rightarrow> binding \<Rightarrow> bool" where
  "binding_evolves a b \<longleftrightarrow> same_identity a b \<and> (bd_binding_generation a < bd_binding_generation b \<or>
     b = a \<or> bd_revoked_at a = None \<and> (\<exists>t. b = a\<lparr>bd_revoked_at := Some t\<rparr>))"

definition all_evolve :: "(string \<times> binding) list \<Rightarrow> (string \<times> binding) list \<Rightarrow> bool" where
  "all_evolve old new \<longleftrightarrow> (\<forall>s a. map_of old s = Some a \<longrightarrow> (\<exists>b. map_of new s = Some b \<and> binding_evolves a b))"

definition unique_live :: "(string \<times> binding) list \<Rightarrow> bool" where
  "unique_live bs \<longleftrightarrow> (\<forall>s t a b. map_of bs s = Some a \<and> map_of bs t = Some b \<and> bd_revoked_at a = None \<and> bd_revoked_at b = None \<and>
     bd_principal_id a = bd_principal_id b \<longrightarrow> s = t)"

lemma same_identity_trans: "same_identity a b \<Longrightarrow> same_identity b c \<Longrightarrow> same_identity a c"
  by (simp add: same_identity_def)

lemma binding_evolves_refl [simp]: "binding_evolves a a"
  by (simp add: binding_evolves_def same_identity_def)

lemma binding_evolves_trans:
  assumes "binding_evolves a b" "binding_evolves b c"
  shows "binding_evolves a c"
proof -
  have "same_identity a c" using assms same_identity_trans by (auto simp: binding_evolves_def)
  moreover have "bd_binding_generation a \<le> bd_binding_generation b" "bd_binding_generation b \<le> bd_binding_generation c"
    using assms by (auto simp: binding_evolves_def)
  moreover have "bd_binding_generation a < bd_binding_generation c \<or> c = a \<or> bd_revoked_at a = None \<and> (\<exists>t. c = a\<lparr>bd_revoked_at := Some t\<rparr>)"
  proof (cases "bd_binding_generation a < bd_binding_generation c")
    case False
    with calculation have "\<not> bd_binding_generation a < bd_binding_generation b" "\<not> bd_binding_generation b < bd_binding_generation c" by simp_all
    with assms have "b = a \<or> bd_revoked_at a = None \<and> (\<exists>t. b = a\<lparr>bd_revoked_at := Some t\<rparr>)"
        "c = b \<or> bd_revoked_at b = None \<and> (\<exists>t. c = b\<lparr>bd_revoked_at := Some t\<rparr>)" by (auto simp: binding_evolves_def)
    then show ?thesis by fastforce
  qed simp
  ultimately show ?thesis by (simp add: binding_evolves_def)
qed

lemma all_evolve_trans: "all_evolve x y \<Longrightarrow> all_evolve y z \<Longrightarrow> all_evolve x z"
  unfolding all_evolve_def by (meson binding_evolves_trans)

lemma all_evolve_refl [simp]: "all_evolve x x"
  by (simp add: all_evolve_def)

lemma acts_evolve:
  assumes "acts old new action subject"
  shows "all_evolve old new"
proof (cases subject)
  case None
  with assms show ?thesis by (simp add: acts_def)
next
  case (Some s)
  have "\<exists>b. map_of new k = Some b \<and> binding_evolves a b" if k: "map_of old k = Some a" for k a
  proof (cases "k = s")
    case False
    with assms Some k show ?thesis by (auto simp: acts_def)
  next
    case True
    with assms Some k show ?thesis
      by (auto simp: acts_def binds_def revokes_def binding_evolves_def same_identity_def)
  qed
  then show ?thesis by (simp add: all_evolve_def)
qed

lemma acts_unique:
  assumes "acts old new action subject" "unique_live old"
  shows "unique_live new"
proof (cases subject)
  case None
  with assms show ?thesis by (simp add: acts_def)
next
  case (Some s)
  have others: "k \<noteq> s \<Longrightarrow> map_of new k = map_of old k" for k using assms(1) Some by (simp add: acts_def)
  have "k = l" if kl: "map_of new k = Some a" "map_of new l = Some b" "bd_revoked_at a = None" "bd_revoked_at b = None" "bd_principal_id a = bd_principal_id b" for k l a b
  proof (cases "k = s \<or> l = s")
    case False
    with kl others assms(2) show ?thesis unfolding unique_live_def by metis
  next
    case True
    with kl assms(1) Some show ?thesis
      by (auto simp: acts_def binds_def revokes_def)
  qed
  then show ?thesis unfolding unique_live_def by blast
qed

lemma history_unique: "history E h \<Longrightarrow> unique_live (bindings_of (latest h))"
proof (induction rule: history.induct)
  case empty
  then show ?case by (simp add: latest_def unique_live_def)
next
  case (commit h r e)
  then have "unique_live (rg_bindings r)" by (auto simp: extends_def intro: acts_unique)
  then show ?case by (simp add: latest_def)
qed

lemma history_evolves: "history E (h @ g) \<Longrightarrow> all_evolve (bindings_of (latest h)) (bindings_of (latest (h @ g)))"
proof (induction g rule: rev_induct)
  case (snoc x g)
  obtain r e where x: "x = (r, e)" by force
  have hist: "history E (h @ g)" "extends E (h @ g) r e" using snoc.prems history_snoc [of E "h @ g" r e] x by simp_all
  then have "all_evolve (bindings_of (latest (h @ g))) (rg_bindings r)" by (auto simp: extends_def intro: acts_evolve)
  then have "all_evolve (bindings_of (latest (h @ g))) (bindings_of (latest (h @ g @ [x])))" by (simp add: x latest_def)
  with snoc.IH [OF hist(1)] show ?case by (rule all_evolve_trans)
qed simp

section \<open>Two logs under one head\<close>

text \<open>What verification says of the entries themselves.\<close>

fun linked :: "node_env \<Rightarrow> string \<Rightarrow> audit_entry list \<Rightarrow> bool" where
  "linked E prev [] = True"
| "linked E prev (e # es) = (ae_prevHash e = prev \<and> ae_hash e = payload_hash E e \<and> linked E (ae_hash e) es)"

lemma linked_snoc: "linked E prev (es @ [e]) \<longleftrightarrow> linked E prev es \<and> ae_prevHash e = (if es = [] then prev else ae_hash (last es)) \<and> ae_hash e = payload_hash E e"
  by (induction es arbitrary: prev) auto

lemma linked_take: "linked E prev es \<Longrightarrow> linked E prev (take n es)"
  by (induction es arbitrary: n prev) (auto simp: take_Cons' )

lemma verify_line_linked: "verify_line E i prev line = Inr e \<Longrightarrow> ae_prevHash e = prev \<and> ae_hash e = payload_hash E e"
  by (auto simp: verify_line_def validateAuditEntryObject_def demand_Inr Let_def split: if_splits option.splits sum.splits)

lemma verify_lines_linked: "verify_lines E head i prev off com lines = Inr (es, c) \<Longrightarrow> linked E prev es"
proof (induction lines arbitrary: i prev off com es c)
  case (Cons line lines)
  from Cons.prems obtain e es' where e: "verify_line E (i + 1) prev line = Inr e" and es: "es = e # es'"
      and rest: "\<exists>off com. verify_lines E head (i + 1) (ae_hash e) off com lines = Inr (es', c)"
    by (simp add: Let_def split: sum.splits prod.splits) blast
  from rest Cons.IH have "linked E (ae_hash e) es'" by blast
  with verify_line_linked [OF e] es show ?case by simp
qed simp

lemma payload_inject: "canonicalJson (JObj (payload_members a)) = canonicalJson (JObj (payload_members b)) \<Longrightarrow> ae_hash a = ae_hash b \<Longrightarrow> a = b"
proof -
  assume "canonicalJson (JObj (payload_members a)) = canonicalJson (JObj (payload_members b))" and hash: "ae_hash a = ae_hash b"
  then have "sort_keys (JObj (payload_members a)) = sort_keys (JObj (payload_members b))" by (simp only: canonicalJson_eq_iff)
  moreover have get: "obj_get (sort_keys (JObj (payload_members e))) k = map_option sort_keys (obj_get (JObj (payload_members e)) k)" for e k
    unfolding payload_members_def by (rule obj_get_sorted) simp
  ultimately have "map_option sort_keys (obj_get (JObj (payload_members a)) k) = map_option sort_keys (obj_get (JObj (payload_members b)) k)" for k
    by metis
  from this [of "''sequence''"] this [of "''at''"] this [of "''action''"] this [of "''subject''"] this [of "''bindingId''"] this [of "''prevHash''"] hash
  show "a = b" by (cases a; cases b) (simp add: payload_members_def obj_get_def opt_json_def split: option.splits)
qed

definition collision :: "node_env \<Rightarrow> string \<Rightarrow> string \<Rightarrow> bool" where
  "collision E x y \<longleftrightarrow> x \<noteq> y \<and> sha256 E x = sha256 E y"

definition payload_text :: "audit_entry \<Rightarrow> string" where
  "payload_text e = canonicalJson (JObj (payload_members e))"

lemma linked_equal:
  assumes "linked E prev es" "linked E prev fs" "length es = length fs" "es \<noteq> [] \<Longrightarrow> ae_hash (last es) = ae_hash (last fs)"
    and "\<forall>e \<in> set es. \<forall>f \<in> set fs. \<not> collision E (payload_text e) (payload_text f)"
  shows "es = fs"
  using assms
proof (induction es arbitrary: fs rule: rev_induct)
  case (snoc e es)
  then obtain f fs' where fs: "fs = fs' @ [f]" "length es = length fs'" by (cases fs rule: rev_cases) auto
  have le: "ae_hash e = payload_hash E e" "ae_hash f = payload_hash E f" "ae_hash e = ae_hash f" using snoc.prems fs by (simp_all add: linked_snoc)
  then have "payload_text e = payload_text f" using snoc.prems(5) fs by (auto simp: collision_def payload_hash_def payload_text_def)
  with le payload_inject have ef: "e = f" by (simp add: payload_text_def)
  have "es = fs'"
  proof (rule snoc.IH)
    show "es \<noteq> [] \<Longrightarrow> ae_hash (last es) = ae_hash (last fs')" using snoc.prems(1,2) fs ef by (auto simp: linked_snoc split: if_splits)
  qed (use snoc.prems fs in \<open>auto simp: linked_snoc\<close>)
  with ef fs show ?case by simp
qed simp

lemma read_linked:
  assumes "readAndVerifyUnlocked E (Some reg) audit = Inr cur"
  obtains r where "parse_registry E reg = Inr r" "cu_registry cur = Some r" "linked E ZERO_HASH_64 (ac_entries (cu_audit cur))"
    "0 < rg_headSequence r \<longrightarrow> nat (rg_headSequence r) \<le> length (ac_entries (cu_audit cur)) \<and>
       ae_hash (ac_entries (cu_audit cur) ! (nat (rg_headSequence r) - 1)) = rg_headHash r"
proof -
  from assms obtain r a where r: "parse_registry E reg = Inr r" and a: "parseAndVerifyAuditLog E audit (Some (rg_headSequence r, rg_headHash r)) = Inr a"
      and cur: "cu_registry cur = Some r" "cu_audit cur = a"
    by (auto simp: readAndVerifyUnlocked_def split: if_splits sum.splits)
  have "linked E ZERO_HASH_64 (ac_entries a) \<and> (0 < rg_headSequence r \<longrightarrow> nat (rg_headSequence r) \<le> length (ac_entries a) \<and>
       ae_hash (ac_entries a ! (nat (rg_headSequence r) - 1)) = rg_headHash r)"
    using a by (auto simp: parseAndVerifyAuditLog_def no_log_def no_audit_def check_head_def Let_def nat_diff_distrib dest!: verify_lines_linked
        split: option.splits if_splits sum.splits)
  with r cur show thesis by (intro that) auto
qed

end
