(* ===== verification/Registry_Guarantees.thy ===== *)
theory Registry_Guarantees
  imports Registry_Identities Recipient_Resolver
begin

text \<open>
  What the identity registry guarantees while updates run, fail and are cut off at
  any byte: readers find the last committed registry, also while they race with an
  update; stale updates are refused; identities never move; the log cannot be
  changed under a head; and principals resolve uniquely.
\<close>

section \<open>Reading\<close>

lemma read_current:
  assumes "run_ok E c"
  shows "\<exists>cur. readAndVerifyUnlocked E (st_registry (rr_store c)) (st_audit (rr_store c)) = Inr cur \<and> cu_registry cur = latest (rr_commits c) \<and>
    take (length (rr_commits c)) (ac_entries (cu_audit cur)) = map snd (rr_commits c) \<and>
    ac_committedByteLength (cu_audit cur) = length (log_text (map snd (rr_commits c))) \<and> ac_uncommittedTail (cu_audit cur) \<in> {0, 1}"
proof -
  have ok: "history E (rr_commits c @ [])" "log_ok E (rr_commits c @ []) (st_audit (rr_store c))" "st_registry (rr_store c) = registry_file (rr_commits c)"
    using assms by (simp_all add: run_ok_def)
  from read_pair [OF ok(1,2)] ok(3) show ?thesis by (auto simp: log_text_def split: sum.splits)
qed

lemma read_racing:
  assumes "run_ok E c" "(registry_step E)\<^sup>*\<^sup>* c d"
  shows "case readAndVerifyUnlocked E (st_registry (rr_store c)) (st_audit (rr_store d)) of
      Inr cur \<Rightarrow> cu_registry cur = latest (rr_commits c)
    | Inl e \<Rightarrow> isRetryableReadTimingError e \<and> length (rr_commits c) < length (rr_commits d)"
proof -
  obtain g where g: "rr_commits d = rr_commits c @ g" using commits_grow [OF assms(2)] by blast
  have "run_ok E d" using later_ok [OF assms(2,1)] .
  then have "history E (rr_commits c @ g)" "log_ok E (rr_commits c @ g) (st_audit (rr_store d))" "st_registry (rr_store c) = registry_file (rr_commits c)"
    using g assms(1) by (simp_all add: run_ok_def)
  from read_pair [OF this(1,2)] this(3) g show ?thesis by (auto split: sum.splits)
qed

text \<open>
  C7: the registry survives crashes.  However updates run, fail, or are cut off
  between any two writes or inside one, what the two files hold can be read at
  every moment, and reading gives the registry that was committed last, with the
  entries of all commits at the front of the log and at most one entry, complete
  or torn, behind them.
\<close>

theorem registry_survives_crashes:
  assumes "(registry_step E)\<^sup>*\<^sup>* new_registry c"
  shows "\<exists>cur. readIdentityRegistry E (\<lambda>_. (st_registry (rr_store c), st_audit (rr_store c))) = Inr cur \<and> cu_registry cur = latest (rr_commits c) \<and>
    take (length (rr_commits c)) (ac_entries (cu_audit cur)) = map snd (rr_commits c) \<and> ac_uncommittedTail (cu_audit cur) \<in> {0, 1}"
  using read_current [OF run_ok [OF assms]] by (auto simp: readIdentityRegistry_def READ_MAX_RETRIES_def numeral_eq_Suc)

lemma attempts_racing:
  assumes "\<forall>i. run_ok E (\<sigma> i)" "\<forall>i. (registry_step E)\<^sup>*\<^sup>* (\<sigma> i) (\<sigma> (Suc i))"
  shows "case read_attempts E k (\<lambda>i. (st_registry (rr_store (\<sigma> (2 * i))), st_audit (rr_store (\<sigma> (2 * i + 1))))) n of
      Inr cur \<Rightarrow> \<exists>i. k \<le> i \<and> i \<le> k + n \<and> cu_registry cur = latest (rr_commits (\<sigma> (2 * i)))
    | Inl e \<Rightarrow> isRetryableReadTimingError e \<and> (\<forall>i. k \<le> i \<and> i \<le> k + n \<longrightarrow> length (rr_commits (\<sigma> (2 * i))) < length (rr_commits (\<sigma> (2 * i + 1))))"
proof (induction n arbitrary: k)
  case 0
  from read_racing [of E "\<sigma> (2 * k)" "\<sigma> (2 * k + 1)"] assms show ?case by (auto split: sum.splits)
next
  case (Suc n)
  note here = read_racing [of E "\<sigma> (2 * k)" "\<sigma> (2 * k + 1)"]
  show ?case
  proof (cases "readAndVerifyUnlocked E (st_registry (rr_store (\<sigma> (2 * k)))) (st_audit (rr_store (\<sigma> (2 * k + 1))))")
    case (Inl e)
    with here assms have e: "isRetryableReadTimingError e" "length (rr_commits (\<sigma> (2 * k))) < length (rr_commits (\<sigma> (2 * k + 1)))" by simp_all
    have "(\<forall>i. k \<le> i \<and> i \<le> k + Suc n \<longrightarrow> P i) \<longleftrightarrow> P k \<and> (\<forall>i. k + 1 \<le> i \<and> i \<le> k + 1 + n \<longrightarrow> P i)" for P
      by (metis (no_types, lifting) Suc_eq_plus1 add.assoc add.commute add_Suc_right le_SucI le_add1 le_antisym not_less_eq_eq)
    then show ?thesis using Suc.IH [of "k + 1"] Inl e by (auto split: sum.splits dest: Suc_leD)
  next
    case (Inr cur)
    with here assms show ?thesis by (auto intro!: exI [of _ k])
  qed
qed

text \<open>
  C24: a reader that races with updates.  The registry and the log are opened one
  after the other and updates go on before, between and after; an attempt returns
  the registry that was the committed one when it opened it.  A reader fails only
  if a commit came between the two files in every one of its six attempts, and
  then with a reason it may retry; it never reports tampering.
\<close>

theorem racing_reader:
  assumes "(registry_step E)\<^sup>*\<^sup>* new_registry (\<sigma> 0)" "\<forall>i. (registry_step E)\<^sup>*\<^sup>* (\<sigma> i) (\<sigma> (Suc i))"
  shows "case readIdentityRegistry E (\<lambda>i. (st_registry (rr_store (\<sigma> (2 * i))), st_audit (rr_store (\<sigma> (2 * i + 1))))) of
      Inr cur \<Rightarrow> \<exists>i \<le> READ_MAX_RETRIES. cu_registry cur = latest (rr_commits (\<sigma> (2 * i)))
    | Inl e \<Rightarrow> isRetryableReadTimingError e \<and> (\<forall>i \<le> READ_MAX_RETRIES. length (rr_commits (\<sigma> (2 * i))) < length (rr_commits (\<sigma> (2 * i + 1))))"
proof -
  have "run_ok E (\<sigma> i)" for i
  proof (induction i)
    case 0
    show ?case by (rule run_ok [OF assms(1)])
  next
    case (Suc i)
    with assms(2) show ?case by (blast intro: later_ok)
  qed
  with attempts_racing [of E \<sigma> 0 READ_MAX_RETRIES] assms(2) show ?thesis by (auto simp: readIdentityRegistry_def split: sum.splits)
qed

section \<open>Validation\<close>

text \<open>
  C28: what validation accepts is well formed: sequence, times, head and size within
  their bounds, bindings in the order of their keys with distinct keys and ids, each
  under the instance id derived from its profile name; and written to a file it is
  read back as the same registry.
\<close>

theorem validated_registry_well_formed:
  assumes "validateIdentityRegistry E j = Inr r" "distinct_keys j"
  shows "registry_ok E r \<and> distinct (map fst (rg_bindings r)) \<and> parse_registry E (file_text (registry_json r)) = Inr r"
  using validate_registry_ok [OF assms(1)] validate_registry_distinct [OF assms] parse_registry_file by simp

section \<open>Updating\<close>

text \<open>
  C26: compare and set.  An update starts only with the sequence number of the
  committed registry, which counts the commits, and writes the next one; of two
  updates started with the same number the second can only start if nothing was
  committed since the first.
\<close>

theorem update_is_compare_and_set:
  assumes "(registry_step E)\<^sup>*\<^sup>* new_registry c" "(registry_step E)\<^sup>*\<^sup>* c d"
    and "\<forall>j. distinct_keys (mutate j)" "beginUpdate E n now action subject mutate (rr_store c) = Inr p"
    and "\<forall>j. distinct_keys (mutate' j)" "beginUpdate E n now' action' subject' mutate' (rr_store d) = Inr q"
  shows "n = int (length (rr_commits c)) \<and> rg_sequence (wp_registry p) = n + 1 \<and> ae_sequence (wp_entry p) = n + 1 \<and> rr_commits d = rr_commits c"
proof -
  have ok: "run_ok E c" "run_ok E d" using run_ok [OF assms(1)] later_ok [OF assms(2)] by auto
  note c = begin_plan [OF ok(1) assms(3,4)] and d = begin_plan [OF ok(2) assms(5,6)]
  obtain g where "rr_commits d = rr_commits c @ g" using commits_grow [OF assms(2)] by blast
  with c d show ?thesis by (auto simp: plan_ok_def extends_def)
qed

lemma prepare_registry: "cu_registry x = cu_registry y \<Longrightarrow> prepareUpdate E n now action subject mutate x = prepareUpdate E n now action subject mutate y"
  by (simp add: prepareUpdate_def)

lemma begin_again:
  assumes ok: "run_ok E c" "run_ok E d" and commits: "rr_commits c = rr_commits d"
  shows "beginUpdate E n now action subject mutate (rr_store c) = beginUpdate E n now action subject mutate (rr_store d)"
proof -
  obtain x y where x: "readAndVerifyUnlocked E (st_registry (rr_store c)) (st_audit (rr_store c)) = Inr x"
      and y: "readAndVerifyUnlocked E (st_registry (rr_store d)) (st_audit (rr_store d)) = Inr y"
      and xy: "cu_registry x = cu_registry y" "ac_committedByteLength (cu_audit x) = ac_committedByteLength (cu_audit y)"
      "ac_committedByteLength (cu_audit x) = length (log_text (map snd (rr_commits c)))"
    using read_current [OF ok(1)] read_current [OF ok(2)] commits by fastforce
  have "st_audit (rr_store c) = None \<or> st_audit (rr_store d) = None \<Longrightarrow> rr_commits c = []"
    using ok commits by (auto simp: run_ok_def log_ok_def)
  then have com: "(if st_audit (rr_store c) = None then 0 else ac_committedByteLength (cu_audit x)) = (if st_audit (rr_store d) = None then 0 else ac_committedByteLength (cu_audit y))"
    using xy by (auto simp: log_text_def)
  show ?thesis unfolding beginUpdate_def x y sum.case com prepare_registry [OF xy(1)] Let_def by (rule refl)
qed

lemma open_again:
  assumes ok: "run_ok E c" "run_ok E d" and commits: "rr_commits c = rr_commits d" and plan: "plan_ok E (rr_commits c) p"
  shows "openAudit p (rr_store c) = openAudit p (rr_store d)"
  using ok commits plan open_log [of E "rr_commits c" "st_audit (rr_store c)" p] open_log [of E "rr_commits d" "st_audit (rr_store d)" p]
  by (simp add: run_ok_def openAudit_def)

text \<open>
  C25: what a crash leaves behind does not matter.  Two runs with the same commits
  accept the same updates, refuse the others with the same error, and once an
  accepted update has opened the log and written its line, their files are the same.
\<close>

theorem crash_debris_is_harmless:
  assumes "(registry_step E)\<^sup>*\<^sup>* new_registry c" "(registry_step E)\<^sup>*\<^sup>* new_registry d" "rr_commits c = rr_commits d"
  shows "beginUpdate E n now action subject mutate (rr_store c) = beginUpdate E n now action subject mutate (rr_store d) \<and>
    (\<forall>p. beginUpdate E n now action subject mutate (rr_store c) = Inr p \<and> (\<forall>j. distinct_keys (mutate j)) \<longrightarrow>
      (let finish = (\<lambda>st. renameRegistry p (writeAudit p 0 (length (entry_line (wp_entry p))) (openAudit p st))) in
       finish (rr_store c) = finish (rr_store d)))"
proof -
  have ok: "run_ok E c" "run_ok E d" using assms run_ok by auto
  have "openAudit p (rr_store c) = openAudit p (rr_store d)"
    if "beginUpdate E n now action subject mutate (rr_store c) = Inr p" "\<forall>j. distinct_keys (mutate j)" for p
    by (rule open_again [OF ok assms(3) begin_plan(1) [OF ok(1) that(2,1)]])
  with begin_again [OF ok assms(3)] show ?thesis by (simp add: Let_def)
qed

section \<open>Identities over time\<close>

text \<open>
  C8: identities never move.  In every reachable registry a principal has at most
  one live binding, and from there on every profile keeps its binding with the
  same principal, name, instance and origin, with a generation that never falls;
  within a generation a binding is unchanged or has only become revoked.
\<close>

theorem identities_never_move:
  assumes "(registry_step E)\<^sup>*\<^sup>* new_registry c" "(registry_step E)\<^sup>*\<^sup>* c d"
  shows "unique_live (bindings_of (latest (rr_commits c))) \<and>
    all_evolve (bindings_of (latest (rr_commits c))) (bindings_of (latest (rr_commits d)))"
proof -
  have "history E (rr_commits c)" "history E (rr_commits d)" using run_ok [OF assms(1)] later_ok [OF assms(2) run_ok [OF assms(1)]] by (simp_all add: run_ok_def)
  with commits_grow [OF assms(2)] show ?thesis using history_unique history_evolves by fastforce
qed

section \<open>Tampering\<close>

lemma last_take: "0 < n \<Longrightarrow> n \<le> length xs \<Longrightarrow> last (take n xs) = xs ! (n - 1)"
  by (subst last_conv_nth) auto

text \<open>
  C9: the log cannot be changed under a head.  If two logs both verify against the
  same registry file, the entries up to its head are the same in both, unless two
  different entry payloads in them have the same hash.
\<close>

theorem log_is_tamper_evident:
  assumes "readAndVerifyUnlocked E (Some reg) (Some log1) = Inr x" "readAndVerifyUnlocked E (Some reg) (Some log2) = Inr y"
  shows "\<exists>r. cu_registry x = Some r \<and> cu_registry y = Some r \<and>
    (take (nat (rg_headSequence r)) (ac_entries (cu_audit x)) = take (nat (rg_headSequence r)) (ac_entries (cu_audit y)) \<or>
     (\<exists>e \<in> set (ac_entries (cu_audit x)). \<exists>f \<in> set (ac_entries (cu_audit y)). collision E (payload_text e) (payload_text f)))"
proof -
  obtain r where r: "parse_registry E reg = Inr r" "cu_registry x = Some r" "linked E ZERO_HASH_64 (ac_entries (cu_audit x))"
    and hx: "0 < rg_headSequence r \<longrightarrow> nat (rg_headSequence r) \<le> length (ac_entries (cu_audit x)) \<and>
       ae_hash (ac_entries (cu_audit x) ! (nat (rg_headSequence r) - 1)) = rg_headHash r" by (rule read_linked [OF assms(1)])
  obtain r' where r': "parse_registry E reg = Inr r'" "cu_registry y = Some r'" "linked E ZERO_HASH_64 (ac_entries (cu_audit y))"
    and hy: "0 < rg_headSequence r' \<longrightarrow> nat (rg_headSequence r') \<le> length (ac_entries (cu_audit y)) \<and>
       ae_hash (ac_entries (cu_audit y) ! (nat (rg_headSequence r') - 1)) = rg_headHash r'" by (rule read_linked [OF assms(2)])
  have rr: "r' = r" using r r' by simp
  let ?n = "nat (rg_headSequence r)" and ?xs = "ac_entries (cu_audit x)" and ?ys = "ac_entries (cu_audit y)"
  have "take ?n ?xs = take ?n ?ys" if "\<forall>e \<in> set ?xs. \<forall>f \<in> set ?ys. \<not> collision E (payload_text e) (payload_text f)"
  proof (rule linked_equal [OF linked_take [OF r(3)] linked_take [OF r'(3)]])
    show "length (take ?n ?xs) = length (take ?n ?ys)" using hx hy rr by (cases "0 < rg_headSequence r") auto
    show "ae_hash (last (take ?n ?xs)) = ae_hash (last (take ?n ?ys))" if "take ?n ?xs \<noteq> []"
      using that hx hy rr by (cases "0 < rg_headSequence r") (simp_all add: last_take)
    show "\<forall>e \<in> set (take ?n ?xs). \<forall>f \<in> set (take ?n ?ys). \<not> collision E (payload_text e) (payload_text f)"
      using that by (meson in_set_takeD)
  qed
  with r(2) r'(2) rr show ?thesis by blast
qed

section \<open>Resolution\<close>

text \<open>The live bindings of a principal, as the resolver sees them.\<close>

lemma object_values_registry: "object_values (obj_get (registry_json r) ''bindings'') = map (binding_json \<circ> snd) (rg_bindings r)"
  by (simp add: registry_json_def obj_get_def object_values_def comp_def case_prod_beta)

lemma binding_fields:
  "field_text (binding_json b) ''principal_id'' = Some (bd_principal_id b)" "field_text (binding_json b) ''profile_instance_id'' = Some (bd_profile_instance_id b)"
  "obj_get (binding_json b) ''binding_id'' = Some (JStr (bd_binding_id b))"
  by (simp_all add: field_text_def binding_json_def obj_get_def)

lemma live_binding_json: "live_binding (binding_json b) \<longleftrightarrow> bd_revoked_at b = None"
  by (auto simp: live_binding_def binding_json_def obj_get_def opt_json_def field_text_def split: option.splits)

definition bound_to :: "string \<Rightarrow> string \<times> binding \<Rightarrow> bool" where
  "bound_to p kb \<longleftrightarrow> bd_revoked_at (snd kb) = None \<and> bd_principal_id (snd kb) = p"

lemma distinct_set_single: "distinct xs \<Longrightarrow> set xs = {x} \<Longrightarrow> xs = [x]"
  by (cases xs rule: remdups_adj.cases) auto

lemma one_binding:
  assumes "distinct (map fst bs)" "unique_live bs"
  shows "filter (bound_to p) bs = (case find (bound_to p) bs of None \<Rightarrow> [] | Some x \<Rightarrow> [x])"
proof (cases "find (bound_to p) bs")
  case None
  then have "filter (bound_to p) bs = []" by (auto simp: find_None_iff filter_empty_conv)
  with None show ?thesis by simp
next
  case (Some x)
  then have x: "x \<in> set bs" "bound_to p x" by (auto simp: find_Some_iff)
  have "y = x" if "y \<in> set bs" "bound_to p y" for y
  proof -
    have "map_of bs (fst x) = Some (snd x)" "map_of bs (fst y) = Some (snd y)" using x(1) that(1) assms(1) by simp_all
    then have "fst y = fst x" "map_of bs (fst y) = Some (snd y)"
      using x(2) that(2) assms(2) unfolding unique_live_def bound_to_def by metis+
    with \<open>map_of bs (fst x) = Some (snd x)\<close> show ?thesis by (simp add: prod_eq_iff)
  qed
  then have "set (filter (bound_to p) bs) = {x}" unfolding set_filter using x by blast
  moreover have "distinct (filter (bound_to p) bs)" using assms(1) by (simp add: distinct_map)
  ultimately have "filter (bound_to p) bs = [x]" by (intro distinct_set_single)
  with Some show ?thesis by simp
qed

lemma principal_bindings_registry: "principal_bindings (registry_json r) p = map (binding_json \<circ> snd) (filter (bound_to p) (rg_bindings r))"
proof -
  have "bound_to p = (\<lambda>x. bd_revoked_at (snd x) = None \<and> bd_principal_id (snd x) = p)" by (auto simp: fun_eq_iff bound_to_def)
  then show ?thesis
    by (simp add: principal_bindings_def live_bindings_def object_values_registry filter_map comp_def live_binding_json binding_fields)
qed

text \<open>
  C27: a committed registry resolves principals uniquely.  On the snapshot of what a
  reader returns, a principal is resolved to the one profile it is bound to, when that
  is a recipient of the host; it is unknown or bound elsewhere otherwise, and
  never ambiguous.
\<close>

theorem committed_registry_resolves:
  assumes "(registry_step E)\<^sup>*\<^sup>* new_registry c" "latest (rr_commits c) = Some r"
    and "list_all (\<lambda>rc. INSTANCE_ID_PATTERN (rc_id rc)) recipients" "AGENT_ID_PATTERN to"
  shows "resolveRecipient to recipients (Some (read_snapshot (Read_ok (registry_json r)) t)) =
    (case find (bound_to to) (rg_bindings r) of
       None \<Rightarrow> Inr (Res_error ''recipient_not_found'' ''no_binding'' [])
     | Some (k, b) \<Rightarrow> (case find (\<lambda>rc. rc_id rc = k) recipients of
         None \<Rightarrow> Inr (Res_error ''route_unavailable'' ''not_a_local_recipient'' [])
       | Some rc \<Rightarrow> Inr (Resolved k to (rc_label rc) (Some (JStr (bd_binding_id b))))))"
proof -
  have h: "history E (rr_commits c)" using run_ok [OF assms(1)] by (simp add: run_ok_def)
  note r = history_latest [OF h assms(2)]
  have one: "filter (bound_to to) (rg_bindings r) = (case find (bound_to to) (rg_bindings r) of None \<Rightarrow> [] | Some x \<Rightarrow> [x])"
    using one_binding [OF r(2)] history_unique [OF h] assms(2) by simp
  have key: "bd_profile_instance_id b = k" if "(k, b) \<in> set (rg_bindings r)" for k b
    using r(1) that by (auto simp: registry_ok_def bindings_ok_def binding_facts_def)
  have rec: "recipient_of recipients (binding_json b) = find (\<lambda>rc. rc_id rc = bd_profile_instance_id b) recipients" for b
    by (simp add: recipient_of_def binding_fields)
  have "Inr (resolution_of (registry_json r) to recipients) = (case find (bound_to to) (rg_bindings r) of
       None \<Rightarrow> Inr (Res_error ''recipient_not_found'' ''no_binding'' [])
     | Some (k, b) \<Rightarrow> (case find (\<lambda>rc. rc_id rc = k) recipients of
         None \<Rightarrow> Inr (Res_error ''route_unavailable'' ''not_a_local_recipient'' [])
       | Some rc \<Rightarrow> Inr (Resolved k to (rc_label rc) (Some (JStr (bd_binding_id b))))))"
  proof (cases "find (bound_to to) (rg_bindings r)")
    case None
    with one show ?thesis by (simp add: resolution_of_def local_bindings_def principal_bindings_registry)
  next
    case (Some x)
    obtain k b where x: "x = (k, b)" by force
    with Some have "(k, b) \<in> set (rg_bindings r)" by (auto simp: find_Some_iff)
    note kb = key [OF this]
    show ?thesis
    proof (cases "find (\<lambda>rc. rc_id rc = k) recipients")
      case None
      with one Some x kb show ?thesis by (simp add: resolution_of_def local_bindings_def principal_bindings_registry rec)
    next
      case (Some rc)
      then have "rc_id rc = k" by (auto simp: find_Some_iff)
      with one \<open>find (bound_to to) (rg_bindings r) = Some x\<close> Some x kb show ?thesis
        by (simp add: resolution_of_def local_bindings_def principal_bindings_registry rec binding_fields Let_def)
    qed
  qed
  then show ?thesis using resolve_on_snapshot [of to recipients "registry_json r" t] assms(3,4) by (simp add: read_snapshot_def)
qed

section \<open>A run\<close>

text \<open>A host that binds its first profile, is cut off after three bytes of the log, and binds it again.\<close>

definition sample_env :: node_env where
  "sample_env = \<lparr>sha256 = (\<lambda>s. replicate 63 (CHR ''a'') @ (if take 1 s = ''t'' then ''b'' else ''c'')),
     url_parse = (\<lambda>v. Some \<lparr>u_protocol = ''https:'', u_hostname = drop 8 v, u_username = [], u_password = [], u_origin = v\<rparr>)\<rparr>"

definition sample_time :: string where "sample_time = ''2026-01-01T00:00:00.000Z''"

definition sample_instance :: string where "sample_instance = deriveClientInstanceId sample_env ''alice''"

definition sample_principal :: string where "sample_principal = ''agent_'' @ replicate 32 (CHR ''c'')"

definition sample_binding :: binding where
  "sample_binding = \<lparr>bd_binding_id = ''bind_'' @ replicate 32 (CHR ''d''), bd_principal_id = sample_principal, bd_profile_name = ''alice'',
     bd_profile_instance_id = sample_instance, bd_authority_origin = ''https://mesh.example'', bd_binding_generation = 1,
     bd_issued_at = sample_time, bd_revoked_at = None\<rparr>"

definition sample_registry :: identity_registry where
  "sample_registry = (base_registry sample_time None)\<lparr>rg_bindings := [(sample_instance, sample_binding)]\<rparr>"

definition sample_begin :: "store \<Rightarrow> write_plan checked" where
  "sample_begin = beginUpdate sample_env 0 sample_time ''bind'' (Some sample_instance) (\<lambda>_. registry_json sample_registry)"

definition sample_plan :: write_plan where
  "sample_plan = (case sample_begin (rr_store new_registry) of Inr p \<Rightarrow> p
     | Inl _ \<Rightarrow> \<lparr>wp_registry = sample_registry, wp_entry = buildAuditEntry sample_env 0 [] [] None None [], wp_committed = 0\<rparr>)"

definition sample_crash :: registry_run where
  "sample_crash = new_registry\<lparr>rr_store := writeAudit sample_plan 0 3 (openAudit sample_plan (rr_store new_registry))\<rparr>"

definition sample_done :: registry_run where
  "sample_done = \<lparr>rr_commits = [(wp_registry sample_plan, wp_entry sample_plan)],
     rr_store = \<lparr>st_registry = Some (file_text (registry_json (wp_registry sample_plan))), st_audit = Some (entry_line (wp_entry sample_plan))\<rparr>, rr_writer = None\<rparr>"

lemma sample_facts: "case sample_begin (rr_store new_registry) of Inl _ \<Rightarrow> False
    | Inr p \<Rightarrow> rg_bindings (wp_registry p) = [(sample_instance, sample_binding)] \<and> int (length (entry_line (wp_entry p))) < MAX_AUDIT_BYTES"
  by code_simp

lemma sample_begins: "sample_begin (rr_store new_registry) = Inr sample_plan"
  using sample_facts by (simp add: sample_plan_def split: sum.splits)

lemma sample_bindings: "rg_bindings (wp_registry sample_plan) = [(sample_instance, sample_binding)]"
  and sample_small: "int (length (entry_line (wp_entry sample_plan))) < MAX_AUDIT_BYTES"
  using sample_facts by (simp_all add: sample_begins)

lemma sample_distinct: "\<forall>j::json. distinct_keys (registry_json sample_registry)"
  by (simp add: sample_registry_def registry_distinct)

lemma sample_line: "3 \<le> length (entry_line (wp_entry sample_plan))"
proof -
  have "3 \<le> length (entry_text e)" for e by (simp add: entry_json_def payload_members_def)
  then show ?thesis using entry_line_length by (metis le_add1 le_trans)
qed

lemma sample_crash_reached: "(registry_step sample_env)\<^sup>*\<^sup>* new_registry sample_crash"
proof -
  let ?w = "new_registry\<lparr>rr_store := writeAudit sample_plan 0 3 (openAudit sample_plan (rr_store new_registry)), rr_writer := Some (sample_plan, Some 3)\<rparr>"
  have "(registry_step sample_env)\<^sup>*\<^sup>* new_registry ?w"
    using sample_line by (intro partial_update [OF _ sample_distinct sample_begins [unfolded sample_begin_def]]) (simp_all add: new_registry_def)
  moreover have "registry_step sample_env ?w (?w\<lparr>rr_writer := None\<rparr>)" by (rule registry_step.stops) simp
  moreover have "?w\<lparr>rr_writer := None\<rparr> = sample_crash" by (simp add: sample_crash_def new_registry_def)
  ultimately show ?thesis by simp
qed

lemma sample_begins_again: "sample_begin (rr_store sample_crash) = Inr sample_plan"
  using begin_again [OF run_ok [OF sample_crash_reached] run_ok [OF rtranclp.rtrancl_refl]] sample_begins
  by (simp add: sample_begin_def sample_crash_def new_registry_def)

lemma sample_done_reached: "(registry_step sample_env)\<^sup>*\<^sup>* sample_crash sample_done"
proof -
  let ?n = "length (entry_line (wp_entry sample_plan))"
  let ?w = "sample_crash\<lparr>rr_store := writeAudit sample_plan 0 ?n (openAudit sample_plan (rr_store sample_crash)), rr_writer := Some (sample_plan, Some ?n)\<rparr>"
  have "(registry_step sample_env)\<^sup>*\<^sup>* sample_crash ?w"
    using entry_line_ne by (intro partial_update [OF _ sample_distinct sample_begins_again [unfolded sample_begin_def]]) (simp_all add: sample_crash_def new_registry_def)
  moreover have "registry_step sample_env ?w (?w\<lparr>rr_commits := rr_commits ?w @ [(wp_registry sample_plan, wp_entry sample_plan)],
      rr_store := renameRegistry sample_plan (rr_store ?w), rr_writer := None\<rparr>)" by (rule registry_step.commits) simp
  moreover have "wp_committed sample_plan = 0"
    using begin_plan(1) [OF run_ok [OF rtranclp.rtrancl_refl] sample_distinct sample_begins [unfolded sample_begin_def]]
    by (simp add: plan_ok_def new_registry_def log_text_def)
  then have "?w\<lparr>rr_commits := rr_commits ?w @ [(wp_registry sample_plan, wp_entry sample_plan)],
      rr_store := renameRegistry sample_plan (rr_store ?w), rr_writer := None\<rparr> = sample_done"
    by (simp add: sample_crash_def sample_done_def new_registry_def renameRegistry_def writeAudit_def openAudit_def Let_def)
  ultimately show ?thesis by (metis (no_types, lifting) rtranclp.rtrancl_into_rtrancl)
qed

lemmas sample_reached = rtranclp_trans [OF sample_crash_reached sample_done_reached]

section \<open>The properties on the run\<close>

theorem registry_survives_crashes_witness:
  "\<exists>cur. readIdentityRegistry sample_env (\<lambda>_. (st_registry (rr_store sample_crash), st_audit (rr_store sample_crash))) = Inr cur \<and> cu_registry cur = None \<and>
    ac_uncommittedTail (cu_audit cur) \<in> {0, 1}"
  using registry_survives_crashes [OF sample_crash_reached] by (auto simp: sample_crash_def new_registry_def latest_def)

theorem validated_registry_well_formed_witness:
  "registry_ok sample_env sample_registry \<and> parse_registry sample_env (file_text (registry_json sample_registry)) = Inr sample_registry"
proof -
  have "validateIdentityRegistry sample_env (registry_json sample_registry) = Inr sample_registry" by code_simp
  from validated_registry_well_formed [OF this] sample_distinct show ?thesis by simp
qed

theorem racing_reader_witness:
  "case readIdentityRegistry sample_env (\<lambda>i. (st_registry (rr_store ((if i = 0 then sample_crash else sample_done))), st_audit (rr_store sample_done))) of
      Inr cur \<Rightarrow> cu_registry cur \<in> {None, Some (wp_registry sample_plan)} | Inl e \<Rightarrow> False"
proof -
  let ?\<sigma> = "\<lambda>i :: nat. if i = 0 then sample_crash else sample_done"
  have "\<forall>i. (registry_step sample_env)\<^sup>*\<^sup>* (?\<sigma> i) (?\<sigma> (Suc i))" using sample_done_reached by simp
  from racing_reader [of sample_env ?\<sigma>, OF _ this] sample_crash_reached show ?thesis
    by (auto simp: sample_crash_def new_registry_def sample_done_def latest_def READ_MAX_RETRIES_def split: sum.splits if_splits)
qed

theorem update_is_compare_and_set_witness:
  "rg_sequence (wp_registry sample_plan) = 1 \<and> ae_sequence (wp_entry sample_plan) = 1 \<and> rr_commits sample_crash = rr_commits new_registry"
  using update_is_compare_and_set [OF rtranclp.rtrancl_refl sample_crash_reached sample_distinct sample_begins [unfolded sample_begin_def]
      sample_distinct sample_begins_again [unfolded sample_begin_def]] by simp

theorem crash_debris_is_harmless_witness:
  "(let finish = (\<lambda>st. renameRegistry sample_plan (writeAudit sample_plan 0 (length (entry_line (wp_entry sample_plan))) (openAudit sample_plan st))) in
     finish (rr_store new_registry) = finish (rr_store sample_crash))"
  using crash_debris_is_harmless [OF rtranclp.rtrancl_refl sample_crash_reached, of 0 sample_time "''bind''" "Some sample_instance" "\<lambda>_. registry_json sample_registry"]
    sample_begins sample_distinct by (simp add: sample_begin_def sample_crash_def new_registry_def)

theorem identities_never_move_witness:
  "unique_live [(sample_instance, sample_binding)] \<and> all_evolve [] [(sample_instance, sample_binding)]"
  using identities_never_move [OF sample_crash_reached sample_done_reached] identities_never_move [OF sample_reached rtranclp.rtrancl_refl]
  by (simp add: sample_crash_def new_registry_def sample_done_def latest_def sample_bindings)

theorem committed_registry_resolves_witness:
  "resolveRecipient sample_principal [\<lparr>rc_id = sample_instance, rc_label = ''alice''\<rparr>] (Some (read_snapshot (Read_ok (registry_json (wp_registry sample_plan))) 0)) =
    Inr (Resolved sample_instance sample_principal ''alice'' (Some (JStr (bd_binding_id sample_binding))))"
proof -
  have "INSTANCE_ID_PATTERN sample_instance" "AGENT_ID_PATTERN sample_principal" by code_simp+
  moreover have "bound_to sample_principal (sample_instance, sample_binding)" by (simp add: bound_to_def sample_binding_def)
  ultimately show ?thesis
    using committed_registry_resolves [OF sample_reached, of "wp_registry sample_plan" "[\<lparr>rc_id = sample_instance, rc_label = ''alice''\<rparr>]" sample_principal 0]
    by (simp add: sample_done_def latest_def sample_bindings)
qed

lemma sample_torn: "\<exists>cur. readAndVerifyUnlocked sample_env (st_registry (rr_store sample_done)) (Some (entry_line (wp_entry sample_plan) @ take 1 (entry_line (wp_entry sample_plan)))) = Inr cur"
proof -
  let ?e = "wp_entry sample_plan"
  have ok: "run_ok sample_env sample_done" by (rule run_ok [OF sample_reached])
  then have h: "history sample_env (rr_commits sample_done @ [])" by (simp add: run_ok_def)
  note sample_small
  moreover have "1 < length (entry_line ?e)" using sample_line by simp
  ultimately have "log_holds sample_env (map snd (rr_commits sample_done)) ?e 1 (entry_line ?e @ take 1 (entry_line ?e))"
    using history_chain [OF h] by (simp add: log_holds_def more_entries_def log_text_def sample_done_def)
  then have "log_ok sample_env (rr_commits sample_done @ []) (Some (entry_line ?e @ take 1 (entry_line ?e)))" by (auto simp: log_ok_def)
  from read_pair [OF h this] ok show ?thesis by (auto simp: run_ok_def split: sum.splits)
qed

theorem log_is_tamper_evident_witness:
  "\<exists>r x y. readAndVerifyUnlocked sample_env (st_registry (rr_store sample_done)) (st_audit (rr_store sample_done)) = Inr x \<and>
    readAndVerifyUnlocked sample_env (st_registry (rr_store sample_done)) (Some (entry_line (wp_entry sample_plan) @ take 1 (entry_line (wp_entry sample_plan)))) = Inr y \<and>
    cu_registry x = Some r \<and> cu_registry y = Some r"
proof -
  obtain x where x: "readAndVerifyUnlocked sample_env (st_registry (rr_store sample_done)) (st_audit (rr_store sample_done)) = Inr x"
    using read_current [OF run_ok [OF sample_reached]] by blast
  obtain y where y: "readAndVerifyUnlocked sample_env (st_registry (rr_store sample_done)) (Some (entry_line (wp_entry sample_plan) @ take 1 (entry_line (wp_entry sample_plan)))) = Inr y"
    using sample_torn by blast
  from log_is_tamper_evident [of sample_env _ _ x _ y] x y show ?thesis by (fastforce simp: sample_done_def)
qed

end
