(* ===== verification/Notifier.thy ===== *)
theory Notifier
  imports Journal_Custody
begin

text \<open>
  \<open>packages/agent-worker/src/local-messaging-notifier.mjs\<close>: the notifier of a
  desktop session.  It evaluates what the journal owes its target and, when a wake
  is due, records it as submitting before it calls the adapter, then records what
  became of it.  A call of the journal runs at once and its result arrives at the
  next step; a stage says at which \<open>await\<close> an evaluation stands.
\<close>

section \<open>State\<close>

record notifier_cfg =
  nc_target :: string
  nc_threadId :: string
  nc_bindingId :: "string option"
  nc_generation :: int
  nc_enabled :: bool
  nc_inboxEnabled :: bool
  nc_hasAdapter :: bool
  nc_minIntervalMs :: int

record adapter_binding =
  ab_threadId :: string
  ab_bindingId :: "string option"
  ab_generation :: int

record wake_snapshot =
  ws_wakeId :: string
  ws_replyCount :: nat
  ws_heldCount :: nat
  ws_lateResult :: bool
  ws_inboxCount :: "nat option"

datatype eval_stage =
    Ev_binding "wake_row option result"
  | Ev_obligations wake_row "obligations result"
  | Ev_submitting wake_row obligations string "wake_row option result"
  | Ev_importing wake_row obligations string
  | Ev_invoking string
  | Ev_reporting string "wake_row option result"
  | Ev_closing string "wake_row option result"
  | Ev_finished bool

datatype start_stage = St_init "wake_row option result" | St_evaluating nat

text \<open>
  \<open>nt_abort\<close> is \<open>activeAbortController\<close> with its signal, \<open>nt_outcomes\<close> how the evaluations
  so far ended, and \<open>nt_calls\<close> the calls of the adapter.  A caller that awaits an
  evaluation remembers its number.
\<close>

record notifier =
  nt_timer :: bool
  nt_abort :: "bool option"
  nt_eval :: "eval_stage option"
  nt_stopped :: bool
  nt_started :: bool
  nt_start :: "start_stage option"
  nt_acks :: "(unit result) list"
  nt_stops :: "nat list"
  nt_stop_returned :: bool
  nt_outcomes :: "bool list"
  nt_calls :: "(adapter_binding \<times> wake_snapshot) list"

definition createLocalMessagingNotifier :: "notifier_cfg \<Rightarrow> notifier result" where
  "createLocalMessagingNotifier N =
    (if nc_target N = [] then Inl (Coded ''invalid_options'')
     else Inr \<lparr>nt_timer = False, nt_abort = None, nt_eval = None, nt_stopped = False, nt_started = False, nt_start = None, nt_acks = [],
       nt_stops = [], nt_stop_returned = False, nt_outcomes = [], nt_calls = []\<rparr>)"

section \<open>Evaluation\<close>

definition evaluateObligations :: "notifier_cfg \<Rightarrow> journal \<Rightarrow> notifier \<Rightarrow> notifier" where
  "evaluateObligations N s n =
    (if nt_stopped n \<or> nt_eval n \<noteq> None then n
     else if \<not> nc_enabled N then n\<lparr>nt_eval := Some (Ev_finished True)\<rparr>
     else n\<lparr>nt_eval := Some (Ev_binding (fst (getWakeBinding (nc_target N) s)))\<rparr>)"

definition nothing_owed :: "obligations \<Rightarrow> bool" where
  "nothing_owed ob = (ob_unreadReplies ob = [] \<and> ob_heldMessages ob = [] \<and> ob_queuedMessages ob = [])"

definition too_early :: "notifier_cfg \<Rightarrow> int \<Rightarrow> wake_row \<Rightarrow> bool" where
  "too_early N now b = (case wb_last_submitted b of None \<Rightarrow> False | Some t \<Rightarrow> t \<noteq> 0 \<and> now - t < nc_minIntervalMs N)"

definition snapshot_of :: "notifier_cfg \<Rightarrow> obligations \<Rightarrow> string \<Rightarrow> wake_snapshot" where
  "snapshot_of N ob wakeId = \<lparr>ws_wakeId = wakeId, ws_replyCount = length (ob_unreadReplies ob), ws_heldCount = length (ob_heldMessages ob),
     ws_lateResult = ob_hasLateResult ob, ws_inboxCount = (if nc_inboxEnabled N then Some (length (ob_queuedMessages ob)) else None)\<rparr>"

definition adapter_binding_of :: "notifier_cfg \<Rightarrow> wake_row \<Rightarrow> adapter_binding" where
  "adapter_binding_of N b = \<lparr>ab_threadId = (if wb_thread_id b = [] then nc_threadId N else wb_thread_id b),
     ab_bindingId = (if wb_binding_id b = [] then nc_bindingId N else Some (wb_binding_id b)), ab_generation = wb_generation b\<rparr>"

definition at_stage :: "eval_stage \<Rightarrow> notifier \<Rightarrow> notifier" where
  "at_stage st n = n\<lparr>nt_eval := Some st\<rparr>"

definition invoke_adapter :: "notifier_cfg \<Rightarrow> wake_row \<Rightarrow> obligations \<Rightarrow> string \<Rightarrow> notifier \<Rightarrow> notifier" where
  "invoke_adapter N b ob wakeId n = at_stage (Ev_invoking wakeId) (n\<lparr>nt_calls := nt_calls n @ [(adapter_binding_of N b, snapshot_of N ob wakeId)]\<rparr>)"

text \<open>\<open>setWakeUncertain\<close> outside of the \<open>try\<close> block, or in its \<open>catch\<close>.\<close>

definition close_uncertain :: "notifier_cfg \<Rightarrow> int \<Rightarrow> string \<Rightarrow> notifier \<times> journal \<Rightarrow> notifier \<times> journal" where
  "close_uncertain N now wakeId ns = (let (r, s) = setWakeUncertain now (nc_target N) wakeId (snd ns) in (at_stage (Ev_closing wakeId r) (fst ns), s))"

text \<open>The sections of an evaluation between two awaits.\<close>

definition binding_read :: "node_env \<Rightarrow> notifier_cfg \<Rightarrow> wake_row option result \<Rightarrow> notifier \<times> journal \<Rightarrow> notifier \<times> journal" where
  "binding_read E N r ns = (let (n, s) = ns in case r of
      Inl _ \<Rightarrow> (at_stage (Ev_finished False) n, s)
    | Inr None \<Rightarrow> (at_stage (Ev_finished True) n, s)
    | Inr (Some b) \<Rightarrow>
        if nt_stopped n \<or> wb_state b \<noteq> Idle then (at_stage (Ev_finished True) n, s)
        else (at_stage (Ev_obligations b (fst (getWakeObligations E (nc_target N) (nc_inboxEnabled N) s))) n, s))"

definition obligations_read :: "notifier_cfg \<Rightarrow> int \<Rightarrow> string \<Rightarrow> wake_row \<Rightarrow> obligations result \<Rightarrow> notifier \<times> journal \<Rightarrow> notifier \<times> journal" where
  "obligations_read N now wakeId b r ns = (let (n, s) = ns in case r of
      Inl _ \<Rightarrow> (at_stage (Ev_finished False) n, s)
    | Inr ob \<Rightarrow>
        if nt_stopped n \<or> nothing_owed ob \<or> wakeSnapshotCovered (ob_fingerprint ob) (wb_acked_fp b) \<or> too_early N now b
        then (at_stage (Ev_finished True) n, s)
        else (let (q, s1) = setWakeSubmitting (nc_target N) wakeId (ob_fingerprint ob) now s in (at_stage (Ev_submitting b ob wakeId q) n, s1)))"

definition submitted :: "notifier_cfg \<Rightarrow> int \<Rightarrow> wake_row \<Rightarrow> obligations \<Rightarrow> string \<Rightarrow> wake_row option result \<Rightarrow> notifier \<times> journal \<Rightarrow> notifier \<times> journal" where
  "submitted N now b ob wakeId r ns = (let (n, s) = ns in case r of
      Inl _ \<Rightarrow> (at_stage (Ev_finished False) n, s)
    | Inr _ \<Rightarrow>
        if nt_stopped n then close_uncertain N now wakeId (n, s)
        else (let n1 = n\<lparr>nt_abort := Some False\<rparr> in
          (if nc_hasAdapter N then invoke_adapter N b ob wakeId n1 else at_stage (Ev_importing b ob wakeId) n1, s)))"

text \<open>\<open>import("./codex-wake-adapter.mjs")\<close> returned, or threw outside of any \<open>try\<close>.\<close>

definition imported :: "notifier_cfg \<Rightarrow> int \<Rightarrow> bool \<Rightarrow> wake_row \<Rightarrow> obligations \<Rightarrow> string \<Rightarrow> notifier \<times> journal \<Rightarrow> notifier \<times> journal" where
  "imported N now loaded b ob wakeId ns = (let (n, s) = ns in
     if \<not> loaded then (at_stage (Ev_finished False) n, s)
     else if nt_stopped n then close_uncertain N now wakeId (n\<lparr>nt_abort := None\<rparr>, s)
     else (invoke_adapter N b ob wakeId n, s))"

datatype adapter_outcome = Wake_accepted string string | Wake_not_accepted | Wake_threw

definition adapter_ended :: "notifier_cfg \<Rightarrow> int \<Rightarrow> adapter_outcome \<Rightarrow> string \<Rightarrow> notifier \<times> journal \<Rightarrow> notifier \<times> journal" where
  "adapter_ended N now out wakeId ns = (let (n, s) = ns in case out of
      Wake_accepted queuedId threadId \<Rightarrow>
        (let (r, s1) = setWakeAccepted now (nc_target N) wakeId queuedId threadId s in (at_stage (Ev_reporting wakeId r) n, s1))
    | Wake_not_accepted \<Rightarrow> (let (r, s1) = setWakeUncertain now (nc_target N) wakeId s in (at_stage (Ev_reporting wakeId r) n, s1))
    | Wake_threw \<Rightarrow> close_uncertain N now wakeId (n, s))"

text \<open>What the outside decides in a step: the clock, a random identifier, whether the import worked, and the adapter's result.\<close>

record eval_input =
  ei_now :: int
  ei_uuid :: string
  ei_loaded :: bool
  ei_outcome :: adapter_outcome

definition evaluation_step :: "node_env \<Rightarrow> notifier_cfg \<Rightarrow> eval_input \<Rightarrow> notifier \<times> journal \<Rightarrow> notifier \<times> journal" where
  "evaluation_step E N i ns = (case nt_eval (fst ns) of
      None \<Rightarrow> ns
    | Some (Ev_binding r) \<Rightarrow> binding_read E N r ns
    | Some (Ev_obligations b r) \<Rightarrow> obligations_read N (ei_now i) (ei_uuid i) b r ns
    | Some (Ev_submitting b ob w r) \<Rightarrow> submitted N (ei_now i) b ob w r ns
    | Some (Ev_importing b ob w) \<Rightarrow> imported N (ei_now i) (ei_loaded i) b ob w ns
    | Some (Ev_invoking w) \<Rightarrow> adapter_ended N (ei_now i) (ei_outcome i) w ns
    | Some (Ev_reporting w (Inr _)) \<Rightarrow> (at_stage (Ev_finished True) ((fst ns)\<lparr>nt_abort := None\<rparr>), snd ns)
    | Some (Ev_reporting w (Inl _)) \<Rightarrow> close_uncertain N (ei_now i) w ns
    | Some (Ev_closing w r) \<Rightarrow> (at_stage (Ev_finished (isl r = False)) ((fst ns)\<lparr>nt_abort := None\<rparr>), snd ns)
    | Some (Ev_finished ok) \<Rightarrow> ((fst ns)\<lparr>nt_eval := None, nt_outcomes := nt_outcomes (fst ns) @ [ok]\<rparr>, snd ns))"

section \<open>Starting, acknowledging, stopping\<close>

definition start_notifier :: "notifier_cfg \<Rightarrow> string \<Rightarrow> int \<Rightarrow> notifier \<times> journal \<Rightarrow> unit result \<times> notifier \<times> journal" where
  "start_notifier N uuid now ns = (let (n, s) = ns in
     if nt_stopped n then (Inl (Coded ''notifier_closed''), n, s)
     else if nt_started n then (Inr (), n, s)
     else (let (r, s1) = initWakeBinding uuid now (nc_target N) (nc_bindingId N) None (nc_threadId N) (Some (nc_generation N)) s in
       (Inr (), n\<lparr>nt_started := True, nt_start := Some (St_init r)\<rparr>, s1)))"

text \<open>An evaluation that \<open>start\<close> awaits is the next one to end; when it cannot begin, \<open>start\<close> goes on at once.\<close>

definition start_step :: "notifier_cfg \<Rightarrow> journal \<Rightarrow> notifier \<Rightarrow> notifier" where
  "start_step N s n = (case nt_start n of
      None \<Rightarrow> n
    | Some (St_init r) \<Rightarrow>
        if isl r \<or> nt_stopped n \<or> \<not> nc_enabled N then n\<lparr>nt_start := None\<rparr>
        else (evaluateObligations N s n)\<lparr>nt_start := Some (St_evaluating (length (nt_outcomes n)))\<rparr>
    | Some (St_evaluating k) \<Rightarrow>
        if length (nt_outcomes n) \<le> k then n
        else n\<lparr>nt_start := None, nt_timer := (if nt_outcomes n ! k \<and> \<not> nt_stopped n then True else nt_timer n)\<rparr>)"

definition timer_fires :: "notifier_cfg \<Rightarrow> journal \<Rightarrow> notifier \<Rightarrow> notifier" where
  "timer_fires N s n = (if nt_timer n then evaluateObligations N s n else n)"

definition notifyObligationChange :: "notifier_cfg \<Rightarrow> journal \<Rightarrow> notifier \<Rightarrow> notifier" where
  "notifyObligationChange N s n = evaluateObligations N s n"

definition ackNotification :: "notifier_cfg \<Rightarrow> int \<Rightarrow> string \<Rightarrow> string \<Rightarrow> int \<Rightarrow> notifier \<times> journal \<Rightarrow> unit result \<times> notifier \<times> journal" where
  "ackNotification N now requester wakeId generation ns = (let (n, s) = ns in
     if requester \<noteq> nc_target N then (Inl (Coded ''foreign_access_denied''), n, s)
     else (let (r, s1) = ackWake now requester wakeId generation s in (r, n\<lparr>nt_acks := nt_acks n @ [r]\<rparr>, s1)))"

definition ack_step :: "notifier_cfg \<Rightarrow> journal \<Rightarrow> notifier \<Rightarrow> notifier" where
  "ack_step N s n = (case nt_acks n of [] \<Rightarrow> n
    | r # rs \<Rightarrow> (let n1 = n\<lparr>nt_acks := rs\<rparr> in if isl r then n1 else evaluateObligations N s n1))"

definition stop_notifier :: "notifier \<Rightarrow> notifier" where
  "stop_notifier n = (let n1 = n\<lparr>nt_stopped := True, nt_timer := False, nt_abort := map_option (\<lambda>_. True) (nt_abort n)\<rparr> in
     if nt_eval n = None then n1\<lparr>nt_stop_returned := True\<rparr> else n1\<lparr>nt_stops := nt_stops n @ [length (nt_outcomes n)]\<rparr>)"

definition stop_step :: "notifier \<Rightarrow> notifier" where
  "stop_step n = (case nt_stops n of [] \<Rightarrow> n
    | k # ks \<Rightarrow> if length (nt_outcomes n) \<le> k then n else n\<lparr>nt_stops := ks, nt_stop_returned := True\<rparr>)"

section \<open>Status\<close>

record notifier_view =
  ns_deliveryState :: delivery_state
  ns_generation :: int
  ns_activeWakeId :: "string option"
  ns_receiptQueuedId :: "string option"
  ns_receiptThreadId :: "string option"
  ns_pendingReplies :: nat
  ns_pendingInbox :: "nat option"
  ns_held :: nat
  ns_lateResult :: bool

definition notifier_status :: "node_env \<Rightarrow> notifier_cfg \<Rightarrow> journal \<Rightarrow> notifier_view option result" where
  "notifier_status E N s = (case fst (getWakeBinding (nc_target N) s) of Inl e \<Rightarrow> Inl e | Inr None \<Rightarrow> Inr None
    | Inr (Some b) \<Rightarrow> (let q = fst (getWakeObligations E (nc_target N) (nc_inboxEnabled N) s);
        count = (\<lambda>f :: obligations \<Rightarrow> nat. case q of Inl _ \<Rightarrow> 0 | Inr ob \<Rightarrow> f ob) in
       Inr (Some \<lparr>ns_deliveryState = wb_state b, ns_generation = wb_generation b, ns_activeWakeId = wb_active_wake b,
         ns_receiptQueuedId = wb_receipt_queued b, ns_receiptThreadId = wb_receipt_thread b,
         ns_pendingReplies = count (length \<circ> ob_unreadReplies),
         ns_pendingInbox = (if nc_inboxEnabled N then Some (count (length \<circ> ob_queuedMessages)) else None),
         ns_held = count (length \<circ> ob_heldMessages), ns_lateResult = (case q of Inl _ \<Rightarrow> False | Inr ob \<Rightarrow> ob_hasLateResult ob)\<rparr>)))"

end
