(* ===== verification/Notifier_Guarantees.thy ===== *)
theory Notifier_Guarantees
  imports Notifier
begin

text \<open>
  What the notifier guarantees over a journal that others use at the same time: a
  wake is recorded before it is announced, one wake is outstanding at most, none is
  left in doubt, and after a stop nothing happens any more.
\<close>

section \<open>Runs\<close>

definition busy :: "notifier_cfg \<Rightarrow> journal \<Rightarrow> bool" where
  "busy N s = (case get_binding (nc_target N) s of None \<Rightarrow> False | Some b \<Rightarrow> wb_state b \<noteq> Idle)"

definition submitting_as :: "notifier_cfg \<Rightarrow> string \<Rightarrow> journal \<Rightarrow> bool" where
  "submitting_as N w s = (case get_binding (nc_target N) s of None \<Rightarrow> False | Some b \<Rightarrow> wb_state b = Submitting \<and> wb_active_wake b = Some w)"

text \<open>
  For the specification: how often the wake of the target was closed (acknowledged,
  reconciled, or removed with its binding), and the identifiers the notifier recorded.
\<close>

record notifier_run =
  rn_notifier :: notifier
  rn_journal :: journal
  rn_closed :: nat
  rn_wakes :: "string list"

definition moved :: "notifier_cfg \<Rightarrow> notifier \<Rightarrow> journal \<Rightarrow> notifier_run \<Rightarrow> notifier_run" where
  "moved N n s c = c\<lparr>rn_notifier := n, rn_journal := s,
     rn_closed := rn_closed c + (if busy N (rn_journal c) \<and> \<not> busy N s then 1 else 0),
     rn_wakes := rn_wakes c @ (case (nt_eval (rn_notifier c), nt_eval n) of
        (Some (Ev_obligations _ _), Some (Ev_submitting _ _ w (Inr _))) \<Rightarrow> [w] | _ \<Rightarrow> [])\<rparr>"

lemma moved_simps [simp]:
  "rn_notifier (moved N n s c) = n" "rn_journal (moved N n s c) = s"
  "rn_closed (moved N n s c) = rn_closed c + (if busy N (rn_journal c) \<and> \<not> busy N s then 1 else 0)"
  by (simp_all add: moved_def)

inductive notifier_step :: "node_env \<Rightarrow> journal_cfg \<Rightarrow> notifier_cfg \<Rightarrow> notifier_run \<Rightarrow> notifier_run \<Rightarrow> bool" for E C N where
  evaluates: "ei_uuid i \<notin> set (rn_wakes c) \<Longrightarrow> evaluation_step E N i (rn_notifier c, rn_journal c) = (n, s) \<Longrightarrow> notifier_step E C N c (moved N n s c)"
| starts: "start_notifier N uuid now (rn_notifier c, rn_journal c) = (r, n, s) \<Longrightarrow> notifier_step E C N c (moved N n s c)"
| start_resumes: "notifier_step E C N c (moved N (start_step N (rn_journal c) (rn_notifier c)) (rn_journal c) c)"
| timer: "notifier_step E C N c (moved N (timer_fires N (rn_journal c) (rn_notifier c)) (rn_journal c) c)"
| obligation_changes: "notifier_step E C N c (moved N (notifyObligationChange N (rn_journal c) (rn_notifier c)) (rn_journal c) c)"
| acks: "ackNotification N now requester w g (rn_notifier c, rn_journal c) = (r, n, s) \<Longrightarrow> notifier_step E C N c (moved N n s c)"
| ack_resumes: "notifier_step E C N c (moved N (ack_step N (rn_journal c) (rn_notifier c)) (rn_journal c) c)"
| stops: "notifier_step E C N c (moved N (stop_notifier (rn_notifier c)) (rn_journal c) c)"
| stop_resumes: "notifier_step E C N c (moved N (stop_step (rn_notifier c)) (rn_journal c) c)"
| others: "s = exec E C call (rn_journal c) \<or> s = close_journal (rn_journal c) \<Longrightarrow>
    \<forall>w \<in> set (rn_wakes c). submitting_as N w s \<longrightarrow> submitting_as N w (rn_journal c) \<Longrightarrow> notifier_step E C N c (moved N (rn_notifier c) s c)"

definition fresh_run :: "notifier \<Rightarrow> journal \<Rightarrow> notifier_run" where
  "fresh_run n s = \<lparr>rn_notifier = n, rn_journal = s, rn_closed = 0, rn_wakes = []\<rparr>"

section \<open>What the journal operations do to the wake\<close>

lemma get_binding_upd:
  assumes "\<And>b. wb_target (f b) = wb_target b"
  shows "get_binding target (s\<lparr>j_bindings := upd_where P f (j_bindings s)\<rparr>) = map_option (\<lambda>b. if P b then f b else b) (get_binding target s)"
  using assms by (simp add: get_binding_def sel_upd_where)

lemma get_binding_target: "get_binding target s = Some b \<Longrightarrow> wb_target b = target"
  by (auto simp: get_binding_def dest: sel_SomeD)

lemma get_binding_new: "get_binding target s = None \<Longrightarrow> get_binding target (s\<lparr>j_bindings := j_bindings s @ [r]\<rparr>) = (if wb_target r = target then Some r else None)"
  by (simp add: get_binding_def sel_append sel_Cons)

definition shrinks :: "notifier_cfg \<Rightarrow> journal \<Rightarrow> journal \<Rightarrow> bool" where
  "shrinks N s s' \<longleftrightarrow> (\<forall>w. submitting_as N w s' \<longrightarrow> submitting_as N w s)"

lemma shrinks_refl [simp]: "shrinks N s s"
  by (simp add: shrinks_def)

lemma get_binding_upd_target:
  assumes "\<And>b. wb_target (f b) = wb_target b"
  shows "get_binding target (s\<lparr>j_bindings := upd_where (\<lambda>b. wb_target b = target \<and> P b) f (j_bindings s)\<rparr>) =
    map_option (\<lambda>b. if P b then f b else b) (get_binding target s)"
  using assms by (cases "get_binding target s") (auto simp: get_binding_upd dest: get_binding_target)

lemma get_binding_upd_all:
  assumes "\<And>b. wb_target (f b) = wb_target b"
  shows "get_binding target (upd_binding target f s) = map_option f (get_binding target s)"
  using get_binding_upd_target [OF assms, of target "\<lambda>_. True" s] by (simp add: upd_binding_def)

lemma uncertain_effect:
  assumes "setWakeUncertain now (nc_target N) w s = (r, s')"
  shows "busy N s \<longrightarrow> busy N s'" "shrinks N s s'" "\<not> isl r \<Longrightarrow> \<not> submitting_as N w s'"
proof -
  have "isl r = j_closed s" "get_binding (nc_target N) s' = (if j_closed s then get_binding (nc_target N) s
      else map_option (\<lambda>b. if wb_active_wake b = Some w then b\<lparr>wb_state := Uncertain, wb_updated_at := now\<rparr> else b) (get_binding (nc_target N) s))"
    using assms by (auto simp: setWakeUncertain_def assertNotClosed_def Let_def get_binding_upd_target split: if_splits)
  then show "busy N s \<longrightarrow> busy N s'" "shrinks N s s'" "\<not> isl r \<Longrightarrow> \<not> submitting_as N w s'"
    by (cases "get_binding (nc_target N) s"; auto simp: busy_def submitting_as_def shrinks_def)+
qed

lemma accepted_effect:
  assumes "setWakeAccepted now (nc_target N) w q t s = (r, s')"
  shows "busy N s \<longrightarrow> busy N s'" "shrinks N s s'" "\<not> isl r \<Longrightarrow> \<not> submitting_as N w s'"
proof -
  have "isl r = j_closed s" "get_binding (nc_target N) s' = (if j_closed s then get_binding (nc_target N) s
      else map_option (\<lambda>b. if wb_active_wake b = Some w then b\<lparr>wb_state := AcceptedAwaitingAck, wb_receipt_queued := Some q,
        wb_receipt_thread := Some t, wb_updated_at := now\<rparr> else b) (get_binding (nc_target N) s))"
    using assms by (auto simp: setWakeAccepted_def assertNotClosed_def Let_def get_binding_upd_target split: if_splits)
  then show "busy N s \<longrightarrow> busy N s'" "shrinks N s s'" "\<not> isl r \<Longrightarrow> \<not> submitting_as N w s'"
    by (cases "get_binding (nc_target N) s"; auto simp: busy_def submitting_as_def shrinks_def)+
qed

lemma submitting_effect:
  assumes "setWakeSubmitting (nc_target N) w fp now s = (r, s')"
  shows "isl r \<Longrightarrow> s' = s" "\<not> isl r \<Longrightarrow> \<not> busy N s \<and> busy N s'" "\<not> isl r \<Longrightarrow> submitting_as N v s' \<longleftrightarrow> v = w"
  using assms
  by (auto simp: setWakeSubmitting_def assertNotClosed_def Let_def busy_def submitting_as_def get_binding_upd_all split: if_splits option.splits)

lemma init_effect:
  assumes "initWakeBinding uuid now (nc_target N) bid auth thread gen s = (r, s')"
  shows "shrinks N s s'"
  using assms
  by (auto simp: initWakeBinding_def assertNotClosed_def Let_def submitting_as_def shrinks_def get_binding_upd_all get_binding_new new_wake_row_def
      rebind_state_def split: if_splits option.splits)

lemma ack_effect:
  assumes "ackWake now (nc_target N) w g s = (r, s')"
  shows "shrinks N s s'"
  using assms
  by (auto simp: ackWake_def assertNotClosed_def submitting_as_def shrinks_def get_binding_upd_all ack_binding_def split: if_splits option.splits)

section \<open>The invariant\<close>

text \<open>A wake is pending between its record in the journal and the call of the adapter, and open until its end is recorded.\<close>

definition pending_wake :: "notifier \<Rightarrow> string option" where
  "pending_wake n = (case nt_eval n of Some (Ev_submitting _ _ w (Inr _)) \<Rightarrow> Some w | Some (Ev_importing _ _ w) \<Rightarrow> Some w | _ \<Rightarrow> None)"

definition open_wake :: "notifier \<Rightarrow> string option" where
  "open_wake n = (case nt_eval n of Some (Ev_submitting _ _ w (Inr _)) \<Rightarrow> Some w | Some (Ev_importing _ _ w) \<Rightarrow> Some w | Some (Ev_invoking w) \<Rightarrow> Some w
     | Some (Ev_reporting w (Inl _)) \<Rightarrow> Some w | Some (Ev_closing w (Inl _)) \<Rightarrow> Some w | _ \<Rightarrow> None)"

definition failed :: "notifier \<Rightarrow> bool" where
  "failed n \<longleftrightarrow> False \<in> set (nt_outcomes n) \<or> nt_eval n = Some (Ev_finished False)"

abbreviation called_ids :: "notifier \<Rightarrow> string list" where
  "called_ids n \<equiv> map (ws_wakeId \<circ> snd) (nt_calls n)"

definition wakes_ok :: "notifier_cfg \<Rightarrow> notifier_run \<Rightarrow> bool" where
  "wakes_ok N c \<longleftrightarrow> (let n = rn_notifier c; s = rn_journal c in
     length (nt_calls n) + (if pending_wake n = None then 0 else 1) \<le> rn_closed c + (if busy N s then 1 else 0) \<and>
     distinct (called_ids n) \<and> set (called_ids n) \<subseteq> set (rn_wakes c) \<and>
     (\<forall>w. pending_wake n = Some w \<longrightarrow> w \<in> set (rn_wakes c) \<and> w \<notin> set (called_ids n)) \<and>
     (\<forall>w \<in> set (rn_wakes c). submitting_as N w s \<longrightarrow> open_wake n = Some w \<or> failed n))"

definition stop_ok :: "notifier \<Rightarrow> bool" where
  "stop_ok n \<longleftrightarrow> (\<forall>k \<in> set (nt_stops n). length (nt_outcomes n) \<le> k \<or> nt_eval n = None) \<and>
     (nt_stops n \<noteq> [] \<or> nt_stop_returned n \<longrightarrow> nt_stopped n) \<and> (nt_stop_returned n \<longrightarrow> nt_eval n = None)"

subsection \<open>Steps outside of an evaluation\<close>

definition quiet :: "notifier \<Rightarrow> notifier \<Rightarrow> bool" where
  "quiet n n' \<longleftrightarrow> nt_calls n' = nt_calls n \<and> nt_outcomes n' = nt_outcomes n \<and>
     (nt_eval n' = nt_eval n \<or> nt_eval n = None \<and> \<not> nt_stopped n \<and> (\<exists>r. nt_eval n' \<in> {Some (Ev_binding r), Some (Ev_finished True)}))"

lemma quiet_evaluate: "quiet n (evaluateObligations N s n)"
  by (auto simp: quiet_def evaluateObligations_def)

lemma quiet_steps:
  "start_notifier N uuid now (n, s) = (r, n', s') \<Longrightarrow> quiet n n'" "quiet n (start_step N s n)" "quiet n (timer_fires N s n)"
  "quiet n (notifyObligationChange N s n)" "ackNotification N now requester w g (n, s) = (q, n'', s'') \<Longrightarrow> quiet n n''"
  "quiet n (ack_step N s n)" "quiet n (stop_notifier n)" "quiet n (stop_step n)"
  by (auto simp: quiet_def start_notifier_def start_step_def timer_fires_def notifyObligationChange_def ackNotification_def ack_step_def
      stop_notifier_def stop_step_def evaluateObligations_def Let_def split: if_splits prod.splits option.splits start_stage.splits list.splits)

lemma quiet_wakes:
  assumes "wakes_ok N c" "quiet (rn_notifier c) n" "\<forall>w \<in> set (rn_wakes c). submitting_as N w s \<longrightarrow> submitting_as N w (rn_journal c)"
  shows "wakes_ok N (moved N n s c)"
proof -
  consider (same) "nt_eval n = nt_eval (rn_notifier c)" | (new) r where "nt_eval (rn_notifier c) = None" "nt_eval n \<in> {Some (Ev_binding r), Some (Ev_finished True)}"
    using assms(2) by (auto simp: quiet_def)
  then have eval: "pending_wake n = pending_wake (rn_notifier c) \<and> open_wake n = open_wake (rn_notifier c) \<and> failed n = failed (rn_notifier c) \<and>
      rn_wakes (moved N n s c) = rn_wakes c"
  proof cases
    case same
    then show ?thesis using assms(2) by (simp add: quiet_def pending_wake_def open_wake_def failed_def moved_def split: option.split eval_stage.split)
  next
    case new
    then show ?thesis using assms(2) by (auto simp: quiet_def pending_wake_def open_wake_def failed_def moved_def)
  qed
  moreover have "nt_calls n = nt_calls (rn_notifier c)" using assms(2) by (simp add: quiet_def)
  ultimately show ?thesis using assms(1,3)
    by (auto simp: wakes_ok_def Let_def split: if_splits)
qed

subsection \<open>Steps of an evaluation\<close>

text \<open>A step that leaves the journal and the calls alone.\<close>

lemma still_keeps:
  assumes "wakes_ok N c" "nt_calls n = nt_calls (rn_notifier c)" "pending_wake n = None \<or> pending_wake n = pending_wake (rn_notifier c)"
    and "open_wake (rn_notifier c) = None \<or> open_wake n = open_wake (rn_notifier c) \<or> failed n" "failed (rn_notifier c) \<longrightarrow> failed n"
    and "rn_wakes (moved N n (rn_journal c) c) = rn_wakes c"
  shows "wakes_ok N (moved N n (rn_journal c) c)"
  using assms by (fastforce simp: wakes_ok_def Let_def)

lemma pending_open:
  assumes "pending_wake n = Some w"
  shows "open_wake n = Some w" "nt_eval n \<noteq> Some (Ev_finished False)"
proof -
  obtain st where st: "nt_eval n = Some st" using assms by (cases "nt_eval n") (simp_all add: pending_wake_def)
  show "open_wake n = Some w" "nt_eval n \<noteq> Some (Ev_finished False)"
    using assms by (cases st; simp add: st pending_wake_def open_wake_def split: sum.splits)+
qed

text \<open>The adapter is called for the pending wake.\<close>

lemma invoke_keeps:
  assumes ok: "wakes_ok N c" and pending: "pending_wake (rn_notifier c) = Some w"
    and n: "nt_calls n = nt_calls (rn_notifier c)" "nt_outcomes n = nt_outcomes (rn_notifier c)"
  shows "wakes_ok N (moved N (invoke_adapter N b ob w n) (rn_journal c) c)"
proof -
  let ?n = "invoke_adapter N b ob w n"
  have st: "pending_wake ?n = None" "open_wake ?n = Some w" "rn_wakes (moved N ?n (rn_journal c) c) = rn_wakes c"
      "nt_calls ?n = nt_calls (rn_notifier c) @ [(adapter_binding_of N b, snapshot_of N ob w)]" "nt_outcomes ?n = nt_outcomes (rn_notifier c)"
    using n by (simp_all add: invoke_adapter_def at_stage_def pending_wake_def open_wake_def moved_def split: option.split eval_stage.split)
  have "open_wake (rn_notifier c) = Some w" "failed (rn_notifier c) \<longrightarrow> failed ?n"
    using pending_open [OF pending] st(5) by (simp_all add: failed_def)
  with st ok pending show ?thesis by (auto simp: wakes_ok_def Let_def snapshot_of_def)
qed

lemmas stage_defs = at_stage_def pending_wake_def open_wake_def failed_def moved_def

text \<open>The end of an open wake is recorded.\<close>

lemma recorded_keeps:
  assumes ok: "wakes_ok N c" and open_w: "open_wake (rn_notifier c) = Some w"
    and effect: "busy N (rn_journal c) \<longrightarrow> busy N s" "shrinks N (rn_journal c) s" "\<not> isl q \<Longrightarrow> \<not> submitting_as N w s"
    and n: "nt_calls n = nt_calls (rn_notifier c)" "nt_outcomes n = nt_outcomes (rn_notifier c)"
      "nt_eval n = Some (Ev_closing w q) \<or> nt_eval n = Some (Ev_reporting w q)"
  shows "wakes_ok N (moved N n s c)"
proof -
  have ends: "pending_wake n = None" "rn_wakes (moved N n s c) = rn_wakes c" "open_wake n = (if isl q then Some w else None)"
      "failed n \<longleftrightarrow> False \<in> set (nt_outcomes (rn_notifier c))"
    using n by (auto simp: pending_wake_def open_wake_def failed_def moved_def split: option.splits eval_stage.splits sum.splits)
  have "failed (rn_notifier c) \<longleftrightarrow> False \<in> set (nt_outcomes (rn_notifier c))" using open_w by (auto simp: failed_def open_wake_def)
  with ends ok effect n open_w show ?thesis by (auto simp: wakes_ok_def Let_def shrinks_def split: if_splits)
qed

lemma close_keeps:
  assumes "wakes_ok N c" "open_wake (rn_notifier c) = Some w" "close_uncertain N now w (n, rn_journal c) = (n', s)"
    and "nt_calls n = nt_calls (rn_notifier c)" "nt_outcomes n = nt_outcomes (rn_notifier c)"
  shows "wakes_ok N (moved N n' s c)"
proof -
  obtain q where u: "setWakeUncertain now (nc_target N) w (rn_journal c) = (q, s)" and n: "n' = at_stage (Ev_closing w q) n"
    using assms(3) by (auto simp: close_uncertain_def split: prod.splits)
  show ?thesis by (rule recorded_keeps [OF assms(1,2) uncertain_effect [OF u]]) (simp_all add: n at_stage_def assms(4,5))
qed

lemma obligations_keeps:
  assumes ok: "wakes_ok N c" and st: "nt_eval (rn_notifier c) = Some (Ev_obligations b r)" and fresh: "w \<notin> set (rn_wakes c)"
    and stp: "obligations_read N now w b r (rn_notifier c, rn_journal c) = (n, s)"
  shows "wakes_ok N (moved N n s c)"
proof (cases "\<exists>ob. r = Inr ob \<and> \<not> (nt_stopped (rn_notifier c) \<or> nothing_owed ob \<or> wakeSnapshotCovered (ob_fingerprint ob) (wb_acked_fp b) \<or> too_early N now b)")
  case True
  then obtain ob q where sub: "setWakeSubmitting (nc_target N) w (ob_fingerprint ob) now (rn_journal c) = (q, s)"
      and n: "n = at_stage (Ev_submitting b ob w q) (rn_notifier c)"
    using stp by (auto simp: obligations_read_def split: prod.splits)
  show ?thesis
  proof (cases q)
    case (Inl e)
    with submitting_effect(1) [OF sub] show ?thesis using still_keeps [OF ok, of n] by (simp add: n st stage_defs)
  next
    case (Inr x)
    with submitting_effect(2,3) [OF sub] n ok st fresh show ?thesis by (auto simp: wakes_ok_def Let_def stage_defs)
  qed
next
  case False
  then obtain fin where "n = at_stage (Ev_finished fin) (rn_notifier c)" "s = rn_journal c"
    using stp by (cases r) (auto simp: obligations_read_def)
  then show ?thesis using still_keeps [OF ok, of n] by (simp add: st stage_defs)
qed

lemma submitted_keeps:
  assumes ok: "wakes_ok N c" and st: "nt_eval (rn_notifier c) = Some (Ev_submitting b ob w r)"
    and stp: "submitted N now b ob w r (rn_notifier c, rn_journal c) = (n, s)"
  shows "wakes_ok N (moved N n s c)"
proof (cases r)
  case (Inl e)
  then show ?thesis using stp still_keeps [OF ok, of n] by (auto simp: submitted_def st stage_defs)
next
  case (Inr x)
  have ow: "open_wake (rn_notifier c) = Some w" "pending_wake (rn_notifier c) = Some w" by (simp_all add: st Inr open_wake_def pending_wake_def)
  show ?thesis
  proof (cases "nt_stopped (rn_notifier c)")
    case True
    with stp Inr show ?thesis by (intro close_keeps [OF ok ow(1), of now "rn_notifier c"]) (simp_all add: submitted_def)
  next
    case False
    show ?thesis
    proof (cases "nc_hasAdapter N")
      case True
      with False stp Inr show ?thesis using invoke_keeps [OF ok ow(2), of "(rn_notifier c)\<lparr>nt_abort := Some False\<rparr>"] by (auto simp: submitted_def)
    next
      case False
      with \<open>\<not> nt_stopped (rn_notifier c)\<close> stp Inr show ?thesis using still_keeps [OF ok, of n] by (auto simp: submitted_def st stage_defs)
    qed
  qed
qed

lemma imported_keeps:
  assumes ok: "wakes_ok N c" and st: "nt_eval (rn_notifier c) = Some (Ev_importing b ob w)"
    and stp: "imported N now loaded b ob w (rn_notifier c, rn_journal c) = (n, s)"
  shows "wakes_ok N (moved N n s c)"
proof -
  have ow: "open_wake (rn_notifier c) = Some w" "pending_wake (rn_notifier c) = Some w" by (simp_all add: st open_wake_def pending_wake_def)
  consider "\<not> loaded" | "loaded" "nt_stopped (rn_notifier c)" | "loaded" "\<not> nt_stopped (rn_notifier c)" by blast
  then show ?thesis
  proof cases
    case 1
    then show ?thesis using stp still_keeps [OF ok, of n] by (auto simp: imported_def st stage_defs)
  next
    case 2
    with stp show ?thesis by (intro close_keeps [OF ok ow(1), of now "(rn_notifier c)\<lparr>nt_abort := None\<rparr>"]) (simp_all add: imported_def)
  next
    case 3
    with stp show ?thesis using invoke_keeps [OF ok ow(2), of "rn_notifier c"] by (auto simp: imported_def)
  qed
qed

lemma ended_keeps:
  assumes ok: "wakes_ok N c" and st: "nt_eval (rn_notifier c) = Some (Ev_invoking w)"
    and stp: "adapter_ended N now out w (rn_notifier c, rn_journal c) = (n, s)"
  shows "wakes_ok N (moved N n s c)"
proof -
  have ow: "open_wake (rn_notifier c) = Some w" using st by (simp add: open_wake_def)
  show ?thesis
  proof (cases out)
    case (Wake_accepted q t)
    with stp obtain r where u: "setWakeAccepted now (nc_target N) w q t (rn_journal c) = (r, s)" "n = at_stage (Ev_reporting w r) (rn_notifier c)"
      by (auto simp: adapter_ended_def split: prod.splits)
    then show ?thesis by (intro recorded_keeps [OF ok ow accepted_effect [OF u(1)]]) (simp_all add: at_stage_def)
  next
    case Wake_not_accepted
    with stp obtain r where u: "setWakeUncertain now (nc_target N) w (rn_journal c) = (r, s)" "n = at_stage (Ev_reporting w r) (rn_notifier c)"
      by (auto simp: adapter_ended_def split: prod.splits)
    then show ?thesis by (intro recorded_keeps [OF ok ow uncertain_effect [OF u(1)]]) (simp_all add: at_stage_def)
  next
    case Wake_threw
    with stp show ?thesis by (intro close_keeps [OF ok ow, of now "rn_notifier c"]) (simp_all add: adapter_ended_def)
  qed
qed

lemma binding_keeps:
  assumes ok: "wakes_ok N c" and st: "nt_eval (rn_notifier c) = Some (Ev_binding r)" and stp: "binding_read E N r (rn_notifier c, rn_journal c) = (n, s)"
  shows "wakes_ok N (moved N n s c)"
proof -
  obtain x where "n = at_stage x (rn_notifier c)" "s = rn_journal c" "(\<exists>fin. x = Ev_finished fin) \<or> (\<exists>b q. x = Ev_obligations b q)"
    using stp by (cases r; cases "projr r") (auto simp: binding_read_def split: if_splits)
  then show ?thesis using still_keeps [OF ok, of n] by (auto simp: st stage_defs)
qed

lemma evaluation_keeps:
  assumes ok: "wakes_ok N c" and fresh: "ei_uuid i \<notin> set (rn_wakes c)" and stp: "evaluation_step E N i (rn_notifier c, rn_journal c) = (n, s)"
  shows "wakes_ok N (moved N n s c)"
proof (cases "nt_eval (rn_notifier c)")
  case None
  with stp show ?thesis using still_keeps [OF ok, of n] by (simp add: evaluation_step_def stage_defs)
next
  case (Some st)
  note stp = stp [unfolded evaluation_step_def fst_conv snd_conv Some option.case]
  show ?thesis
  proof (cases st)
    case (Ev_binding r)
    with stp Some show ?thesis by (intro binding_keeps [OF ok]) simp_all
  next
    case (Ev_obligations b r)
    with stp Some show ?thesis by (intro obligations_keeps [OF ok _ fresh]) simp_all
  next
    case (Ev_submitting b ob w r)
    with stp Some show ?thesis by (intro submitted_keeps [OF ok]) simp_all
  next
    case (Ev_importing b ob w)
    with stp Some show ?thesis by (intro imported_keeps [OF ok]) simp_all
  next
    case (Ev_invoking w)
    with stp Some show ?thesis by (intro ended_keeps [OF ok]) simp_all
  next
    case (Ev_reporting w r)
    show ?thesis
    proof (cases r)
      case (Inl e)
      with stp Some Ev_reporting show ?thesis
        by (intro close_keeps [OF ok, of w "ei_now i" "rn_notifier c"]) (simp_all add: open_wake_def)
    next
      case (Inr x)
      with stp Ev_reporting show ?thesis using still_keeps [OF ok, of n] by (auto simp: Some stage_defs)
    qed
  next
    case (Ev_closing w r)
    with stp show ?thesis using still_keeps [OF ok, of n] by (cases r) (auto simp: Some stage_defs)
  next
    case (Ev_finished b)
    with stp show ?thesis using still_keeps [OF ok, of n] by (cases b) (auto simp: Some stage_defs)
  qed
qed

lemma step_wakes:
  assumes "notifier_step E C N c d" "wakes_ok N c"
  shows "wakes_ok N d"
  using assms(1)
proof (cases rule: notifier_step.cases)
  case (evaluates i n s)
  then show ?thesis using evaluation_keeps [OF assms(2)] by blast
next
  case (starts uuid now r n s)
  then have "shrinks N (rn_journal c) s" using init_effect by (auto simp: start_notifier_def split: if_splits prod.splits)
  with starts quiet_steps(1) show ?thesis by (auto simp: shrinks_def intro!: quiet_wakes [OF assms(2)])
next
  case (acks now requester w g r n s)
  then have "shrinks N (rn_journal c) s" using ack_effect by (auto simp: ackNotification_def split: if_splits prod.splits)
  with acks quiet_steps(5) show ?thesis by (auto simp: shrinks_def intro!: quiet_wakes [OF assms(2)])
next
  case (others s call)
  have "quiet (rn_notifier c) (rn_notifier c)" by (simp add: quiet_def)
  with others show ?thesis by (auto intro!: quiet_wakes [OF assms(2)])
qed (auto intro!: quiet_wakes [OF assms(2)] quiet_steps)

lemma wakes_ok_run: "(notifier_step E C N)\<^sup>*\<^sup>* c d \<Longrightarrow> wakes_ok N c \<Longrightarrow> wakes_ok N d"
  by (induction rule: rtranclp_induct) (auto intro: step_wakes)

subsection \<open>Stopping\<close>

lemma evaluation_stop:
  assumes "stop_ok n" "evaluation_step E N i (n, s) = (n', s')"
  shows "stop_ok n' \<and> nt_stopped n' = nt_stopped n \<and> (nt_eval n = None \<longrightarrow> n' = n)"
proof (cases "nt_eval n")
  case None
  with assms show ?thesis by (simp add: evaluation_step_def)
next
  case (Some st)
  have fields: "nt_stops n' = nt_stops n \<and> nt_stop_returned n' = nt_stop_returned n \<and> nt_stopped n' = nt_stopped n \<and>
      (nt_outcomes n' = nt_outcomes n \<or> nt_eval n' = None)"
    using assms(2) Some
    by (cases st) (auto simp: evaluation_step_def binding_read_def obligations_read_def submitted_def imported_def adapter_ended_def close_uncertain_def
        invoke_adapter_def at_stage_def Let_def split: sum.splits option.splits if_splits prod.splits adapter_outcome.splits)
  with assms(1) Some show ?thesis by (auto simp: stop_ok_def)
qed

lemma evaluate_stopped: "nt_stopped n \<Longrightarrow> evaluateObligations N s n = n"
  by (simp add: evaluateObligations_def)

definition keeps_stop :: "notifier \<Rightarrow> notifier \<Rightarrow> bool" where
  "keeps_stop n n' \<longleftrightarrow> quiet n n' \<and> nt_stops n' = nt_stops n \<and> nt_stop_returned n' = nt_stop_returned n \<and> nt_stopped n' = nt_stopped n"

lemma keeps_stop_ok: "stop_ok n \<Longrightarrow> keeps_stop n n' \<Longrightarrow> stop_ok n'"
  by (auto simp: stop_ok_def keeps_stop_def quiet_def)

lemma keeps_refl [simp]: "keeps_stop n n"
  by (simp add: keeps_stop_def quiet_def)

lemma keeps_evaluate: "keeps_stop n (evaluateObligations N s n)"
  by (simp add: keeps_stop_def quiet_evaluate) (simp add: evaluateObligations_def)

lemma keeps_update:
  "keeps_stop n m \<Longrightarrow> keeps_stop n (m\<lparr>nt_start := x\<rparr>)" "keeps_stop n m \<Longrightarrow> keeps_stop n (m\<lparr>nt_timer := t\<rparr>)"
  "keeps_stop n (m\<lparr>nt_acks := y\<rparr>) = keeps_stop n m" "keeps_stop (n\<lparr>nt_acks := z\<rparr>) m = keeps_stop n m" "keeps_stop n m \<Longrightarrow> keeps_stop n (m\<lparr>nt_started := u\<rparr>)"
  by (simp_all add: keeps_stop_def quiet_def)

lemma keeps_steps:
  "start_notifier N uuid now (n, s) = (r, n', s') \<Longrightarrow> keeps_stop n n'" "keeps_stop n (start_step N s n)" "keeps_stop n (timer_fires N s n)"
  "keeps_stop n (notifyObligationChange N s n)" "ackNotification N now requester w g (n, s) = (q, n'', s'') \<Longrightarrow> keeps_stop n n''" "keeps_stop n (ack_step N s n)"
proof -
  show "start_notifier N uuid now (n, s) = (r, n', s') \<Longrightarrow> keeps_stop n n'"
    by (auto simp: start_notifier_def keeps_stop_def quiet_def split: if_splits prod.splits)
  show "keeps_stop n (start_step N s n)"
  proof (cases "nt_start n")
    case (Some st)
    then show ?thesis by (cases st) (simp_all add: start_step_def keeps_evaluate keeps_update)
  qed (simp add: start_step_def)
  show "keeps_stop n (timer_fires N s n)" "keeps_stop n (notifyObligationChange N s n)"
    by (simp_all add: timer_fires_def notifyObligationChange_def keeps_evaluate)
  show "ackNotification N now requester w g (n, s) = (q, n'', s'') \<Longrightarrow> keeps_stop n n''"
    by (auto simp: ackNotification_def keeps_stop_def quiet_def split: if_splits prod.splits)
  show "keeps_stop n (ack_step N s n)"
    using keeps_evaluate [of "n\<lparr>nt_acks := tl (nt_acks n)\<rparr>" N s] by (cases "nt_acks n") (auto simp: ack_step_def Let_def keeps_update)
qed

lemma step_kinds:
  assumes "notifier_step E C N c d"
  shows "(\<exists>i s. evaluation_step E N i (rn_notifier c, rn_journal c) = (rn_notifier d, s)) \<or> rn_notifier d = stop_notifier (rn_notifier c) \<or>
    rn_notifier d = stop_step (rn_notifier c) \<or> keeps_stop (rn_notifier c) (rn_notifier d)"
  using assms by (cases rule: notifier_step.cases) (auto intro: keeps_steps)

lemma stop_steps: "stop_ok n \<Longrightarrow> stop_ok (stop_notifier n)" "stop_ok n \<Longrightarrow> stop_ok (stop_step n)"
  by (auto simp: stop_ok_def stop_notifier_def stop_step_def Let_def split: list.splits if_splits)

lemma step_stop:
  assumes "notifier_step E C N c d" "stop_ok (rn_notifier c)"
  shows "stop_ok (rn_notifier d) \<and> (nt_stopped (rn_notifier c) \<longrightarrow> nt_stopped (rn_notifier d))"
  using step_kinds [OF assms(1)]
proof (elim disjE exE)
  fix i s assume "evaluation_step E N i (rn_notifier c, rn_journal c) = (rn_notifier d, s)"
  from evaluation_stop [OF assms(2) this] show ?thesis by simp
qed (use stop_steps [OF assms(2)] keeps_stop_ok [OF assms(2)] in
    \<open>simp_all add: keeps_stop_def stop_notifier_def stop_step_def Let_def split: list.split\<close>)

lemma stopped_run:
  assumes "(notifier_step E C N)\<^sup>*\<^sup>* c d" "stop_ok (rn_notifier c)"
  shows "stop_ok (rn_notifier d)"
  using assms by (induction rule: rtranclp_induct) (auto dest: step_stop)

lemma silent_step:
  assumes "notifier_step E C N c d" "stop_ok (rn_notifier c)" "nt_stopped (rn_notifier c)" "nt_eval (rn_notifier c) = None"
  shows "nt_calls (rn_notifier d) = nt_calls (rn_notifier c) \<and> nt_eval (rn_notifier d) = None"
  using step_kinds [OF assms(1)]
proof (elim disjE exE)
  fix i s assume "evaluation_step E N i (rn_notifier c, rn_journal c) = (rn_notifier d, s)"
  from evaluation_stop [OF assms(2) this] assms(4) show ?thesis by simp
qed (use assms(3,4) in \<open>auto simp: keeps_stop_def quiet_def stop_notifier_def stop_step_def Let_def split: list.split\<close>)

lemma silent_run:
  assumes "(notifier_step E C N)\<^sup>*\<^sup>* c d" "stop_ok (rn_notifier c)" "nt_stopped (rn_notifier c)" "nt_eval (rn_notifier c) = None"
  shows "nt_calls (rn_notifier d) = nt_calls (rn_notifier c) \<and> nt_eval (rn_notifier d) = None \<and> nt_stopped (rn_notifier d) \<and> stop_ok (rn_notifier d)"
  using assms
proof (induction rule: rtranclp_induct)
  case (step x y)
  then show ?case using silent_step [OF step.hyps(2)] step_stop [OF step.hyps(2)] by simp
qed simp

section \<open>One evaluation\<close>

text \<open>A wake is due: the target is idle, something is owed that was not acknowledged already, and the last wake is long enough ago.\<close>

definition wake_due :: "node_env \<Rightarrow> notifier_cfg \<Rightarrow> int \<Rightarrow> journal \<Rightarrow> (wake_row \<times> obligations) option" where
  "wake_due E N now s = (let ob = getWakeObligationsSync E (nc_target N) (nc_inboxEnabled N) s in case get_binding (nc_target N) s of None \<Rightarrow> None
    | Some b \<Rightarrow> if wb_state b = Idle \<and> \<not> nothing_owed ob \<and> \<not> wakeSnapshotCovered (ob_fingerprint ob) (wb_acked_fp b) \<and> \<not> too_early N now b
        then Some (b, ob) else None)"

text \<open>The binding after the wake, by what the adapter said.\<close>

definition woken :: "eval_input \<Rightarrow> obligations \<Rightarrow> wake_row \<Rightarrow> wake_row" where
  "woken i ob b = (let b1 = b\<lparr>wb_active_wake := Some (ei_uuid i), wb_active_fp := Some (ob_fingerprint ob), wb_last_submitted := Some (ei_now i), wb_updated_at := ei_now i\<rparr> in
     case ei_outcome i of Wake_accepted q t \<Rightarrow> b1\<lparr>wb_state := AcceptedAwaitingAck, wb_receipt_queued := Some q, wb_receipt_thread := Some t\<rparr>
     | _ \<Rightarrow> b1\<lparr>wb_state := Uncertain\<rparr>)"

fun run_evaluation :: "node_env \<Rightarrow> notifier_cfg \<Rightarrow> eval_input \<Rightarrow> nat \<Rightarrow> notifier \<times> journal \<Rightarrow> notifier \<times> journal" where
  "run_evaluation E N i 0 ns = ns"
| "run_evaluation E N i (Suc k) ns = (if nt_eval (fst ns) = None then ns else run_evaluation E N i k (evaluation_step E N i ns))"

lemma run_Some: "nt_eval (fst ns) = Some st \<Longrightarrow> run_evaluation E N i (Suc k) ns = run_evaluation E N i k (evaluation_step E N i ns)"
  by simp

lemma run_finished:
  "nt_eval n = Some (Ev_finished ok) \<Longrightarrow> run_evaluation E N i (Suc k) (n, s) = (n\<lparr>nt_eval := None, nt_outcomes := nt_outcomes n @ [ok]\<rparr>, s)"
  by (cases k) (simp_all add: evaluation_step_def)

lemma run_binding:
  assumes "\<not> j_closed s" "\<not> nt_stopped n" "nt_eval n = Some (Ev_binding (Inr (Some b)))"
  shows "run_evaluation E N i (Suc k) (n, s) = run_evaluation E N i k (n\<lparr>nt_eval := Some (if wb_state b \<noteq> Idle then Ev_finished True
    else Ev_obligations b (Inr (getWakeObligationsSync E (nc_target N) (nc_inboxEnabled N) s)))\<rparr>, s)"
  using assms by (simp add: evaluation_step_def binding_read_def at_stage_def getWakeObligations_def assertNotClosed_def)

lemma run_quiet:
  assumes "nt_eval n = Some (Ev_obligations b (Inr ob))" "nothing_owed ob \<or> wakeSnapshotCovered (ob_fingerprint ob) (wb_acked_fp b) \<or> too_early N (ei_now i) b"
  shows "run_evaluation E N i (Suc k) (n, s) = run_evaluation E N i k (n\<lparr>nt_eval := Some (Ev_finished True)\<rparr>, s)"
  using assms by (auto simp: evaluation_step_def obligations_read_def at_stage_def)

lemma run_submit:
  assumes "\<not> nt_stopped n" "nt_eval n = Some (Ev_obligations b (Inr ob))" "nc_hasAdapter N"
    and "\<not> (nothing_owed ob \<or> wakeSnapshotCovered (ob_fingerprint ob) (wb_acked_fp b) \<or> too_early N (ei_now i) b)"
    and "setWakeSubmitting (nc_target N) (ei_uuid i) (ob_fingerprint ob) (ei_now i) s = (Inr x, s1)"
  shows "run_evaluation E N i (Suc (Suc k)) (n, s) = run_evaluation E N i k (n\<lparr>nt_abort := Some False,
    nt_calls := nt_calls n @ [(adapter_binding_of N b, snapshot_of N ob (ei_uuid i))], nt_eval := Some (Ev_invoking (ei_uuid i))\<rparr>, s1)"
  using assms by (simp add: evaluation_step_def obligations_read_def submitted_def invoke_adapter_def at_stage_def)

lemma run_outcome:
  assumes "\<not> j_closed s" "nt_eval n = Some (Ev_invoking w)" "get_binding (nc_target N) s = Some b" "wb_active_wake b = Some w"
  shows "\<exists>s'. run_evaluation E N i (Suc (Suc k)) (n, s) = run_evaluation E N i k (n\<lparr>nt_abort := None, nt_eval := Some (Ev_finished True)\<rparr>, s') \<and>
    get_binding (nc_target N) s' = Some (case ei_outcome i of
        Wake_accepted q t \<Rightarrow> b\<lparr>wb_state := AcceptedAwaitingAck, wb_receipt_queued := Some q, wb_receipt_thread := Some t, wb_updated_at := ei_now i\<rparr>
      | _ \<Rightarrow> b\<lparr>wb_state := Uncertain, wb_updated_at := ei_now i\<rparr>)"
  using assms by (cases "ei_outcome i") (auto simp: evaluation_step_def adapter_ended_def close_uncertain_def at_stage_def Let_def setWakeAccepted_def
      setWakeUncertain_def assertNotClosed_def get_binding_upd_target)

lemma undisturbed:
  assumes open_j: "\<not> j_closed s" and idle: "\<not> nt_stopped n" "nt_eval n = None" and cfg: "nc_enabled N" "nc_hasAdapter N"
  shows "case run_evaluation E N i 6 (evaluateObligations N s n, s) of (n', s') \<Rightarrow>
    nt_eval n' = None \<and> nt_outcomes n' = nt_outcomes n @ [True] \<and>
    (case wake_due E N (ei_now i) s of None \<Rightarrow> nt_calls n' = nt_calls n \<and> s' = s
     | Some (b, ob) \<Rightarrow> nt_calls n' = nt_calls n @ [(adapter_binding_of N b, snapshot_of N ob (ei_uuid i))] \<and>
         get_binding (nc_target N) s' = Some (woken i ob b))"
proof -
  let ?ob = "getWakeObligationsSync E (nc_target N) (nc_inboxEnabled N) s"
  have six: "(6::nat) = Suc (Suc (Suc (Suc (Suc (Suc 0)))))" by simp
  have e0: "evaluateObligations N s n = n\<lparr>nt_eval := Some (Ev_binding (Inr (get_binding (nc_target N) s)))\<rparr>"
    using open_j idle cfg by (simp add: evaluateObligations_def getWakeBinding_def assertNotClosed_def)
  show ?thesis
  proof (cases "get_binding (nc_target N) s")
    case None
    then show ?thesis by (simp add: six e0 evaluation_step_def binding_read_def at_stage_def wake_due_def Let_def)
  next
    case (Some b)
    let ?n1 = "n\<lparr>nt_eval := Some (if wb_state b \<noteq> Idle then Ev_finished True else Ev_obligations b (Inr ?ob))\<rparr>"
    have r1: "run_evaluation E N i 6 (evaluateObligations N s n, s) = run_evaluation E N i (Suc (Suc (Suc (Suc (Suc 0))))) (?n1, s)"
      unfolding six e0 Some using run_binding [OF open_j, of "n\<lparr>nt_eval := Some (Ev_binding (Inr (Some b)))\<rparr>" b] idle by simp
    show ?thesis
    proof (cases "wake_due E N (ei_now i) s")
      case None
      then consider "wb_state b \<noteq> Idle" | "wb_state b = Idle" "nothing_owed ?ob \<or> wakeSnapshotCovered (ob_fingerprint ?ob) (wb_acked_fp b) \<or> too_early N (ei_now i) b"
        using Some by (auto simp: wake_due_def Let_def split: if_splits)
      then show ?thesis
      proof cases
        case 1
        then show ?thesis unfolding r1 None by (subst run_finished) simp_all
      next
        case 2
        then show ?thesis unfolding r1 None by (subst run_quiet, simp, simp, subst run_finished) simp_all
      qed
    next
      case due: (Some x)
      then have x: "x = (b, ?ob)" "wb_state b = Idle" "\<not> (nothing_owed ?ob \<or> wakeSnapshotCovered (ob_fingerprint ?ob) (wb_acked_fp b) \<or> too_early N (ei_now i) b)"
        using Some by (auto simp: wake_due_def Let_def split: if_splits)
      let ?b = "b\<lparr>wb_state := Submitting, wb_active_wake := Some (ei_uuid i), wb_active_fp := Some (ob_fingerprint ?ob),
          wb_last_submitted := Some (ei_now i), wb_updated_at := ei_now i\<rparr>"
      obtain s1 where sub: "setWakeSubmitting (nc_target N) (ei_uuid i) (ob_fingerprint ?ob) (ei_now i) s = (Inr (Some ?b), s1)"
          and s1: "\<not> j_closed s1" "get_binding (nc_target N) s1 = Some ?b"
        using Some x(2) open_j by (simp add: setWakeSubmitting_def assertNotClosed_def Let_def get_binding_upd_all) (simp add: upd_binding_def)
      let ?n2 = "n\<lparr>nt_abort := Some False, nt_calls := nt_calls n @ [(adapter_binding_of N b, snapshot_of N ?ob (ei_uuid i))], nt_eval := Some (Ev_invoking (ei_uuid i))\<rparr>"
      have r2: "run_evaluation E N i (Suc (Suc (Suc (Suc (Suc 0))))) (?n1, s) = run_evaluation E N i (Suc (Suc (Suc 0))) (?n2, s1)"
        by (subst run_submit [OF _ _ cfg(2) x(3) sub]) (use idle x(2) in simp_all)
      obtain s2 where s2: "run_evaluation E N i (Suc (Suc (Suc 0))) (?n2, s1) = run_evaluation E N i (Suc 0) (?n2\<lparr>nt_abort := None, nt_eval := Some (Ev_finished True)\<rparr>, s2)"
          and b2: "get_binding (nc_target N) s2 = Some (woken i ?ob b)"
        using run_outcome [OF s1(1) _ s1(2), of ?n2 "ei_uuid i" E i "Suc 0"] by (auto simp: woken_def Let_def simp del: run_evaluation.simps split: adapter_outcome.splits)
      show ?thesis unfolding r1 r2 s2 due x(1) using b2 by (subst run_finished) simp_all
    qed
  qed
qed

section \<open>Properties\<close>

text \<open>
  C29: one wake at a time.  Whatever others do to the journal, each call of the adapter
  is for a wake that was recorded before, under an identifier never used before, and
  there is at most one call more than wakes of the target that were closed: the next
  one waits until the last was acknowledged or reconciled.
\<close>

theorem one_wake_at_a_time:
  assumes "createLocalMessagingNotifier N = Inr n" "(notifier_step E C N)\<^sup>*\<^sup>* (fresh_run n s) c"
  shows "length (nt_calls (rn_notifier c)) \<le> rn_closed c + 1 \<and> distinct (called_ids (rn_notifier c)) \<and> set (called_ids (rn_notifier c)) \<subseteq> set (rn_wakes c)"
proof -
  have "wakes_ok N (fresh_run n s)"
    using assms(1) by (auto simp: wakes_ok_def fresh_run_def createLocalMessagingNotifier_def pending_wake_def Let_def split: if_splits)
  from wakes_ok_run [OF assms(2) this] show ?thesis by (auto simp: wakes_ok_def Let_def split: if_splits)
qed

text \<open>
  C30: no wake is left in doubt.  Whenever no evaluation is under way and none has
  failed, no wake that the notifier recorded is still submitting: what became of it is
  recorded, also when the adapter threw or the notifier was stopped in between.
\<close>

theorem no_wake_left_in_doubt:
  assumes "createLocalMessagingNotifier N = Inr n" "(notifier_step E C N)\<^sup>*\<^sup>* (fresh_run n s) c"
    and "nt_eval (rn_notifier c) = None" "False \<notin> set (nt_outcomes (rn_notifier c))" "w \<in> set (rn_wakes c)"
  shows "\<not> submitting_as N w (rn_journal c)"
proof -
  have "wakes_ok N (fresh_run n s)"
    using assms(1) by (auto simp: wakes_ok_def fresh_run_def createLocalMessagingNotifier_def pending_wake_def Let_def split: if_splits)
  from wakes_ok_run [OF assms(2) this] assms(3-5) show ?thesis by (auto simp: wakes_ok_def Let_def open_wake_def failed_def)
qed

text \<open>
  A stop is final.  When a call of \<open>stop\<close> has returned, no evaluation is under way,
  and whatever happens afterwards, none begins and the adapter is not called again.
\<close>

theorem stop_is_final:
  assumes "createLocalMessagingNotifier N = Inr n" "(notifier_step E C N)\<^sup>*\<^sup>* (fresh_run n s) c" "nt_stop_returned (rn_notifier c)"
    and "(notifier_step E C N)\<^sup>*\<^sup>* c d"
  shows "nt_eval (rn_notifier d) = None \<and> nt_calls (rn_notifier d) = nt_calls (rn_notifier c)"
proof -
  have "stop_ok (rn_notifier (fresh_run n s))"
    using assms(1) by (auto simp: stop_ok_def fresh_run_def createLocalMessagingNotifier_def split: if_splits)
  then have ok: "stop_ok (rn_notifier c)" by (rule stopped_run [OF assms(2)])
  with silent_run [OF assms(4) ok] assms(3) show ?thesis by (simp add: stop_ok_def)
qed


section \<open>A run\<close>

definition desk :: notifier_cfg where
  "desk = \<lparr>nc_target = ''desk'', nc_threadId = ''thread'', nc_bindingId = None, nc_generation = 1, nc_enabled = True, nc_inboxEnabled = False,
     nc_hasAdapter = True, nc_minIntervalMs = 15000\<rparr>"

definition idle_notifier :: notifier where
  "idle_notifier = (case createLocalMessagingNotifier desk of Inr n \<Rightarrow> n)"

definition hash_env :: node_env where
  "hash_env = \<lparr>sha256 = (\<lambda>t. t), url_parse = (\<lambda>_. None)\<rparr>"

definition owed_reply :: reply_row where
  "owed_reply = \<lparr>y_message_id = ''r1'', y_sender = ''runner'', y_recipient = ''desk'', y_request_id = ''q1'', y_in_reply_to = ''m1'', y_text = ''done'',
     y_metadata = None, y_canonical_hash = ''h'', y_consumed = False, y_created_at = 1, y_updated_at = 1, y_sender_provenance = None, y_reconcile_id = None\<rparr>"

definition owing_journal :: journal where
  "owing_journal = empty_journal\<lparr>j_replies := [owed_reply], j_bindings := [new_wake_row ''desk'' ''b'' None ''thread'' 1 0]\<rparr>"

definition wake_input :: "string \<Rightarrow> eval_input" where
  "wake_input w = \<lparr>ei_now = 20000, ei_uuid = w, ei_loaded = True, ei_outcome = Wake_accepted ''q'' ''thread''\<rparr>"

definition eval_move :: "notifier_cfg \<Rightarrow> eval_input \<Rightarrow> notifier_run \<Rightarrow> notifier_run" where
  "eval_move N i c = (let (n, s) = evaluation_step hash_env N i (rn_notifier c, rn_journal c) in moved N n s c)"

definition evaluating_run :: notifier_run where
  "evaluating_run = (let c = fresh_run idle_notifier owing_journal in moved desk (notifyObligationChange desk (rn_journal c) (rn_notifier c)) (rn_journal c) c)"

definition calling_run :: notifier_run where
  "calling_run = eval_move desk (wake_input ''w2'') (eval_move desk (wake_input ''w1'') (eval_move desk (wake_input ''w1'') evaluating_run))"

definition settled_run :: notifier_run where
  "settled_run = eval_move desk (wake_input ''w2'') (eval_move desk (wake_input ''w2'') (eval_move desk (wake_input ''w2'') calling_run))"

lemma eval_move_step: "ei_uuid i \<notin> set (rn_wakes c) \<Longrightarrow> notifier_step hash_env C N c (eval_move N i c)"
  by (auto simp: eval_move_def intro: notifier_step.evaluates split: prod.split)

lemma eval_move_reached:
  "(notifier_step hash_env C N)\<^sup>*\<^sup>* c d \<Longrightarrow> w \<notin> set (rn_wakes d) \<Longrightarrow> (notifier_step hash_env C N)\<^sup>*\<^sup>* c (eval_move N (wake_input w) d)"
  using eval_move_step [of "wake_input w" d C N] by (simp add: wake_input_def rtranclp.rtrancl_into_rtrancl)

lemma idle_created: "createLocalMessagingNotifier desk = Inr idle_notifier"
  by (simp add: idle_notifier_def createLocalMessagingNotifier_def desk_def)

lemma evaluating_reached: "(notifier_step hash_env C desk)\<^sup>*\<^sup>* (fresh_run idle_notifier owing_journal) evaluating_run"
  unfolding evaluating_run_def Let_def by (intro r_into_rtranclp notifier_step.obligation_changes)

lemma calling_reached: "(notifier_step hash_env C desk)\<^sup>*\<^sup>* (fresh_run idle_notifier owing_journal) calling_run"
proof -
  have "''w1'' \<notin> set (rn_wakes evaluating_run)" "''w1'' \<notin> set (rn_wakes (eval_move desk (wake_input ''w1'') evaluating_run))"
    "''w2'' \<notin> set (rn_wakes (eval_move desk (wake_input ''w1'') (eval_move desk (wake_input ''w1'') evaluating_run)))" by code_simp+
  then show ?thesis unfolding calling_run_def by (intro eval_move_reached evaluating_reached)
qed

lemma settled_reached: "(notifier_step hash_env C desk)\<^sup>*\<^sup>* (fresh_run idle_notifier owing_journal) settled_run"
proof -
  have "''w2'' \<notin> set (rn_wakes calling_run)" "''w2'' \<notin> set (rn_wakes (eval_move desk (wake_input ''w2'') calling_run))"
    "''w2'' \<notin> set (rn_wakes (eval_move desk (wake_input ''w2'') (eval_move desk (wake_input ''w2'') calling_run)))" by code_simp+
  then show ?thesis unfolding settled_run_def by (intro eval_move_reached calling_reached)
qed

theorem one_wake_at_a_time_witness:
  "called_ids (rn_notifier calling_run) = [''w1''] \<and> rn_closed calling_run = 0 \<and> length (nt_calls (rn_notifier calling_run)) \<le> rn_closed calling_run + 1"
proof -
  have "called_ids (rn_notifier calling_run) = [''w1'']" "rn_closed calling_run = 0" by code_simp+
  with one_wake_at_a_time [OF idle_created calling_reached] show ?thesis by simp
qed

theorem no_wake_left_in_doubt_witness:
  "rn_wakes settled_run = [''w1''] \<and> \<not> submitting_as desk ''w1'' (rn_journal settled_run)"
proof -
  have "rn_wakes settled_run = [''w1'']" "nt_eval (rn_notifier settled_run) = None" "nt_outcomes (rn_notifier settled_run) = [True]" by code_simp+
  with no_wake_left_in_doubt [OF idle_created settled_reached, of "''w1''"] show ?thesis by simp
qed

theorem stop_is_final_witness:
  "nt_calls (rn_notifier (moved desk (stop_notifier (rn_notifier settled_run)) (rn_journal settled_run) settled_run)) \<noteq> [] \<and>
   nt_eval (rn_notifier (moved desk (stop_notifier (rn_notifier settled_run)) (rn_journal settled_run) settled_run)) = None"
proof -
  let ?c = "moved desk (stop_notifier (rn_notifier settled_run)) (rn_journal settled_run) settled_run"
  have "(notifier_step hash_env undefined desk)\<^sup>*\<^sup>* (fresh_run idle_notifier owing_journal) ?c"
    by (rule rtranclp.rtrancl_into_rtrancl [OF settled_reached notifier_step.stops])
  moreover have "nt_stop_returned (rn_notifier ?c)" "nt_calls (rn_notifier ?c) \<noteq> []" by code_simp+
  ultimately show ?thesis using stop_is_final [OF idle_created _ _ rtranclp.rtrancl_refl] by blast
qed


end
