(* ===== verification/Spec2Isabelle.thy ===== *)
theory Spec2Isabelle
  imports Concurrency_Gate Journal_Execution Journal_Reconciliation Journal_Delivery Journal_Window Journal_Sessions Rate_Limiter
    Journal_Dispatch Protocol Router_Guarantees Wake_Client Server_Guarantees Registry_Guarantees Notifier_Guarantees
begin

text \<open>
  \<^bold>\<open>A verification of the local messaging core of the Triangle client.\<close>

  The Triangle client lets agents on one host, and through a hosted service on
  several, send each other messages that survive crashes.  Its core is the
  package \<open>packages/agent-worker\<close>.  A client speaks a framed JSON protocol to a
  local server; the server routes the send, applies the rate limits and admits
  the message to a journal (SQLite); a dispatcher claims queued messages for
  runners, under a concurrency gate, and records their replies; interactive
  sessions list, claim and answer their inbox themselves and are woken when there
  is work; a profile scheduler drives the mailbox of each profile.  What the parts
  promise each other is custody: an accepted message is neither lost nor run
  twice, and a reply belongs to the message it answers.

  \<^bold>\<open>Theories and sources\<close> (paths under \<open>packages/agent-worker/src\<close>).

  \<^item> \<open>Prelude\<close>: results, transactions (roll back on error), regular expression
    classes, tables as lists of rows.  \<open>Json\<close>: JSON values, \<open>JSON.stringify\<close> and
    the journal's \<open>canonicalJson\<close>.  \<open>Identity_Primitives\<close>:
    \<open>identity-primitives.mjs\<close> and the platform functions.  \<open>Simulation\<close>: generic
    facts on runs and refinement.
  \<^item> \<open>Reply_Route\<close>: \<open>local-reply-route-contract.mjs\<close>, \<open>local-reply-route-store.mjs\<close>.
  \<^item> \<open>Journal_State\<close>, \<open>Journal_Messages\<close>, \<open>Journal_Reconcile\<close>, \<open>Journal_Inbox\<close>,
    \<open>Journal_Wake\<close>, \<open>Journal_Discovery\<close>: the tables and operations of
    \<open>local-messaging-journal.mjs\<close>, one definition per exported function, with the
    body of each SQL transaction as a definition of its own (suffix \<open>_tx\<close>).
  \<^item> \<open>Journal_Custody\<close>: an abstract specification of custody (messages with
    phases, replies), the locale of its clients, and the proof that every call of
    the journal is one of its steps.  \<open>Journal_Admission\<close>, \<open>Journal_Execution\<close>,
    \<open>Journal_Frames\<close>, \<open>Journal_Reconciliation\<close>, \<open>Journal_Delivery\<close>,
    \<open>Journal_Window\<close>, \<open>Journal_Sessions\<close>: what the operations of each group
    guarantee.
  \<^item> \<open>Concurrency_Gate\<close>: \<open>concurrency-gate.mjs\<close>.  \<open>Sliding_Window\<close> and
    \<open>Rate_Limiter\<close>: \<open>local-messaging-rate-limiter.mjs\<close>; the locale of a sliding
    window is interpreted by the sender limiter, the pair limiter and the
    journal's durable exchange limit.
  \<^item> \<open>Dispatcher\<close>: \<open>local-messaging-dispatcher.mjs\<close> against the locale
    \<open>runner_journal\<close>, what it needs of a journal; \<open>Journal_Dispatch\<close>: the
    interpretation on the modelled journal and the guarantees of the composition.
  \<^item> \<open>Protocol\<close>: \<open>local-messaging-protocol.mjs\<close>, framing, the incremental parser
    and the bounded listing of replies.
  \<^item> \<open>Registry_Snapshot\<close>, \<open>Recipient_Resolver\<close>, \<open>Unified_Router\<close>:
    \<open>router-registry-snapshot.mjs\<close>, \<open>recipient-resolver.mjs\<close>,
    \<open>unified-router.mjs\<close> and \<open>localState\<close> of \<open>transport-adapter-contract.mjs\<close>;
    \<open>Router_Guarantees\<close>: the contract of a snapshot source, its interpretation by
    the caching provider, and what the router guarantees over it.
  \<^item> \<open>Profile_Scheduler\<close>: \<open>profile-scheduler.mjs\<close>, the scheduler and the mailbox
    harness.  \<open>Wake_Client\<close>: \<open>wake-client.mjs\<close> and its wiring to the scheduler
    (\<open>createWakeRuntime\<close>).
  \<^item> \<open>Base64url\<close> and \<open>Credentials\<close>: \<open>local-messaging-credentials.mjs\<close>, the issuer and
    the validator of turn credentials.  \<open>Server_Types\<close>, \<open>Server_Requests\<close>,
    \<open>Control_Server\<close>: \<open>local-messaging-acl.mjs\<close> and \<open>local-messaging-server.mjs\<close>, the
    request handlers over the modelled journal, limiter, loop tracker and router,
    and the requests in flight on the connections.  \<open>Journal_Rows\<close>: only a send adds a
    message to the journal.  \<open>Server_Guarantees\<close>: what the server guarantees.
  \<^item> \<open>Json_Parse\<close>: \<open>JSON.parse\<close>, with its inverse on what \<open>JSON.stringify\<close> writes.
    \<open>Identity_Registry\<close>: \<open>identity-registry.mjs\<close>, validation, the audit log with its
    chain of hashes, reading and updating.  \<open>Registry_Files\<close>: reading inverts writing,
    also for a log with a torn last line.  \<open>Registry_Runs\<close>: updates as steps on the two
    files, cut off anywhere, and their invariant.  \<open>Registry_Identities\<close> and
    \<open>Registry_Guarantees\<close>: what readers, writers and the resolver can rely on.
  \<^item> \<open>Notifier\<close>: \<open>local-messaging-notifier.mjs\<close> over the modelled journal;
    \<open>Notifier_Guarantees\<close>: its runs with a journal that others use too.

  \<^bold>\<open>How code becomes definitions.\<close>  Tables, maps and records are lists of rows,
  association lists and HOL records; an operation takes the state and returns a
  result, \<^const>\<open>Inl\<close> for an exception with its code, and the new state.  Calls of
  \<open>Date.now\<close> and of random identifiers are arguments.  Asynchronous code is cut
  at its awaits: each synchronous section is one operation, a state records at
  which await every activity stands, and the properties quantify over all
  interleavings of these operations with the events of the outside (runs of the
  step relations of the gate, the dispatcher, the scheduler, the wake client, the
  control server, the registry and the notifier).

  \<^bold>\<open>Parameters.\<close>  Code outside the repository is an argument: \<open>sha256\<close> and the
  URL parser (record \<open>node_env\<close>), \<open>JSON.parse\<close> and the handler of a message in the
  parser, the runner, the gate and harness of the scheduler, the
  transport of the wake client, the adapter of the notifier, the registry reader, the keyed hash of the
  credentials, the answers of the server's brokers (record \<open>answers\<close>),
  \<open>statRegistry\<close> and \<open>canMessage\<close> of the router.  A property about the hash states
  that the hash does not collide on the two texts compared, nothing more; the one
  about credentials, that a signature that verifies was made by an issuer.

  \<^bold>\<open>Representation.\<close>  Strings are lists of bytes, the UTF-8 form of the source's
  strings; where the source cuts strings by UTF-16 code units
  (\<open>truncateReplyToFit\<close>) the model has 16 bit words.  Numbers are integers: the
  sources check \<open>Number.isSafeInteger\<close>, and the length prefix of a frame is
  written byte by byte with its bound.  The jitter of the scheduler is an exact
  rational where the source has a double.  The base64 wrapping of inbox cursors
  and the presentation fields derived in the owner's view are left out, and so is
  a branch of the reconciliation that a single connection cannot reach.

  \<^bold>\<open>Bounds.\<close>  The loops of the source are recursions with a termination proof.  One
  definition takes fuel, the paging of the inbox (\<open>collect_inbox\<close>), which is a client
  of the code and not code: its theorem shows that as many pages as there are
  messages, and one more, are enough.

  \<^bold>\<open>What the theorems show.\<close>  Custody: refinement, uniqueness and correlation
  of rows, at most one claim per message, no loss.  Admission: idempotent sends,
  one envelope per id, the exchange limit across restarts.  Execution: atomic and
  idempotent completion, recovery, safe compaction.  Delivery: complete paging,
  exclusive and repeatable claims, replies only under the claim.  Reconciliation:
  exact precheck, one record closed, idempotence, the offered actions.  Wakes and
  sessions: one outstanding wake, wakes only when due, quiet after
  acknowledgement, a bounded directory with monotone generations.  Gates and
  limits: bounded concurrency in order of arrival, one place per profile, windows
  and loop depth.  Dispatcher: bounds, no forgotten job, at most one run of a
  message in the composition with the journal, and an orderly stop.  Protocol:
  round trip under any chunking, a bounded buffer, listings that fit.  Routing:
  the resolver equals a direct reading of the registry, snapshots are fresh, sends
  by principal reach the sole local binding, ambiguity reveals only what is
  permitted, decorations hide the journal's columns, counters are exact.
  Scheduler: one run per profile, no wake lost, and watermarks reconciled only on
  an empty mailbox.  Wake client: the stored cursor never passes a wake that was not
  handed on, and a start looks at every profile again.  Credentials: accepted are
  exactly the issued ones that have not expired.  Server: messages are admitted
  only as their authenticated sender and as permitted, answers show only the
  caller's own rows, connections stay within their limits, every request is
  answered once, and what becomes of the rate reservation of a refused send.
  Identity registry: a crash at any byte loses no commit and blocks no later update,
  racing readers see committed registries, updates compare and set, identities never
  move, the log is tamper evident, and committed registries resolve uniquely.
  Notifier: one wake at a time, recorded before it is sent and never left in doubt,
  sent exactly when it is due, and none after a stop.

  \<^bold>\<open>Not modelled.\<close>  Of the identity registry, the owners, modes and links of its
  files, its lock, and what a file system loses with the power; the mailbox client,
  the agent runtimes and the peer drain service; of the server, the exchange limiter for
  journals without a durable one and the file of the router's configuration; the
  brokers of credentials; SQLite itself, the schema migrations and the file system; sockets,
  processes and command lines; the gateway and the user interfaces; the Swift and
  Rust programs.
\<close>

end
